(* ===== verification/CloudPrelude.thy ===== *)
theory CloudPrelude
  imports Complex_Main "HOL-Library.Sublist"
begin

text \<open>
  Shared vocabulary of the development: Go's times and durations, the string routines of
  the standard library the packages call, JSON documents as stored entries, and the storage
  interface of the plugin SDK. The SDK is not part of the repository, so its storage is a
  parameter: a record of operations over a world \<open>'w\<close> that holds whatever the operations
  may change (the stored entries and the upstream cloud). What the packages rely on is the
  locale \<open>kv_store\<close>; the fault-injecting wrapper \<open>pkg/plugintest/faultstorage.go\<close> is shown
  to keep that contract, and a map-backed store instantiates it for concrete runs.
\<close>

section \<open>Times and durations\<close>

text \<open>
  A time is its distance in nanoseconds from Go's zero time (\<open>time.Time{}\<close>), so
  \<open>IsZero\<close> is equality with 0; a duration is a number of nanoseconds. Both are unbounded
  here; the one place where the width of a duration matters (\<open>ParseRetryAfter\<close>) writes the
  64-bit wrap-around out.
\<close>

type_synonym time = int
type_synonym duration = int

abbreviation (input) zero_time :: time where "zero_time \<equiv> 0"

definition second :: duration where "second = 1000000000"
definition minute :: duration where "minute = 60 * second"
definition hour :: duration where "hour = 60 * minute"

lemmas duration_defs = second_def minute_def hour_def

definition IsZero :: "time \<Rightarrow> bool" where
  "IsZero t \<longleftrightarrow> t = zero_time"

lemma IsZero_simp [simp]: "IsZero t \<longleftrightarrow> t = 0"
  by (simp add: IsZero_def)

text \<open>Go's integer division of durations truncates towards zero.\<close>

definition go_div :: "int \<Rightarrow> int \<Rightarrow> int" where
  "go_div a b = sgn a * sgn b * (\<bar>a\<bar> div \<bar>b\<bar>)"

lemma go_div_pos [simp]: "0 \<le> a \<Longrightarrow> 0 < b \<Longrightarrow> go_div a b = a div b"
  by (cases "a = 0") (auto simp: go_div_def)

text \<open>Two's complement wrap-around of a 64-bit signed integer.\<close>

definition wrap64 :: "int \<Rightarrow> int" where
  "wrap64 x = (x + 2 ^ 63) mod 2 ^ 64 - 2 ^ 63"

lemma wrap64_id: "- (2 ^ 63) \<le> x \<Longrightarrow> x < 2 ^ 63 \<Longrightarrow> wrap64 x = x"
  by (simp add: wrap64_def)

text \<open>Rendering a time with \<open>time.RFC3339\<close> keeps whole seconds only.\<close>

definition rfc3339 :: "time \<Rightarrow> time" where
  "rfc3339 t = t - t mod second"

lemma rfc3339_le: "rfc3339 t \<le> t"
  by (simp add: rfc3339_def second_def)

lemma rfc3339_gt: "t - second < rfc3339 t"
  by (simp add: rfc3339_def second_def)

lemma rfc3339_idem [simp]: "rfc3339 (rfc3339 t) = rfc3339 t"
  by (simp add: rfc3339_def second_def)

section \<open>Strings\<close>

text \<open>Strings are byte strings, as Go's are. \<open>strings.HasPrefix\<close> is \<^const>\<open>prefix\<close>.\<close>

fun Cut :: "string \<Rightarrow> string \<Rightarrow> (string \<times> string) option" where
  "Cut [] sep = (if sep = [] then Some ([], []) else None)"
| "Cut (c # cs) sep =
     (if prefix sep (c # cs) then Some ([], drop (length sep) (c # cs))
      else map_option (\<lambda>(a, b). (c # a, b)) (Cut cs sep))"

text \<open>A separator of two characters that the left part cannot start is found at once.\<close>

lemma Cut_append:
  assumes "s \<noteq> []" and "hd s \<notin> set a"
  shows "Cut (a @ s @ b) s = Some (a, b)"
  using assms
proof (induction a)
  case Nil
  then obtain c cs where s: "s = c # cs" by (cases s) auto
  then show ?case by simp
next
  case (Cons x a)
  then have "\<not> prefix s ((x # a) @ s @ b)" by (cases s) auto
  with Cons show ?case by simp
qed

lemma Cut_decompose: "Cut s sep = Some (a, b) \<Longrightarrow> s = a @ sep @ b"
proof (induction s sep arbitrary: a b rule: Cut.induct)
  case (1 sep)
  then show ?case by (auto split: if_splits)
next
  case (2 c cs sep)
  then show ?case by (fastforce split: if_splits simp: prefix_def)
qed

definition HasSuffix :: "string \<Rightarrow> string \<Rightarrow> bool" where
  "HasSuffix s suf = suffix suf s"

text \<open>ASCII white space, which is what \<open>strings.TrimSpace\<close> removes from an ASCII string.\<close>

definition is_space :: "char \<Rightarrow> bool" where
  "is_space c \<longleftrightarrow> of_char c \<in> {9, 10, 11, 12, 13, 32 :: nat}"

definition TrimSpace :: "string \<Rightarrow> string" where
  "TrimSpace s = rev (dropWhile is_space (rev (dropWhile is_space s)))"

lemma dropWhile_none: "\<forall>x \<in> set xs. \<not> P x \<Longrightarrow> dropWhile P xs = xs"
  by (cases xs) auto

lemma TrimSpace_id: "\<forall>c \<in> set s. \<not> is_space c \<Longrightarrow> TrimSpace s = s"
  by (simp add: TrimSpace_def dropWhile_none)

subsection \<open>Decimal integers: \<open>strconv\<close>\<close>

definition digit_char :: "nat \<Rightarrow> char" where
  "digit_char d = char_of (48 + d)"

definition char_digit :: "char \<Rightarrow> nat option" where
  "char_digit c = (let k = of_char c :: nat in if 48 \<le> k \<and> k \<le> 57 then Some (k - 48) else None)"

lemma char_digit_digit_char [simp]: "d < 10 \<Longrightarrow> char_digit (digit_char d) = Some d"
  by (simp add: char_digit_def digit_char_def Let_def)

fun nat_digits :: "nat \<Rightarrow> string" where
  "nat_digits n = (if n < 10 then [digit_char n] else nat_digits (n div 10) @ [digit_char (n mod 10)])"

declare nat_digits.simps [simp del]

definition Itoa :: "int \<Rightarrow> string" where
  "Itoa i = (if i < 0 then CHR ''-'' # nat_digits (nat (- i)) else nat_digits (nat i))"

fun digits_value :: "nat \<Rightarrow> string \<Rightarrow> nat option" where
  "digits_value acc [] = Some acc"
| "digits_value acc (c # cs) =
     (case char_digit c of None \<Rightarrow> None | Some d \<Rightarrow> digits_value (10 * acc + d) cs)"

text \<open>
  \<open>strconv.ParseInt(s, 10, 64)\<close> (and \<open>strconv.Atoi\<close>): an optional sign, at least one
  digit, nothing else, and a value that fits in 64 bits.
\<close>

definition ParseInt :: "string \<Rightarrow> int option" where
  "ParseInt s =
     (let (neg, ds) = (case s of
            [] \<Rightarrow> (False, [])
          | c # cs \<Rightarrow> if c = CHR ''-'' then (True, cs)
                       else if c = CHR ''+'' then (False, cs) else (False, c # cs))
      in if ds = [] then None
         else case digits_value 0 ds of
           None \<Rightarrow> None
         | Some n \<Rightarrow> (let i = (if neg then - int n else int n)
                     in if - (2 ^ 63) \<le> i \<and> i < 2 ^ 63 then Some i else None))"

lemma digits_value_append:
  "digits_value acc (xs @ ys) = (case digits_value acc xs of None \<Rightarrow> None | Some a \<Rightarrow> digits_value a ys)"
  by (induction xs arbitrary: acc) (auto split: option.splits)

lemma nat_digits_value: "digits_value 0 (nat_digits n) = Some n"
proof (induction n rule: nat_digits.induct)
  case (1 n)
  show ?case
  proof (cases "n < 10")
    case True
    then show ?thesis by (simp add: nat_digits.simps [of n])
  next
    case False
    with "1" show ?thesis
      by (simp add: nat_digits.simps [of n] digits_value_append)
  qed
qed

lemma nat_digits_nonempty [simp]: "nat_digits n \<noteq> []"
  by (subst nat_digits.simps) simp

lemma nat_digits_set: "c \<in> set (nat_digits n) \<Longrightarrow> \<exists>d < 10. c = digit_char d"
proof (induction n rule: nat_digits.induct)
  case (1 n)
  show ?case
  proof (cases "n < 10")
    case True
    with "1.prems" show ?thesis by (auto simp: nat_digits.simps [of n])
  next
    case False
    from "1.prems" False consider "c \<in> set (nat_digits (n div 10))" | "c = digit_char (n mod 10)"
      by (auto simp: nat_digits.simps [of n])
    then show ?thesis
    proof cases
      case 1
      then show ?thesis using "1.IH" False by simp
    next
      case 2
      then show ?thesis by (intro exI [of _ "n mod 10"]) simp
    qed
  qed
qed

lemma of_char_digit_char [simp]: "d < 10 \<Longrightarrow> (of_char (digit_char d) :: nat) = 48 + d"
  by (simp add: digit_char_def)

lemma digit_char_not_sign:
  assumes "d < 10"
  shows "digit_char d \<noteq> CHR ''-''" "digit_char d \<noteq> CHR ''+''"
    "digit_char d \<noteq> CHR ''|''" "\<not> is_space (digit_char d)"
proof -
  have k: "(of_char (digit_char d) :: nat) = 48 + d" using assms by simp
  show "digit_char d \<noteq> CHR ''-''" "digit_char d \<noteq> CHR ''+''" "digit_char d \<noteq> CHR ''|''"
    using k assms by (auto simp del: of_char_digit_char)
  show "\<not> is_space (digit_char d)" using k by (simp add: is_space_def)
qed

lemma nat_digits_clean:
  "CHR ''-'' \<notin> set (nat_digits n)" "CHR ''+'' \<notin> set (nat_digits n)" "CHR ''|'' \<notin> set (nat_digits n)"
  using nat_digits_set digit_char_not_sign by metis+

theorem ParseInt_Itoa:
  assumes "- (2 ^ 63) \<le> i" and "i < 2 ^ 63"
  shows "ParseInt (Itoa i) = Some i"
proof (cases "i < 0")
  case True
  with assms show ?thesis
    by (simp add: ParseInt_def Itoa_def nat_digits_value)
next
  case False
  obtain c cs where c: "nat_digits (nat i) = c # cs"
    by (cases "nat_digits (nat i)") auto
  then have "c \<noteq> CHR ''-''" "c \<noteq> CHR ''+''"
    using nat_digits_clean [of "nat i"] by auto
  with False assms c nat_digits_value [of "nat i"] show ?thesis
    by (simp add: ParseInt_def Itoa_def)
qed

lemma Itoa_no_space: "c \<in> set (Itoa i) \<Longrightarrow> \<not> is_space c"
proof -
  assume "c \<in> set (Itoa i)"
  then consider "c = CHR ''-''" | n where "c \<in> set (nat_digits n)"
    by (auto simp: Itoa_def split: if_splits)
  then show ?thesis
  proof cases
    case 1
    then show ?thesis by (simp add: is_space_def)
  next
    case 2
    then show ?thesis using nat_digits_set digit_char_not_sign(4) by blast
  qed
qed

section \<open>JSON\<close>

text \<open>
  A decoded JSON document. A string that \<open>time.Parse(time.RFC3339, _)\<close> accepts is a \<open>JTime\<close>, any
  other string a \<open>JStr\<close> (the code reads the texts of times only as times); an object keeps its members in order, and \<open>encoding/json\<close> lets the last
  of two members with one name win.
\<close>

datatype json =
    JNull
  | JBool bool
  | JInt int
  | JStr string
  | JTime time
  | JArr "json list"
  | JObj "(string \<times> json) list"

fun field :: "json \<Rightarrow> string \<Rightarrow> json option" where
  "field (JObj kvs) k = map_of (rev kvs) k"
| "field _ k = None"

text \<open>The JSON form of a time that was formatted with \<open>time.RFC3339\<close>.\<close>

definition JTimestamp :: "time \<Rightarrow> json" where
  "JTimestamp t = JTime (rfc3339 t)"

text \<open>
  A stored entry: a document, or bytes that are not one. Code that reads an entry's bytes is given
  the text of a document as an argument.
\<close>

datatype blob = Raw string | Json json

definition bytes :: "(json \<Rightarrow> string) \<Rightarrow> blob \<Rightarrow> string" where
  "bytes marshal b = (case b of Raw s \<Rightarrow> s | Json d \<Rightarrow> marshal d)"

lemma bytes_Raw [simp]: "bytes marshal (Raw s) = s"
  by (simp add: bytes_def)

end
