(* ===== verification/Envelope.thy ===== *)
theory Envelope
  imports CloudPrelude
begin

text \<open>
  \<open>pkg/credenvelope\<close>: the error codes every plugin answers with, the errors the packages pass
  around, and the envelope a credential read returns. An error response is rendered as the code,
  a colon and a message, and \<^term>\<open>CodeOf\<close> is the parse a client performs. The text of the
  human message is not modelled: a handler of the later theories answers with the code alone.
\<close>

section \<open>Error codes\<close>

datatype code =
    ErrRoleNotFound | ErrRoleDisabled | ErrConfigInvalid | ErrUnsupported
  | ErrCredentialKindUnsupported | ErrCallerUnidentified | ErrCallerUnparented
  | ErrUpstreamAuthFailed | ErrUpstreamQuotaExceeded | ErrUpstreamTimeout
  | ErrUpstreamUnavailable | ErrUpstreamRequestInvalid | ErrEntityUnavailable
  | ErrPoolExhausted | ErrLeaseRevokeFailed | ErrInternal

fun code_str :: "code \<Rightarrow> string" where
  "code_str ErrRoleNotFound = ''role_not_found''"
| "code_str ErrRoleDisabled = ''role_disabled''"
| "code_str ErrConfigInvalid = ''config_invalid''"
| "code_str ErrUnsupported = ''unsupported''"
| "code_str ErrCredentialKindUnsupported = ''credential_kind_unsupported''"
| "code_str ErrCallerUnidentified = ''caller_unidentified''"
| "code_str ErrCallerUnparented = ''caller_unparented''"
| "code_str ErrUpstreamAuthFailed = ''upstream_auth_failed''"
| "code_str ErrUpstreamQuotaExceeded = ''upstream_quota_exceeded''"
| "code_str ErrUpstreamTimeout = ''upstream_timeout''"
| "code_str ErrUpstreamUnavailable = ''upstream_unavailable''"
| "code_str ErrUpstreamRequestInvalid = ''upstream_request_invalid''"
| "code_str ErrEntityUnavailable = ''entity_unavailable''"
| "code_str ErrPoolExhausted = ''pool_exhausted''"
| "code_str ErrLeaseRevokeFailed = ''lease_revoke_failed''"
| "code_str ErrInternal = ''internal''"

definition AllCodes :: "code list" where
  "AllCodes =
     [ErrRoleNotFound, ErrRoleDisabled, ErrConfigInvalid, ErrUnsupported,
      ErrCredentialKindUnsupported, ErrCallerUnidentified, ErrCallerUnparented,
      ErrUpstreamAuthFailed, ErrUpstreamQuotaExceeded, ErrUpstreamTimeout,
      ErrUpstreamUnavailable, ErrUpstreamRequestInvalid, ErrEntityUnavailable,
      ErrPoolExhausted, ErrLeaseRevokeFailed, ErrInternal]"

lemma in_AllCodes [simp]: "c \<in> set AllCodes"
  by (cases c) (simp_all add: AllCodes_def)

lemma code_str_inj: "code_str c = code_str d \<longleftrightarrow> c = d"
  by (cases c; cases d) simp_all

definition ErrorResponse :: "code \<Rightarrow> string \<Rightarrow> string" where
  "ErrorResponse c msg = code_str c @ '': '' @ msg"

definition CodeOf :: "string \<Rightarrow> code \<times> bool" where
  "CodeOf message =
     (case Cut message '': '' of
        None \<Rightarrow> (ErrInternal, False)
      | Some (pre, _) \<Rightarrow>
          (case find (\<lambda>c. pre = code_str c) AllCodes of
             Some c \<Rightarrow> (c, True)
           | None \<Rightarrow> (ErrInternal, False)))"

lemma colon_notin_code_str: "CHR '':'' \<notin> set (code_str c)"
  by (cases c) simp_all

lemma find_code [simp]: "find (\<lambda>c. code_str d = code_str c) AllCodes = Some d"
  by (cases d) (simp_all add: AllCodes_def)

lemma CodeOf_ErrorResponse: "CodeOf (ErrorResponse c msg) = (c, True)"
  by (simp add: CodeOf_def ErrorResponse_def
      Cut_append [where s = "'': ''", simplified] colon_notin_code_str)

lemma CodeOf_SomeD:
  assumes "CodeOf m = (c, True)"
  shows "\<exists>msg. m = ErrorResponse c msg"
  using assms
  by (fastforce simp: CodeOf_def ErrorResponse_def find_Some_iff dest: Cut_decompose
      split: option.splits prod.splits)

section \<open>Errors\<close>

text \<open>
  A Go error is a chain of wrapped errors. \<open>errors.As\<close> and \<open>errors.Is\<close> walk the chain from the
  outside; the constructors are the leaves the packages look for. \<open>Net b m\<close> is a \<open>net.Error\<close>
  whose \<open>Timeout()\<close> is \<open>b\<close>; \<open>Sentinel\<close> is a package-level error value, compared by identity.
\<close>

datatype err =
    PluginError "code option" string int
  | DeadlineExceeded
  | Canceled
  | Net bool string
  | Sentinel string
  | Opaque string
  | Wrap string err

primrec leaf :: "err \<Rightarrow> err" where
  "leaf (PluginError c m s) = PluginError c m s"
| "leaf DeadlineExceeded = DeadlineExceeded"
| "leaf Canceled = Canceled"
| "leaf (Net b m) = Net b m"
| "leaf (Sentinel s) = Sentinel s"
| "leaf (Opaque s) = Opaque s"
| "leaf (Wrap p e) = leaf e"

lemma leaf_not_Wrap [simp]: "leaf e \<noteq> Wrap p d"
  by (induction e) auto

primrec Error :: "err \<Rightarrow> string" where
  "Error (PluginError c m s) = (case c of None \<Rightarrow> [] | Some k \<Rightarrow> code_str k) @ '': '' @ m"
| "Error DeadlineExceeded = ''context deadline exceeded''"
| "Error Canceled = ''context canceled''"
| "Error (Net b m) = m"
| "Error (Sentinel s) = s"
| "Error (Opaque s) = s"
| "Error (Wrap p e) = p @ Error e"

definition NewError :: "code \<Rightarrow> int \<Rightarrow> string \<Rightarrow> err" where
  "NewError c status msg = PluginError (Some c) msg status"

definition ClassifyUpstream :: "int \<Rightarrow> code" where
  "ClassifyUpstream st =
     (if st = 429 then ErrUpstreamQuotaExceeded
      else if st = 408 \<or> st = 504 then ErrUpstreamTimeout
      else if st = 401 \<or> st = 403 then ErrUpstreamAuthFailed
      else if st = 404 then ErrEntityUnavailable
      else if st = 400 \<or> st = 422 \<or> st = 409 then ErrUpstreamRequestInvalid
      else if 500 \<le> st then ErrUpstreamUnavailable
      else ErrInternal)"

definition classifyTransport :: "err option \<Rightarrow> code" where
  "classifyTransport e =
     (case e of
        None \<Rightarrow> ErrInternal
      | Some e \<Rightarrow>
          (case leaf e of
             PluginError (Some c) _ _ \<Rightarrow> c
           | DeadlineExceeded \<Rightarrow> ErrUpstreamTimeout
           | Net timeout _ \<Rightarrow> if timeout then ErrUpstreamTimeout else ErrUpstreamUnavailable
           | Canceled \<Rightarrow> ErrUpstreamUnavailable
           | _ \<Rightarrow> ErrInternal))"

definition Classify :: "int \<Rightarrow> err option \<Rightarrow> code" where
  "Classify httpStatus e =
     (if httpStatus \<le> 0 then classifyTransport e else ClassifyUpstream httpStatus)"

abbreviation (input) StatusNone :: int where "StatusNone \<equiv> 0"

fun IndictsMinter :: "code \<Rightarrow> bool" where
  "IndictsMinter ErrUpstreamRequestInvalid = False"
| "IndictsMinter ErrConfigInvalid = False"
| "IndictsMinter ErrRoleNotFound = False"
| "IndictsMinter ErrRoleDisabled = False"
| "IndictsMinter ErrUnsupported = False"
| "IndictsMinter ErrInternal = False"
| "IndictsMinter ErrEntityUnavailable = False"
| "IndictsMinter _ = True"

fun HealthStatus :: "code \<Rightarrow> int" where
  "HealthStatus ErrUpstreamAuthFailed = 403"
| "HealthStatus ErrUpstreamQuotaExceeded = 429"
| "HealthStatus ErrUpstreamTimeout = 504"
| "HealthStatus _ = 503"

definition ResponseFor :: "err option \<Rightarrow> string" where
  "ResponseFor e =
     (case e of
        None \<Rightarrow> ErrorResponse ErrInternal ''no error''
      | Some e \<Rightarrow>
          (case leaf e of
             PluginError c m _ \<Rightarrow> (case c of None \<Rightarrow> '': '' @ m | Some k \<Rightarrow> ErrorResponse k m)
           | _ \<Rightarrow> ErrorResponse ErrInternal (Error e)))"

definition OpaqueCredentialID :: "string option \<Rightarrow> string \<Rightarrow> string" where
  "OpaqueCredentialID random requestID =
     (if requestID \<noteq> [] then requestID
      else case random of None \<Rightarrow> ''unidentified-credential'' | Some hex \<Rightarrow> hex)"

text \<open>
  The recovery machine is fed a status for a code. The status classifies back to the code for
  the three codes the machine and its log tell apart, and to nothing that indicts the minter
  differently for the rest.
\<close>

lemma HealthStatus_roundtrip:
  "ClassifyUpstream (HealthStatus c) =
     (if c \<in> {ErrUpstreamAuthFailed, ErrUpstreamQuotaExceeded, ErrUpstreamTimeout} then c
      else ErrUpstreamUnavailable)"
  by (cases c) (simp_all add: ClassifyUpstream_def)

lemma Classify_wrapped [simp]: "classifyTransport (Some (Wrap p e)) = classifyTransport (Some e)"
  by (simp add: classifyTransport_def)

section \<open>Envelope\<close>

datatype credential_kind =
    KindSigV4Session | KindOAuth2Bearer | KindBasicAuth | KindBearerToken | KindScopedToken
  | KindKeySecret | KindAzureClientSecret | KindEdgeGrid | KindOCIAuthToken | KindS3Credentials

fun kind_str :: "credential_kind \<Rightarrow> string" where
  "kind_str KindSigV4Session = ''sigv4_session''"
| "kind_str KindOAuth2Bearer = ''oauth2_bearer''"
| "kind_str KindBasicAuth = ''basic_auth''"
| "kind_str KindBearerToken = ''bearer_token''"
| "kind_str KindScopedToken = ''scoped_token''"
| "kind_str KindKeySecret = ''key_secret''"
| "kind_str KindAzureClientSecret = ''azure_client_secret''"
| "kind_str KindEdgeGrid = ''edgegrid''"
| "kind_str KindOCIAuthToken = ''oci_auth_token''"
| "kind_str KindS3Credentials = ''s3_credentials''"

definition AllCredentialKinds :: "credential_kind list" where
  "AllCredentialKinds =
     [KindSigV4Session, KindOAuth2Bearer, KindBasicAuth, KindBearerToken,
      KindScopedToken, KindKeySecret, KindAzureClientSecret, KindEdgeGrid,
      KindOCIAuthToken, KindS3Credentials]"

definition ValidCredentialKind :: "string \<Rightarrow> bool" where
  "ValidCredentialKind k = (k \<in> set (map kind_str AllCredentialKinds))"

text \<open>Both refusals carry the same code; they differ in the message only.\<close>

definition RequireCredentialKind :: "string \<Rightarrow> credential_kind \<Rightarrow> code option" where
  "RequireCredentialKind requested served =
     (if requested = [] \<or> requested = kind_str served then None
      else if \<not> ValidCredentialKind requested then Some ErrCredentialKindUnsupported
      else Some ErrCredentialKindUnsupported)"

lemma kind_str_inj: "kind_str k = kind_str l \<longleftrightarrow> k = l"
  by (cases k; cases l) simp_all

lemma ValidCredentialKind_kind_str [simp]: "ValidCredentialKind (kind_str k)"
  by (cases k) (simp_all add: ValidCredentialKind_def AllCredentialKinds_def)

lemma RequireCredentialKind_None:
  "RequireCredentialKind requested served = None \<longleftrightarrow> requested = [] \<or> requested = kind_str served"
  by (simp add: RequireCredentialKind_def)

datatype scope_kind =
    ScopeKindScopes | ScopeKindACL | ScopeKindRole | ScopeKindIdentity | ScopeKindAccount
  | ScopeKindGrants

fun scope_str :: "scope_kind \<Rightarrow> string" where
  "scope_str ScopeKindScopes = ''scopes''"
| "scope_str ScopeKindACL = ''acl''"
| "scope_str ScopeKindRole = ''role''"
| "scope_str ScopeKindIdentity = ''identity''"
| "scope_str ScopeKindAccount = ''account''"
| "scope_str ScopeKindGrants = ''grants''"

definition AllScopeKinds :: "scope_kind list" where
  "AllScopeKinds =
     [ScopeKindScopes, ScopeKindACL, ScopeKindRole, ScopeKindIdentity, ScopeKindAccount,
      ScopeKindGrants]"

definition ValidScopeKind :: "string \<Rightarrow> bool" where
  "ValidScopeKind k = (k \<in> set (map scope_str AllScopeKinds))"

record metadata =
  Scope :: string
  ScopeKind :: scope_kind
  CredentialKind :: credential_kind
  IssuedBy :: string
  APIVersion :: string
  MinterSet :: string
  MinterID :: string

record envelope =
  Cloud :: string
  Role :: string
  Credential :: "(string \<times> json) list"
  ExpiresAt :: time
  TTLSeconds :: int
  Renewable :: bool
  CredentialID :: string
  Metadata :: metadata

record envelope_params =
  pCloud :: string
  pRole :: string
  pCredential :: "(string \<times> json) list"
  pExpiresAt :: time
  pTTLSeconds :: int
  pRenewable :: bool
  pCredentialID :: string
  pScope :: string
  pScopeKind :: scope_kind
  pCredentialKind :: credential_kind
  pIssuedBy :: string
  pMinterSet :: string
  pMinterID :: string

definition NewEnvelope :: "envelope_params \<Rightarrow> envelope" where
  "NewEnvelope p =
     \<lparr> Cloud = pCloud p, Role = pRole p, Credential = pCredential p, ExpiresAt = pExpiresAt p,
       TTLSeconds = pTTLSeconds p, Renewable = pRenewable p, CredentialID = pCredentialID p,
       Metadata =
         \<lparr> Scope = pScope p, ScopeKind = pScopeKind p, CredentialKind = pCredentialKind p,
           IssuedBy = pIssuedBy p, APIVersion = ''4'', MinterSet = pMinterSet p,
           MinterID = pMinterID p \<rparr> \<rparr>"

definition ToMap :: "envelope \<Rightarrow> json" where
  "ToMap e =
     JObj
      [(''cloud'', JStr (Cloud e)),
       (''role'', JStr (Role e)),
       (''credential'', JObj (Credential e)),
       (''expires_at'', JTimestamp (ExpiresAt e)),
       (''ttl_seconds'', JInt (TTLSeconds e)),
       (''renewable'', JBool (Renewable e)),
       (''credential_id'', JStr (CredentialID e)),
       (''metadata'', JObj
         [(''scope'', JStr (Scope (Metadata e))),
          (''scope_kind'', JStr (scope_str (ScopeKind (Metadata e)))),
          (''credential_kind'', JStr (kind_str (CredentialKind (Metadata e)))),
          (''issued_by'', JStr (IssuedBy (Metadata e))),
          (''api_version'', JStr (APIVersion (Metadata e))),
          (''minter_set'', JStr (MinterSet (Metadata e))),
          (''minter_id'', JStr (MinterID (Metadata e)))])]"

text \<open>What a client reads back names its kind, and an expiry that is never later than the real one.\<close>

definition read_kind :: "json \<Rightarrow> json option" where
  "read_kind d = Option.bind (field d ''metadata'') (\<lambda>m. field m ''credential_kind'')"

lemma ToMap_kind: "read_kind (ToMap (NewEnvelope p)) = Some (JStr (kind_str (pCredentialKind p)))"
  by (simp add: read_kind_def ToMap_def NewEnvelope_def)

lemma ToMap_expiry:
  "\<exists>t. field (ToMap e) ''expires_at'' = Some (JTime t) \<and> t \<le> ExpiresAt e \<and> ExpiresAt e < t + second"
  using rfc3339_le [of "ExpiresAt e"] rfc3339_gt [of "ExpiresAt e"]
  by (auto simp: ToMap_def JTimestamp_def)

end
