(* ===== verification/Storage.thy ===== *)
theory Storage
  imports Envelope "HOL-Library.List_Lexorder" "HOL-Library.Char_ord" "HOL-Library.AList"
begin

text \<open>
  The storage interface of the plugin SDK, which is not part of the repository: a record of
  operations over a world \<open>'w\<close>. The locale \<open>kv_store\<close> states what the packages rely on, over the
  entries a world holds: a read that succeeds tells the truth, a write that succeeds has happened,
  a write that fails may or may not have, and a listing names what is below a prefix, sorted.
  \<open>pkg/plugintest/faultstorage.go\<close>, the wrapper that injects faults, keeps the contract of
  whatever it wraps; \<open>mem_kv\<close> is a store on an association list, for concrete runs.
\<close>

section \<open>The interface\<close>

record 'w kv =
  kget :: "'w \<Rightarrow> string \<Rightarrow> err + blob option"
  kput :: "'w \<Rightarrow> string \<Rightarrow> blob \<Rightarrow> 'w \<times> err option"
  kdel :: "'w \<Rightarrow> string \<Rightarrow> 'w \<times> err option"
  klist :: "'w \<Rightarrow> string \<Rightarrow> err + string list"
  kpage :: "'w \<Rightarrow> string \<Rightarrow> string \<Rightarrow> nat \<Rightarrow> err + string list"

text \<open>A listing answers with the next segment of each key below the prefix, folders with a slash.\<close>

definition segment :: "string \<Rightarrow> string" where
  "segment k = (case Cut k ''/'' of None \<Rightarrow> k | Some (a, _) \<Rightarrow> a @ ''/'')"

lemma Cut_slash_left: "Cut k ''/'' = Some (a, b) \<Longrightarrow> CHR ''/'' \<notin> set a"
  by (induction k "''/''" arbitrary: a b rule: Cut.induct) (auto split: if_splits)

lemma Cut_slash_end: "CHR ''/'' \<notin> set a \<Longrightarrow> Cut (a @ ''/'') ''/'' = Some (a, [])"
  using Cut_append [of "''/''" a "[]"] by simp

lemma segment_idem [simp]: "segment (segment k) = segment k"
proof (cases "Cut k ''/''")
  case None
  then show ?thesis by (simp add: segment_def)
next
  case (Some p)
  obtain a b where p: "p = (a, b)" by force
  with Some have "CHR ''/'' \<notin> set a" using Cut_slash_left by blast
  then show ?thesis using Some p Cut_slash_end by (simp add: segment_def)
qed

lemma segment_Nil [simp]: "segment k = [] \<longleftrightarrow> k = []"
  using Cut_decompose [of k "''/''"] by (auto simp: segment_def split: option.splits)

definition children :: "(string \<Rightarrow> blob option) \<Rightarrow> string \<Rightarrow> string set" where
  "children m p = {segment k |k. k \<noteq> [] \<and> m (p @ k) \<noteq> None}"

definition lists :: "string set \<Rightarrow> string list \<Rightarrow> bool" where
  "lists S ks \<longleftrightarrow> sorted ks \<and> distinct ks \<and> set ks = S"

locale kv_store =
  fixes kv :: "'w kv" and view :: "'w \<Rightarrow> string \<Rightarrow> blob option"
  assumes get_view: "kget kv w k = Inr r \<Longrightarrow> r = view w k"
    and put_ok: "kput kv w k b = (w', None) \<Longrightarrow> view w' = (view w)(k \<mapsto> b)"
    and put_err: "kput kv w k b = (w', Some e) \<Longrightarrow> view w' = view w \<or> view w' = (view w)(k \<mapsto> b)"
    and del_ok: "kdel kv w k = (w', None) \<Longrightarrow> view w' = (view w)(k := None)"
    and del_err: "kdel kv w k = (w', Some e) \<Longrightarrow> view w' = view w \<or> view w' = (view w)(k := None)"
    and list_view: "klist kv w p = Inr ks \<Longrightarrow> lists (children (view w) p) ks"
    and page_view: "kpage kv w p after n = Inr ks \<Longrightarrow>
      \<exists>all. lists (children (view w) p) all \<and> ks = take n (filter (\<lambda>k. after < k) all)"
begin

lemma put_frame: "kput kv w k b = (w', r) \<Longrightarrow> k' \<noteq> k \<Longrightarrow> view w' k' = view w k'"
  using put_ok [of w k b w'] put_err [of w k b w'] by (cases r) auto

lemma put_adds: "kput kv w k b = (w', r) \<Longrightarrow> view w' k' \<noteq> view w k' \<Longrightarrow> view w' k' \<noteq> None"
  using put_ok [of w k b w'] put_err [of w k b w'] by (cases r) (auto split: if_splits)

lemma del_frame: "kdel kv w k = (w', r) \<Longrightarrow> k' \<noteq> k \<Longrightarrow> view w' k' = view w k'"
  using del_ok [of w k w'] del_err [of w k w'] by (cases r) auto

lemma del_sub: "kdel kv w k = (w', r) \<Longrightarrow> view w' k' = Some b \<Longrightarrow> view w k' = Some b"
  using del_ok [of w k w'] del_err [of w k w'] by (cases r) (auto split: if_splits)

lemma put_then_get:
  "kput kv w k b = (w', None) \<Longrightarrow> kget kv w' k = Inr r \<Longrightarrow> r = Some b"
  using put_ok get_view by fastforce

lemma del_then_get: "kdel kv w k = (w', None) \<Longrightarrow> kget kv w' k = Inr r \<Longrightarrow> r = None"
  using del_ok get_view by fastforce

end

section \<open>The fault-injecting wrapper\<close>

definition ErrInjectedStorage :: err where
  "ErrInjectedStorage = Sentinel ''injected storage failure''"

definition FailingStorage :: "bool \<Rightarrow> bool \<Rightarrow> 'w kv \<Rightarrow> 'w kv" where
  "FailingStorage FailReads FailWrites kv =
     kv \<lparr> kget := (\<lambda>w k. if FailReads then Inl ErrInjectedStorage else kget kv w k),
          klist := (\<lambda>w p. if FailReads then Inl ErrInjectedStorage else klist kv w p),
          kput := (\<lambda>w k b. if FailWrites then (w, Some ErrInjectedStorage) else kput kv w k b),
          kdel := (\<lambda>w k. if FailWrites then (w, Some ErrInjectedStorage) else kdel kv w k) \<rparr>"

lemma FailingStorage_kv_store:
  assumes "kv_store kv view"
  shows "kv_store (FailingStorage r wr kv) view"
proof
  show "\<exists>all. lists (children (view w) p) all \<and> ks = take n (filter (\<lambda>k. after < k) all)"
    if "kpage (FailingStorage r wr kv) w p after n = Inr ks" for w p after n ks
    using that kv_store.page_view [OF assms] by (simp add: FailingStorage_def)
qed (use assms in \<open>auto simp: FailingStorage_def kv_store_def split: if_splits\<close>)

section \<open>A store on an association list\<close>

type_synonym 'u mem = "(string \<times> blob) list \<times> 'u"

definition mem_view :: "'u mem \<Rightarrow> string \<Rightarrow> blob option" where
  "mem_view w = map_of (fst w)"

definition mem_children :: "(string \<times> blob) list \<Rightarrow> string \<Rightarrow> string list" where
  "mem_children es p =
     sort (remdups (map (\<lambda>(k, _). segment (drop (length p) k))
       (filter (\<lambda>(k, _). prefix p k \<and> k \<noteq> p) es)))"

definition mem_kv :: "'u mem kv" where
  "mem_kv =
     \<lparr> kget = (\<lambda>(es, u) k. Inr (map_of es k)),
       kput = (\<lambda>(es, u) k b. ((AList.update k b es, u), None)),
       kdel = (\<lambda>(es, u) k. ((AList.delete k es, u), None)),
       klist = (\<lambda>(es, u) p. Inr (mem_children es p)),
       kpage = (\<lambda>(es, u) p after n. Inr (take n (filter (\<lambda>k. after < k) (mem_children es p)))) \<rparr>"

lemma mem_children_lists: "lists (children (map_of es) p) (mem_children es p)"
proof -
  have "children (map_of es) p =
      (\<lambda>(k, _). segment (drop (length p) k)) ` {x \<in> set es. prefix p (fst x) \<and> fst x \<noteq> p}"
    (is "?l = ?r")
  proof
    show "?l \<subseteq> ?r"
    proof
      fix s assume "s \<in> ?l"
      then obtain k b where "k \<noteq> []" "s = segment k" "map_of es (p @ k) = Some b"
        by (auto simp: children_def)
      then have "(p @ k, b) \<in> set es" by (simp add: map_of_SomeD)
      with \<open>k \<noteq> []\<close> \<open>s = segment k\<close> show "s \<in> ?r"
        by (intro image_eqI [where x = "(p @ k, b)"]) auto
    qed
    show "?r \<subseteq> ?l"
    proof
      fix s assume "s \<in> ?r"
      then obtain x b where x: "(x, b) \<in> set es" "prefix p x" "x \<noteq> p" "s = segment (drop (length p) x)"
        by auto
      then obtain k where k: "x = p @ k" by (auto simp: prefix_def)
      then have "map_of es (p @ k) \<noteq> None" using x(1) by (simp add: map_of_eq_None_iff) force
      moreover have "s = segment k" "k \<noteq> []" using x k by auto
      ultimately show "s \<in> ?l" unfolding children_def by blast
    qed
  qed
  then show ?thesis by (auto simp: lists_def mem_children_def)
qed

interpretation mem: kv_store mem_kv mem_view
proof
  show "\<exists>all. lists (children (mem_view w) p) all \<and> ks = take n (filter (\<lambda>k. after < k) all)"
    if "kpage mem_kv w p after n = Inr ks" for w :: "'u mem" and p after n ks
    using that mem_children_lists [of "fst w" p]
    by (cases w) (auto simp: mem_kv_def mem_view_def)
qed (auto simp: mem_kv_def mem_view_def mem_children_lists update_conv' delete_conv')

interpretation failing_mem: kv_store "FailingStorage r wr mem_kv" mem_view for r wr
  by (rule FailingStorage_kv_store) (rule mem.kv_store_axioms)

end
