(* ===== verification/Affinity.thy ===== *)
theory Affinity
  imports Storage "HOL-Library.Multiset"
begin

text \<open>
  \<open>pkg/minteraffinity\<close>: which minter of a set a caller prefers. Rendezvous hashing gives every
  (key, minter) pair a weight and a caller its minters in descending weight. SHA-256 is an
  argument, since nothing here depends on which function it is; so are the draws of the shuffle
  that stands in for an order when a caller has no key.
\<close>

section \<open>Keys\<close>

definition Key :: "string \<Rightarrow> string \<Rightarrow> string \<Rightarrow> string" where
  "Key explicit clientTokenAccessor entityID =
     (if explicit \<noteq> [] then explicit
      else if clientTokenAccessor \<noteq> [] then clientTokenAccessor
      else entityID)"

record identity =
  ClientTokenAccessor :: string
  EntityID :: string

text \<open>The request, and the value of the \<open>shard_key\<close> field where the path declares it.\<close>

definition KeyFromRequest :: "identity option \<Rightarrow> json option \<Rightarrow> string" where
  "KeyFromRequest req shardKey =
     (let explicit = (case shardKey of Some (JStr s) \<Rightarrow> s | _ \<Rightarrow> [])
      in case req of
           None \<Rightarrow> explicit
         | Some r \<Rightarrow> Key explicit (ClientTokenAccessor r) (EntityID r))"

section \<open>Weights\<close>

text \<open>The first eight bytes of the digest, as a big-endian number.\<close>

definition big_endian :: "nat list \<Rightarrow> nat" where
  "big_endian bs = foldl (\<lambda>acc b. 256 * acc + b) 0 bs"

definition weigh :: "(string \<Rightarrow> nat list) \<Rightarrow> string \<Rightarrow> string \<Rightarrow> nat" where
  "weigh sha256 key mid = big_endian (take 8 (sha256 (key @ [CHR 0x00] @ mid)))"

text \<open>
  The comparison of \<open>Order\<close> as an order of its own: a heavier minter comes first, and of two with
  one weight the smaller id.
\<close>

datatype ranked = Ranked (rank_weight: nat) (rank_id: string)

definition ranks_before :: "ranked \<Rightarrow> ranked \<Rightarrow> bool" where
  "ranks_before a b \<longleftrightarrow>
     (if rank_weight a \<noteq> rank_weight b then rank_weight a > rank_weight b
      else rank_id a < rank_id b)"

instantiation ranked :: linorder
begin

definition less_eq_ranked :: "ranked \<Rightarrow> ranked \<Rightarrow> bool" where
  "less_eq_ranked a b \<longleftrightarrow>
     rank_weight b < rank_weight a \<or> rank_weight a = rank_weight b \<and> rank_id a \<le> rank_id b"

definition less_ranked :: "ranked \<Rightarrow> ranked \<Rightarrow> bool" where
  "less_ranked = ranks_before"

instance
  by standard
    (auto simp: less_eq_ranked_def less_ranked_def ranks_before_def ranked.expand split: if_splits)

end

section \<open>Orders\<close>

text \<open>
  \<open>shuffle\<close> counts down from the last index; \<open>rnd i\<close> is the draw from \<open>[0, i]\<close> made at index \<open>i\<close>, or
  nothing when the random source fails.
\<close>

fun shuffle_from :: "(nat \<Rightarrow> nat option) \<Rightarrow> nat \<Rightarrow> string list \<Rightarrow> string list" where
  "shuffle_from rnd 0 ids = ids"
| "shuffle_from rnd (Suc i) ids =
     (case rnd (Suc i) of
        None \<Rightarrow> ids
      | Some j \<Rightarrow> shuffle_from rnd i (ids[Suc i := ids ! j, j := ids ! Suc i]))"

definition shuffle_ids :: "(nat \<Rightarrow> nat option) \<Rightarrow> string list \<Rightarrow> string list" where
  "shuffle_ids rnd ids = shuffle_from rnd (length ids - 1) ids"

definition Order ::
  "(string \<Rightarrow> nat list) \<Rightarrow> (nat \<Rightarrow> nat option) \<Rightarrow> string \<Rightarrow> string list \<Rightarrow> string list" where
  "Order sha256 rnd key ids =
     (if key = [] then shuffle_ids rnd ids
      else sort_key (\<lambda>mid. Ranked (weigh sha256 key mid) mid) ids)"

text \<open>The keys of a map, in whatever order its iteration produces them.\<close>

definition OrderKeys ::
  "(string \<Rightarrow> nat list) \<Rightarrow> (nat \<Rightarrow> nat option) \<Rightarrow> string \<Rightarrow> (string \<times> 'v) list \<Rightarrow> string list" where
  "OrderKeys sha256 rnd key states = Order sha256 rnd key (map fst states)"

section \<open>Properties\<close>

definition draws :: "(nat \<Rightarrow> nat option) \<Rightarrow> bool" where
  "draws rnd \<longleftrightarrow> (\<forall>i j. rnd i = Some j \<longrightarrow> j \<le> i)"

lemma shuffle_from_mset:
  assumes "draws rnd" and "i < length ids"
  shows "mset (shuffle_from rnd i ids) = mset ids"
  using assms(2)
proof (induction i arbitrary: ids)
  case (Suc i)
  show ?case
  proof (cases "rnd (Suc i)")
    case (Some j)
    then have "j < length ids" using assms(1) Suc.prems by (fastforce simp: draws_def)
    then have "mset (ids[Suc i := ids ! j, j := ids ! Suc i]) = mset ids"
      using Suc.prems by (simp add: mset_swap)
    moreover have "mset (shuffle_from rnd i (ids[Suc i := ids ! j, j := ids ! Suc i]))
        = mset (ids[Suc i := ids ! j, j := ids ! Suc i])"
      using Suc.prems by (intro Suc.IH) simp
    ultimately show ?thesis using Some by simp
  qed simp
qed simp

lemma Order_mset: "draws rnd \<Longrightarrow> mset (Order sha256 rnd key ids) = mset ids"
  by (cases "ids = []") (auto simp: Order_def shuffle_ids_def shuffle_from_mset)

lemma Order_set: "draws rnd \<Longrightarrow> set (Order sha256 rnd key ids) = set ids"
  using Order_mset by (rule mset_eq_setD)

lemma rank_inj: "inj (\<lambda>mid. Ranked (f mid) mid)"
  by (rule injI) simp

lemma sort_key_unique:
  assumes "mset xs = mset ys" and "inj f"
  shows "sort_key f xs = sort_key f ys"
proof (rule map_inj_on)
  have "sort (map f zs) = map f (sort_key f zs)" for zs
    by (rule properties_for_sort) simp_all
  moreover have "sort (map f ys) = map f (sort_key f xs)"
    by (rule properties_for_sort) (simp_all add: assms(1))
  ultimately show "map f (sort_key f xs) = map f (sort_key f ys)" by metis
  show "inj_on f (set (sort_key f xs) \<union> set (sort_key f ys))"
    using assms(2) by (rule inj_on_subset) simp
qed

text \<open>
  A key fixes the order of a set of minters: whatever order the ids arrive in, a caller with a
  key gets the same preference list, and it lists exactly the ids it was given.
\<close>
theorem order_input_independent:
  assumes "mset ids = mset ids'" and "key \<noteq> []"
  shows "Order sha256 rnd key ids = Order sha256 rnd' key ids'
         \<and> mset (Order sha256 rnd key ids) = mset ids"
  using assms sort_key_unique [OF assms(1) rank_inj] by (simp add: Order_def)

theorem order_input_independent_witness:
  "Order (\<lambda>s. [length s]) (\<lambda>_. None) ''w'' [''m1'', ''m22'', ''a1''] =
     Order (\<lambda>s. [length s]) (\<lambda>_. None) ''w'' [''a1'', ''m1'', ''m22'']"
  using order_input_independent [of "[''m1'', ''m22'', ''a1'']" "[''a1'', ''m1'', ''m22'']" "''w''"]
  by simp

text \<open>
  Removing minters from a set disturbs nobody they did not serve: the order over the ids that
  remain is the old order with the others left out, so a caller moves only if its minter is gone,
  and then to its old next preference.
\<close>
theorem order_minimal_disruption:
  assumes "key \<noteq> []"
  shows "Order sha256 rnd key (filter P ids) = filter P (Order sha256 rnd key ids)"
  using assms by (simp add: Order_def filter_sort)

theorem order_minimal_disruption_witness:
  "Order (\<lambda>s. [length s]) (\<lambda>_. None) ''w'' (filter (\<lambda>i. i \<noteq> ''m22'') [''m1'', ''m22'', ''a1'']) =
     filter (\<lambda>i. i \<noteq> ''m22'') (Order (\<lambda>s. [length s]) (\<lambda>_. None) ''w'' [''m1'', ''m22'', ''a1''])"
  by (rule order_minimal_disruption) simp

end
