(* ===== verification/Capacity.thy ===== *)
theory Capacity
  imports Storage
begin

text \<open>
  \<open>pkg/mintercapacity\<close>: how many credentials each minter has outstanding according to the mount's
  own tracking records, against a configured cap. \<open>Used\<close> is Go's map with its default of zero.
\<close>

record capacity =
  Limit :: int
  Used :: "string \<Rightarrow> int"
  WarnAt :: int

definition Enforced :: "capacity \<Rightarrow> bool" where
  "Enforced s \<longleftrightarrow> 0 < Limit s"

definition HasRoom :: "capacity \<Rightarrow> string \<Rightarrow> bool" where
  "HasRoom s minterID = (if \<not> Enforced s then True else Used s minterID < Limit s)"

definition Nearing :: "capacity \<Rightarrow> string \<Rightarrow> bool" where
  "Nearing s minterID = (if \<not> Enforced s then False else Used s minterID \<ge> WarnAt s)"

text \<open>
  What one record counts against: \<open>json.Unmarshal\<close> into a map accepts an object and \<open>null\<close>; a record
  it rejects, and one whose minter is absent or no string, counts against the empty id.
\<close>

definition record_minter :: "blob \<Rightarrow> string" where
  "record_minter b =
     (case b of
        Json d \<Rightarrow> (case field d ''minter'' of Some (JStr s) \<Rightarrow> s | _ \<Rightarrow> [])
      | Raw _ \<Rightarrow> [])"

fun count_records :: "'w kv \<Rightarrow> 'w \<Rightarrow> string \<Rightarrow> capacity \<Rightarrow> string list \<Rightarrow> err + capacity" where
  "count_records kv w pre st [] = Inr st"
| "count_records kv w pre st (k # ks) =
     (case kget kv w (pre @ k) of
        Inl e \<Rightarrow> Inl (Wrap ''reading: '' e)
      | Inr None \<Rightarrow> count_records kv w pre st ks
      | Inr (Some b) \<Rightarrow>
          (let m = record_minter b
           in count_records kv w pre (st \<lparr> Used := (Used st)(m := Used st m + 1) \<rparr>) ks))"

text \<open>
  Four fifths of the cap, truncated; \<open>int(float64(limit) * 0.8)\<close> is exact for any cap a storage
  could hold (below \<open>2 ^ 50\<close>).
\<close>

definition Snapshot :: "'w kv \<Rightarrow> 'w \<Rightarrow> string \<Rightarrow> int \<Rightarrow> err + capacity" where
  "Snapshot kv w pre limit =
     (let st = \<lparr> Limit = limit, Used = (\<lambda>_. 0), WarnAt = 0 \<rparr>
      in if limit \<le> 0 then Inr st
         else let st = st \<lparr> WarnAt := max (4 * limit div 5) 1 \<rparr>
              in case klist kv w pre of
                   Inl e \<Rightarrow> Inl (Wrap ''listing: '' e)
                 | Inr ids \<Rightarrow> count_records kv w pre st ids)"

section \<open>Properties\<close>

text \<open>The tracking records below a prefix that count against a minter.\<close>

definition held :: "(string \<Rightarrow> blob option) \<Rightarrow> string \<Rightarrow> string \<Rightarrow> string set" where
  "held m pre minter = {k \<in> children m pre. \<exists>b. m (pre @ k) = Some b \<and> record_minter b = minter}"

context kv_store
begin

lemma count_records_used:
  assumes "count_records kv w pre st ks = Inr st'" and "distinct ks"
  shows "Used st' x = Used st x +
           int (card {k \<in> set ks. \<exists>b. view w (pre @ k) = Some b \<and> record_minter b = x})
         \<and> Limit st' = Limit st \<and> WarnAt st' = WarnAt st"
  using assms
proof (induction ks arbitrary: st)
  case Nil
  then show ?case by simp
next
  case (Cons k ks)
  obtain r where r: "kget kv w (pre @ k) = Inr r"
    using Cons.prems by (cases "kget kv w (pre @ k)") auto
  then have v: "view w (pre @ k) = r" using get_view by simp
  let ?S = "\<lambda>ks. {k \<in> set ks. \<exists>b. view w (pre @ k) = Some b \<and> record_minter b = x}"
  have S: "?S (k # ks) = (if \<exists>b. r = Some b \<and> record_minter b = x then insert k (?S ks) else ?S ks)"
    using v by auto
  have "k \<notin> ?S ks" "finite (?S ks)" using Cons.prems by auto
  then have card: "card (?S (k # ks)) =
      (if \<exists>b. r = Some b \<and> record_minter b = x then Suc (card (?S ks)) else card (?S ks))"
    unfolding S by (simp del: mem_Collect_eq)
  show ?case
  proof (cases r)
    case None
    then show ?thesis using Cons r card by simp
  next
    case (Some b)
    let ?st = "st \<lparr> Used := (Used st)(record_minter b := Used st (record_minter b) + 1) \<rparr>"
    have "count_records kv w pre ?st ks = Inr st'" using Cons.prems r Some by (simp add: Let_def)
    then have "Used st' x = Used ?st x + int (card (?S ks)) \<and> Limit st' = Limit ?st \<and> WarnAt st' = WarnAt ?st"
      using Cons by simp
    then show ?thesis using card Some by auto
  qed
qed

lemma Snapshot_used:
  assumes "Snapshot kv w pre limit = Inr st" and "0 < limit"
  shows "Used st x = int (card (held (view w) pre x))" and "Limit st = limit"
    and "WarnAt st = max (4 * limit div 5) 1"
proof -
  obtain ids where ids: "klist kv w pre = Inr ids"
    using assms by (cases "klist kv w pre") (auto simp: Snapshot_def)
  then have l: "set ids = children (view w) pre" "distinct ids"
    using list_view by (auto simp: lists_def)
  let ?st = "\<lparr> Limit = limit, Used = (\<lambda>_. 0), WarnAt = max (4 * limit div 5) 1 \<rparr>"
  have "count_records kv w pre ?st ids = Inr st"
    using assms ids by (simp add: Snapshot_def Let_def)
  from count_records_used [OF this l(2)]
  show "Used st x = int (card (held (view w) pre x))" "Limit st = limit"
    "WarnAt st = max (4 * limit div 5) 1"
    unfolding held_def l(1) [symmetric] by simp_all
qed

end

lemma capacity_counts_records_facts:
  assumes "kv_store kv view" and "Snapshot kv w pre limit = Inr st" and "0 < limit"
  shows "HasRoom st m \<longleftrightarrow> int (card (held (view w) pre m)) < limit"
    and "\<not> HasRoom st m \<Longrightarrow> Nearing st m"
    and "1 \<le> WarnAt st \<and> WarnAt st \<le> limit"
proof -
  note used = kv_store.Snapshot_used [OF assms]
  show "HasRoom st m \<longleftrightarrow> int (card (held (view w) pre m)) < limit"
    using assms(3) by (simp add: HasRoom_def Enforced_def used)
  show "1 \<le> WarnAt st \<and> WarnAt st \<le> limit" using assms(3) by (auto simp: used)
  then show "\<not> HasRoom st m \<Longrightarrow> Nearing st m"
    by (auto simp: HasRoom_def Nearing_def Enforced_def used(2) split: if_splits)
qed

text \<open>
  With a cap configured, a snapshot that is taken at all offers a minter exactly when the mount's
  tracking records name it in fewer entries than the cap, whatever store the records are in; the
  warning level is between one and the cap, so it is reached before a minter is passed over.
\<close>
theorem capacity_counts_records:
  assumes "kv_store kv view" and "Snapshot kv w pre limit = Inr st" and "0 < limit"
  shows "(HasRoom st m \<longleftrightarrow> int (card (held (view w) pre m)) < limit)
         \<and> (\<not> HasRoom st m \<longrightarrow> Nearing st m)
         \<and> 1 \<le> WarnAt st \<and> WarnAt st \<le> limit"
  using capacity_counts_records_facts [OF assms] by blast

definition three_tokens :: "unit mem" where
  "three_tokens =
     ([(''active-tokens/t1'', Json (JObj [(''minter'', JStr ''m1'')])),
       (''active-tokens/t2'', Raw ''x''),
       (''active-tokens/t3'', Json (JObj [(''minter'', JStr ''m1'')]))], ())"

theorem capacity_counts_records_witness:
  "\<exists>st. Snapshot mem_kv three_tokens ''active-tokens/'' 2 = Inr st \<and> \<not> HasRoom st ''m1''
     \<and> Used st [] = 1 \<and> 1 \<le> WarnAt st \<and> WarnAt st \<le> 2"
proof -
  obtain st where st: "Snapshot mem_kv three_tokens ''active-tokens/'' 2 = Inr st" "Used st ''m1'' = 2"
      "Used st [] = 1" "Limit st = 2"
    by (simp add: Snapshot_def three_tokens_def mem_kv_def mem_children_def segment_def
        record_minter_def Let_def)
  then show ?thesis
    using capacity_counts_records [OF mem.kv_store_axioms st(1), THEN conjunct2, THEN conjunct2]
    by (simp add: HasRoom_def Enforced_def)
qed

end
