(* ===== verification/MinterSets.thy ===== *)
theory MinterSets
  imports Storage "HOL-Library.Multiset"
begin

text \<open>
  \<open>pkg/cloudconfig\<close>, the part about minter sets: the minting credentials of a mount, what a set must
  satisfy to be written, what a write keeps of the stored set, the JSON form in storage, and the
  upstream ids a mount owns through its minters.
\<close>

section \<open>Minters and sets\<close>

definition MinMinterGap :: duration where "MinMinterGap = 7 * 24 * hour"

record minter =
  ID :: string
  Token :: string
  ExpiresAt :: time
  ExpiresSource :: string
  NeverExpires :: bool
  CreatedAt :: time
  Retired :: bool
  RetiredAt :: time
  RotationParams :: "(string \<times> string) list"

record minter_set =
  Schema :: int
  Name :: string
  Minters :: "minter list"

text \<open>A Go map of strings answers with the empty string for an absent key.\<close>

definition param :: "(string \<times> string) list \<Rightarrow> string \<Rightarrow> string" where
  "param ps k = (case map_of ps k of None \<Rightarrow> [] | Some v \<Rightarrow> v)"

definition set_name_char :: "char \<Rightarrow> bool" where
  "set_name_char c \<longleftrightarrow>
     (let k = of_char c :: nat in 97 \<le> k \<and> k \<le> 122 \<or> 65 \<le> k \<and> k \<le> 90 \<or> 48 \<le> k \<and> k \<le> 57 \<or> k = 95 \<or> k = 45)"

text \<open>Validators answer whether they accept.\<close>

definition ValidateSetName :: "string \<Rightarrow> bool" where
  "ValidateSetName name = (if name = [] then False else list_all set_name_char name)"

definition ActiveMinters :: "minter list \<Rightarrow> minter list" where
  "ActiveMinters ms = filter (\<lambda>m. \<not> Retired m) ms"

datatype set_error = EmptySet | NoExpiry string | TooFew | GapTooSmall string string

text \<open>The loop over the active minters: an error, or whether one never expires and the expiring ones.\<close>

fun sort_out :: "bool \<Rightarrow> minter list \<Rightarrow> minter list \<Rightarrow> set_error + bool \<times> minter list" where
  "sort_out never acc [] = Inr (never, acc)"
| "sort_out never acc (m # ms) =
     (if NeverExpires m then sort_out True acc ms
      else if \<not> IsZero (ExpiresAt m) then sort_out never (acc @ [m]) ms
      else Inl (NoExpiry (ID m)))"

fun check_gaps :: "minter list \<Rightarrow> set_error option" where
  "check_gaps (a # b # ms) =
     (if ExpiresAt b - ExpiresAt a < MinMinterGap then Some (GapTooSmall (ID a) (ID b))
      else check_gaps (b # ms))"
| "check_gaps _ = None"

definition ValidateMinterSet :: "minter list \<Rightarrow> set_error option" where
  "ValidateMinterSet ms =
     (let active = ActiveMinters ms
      in if active = [] then Some EmptySet
         else case sort_out False [] active of
           Inl e \<Rightarrow> Some e
         | Inr (hasNeverExpires, expiring) \<Rightarrow>
             if hasNeverExpires then None
             else if length expiring < 2 then Some TooFew
             else check_gaps (sort_key ExpiresAt expiring))"

definition ValidateMinterKeys :: "string list \<Rightarrow> string list \<Rightarrow> bool" where
  "ValidateMinterKeys raw allowed = list_all (\<lambda>key. key \<in> set allowed) raw"

fun check_ids :: "string set \<Rightarrow> minter list \<Rightarrow> bool" where
  "check_ids seen [] = True"
| "check_ids seen (m # ms) =
     (if ID m = [] \<or> ID m = ''<nil>'' then False
      else if ID m \<in> seen then False
      else check_ids (insert (ID m) seen) ms)"

definition ValidateMinterIDs :: "minter list \<Rightarrow> bool" where
  "ValidateMinterIDs ms = check_ids {} ms"

text \<open>
  \<open>PreserveLifecycle\<close>: the stored minters by id (the last of two with one id wins), carried onto
  the incoming ones.
\<close>

definition carry_over :: "minter \<Rightarrow> minter \<Rightarrow> minter" where
  "carry_over previous m =
     (let m = m \<lparr> CreatedAt := CreatedAt previous, Retired := Retired previous,
                  RetiredAt := RetiredAt previous \<rparr>
      in if RotationParams m = [] then m \<lparr> RotationParams := RotationParams previous \<rparr> else m)"

definition PreserveLifecycle :: "minter list \<Rightarrow> minter_set option \<Rightarrow> time \<Rightarrow> minter list" where
  "PreserveLifecycle incoming stored now =
     (let byID = (case stored of None \<Rightarrow> Map.empty
                  | Some s \<Rightarrow> map_of (rev (map (\<lambda>m. (ID m, m)) (Minters s))))
      in map (\<lambda>m. case byID (ID m) of
                Some previous \<Rightarrow> carry_over previous m
              | None \<Rightarrow> if IsZero (CreatedAt m) then m \<lparr> CreatedAt := now \<rparr> else m) incoming)"

definition CloudKeyID :: "minter \<Rightarrow> string list \<Rightarrow> string" where
  "CloudKeyID m keys =
     (case find (\<lambda>key. param (RotationParams m) key \<noteq> []) keys of
        Some key \<Rightarrow> param (RotationParams m) key
      | None \<Rightarrow>
          (case Cut (Token m) '':'' of
             Some (public, _) \<Rightarrow> if public \<noteq> [] then public else []
           | None \<Rightarrow> []))"

section \<open>The stored form\<close>

text \<open>
  Decoding as \<open>encoding/json\<close> does for fields written by the plugin itself: an absent member or
  \<open>null\<close> leaves the zero value, a member of another type is an error.
\<close>

definition opt_field :: "'a \<Rightarrow> (json \<Rightarrow> 'a option) \<Rightarrow> json \<Rightarrow> string \<Rightarrow> 'a option" where
  "opt_field zero dec d k =
     (case field d k of None \<Rightarrow> Some zero | Some JNull \<Rightarrow> Some zero | Some v \<Rightarrow> dec v)"

definition dec_str :: "json \<Rightarrow> string option" where
  "dec_str v = (case v of JStr s \<Rightarrow> Some s | _ \<Rightarrow> None)"

definition dec_bool :: "json \<Rightarrow> bool option" where
  "dec_bool v = (case v of JBool b \<Rightarrow> Some b | _ \<Rightarrow> None)"

definition dec_int :: "json \<Rightarrow> int option" where
  "dec_int v = (case v of JInt i \<Rightarrow> Some i | _ \<Rightarrow> None)"

definition dec_time :: "json \<Rightarrow> time option" where
  "dec_time v = (case v of JTime t \<Rightarrow> Some t | _ \<Rightarrow> None)"

fun dec_all :: "('x \<Rightarrow> 'a option) \<Rightarrow> 'x list \<Rightarrow> 'a list option" where
  "dec_all dec [] = Some []"
| "dec_all dec (v # vs) =
     (case dec v of None \<Rightarrow> None
      | Some x \<Rightarrow> (case dec_all dec vs of None \<Rightarrow> None | Some xs \<Rightarrow> Some (x # xs)))"

definition dec_list :: "(json \<Rightarrow> 'a option) \<Rightarrow> json \<Rightarrow> 'a list option" where
  "dec_list dec v = (case v of JArr vs \<Rightarrow> dec_all dec vs | _ \<Rightarrow> None)"

definition dec_map :: "json \<Rightarrow> (string \<times> string) list option" where
  "dec_map v =
     (case v of
        JObj kvs \<Rightarrow> dec_all (\<lambda>(k, x). map_option (Pair k) (dec_str x)) kvs
      | _ \<Rightarrow> None)"

definition is_object :: "json \<Rightarrow> bool" where
  "is_object d = (case d of JObj _ \<Rightarrow> True | JNull \<Rightarrow> True | _ \<Rightarrow> False)"

definition dec_minter :: "json \<Rightarrow> minter option" where
  "dec_minter d =
     (if \<not> is_object d then None
      else case (opt_field [] dec_str d ''id'', opt_field [] dec_str d ''token'',
                 opt_field 0 dec_time d ''expires_at'', opt_field [] dec_str d ''expires_at_source'',
                 opt_field False dec_bool d ''never_expires'', opt_field 0 dec_time d ''created_at'',
                 opt_field False dec_bool d ''retired'', opt_field 0 dec_time d ''retired_at'',
                 opt_field [] dec_map d ''rotation_params'') of
        (Some i, Some tok, Some e, Some es, Some n, Some c, Some r, Some ra, Some rp) \<Rightarrow>
          Some \<lparr> ID = i, Token = tok, ExpiresAt = e, ExpiresSource = es, NeverExpires = n,
                 CreatedAt = c, Retired = r, RetiredAt = ra, RotationParams = rp \<rparr>
      | _ \<Rightarrow> None)"

definition dec_minter_set :: "blob \<Rightarrow> minter_set option" where
  "dec_minter_set b =
     (case b of
        Raw _ \<Rightarrow> None
      | Json d \<Rightarrow>
          if \<not> is_object d then None
          else case (opt_field 0 dec_int d ''schema_version'', opt_field [] dec_str d ''name'',
                     opt_field [] (dec_list dec_minter) d ''minters'') of
            (Some s, Some n, Some ms) \<Rightarrow> Some \<lparr> Schema = s, Name = n, Minters = ms \<rparr>
          | _ \<Rightarrow> None)"

definition enc_minter :: "minter \<Rightarrow> json" where
  "enc_minter m =
     JObj ([(''id'', JStr (ID m)), (''token'', JStr (Token m)), (''expires_at'', JTime (ExpiresAt m))]
       @ (if ExpiresSource m \<noteq> [] then [(''expires_at_source'', JStr (ExpiresSource m))] else [])
       @ (if NeverExpires m then [(''never_expires'', JBool True)] else [])
       @ [(''created_at'', JTime (CreatedAt m))]
       @ (if Retired m then [(''retired'', JBool True)] else [])
       @ [(''retired_at'', JTime (RetiredAt m))]
       @ (if RotationParams m \<noteq> []
          then [(''rotation_params'', JObj (map (\<lambda>(k, v). (k, JStr v)) (RotationParams m)))] else []))"

definition enc_minter_set :: "minter_set \<Rightarrow> blob" where
  "enc_minter_set s =
     Json (JObj ((if Schema s \<noteq> 0 then [(''schema_version'', JInt (Schema s))] else [])
       @ [(''name'', JStr (Name s)), (''minters'', JArr (map enc_minter (Minters s)))]))"

section \<open>What a mount owns through its minters\<close>

definition minterSetPrefix :: string where "minterSetPrefix = ''minter-sets/''"

definition set_upstream_ids :: "string list \<Rightarrow> minter_set \<Rightarrow> string set" where
  "set_upstream_ids keys s =
     set (filter (\<lambda>i. i \<noteq> [])
       (concat (map (\<lambda>m. map (param (RotationParams m)) keys) (Minters s))))"

fun owned_of_sets ::
  "'w kv \<Rightarrow> 'w \<Rightarrow> string list \<Rightarrow> string set \<Rightarrow> string list \<Rightarrow> err + string set" where
  "owned_of_sets kv w keys owned [] = Inr owned"
| "owned_of_sets kv w keys owned (name # names) =
     (case kget kv w (minterSetPrefix @ name) of
        Inl e \<Rightarrow> Inl (Wrap ''reading minter set: '' e)
      | Inr None \<Rightarrow> owned_of_sets kv w keys owned names
      | Inr (Some b) \<Rightarrow>
          (case dec_minter_set b of
             None \<Rightarrow> Inl (Opaque ''parsing minter set'')
           | Some s \<Rightarrow> owned_of_sets kv w keys (owned \<union> set_upstream_ids keys s) names))"

text \<open>The storage is absent (\<open>nil\<close>) or given.\<close>

definition MinterUpstreamIDs :: "'w kv option \<Rightarrow> 'w \<Rightarrow> string list \<Rightarrow> err + string set" where
  "MinterUpstreamIDs storage w keys =
     (case storage of
        None \<Rightarrow> Inr {}
      | Some kv \<Rightarrow>
          if keys = [] then Inr {}
          else case klist kv w minterSetPrefix of
            Inl e \<Rightarrow> Inl (Wrap ''listing minter sets: '' e)
          | Inr names \<Rightarrow> owned_of_sets kv w keys {} names)"

definition MergeOwned :: "string set option \<Rightarrow> string set \<Rightarrow> string set" where
  "MergeOwned into extra = (case into of None \<Rightarrow> {} | Some s \<Rightarrow> s) \<union> extra"

section \<open>What validation guarantees\<close>

lemma sort_out_spec:
  "sort_out never acc ms =
     (case find (\<lambda>m. \<not> NeverExpires m \<and> ExpiresAt m = 0) ms of
        Some m \<Rightarrow> Inl (NoExpiry (ID m))
      | None \<Rightarrow> Inr (never \<or> (\<exists>m \<in> set ms. NeverExpires m), acc @ filter (\<lambda>m. \<not> NeverExpires m) ms))"
  by (induction ms arbitrary: never acc) (auto split: option.splits)

lemma check_gaps_spec:
  "check_gaps ms = None \<longleftrightarrow> sorted_wrt (\<lambda>a b. ExpiresAt a + MinMinterGap \<le> ExpiresAt b) ms"
proof (induction ms rule: check_gaps.induct)
  case (1 a b ms)
  have pos: "0 \<le> MinMinterGap" by (simp add: MinMinterGap_def duration_defs)
  show ?case
  proof (cases "ExpiresAt b - ExpiresAt a < MinMinterGap")
    case True
    then show ?thesis by simp
  next
    case False
    have "ExpiresAt a + MinMinterGap \<le> ExpiresAt c"
      if "ExpiresAt b + MinMinterGap \<le> ExpiresAt c" for c
      using that False pos by linarith
    with False 1 show ?thesis by (auto simp: not_less)
  qed
qed simp_all

definition spread :: "duration \<Rightarrow> time list \<Rightarrow> bool" where
  "spread g ts \<longleftrightarrow> distinct ts \<and> (\<forall>s \<in> set ts. \<forall>t \<in> set ts. s \<noteq> t \<longrightarrow> g \<le> \<bar>s - t\<bar>)"

lemma spread_mset: "mset ts = mset us \<Longrightarrow> spread g ts \<longleftrightarrow> spread g us"
  unfolding spread_def by (metis mset_eq_imp_distinct_iff mset_eq_setD)

lemma spread_Cons:
  "spread g (t # ts) \<longleftrightarrow> spread g ts \<and> (\<forall>u \<in> set ts. t \<noteq> u \<and> g \<le> \<bar>t - u\<bar>)"
  by (auto simp: spread_def abs_minus_commute)

lemma spread_sorted:
  assumes "0 < g"
  shows "sorted ts \<Longrightarrow> spread g ts \<longleftrightarrow> sorted_wrt (\<lambda>a b. a + g \<le> b) ts"
proof (induction ts)
  case Nil
  then show ?case by (simp add: spread_def)
next
  case (Cons t ts)
  have "(t \<noteq> u \<and> g \<le> \<bar>t - u\<bar>) \<longleftrightarrow> t + g \<le> u" if "u \<in> set ts" for u
  proof -
    have "t \<le> u" using that Cons.prems by simp
    then show ?thesis using assms by auto
  qed
  then show ?case using Cons by (auto simp: spread_Cons)
qed

text \<open>
  A minter set is accepted exactly when, leaving retired minters aside, it is not empty, every
  minter expires or never does, and either one never expires or there are at least two and no two
  expire within seven days of one another.
\<close>
theorem validate_minter_set_spec:
  "ValidateMinterSet ms = None \<longleftrightarrow>
     (let active = filter (\<lambda>m. \<not> Retired m) ms
      in active \<noteq> [] \<and> (\<forall>m \<in> set active. NeverExpires m \<or> ExpiresAt m \<noteq> 0)
         \<and> ((\<exists>m \<in> set active. NeverExpires m)
            \<or> 2 \<le> length active \<and> spread (7 * 24 * hour) (map ExpiresAt active)))"
proof -
  let ?a = "filter (\<lambda>m. \<not> Retired m) ms"
  have gap: "check_gaps (sort_key ExpiresAt xs) = None \<longleftrightarrow> spread MinMinterGap (map ExpiresAt xs)" for xs
  proof -
    let ?s = "map ExpiresAt (sort_key ExpiresAt xs)"
    have "spread MinMinterGap (map ExpiresAt xs) \<longleftrightarrow> spread MinMinterGap ?s"
      by (rule spread_mset) simp
    also have "\<dots> \<longleftrightarrow> sorted_wrt (\<lambda>a b. a + MinMinterGap \<le> b) ?s"
      by (rule spread_sorted) (simp_all add: MinMinterGap_def duration_defs)
    finally show ?thesis by (simp add: check_gaps_spec sorted_wrt_map)
  qed
  obtain act where act: "act = ?a" by simp
  show ?thesis
  proof (cases "\<exists>m \<in> set act. \<not> NeverExpires m \<and> ExpiresAt m = 0")
    case True
    then obtain m where "find (\<lambda>m. \<not> NeverExpires m \<and> ExpiresAt m = 0) act = Some m"
      by (cases "find (\<lambda>m. \<not> NeverExpires m \<and> ExpiresAt m = 0) act") (auto simp: find_None_iff)
    then have "ValidateMinterSet ms \<noteq> None"
      by (simp add: ValidateMinterSet_def ActiveMinters_def sort_out_spec Let_def flip: act)
    with True show ?thesis unfolding act [symmetric] Let_def by auto
  next
    case False
    then have f: "find (\<lambda>m. \<not> NeverExpires m \<and> ExpiresAt m = 0) act = None"
      by (auto simp: find_None_iff)
    have all: "filter (\<lambda>m. \<not> NeverExpires m) act = act" if "\<not> (\<exists>m \<in> set act. NeverExpires m)"
      using that by (intro filter_True) auto
    have "ValidateMinterSet ms = None \<longleftrightarrow> act \<noteq> []
        \<and> ((\<exists>m \<in> set act. NeverExpires m) \<or> 2 \<le> length act \<and> spread MinMinterGap (map ExpiresAt act))"
      using all by (auto simp: ValidateMinterSet_def ActiveMinters_def sort_out_spec Let_def gap f
          not_less simp flip: act)
    with False show ?thesis unfolding act [symmetric] Let_def MinMinterGap_def [symmetric] by auto
  qed
qed

definition expiring_in :: "int \<Rightarrow> string \<Rightarrow> minter" where
  "expiring_in days i =
     \<lparr> ID = i, Token = ''t'', ExpiresAt = days * (24 * hour), ExpiresSource = [], NeverExpires = False,
       CreatedAt = 1, Retired = False, RetiredAt = 0, RotationParams = [] \<rparr>"

theorem validate_minter_set_spec_witness:
  "ValidateMinterSet [expiring_in 9 ''b'', expiring_in 2 ''a''] = None
   \<and> ValidateMinterSet [expiring_in 8 ''b'', expiring_in 2 ''a''] \<noteq> None
   \<and> ValidateMinterSet [expiring_in 8 ''b''] \<noteq> None"
  by (simp add: validate_minter_set_spec expiring_in_def spread_def duration_defs)

lemma check_ids_spec:
  "check_ids seen ms \<longleftrightarrow>
     distinct (map ID ms) \<and> set (map ID ms) \<inter> (seen \<union> {[], ''<nil>''}) = {}"
  by (induction ms arbitrary: seen) auto

lemma ValidateMinterIDs_spec:
  "ValidateMinterIDs ms \<longleftrightarrow> distinct (map ID ms) \<and> [] \<notin> ID ` set ms \<and> ''<nil>'' \<notin> ID ` set ms"
  by (auto simp: ValidateMinterIDs_def check_ids_spec)

section \<open>What a write keeps\<close>

lemma write_keeps_lifecycle_facts:
  assumes "distinct (map ID (Minters s))" and "old \<in> set (Minters s)"
    and "new \<in> set incoming" and "ID new = ID old"
  shows "\<exists>m \<in> set (PreserveLifecycle incoming (Some s) now).
           ID m = ID old \<and> CreatedAt m = CreatedAt old \<and> Retired m = Retired old
           \<and> RetiredAt m = RetiredAt old \<and> Token m = Token new
           \<and> RotationParams m = (if RotationParams new = [] then RotationParams old else RotationParams new)"
    and "map ID (PreserveLifecycle incoming (Some s) now) = map ID incoming"
proof -
  let ?byID = "map_of (rev (map (\<lambda>m. (ID m, m)) (Minters s)))"
  have "?byID (ID old) = Some old"
    using assms(1,2) by (intro map_of_is_SomeI) (auto simp: o_def rev_map [symmetric])
  then have "carry_over old new \<in> set (PreserveLifecycle incoming (Some s) now)"
    using assms(3,4) by (auto simp: PreserveLifecycle_def Let_def intro!: image_eqI [of _ _ new])
  then show "\<exists>m \<in> set (PreserveLifecycle incoming (Some s) now).
           ID m = ID old \<and> CreatedAt m = CreatedAt old \<and> Retired m = Retired old
           \<and> RetiredAt m = RetiredAt old \<and> Token m = Token new
           \<and> RotationParams m = (if RotationParams new = [] then RotationParams old else RotationParams new)"
    by (rule rev_bexI) (simp add: carry_over_def Let_def assms(4))
  show "map ID (PreserveLifecycle incoming (Some s) now) = map ID incoming"
    by (auto simp: PreserveLifecycle_def Let_def carry_over_def split: option.splits)
qed

text \<open>
  C40. Rewriting a minter set keeps what the plugin recorded about the minters that stay: the same
  ids in the same order, each with its creation time, whether and when it was retired, and its
  rotation parameters unless the write brings others. A retired minter stays retired.
\<close>
theorem write_keeps_lifecycle:
  assumes "distinct (map ID (Minters s))" and "old \<in> set (Minters s)"
    and "new \<in> set incoming" and "ID new = ID old"
  shows "(\<exists>m \<in> set (PreserveLifecycle incoming (Some s) now).
           ID m = ID old \<and> CreatedAt m = CreatedAt old \<and> Retired m = Retired old
           \<and> RetiredAt m = RetiredAt old \<and> Token m = Token new
           \<and> RotationParams m = (if RotationParams new = [] then RotationParams old else RotationParams new))
         \<and> map ID (PreserveLifecycle incoming (Some s) now) = map ID incoming"
  using write_keeps_lifecycle_facts [OF assms] by blast

definition sample_minter :: "string \<Rightarrow> bool \<Rightarrow> minter" where
  "sample_minter i r =
     \<lparr> ID = i, Token = ''tok'', ExpiresAt = 0, ExpiresSource = [], NeverExpires = True, CreatedAt = 7,
       Retired = r, RetiredAt = (if r then 9 else 0), RotationParams = [(''key_id'', ''k'' @ i)] \<rparr>"

theorem write_keeps_lifecycle_witness:
  "\<exists>m \<in> set (PreserveLifecycle [sample_minter ''a'' False]
              (Some \<lparr> Schema = 1, Name = ''s'', Minters = [sample_minter ''a'' True] \<rparr>) 20).
     Retired m \<and> RetiredAt m = 9"
  using write_keeps_lifecycle [of "\<lparr> Schema = 1, Name = ''s'', Minters = [sample_minter ''a'' True] \<rparr>"
      "sample_minter ''a'' True" "sample_minter ''a'' False" "[sample_minter ''a'' False]" 20]
  by (auto simp: sample_minter_def)

section \<open>Storage round trip and ownership\<close>

lemma dec_all_map: "(\<And>x. x \<in> set xs \<Longrightarrow> dec (enc x) = Some x) \<Longrightarrow> dec_all dec (map enc xs) = Some xs"
  by (induction xs) auto

lemma enc_minter_fields:
  "field (enc_minter m) ''id'' = Some (JStr (ID m))"
  "field (enc_minter m) ''token'' = Some (JStr (Token m))"
  "field (enc_minter m) ''expires_at'' = Some (JTime (ExpiresAt m))"
  "field (enc_minter m) ''expires_at_source'' =
     (if ExpiresSource m \<noteq> [] then Some (JStr (ExpiresSource m)) else None)"
  "field (enc_minter m) ''never_expires'' = (if NeverExpires m then Some (JBool True) else None)"
  "field (enc_minter m) ''created_at'' = Some (JTime (CreatedAt m))"
  "field (enc_minter m) ''retired'' = (if Retired m then Some (JBool True) else None)"
  "field (enc_minter m) ''retired_at'' = Some (JTime (RetiredAt m))"
  "field (enc_minter m) ''rotation_params'' =
     (if RotationParams m \<noteq> []
      then Some (JObj (map (\<lambda>(k, v). (k, JStr v)) (RotationParams m))) else None)"
  by (simp_all add: enc_minter_def map_add_def)

lemma dec_enc_minter: "dec_minter (enc_minter m) = Some m"
proof -
  have "dec_map (JObj (map (\<lambda>(k, v). (k, JStr v)) ps)) = Some ps" for ps
    unfolding dec_map_def json.case by (rule dec_all_map) (auto simp: dec_str_def)
  then show ?thesis
    by (simp add: dec_minter_def is_object_def opt_field_def enc_minter_fields dec_str_def
        dec_time_def dec_bool_def) (simp add: enc_minter_def)
qed

lemma dec_enc_minter_set: "dec_minter_set (enc_minter_set s) = Some s"
proof -
  have "dec_list dec_minter (JArr (map enc_minter ms)) = Some ms" for ms
    by (simp add: dec_list_def dec_all_map dec_enc_minter)
  then show ?thesis
    by (cases s) (simp add: dec_minter_set_def enc_minter_set_def is_object_def opt_field_def
        dec_str_def dec_int_def)
qed

text \<open>
  A minter set read back from storage is the set that was written: names, times, lifecycle and
  rotation parameters all survive, for every set.
\<close>
theorem minter_set_roundtrip: "dec_minter_set (enc_minter_set s) = Some s"
  by (rule dec_enc_minter_set)

context kv_store
begin

lemma owned_of_sets_spec:
  assumes "owned_of_sets kv w keys owned names = Inr out"
  shows "(x \<in> out \<longleftrightarrow> x \<in> owned \<or> (\<exists>name \<in> set names. \<exists>b s.
           view w (minterSetPrefix @ name) = Some b \<and> dec_minter_set b = Some s
           \<and> x \<in> set_upstream_ids keys s))
    \<and> (\<forall>name \<in> set names. \<forall>b. view w (minterSetPrefix @ name) = Some b \<longrightarrow> dec_minter_set b \<noteq> None)"
  using assms
proof (induction names arbitrary: owned)
  case Nil
  then show ?case by simp
next
  case (Cons name names)
  obtain r where r: "kget kv w (minterSetPrefix @ name) = Inr r"
    using Cons.prems by (cases "kget kv w (minterSetPrefix @ name)") auto
  then have v: "view w (minterSetPrefix @ name) = r" using get_view by simp
  show ?case
  proof (cases r)
    case None
    then show ?thesis using Cons.IH [of owned] Cons.prems r v by auto
  next
    case (Some b)
    then obtain s where s: "dec_minter_set b = Some s"
      using Cons.prems r by (cases "dec_minter_set b") auto
    then have "owned_of_sets kv w keys (owned \<union> set_upstream_ids keys s) names = Inr out"
      using Cons.prems r Some by simp
    from Cons.IH [OF this] show ?thesis using v Some s by auto
  qed
qed

end

lemma segment_plain: "CHR ''/'' \<notin> set k \<Longrightarrow> segment k = k"
proof -
  assume "CHR ''/'' \<notin> set k"
  then have "Cut k ''/'' = None"
    by (cases "Cut k ''/''") (auto dest: Cut_decompose)
  then show ?thesis by (simp add: segment_def)
qed

text \<open>
  The owned set is complete or the reconciler gets an error: when it is built at all, every
  upstream id that any stored minter records under one of the keys is in it, retired minters
  included, whatever the other sets hold.
\<close>
theorem minter_ids_owned:
  assumes "kv_store kv view" and "MinterUpstreamIDs (Some kv) w keys = Inr owned"
    and "view w (''minter-sets/'' @ name) = Some (enc_minter_set s)" and "name \<noteq> []"
    and "CHR ''/'' \<notin> set name" and "m \<in> set (Minters s)" and "key \<in> set keys"
    and "param (RotationParams m) key \<noteq> []"
  shows "param (RotationParams m) key \<in> owned"
proof -
  obtain names where names: "klist kv w minterSetPrefix = Inr names"
    "owned_of_sets kv w keys {} names = Inr owned"
    using assms(2,7) by (cases "klist kv w minterSetPrefix")
      (auto simp: MinterUpstreamIDs_def split: if_splits)
  have "set names = children (view w) minterSetPrefix"
    using kv_store.list_view [OF assms(1) names(1)] by (simp add: lists_def)
  moreover have "segment name \<in> children (view w) minterSetPrefix"
    using assms(3,4) unfolding children_def minterSetPrefix_def by blast
  ultimately have name: "name \<in> set names" using segment_plain [OF assms(5)] by simp
  have "set_upstream_ids keys s \<subseteq> owned"
    using kv_store.owned_of_sets_spec [OF assms(1) names(2)] name assms(3) dec_enc_minter_set
    unfolding minterSetPrefix_def by blast
  moreover have "param (RotationParams m) key \<in> set_upstream_ids keys s"
    using assms(6-8) by (auto simp: set_upstream_ids_def)
  ultimately show ?thesis by blast
qed

definition one_set :: minter_set where
  "one_set = \<lparr> Schema = 1, Name = ''s'', Minters = [sample_minter ''a'' True] \<rparr>"

theorem minter_ids_owned_witness:
  "\<exists>owned. MinterUpstreamIDs (Some mem_kv) ([(''minter-sets/s'', enc_minter_set one_set)], ()) [''key_id''] =
     Inr owned \<and> ''ka'' \<in> owned"
proof -
  let ?w = "([(''minter-sets/s'', enc_minter_set one_set)], ())"
  have "\<exists>owned. MinterUpstreamIDs (Some mem_kv) ?w [''key_id''] = Inr owned"
    by (simp add: MinterUpstreamIDs_def mem_kv_def mem_children_def segment_def minterSetPrefix_def
        dec_enc_minter_set)
  then obtain owned where o: "MinterUpstreamIDs (Some mem_kv) ?w [''key_id''] = Inr owned" ..
  have "param (RotationParams (sample_minter ''a'' True)) ''key_id'' \<in> owned"
    by (rule minter_ids_owned [OF mem.kv_store_axioms o, of "''s''" one_set])
      (simp_all add: mem_view_def one_set_def sample_minter_def param_def)
  then show ?thesis using o by (intro exI [of _ owned]) (simp add: sample_minter_def param_def)
qed

end
