(* ===== verification/MountConfig.thy ===== *)
theory MountConfig
  imports MinterSets
begin

text \<open>
  \<open>pkg/cloudconfig\<close>, the rest: the mount's configuration and its defaults, schema versions, intervals,
  roles, the prefill of a role write, endpoint overrides and resource paths. \<open>url.Parse\<close> and the
  IP address parser are arguments of the endpoint check.
\<close>

section \<open>Configuration\<close>

definition SchemaVersion :: int where "SchemaVersion = 1"

definition CheckSchema :: "int \<Rightarrow> bool" where
  "CheckSchema schema = (if schema > SchemaVersion then False else True)"

record plugin_config =
  cfgSchema :: int
  cfgCloud :: string
  cfgMinters :: "minter list"
  ReconcileCadence :: duration
  BootstrapDelay :: duration
  MaxDeletesPerPass :: int
  MinterExpiryWarn :: duration
  MinterRetireGrace :: duration
  VerifyMinterCapability :: "bool option"
  CapabilityCacheTTL :: "duration option"
  MinterCredentialLimit :: "int option"

definition DefaultCapabilityCacheTTL :: duration where "DefaultCapabilityCacheTTL = hour"

definition DefaultConfig :: "string \<Rightarrow> plugin_config" where
  "DefaultConfig cloud =
     \<lparr> cfgSchema = SchemaVersion, cfgCloud = cloud, cfgMinters = [], ReconcileCadence = 6 * hour,
       BootstrapDelay = 24 * hour, MaxDeletesPerPass = 10, MinterExpiryWarn = MinMinterGap,
       MinterRetireGrace = MinMinterGap, VerifyMinterCapability = None, CapabilityCacheTTL = None,
       MinterCredentialLimit = None \<rparr>"

text \<open>The getters take a configuration that may be absent.\<close>

definition CredentialLimitPerMinter :: "plugin_config option \<Rightarrow> int" where
  "CredentialLimitPerMinter c =
     (case c of None \<Rightarrow> 0
      | Some c \<Rightarrow> (case MinterCredentialLimit c of None \<Rightarrow> 0 | Some n \<Rightarrow> if n < 0 then 0 else n))"

definition CapabilityVerificationEnabled :: "plugin_config option \<Rightarrow> bool" where
  "CapabilityVerificationEnabled c =
     (case c of None \<Rightarrow> True
      | Some c \<Rightarrow> (case VerifyMinterCapability c of None \<Rightarrow> True | Some b \<Rightarrow> b))"

definition CapabilityCacheDuration :: "plugin_config option \<Rightarrow> duration" where
  "CapabilityCacheDuration c =
     (case c of None \<Rightarrow> DefaultCapabilityCacheTTL
      | Some c \<Rightarrow> (case CapabilityCacheTTL c of None \<Rightarrow> DefaultCapabilityCacheTTL
                  | Some t \<Rightarrow> if t < 0 then 0 else t))"

text \<open>The first offender in the order of the sorted names.\<close>

definition ValidateIntervals :: "(string \<times> duration) list \<Rightarrow> string option" where
  "ValidateIntervals intervals =
     find (\<lambda>name. case map_of intervals name of None \<Rightarrow> True | Some d \<Rightarrow> d \<le> 0)
       (sort (map fst intervals))"

record role =
  roleName :: string
  roleCloud :: string
  DefaultTTL :: duration
  MaxTTL :: duration

definition ValidateRole :: "role \<Rightarrow> bool" where
  "ValidateRole r =
     (if roleName r = [] then False
      else if DefaultTTL r \<le> 0 then False
      else if MaxTTL r \<le> 0 then False
      else if DefaultTTL r > MaxTTL r then False
      else True)"

section \<open>Role writes\<close>

text \<open>
  The raw fields of a request, the fields its schema knows, and the stored role rendered as its
  read endpoint reports it.
\<close>

definition prefill ::
  "string set \<Rightarrow> (string \<Rightarrow> json option) \<Rightarrow> (string \<Rightarrow> json option) \<Rightarrow> string \<Rightarrow> json option" where
  "prefill schema stored raw =
     (\<lambda>name. case raw name of
         Some v \<Rightarrow> Some v
       | None \<Rightarrow> if name \<notin> schema then None else stored name)"

definition PrefillRoleWrite ::
  "'w kv \<Rightarrow> 'w \<Rightarrow> string \<Rightarrow> string set \<Rightarrow> (blob \<Rightarrow> (string \<Rightarrow> json option) option)
     \<Rightarrow> ((string \<Rightarrow> json option) \<Rightarrow> err option) \<Rightarrow> (string \<Rightarrow> json option)
     \<Rightarrow> (string \<Rightarrow> json option) \<times> err option" where
  "PrefillRoleWrite kv w key schema render validate raw =
     (case kget kv w key of
        Inl e \<Rightarrow> (raw, Some e)
      | Inr None \<Rightarrow> (raw, None)
      | Inr (Some b) \<Rightarrow>
          (case render b of
             None \<Rightarrow> (raw, None)
           | Some stored \<Rightarrow> (let raw' = prefill schema stored raw in (raw', validate raw'))))"

section \<open>Endpoints and paths\<close>

record url =
  Scheme :: string
  User :: "string option"
  Hostname :: string

definition lower :: "char \<Rightarrow> char" where
  "lower c = (let k = of_char c :: nat in if 65 \<le> k \<and> k \<le> 90 then char_of (k + 32) else c)"

text \<open>\<open>parse_ip\<close> answers whether an address is a loopback address, for a string that is one.\<close>

definition isLoopback :: "(string \<Rightarrow> bool option) \<Rightarrow> string \<Rightarrow> bool" where
  "isLoopback parse_ip host =
     (if map lower host = ''localhost'' then True
      else case parse_ip host of Some loopback \<Rightarrow> loopback | None \<Rightarrow> False)"

definition ValidateEndpoint ::
  "(string \<Rightarrow> url option) \<Rightarrow> (string \<Rightarrow> bool option) \<Rightarrow> string \<Rightarrow> bool" where
  "ValidateEndpoint parse parse_ip raw =
     (let raw = TrimSpace raw
      in if raw = [] then True
         else case parse raw of
           None \<Rightarrow> False
         | Some u \<Rightarrow>
             if User u \<noteq> None then False
             else if Hostname u = [] then False
             else if Scheme u = ''https'' then True
             else if Scheme u = ''http'' then isLoopback parse_ip (Hostname u)
             else False)"

text \<open>\<open>strings.Split\<close> on a one-character separator.\<close>

fun split_on :: "char \<Rightarrow> string \<Rightarrow> string list" where
  "split_on c [] = [[]]"
| "split_on c (x # xs) =
     (if x = c then [] # split_on c xs
      else case split_on c xs of [] \<Rightarrow> [[x]] | seg # segs \<Rightarrow> (x # seg) # segs)"

definition ValidateResourcePath :: "string \<Rightarrow> bool" where
  "ValidateResourcePath value =
     (if value = [] then False
      else if prefix ''/'' value \<or> sublist ''://'' value then False
      else list_all (\<lambda>segment. segment \<noteq> [] \<and> segment \<noteq> ''.'' \<and> segment \<noteq> ''..'') (split_on CHR ''/'' value))"

text \<open>
  \<open>url.PathEscape\<close>: letters, digits and \<open>-_.~$&+=:@\<close> stay, every other byte is a percent sign and two
  upper-case hexadecimal digits.
\<close>

definition hex_digit :: "nat \<Rightarrow> char" where
  "hex_digit d = (if d < 10 then char_of (48 + d) else char_of (55 + d))"

definition path_plain :: "char \<Rightarrow> bool" where
  "path_plain c \<longleftrightarrow>
     (let k = of_char c :: nat
      in 97 \<le> k \<and> k \<le> 122 \<or> 65 \<le> k \<and> k \<le> 90 \<or> 48 \<le> k \<and> k \<le> 57 \<or> c \<in> set ''-_.~$&+=:@'')"

definition escape_char :: "char \<Rightarrow> string" where
  "escape_char c =
     (if path_plain c then [c]
      else let k = of_char c :: nat in [CHR ''%'', hex_digit (k div 16), hex_digit (k mod 16)])"

definition PathEscape :: "string \<Rightarrow> string" where
  "PathEscape s = concat (map escape_char s)"

definition PathSegment :: "string \<Rightarrow> string" where
  "PathSegment value = PathEscape value"

section \<open>Properties\<close>

lemma of_char_hex_digit:
  "d < 16 \<Longrightarrow> (of_char (hex_digit d) :: nat) = (if d < 10 then 48 + d else 55 + d)"
  by (simp add: hex_digit_def)

lemma hex_digit_inj:
  assumes "a < 16" and "b < 16" and "hex_digit a = hex_digit b"
  shows "a = b"
proof -
  have "(of_char (hex_digit a) :: nat) = of_char (hex_digit b)" by (rule arg_cong [OF assms(3)])
  then have "(if a < 10 then 48 + a else 55 + a) = (if b < 10 then 48 + b else 55 + b)"
    unfolding of_char_hex_digit [OF assms(1)] of_char_hex_digit [OF assms(2)] .
  then show ?thesis using assms(1,2) by (cases "a < 10"; cases "b < 10") simp_all
qed

lemma char_div16: "(of_char c :: nat) div 16 < 16"
proof -
  have "(of_char c :: nat) < 256" by (rule nat_of_char_less_256)
  then show ?thesis by (intro less_mult_imp_div_less) simp
qed

lemma escape_char_hd: "path_plain c \<Longrightarrow> c \<noteq> CHR ''%''"
  by (auto simp: path_plain_def)

lemma escape_char_inj:
  assumes "escape_char a @ s = escape_char b @ t"
  shows "a = b \<and> s = t"
proof (cases "path_plain a")
  case True
  then show ?thesis using assms escape_char_hd [of a]
    by (cases "path_plain b") (auto simp: escape_char_def Let_def)
next
  case False
  show ?thesis
  proof (cases "path_plain b")
    case True
    then show ?thesis using False assms escape_char_hd [of b] by (auto simp: escape_char_def Let_def)
  next
    case nb: False
    from False nb assms have
      "hex_digit (of_char a div 16) = hex_digit (of_char b div 16)"
      "hex_digit (of_char a mod 16) = hex_digit (of_char b mod 16)" "s = t"
      by (auto simp: escape_char_def Let_def)
    then have "of_char a div 16 = (of_char b div 16 :: nat)" "of_char a mod 16 = (of_char b mod 16 :: nat)"
      using char_div16 by (simp_all add: hex_digit_inj)
    then have "(of_char a :: nat) = of_char b" by (metis div_mult_mod_eq)
    then show ?thesis using \<open>s = t\<close> by simp
  qed
qed

lemma PathEscape_facts:
  "(PathEscape s = PathEscape t \<longleftrightarrow> s = t) \<and> CHR ''/'' \<notin> set (PathEscape s)"
proof -
  have "PathEscape s = PathEscape t \<Longrightarrow> s = t"
  proof (induction s arbitrary: t)
    case Nil
    then show ?case
      by (cases t) (auto simp: PathEscape_def escape_char_def Let_def split: if_splits)
  next
    case (Cons a s)
    obtain b t' where t: "t = b # t'"
      using Cons.prems by (cases t) (auto simp: PathEscape_def escape_char_def Let_def split: if_splits)
    with Cons.prems have "escape_char a @ PathEscape s = escape_char b @ PathEscape t'"
      by (simp add: PathEscape_def)
    then show ?case using escape_char_inj Cons.IH t by blast
  qed
  moreover have "CHR ''/'' \<notin> set (escape_char c)" for c
  proof -
    have "hex_digit d \<noteq> CHR ''/''" if "d < 16" for d
    proof
      assume "hex_digit d = CHR ''/''"
      then have "(of_char (hex_digit d) :: nat) = 47" by simp
      then show False using of_char_hex_digit [OF that] that by (simp split: if_splits)
    qed
    then have "hex_digit (of_char c div 16) \<noteq> CHR ''/''" "hex_digit (of_char c mod 16) \<noteq> CHR ''/''"
      using char_div16 by simp_all
    moreover have "path_plain c \<Longrightarrow> c \<noteq> CHR ''/''" by (auto simp: path_plain_def)
    ultimately show ?thesis by (auto simp: escape_char_def Let_def)
  qed
  ultimately show ?thesis by (auto simp: PathEscape_def)
qed

text \<open>
  Escaping an upstream id for a path or a storage key is faithful: two ids with one escaped form
  are the same id, and no escaped form contains a slash, so an id can neither leave its segment nor
  collide with another.
\<close>
theorem path_escape_faithful:
  "(PathEscape s = PathEscape t \<longleftrightarrow> s = t) \<and> CHR ''/'' \<notin> set (PathEscape s)"
  by (rule PathEscape_facts)

end
