(* ===== verification/OwnerTag.thy ===== *)
theory OwnerTag
  imports Storage
begin

text \<open>
  \<open>pkg/ownertag\<close>: the names of upstream credentials, which say what mount they belong to. The
  random bytes of a new instance id are an argument, already in hexadecimal.
\<close>

definition storageKey :: string where "storageKey = ''owner-instance-id''"

definition Base :: string where "Base = ''cloud-creds-''"

definition InstanceID ::
  "'w kv \<Rightarrow> (json \<Rightarrow> string) \<Rightarrow> string option \<Rightarrow> 'w \<Rightarrow> 'w \<times> (err + string)" where
  "InstanceID kv marshal random w =
     (case kget kv w storageKey of
        Inl e \<Rightarrow> (w, Inl (Wrap ''reading the owner instance id: '' e))
      | Inr entry \<Rightarrow>
          (case Option.bind entry
                  (\<lambda>b. if 0 < length (bytes marshal b) then Some (bytes marshal b) else None) of
             Some i \<Rightarrow> (w, Inr i)
           | None \<Rightarrow>
               (case random of
                  None \<Rightarrow> (w, Inl (Opaque ''generating an owner instance id''))
                | Some i \<Rightarrow>
                    (case kput kv w storageKey (Raw i) of
                       (w', Some e) \<Rightarrow> (w', Inl (Wrap ''persisting the owner instance id: '' e))
                     | (w', None) \<Rightarrow> (w', Inr i)))))"

definition Prefix :: "string \<Rightarrow> string" where
  "Prefix instanceID = Base @ instanceID @ ''-''"

definition CredentialName :: "string \<Rightarrow> string \<Rightarrow> string \<Rightarrow> string" where
  "CredentialName instanceID role requestID = Prefix instanceID @ role @ ''-'' @ requestID"

text \<open>The slices are in range on every path, as \<open>fit_name_slices\<close> below shows; \<open>take\<close> is Go's slice then.\<close>

definition FitName :: "string \<Rightarrow> string \<Rightarrow> string \<Rightarrow> int \<Rightarrow> string" where
  "FitName pre middle suf maxLen =
     (let assembled = pre @ middle @ ''-'' @ suf
      in if maxLen \<le> 0 \<or> int (length assembled) \<le> maxLen then assembled
         else let budget = maxLen - int (length pre) - int (length suf) - 1
              in if 0 < budget then pre @ take (nat budget) middle @ ''-'' @ suf
                 else if int (length pre) + int (length suf) \<le> maxLen then pre @ suf
                 else if maxLen > int (length pre) then pre @ take (nat (maxLen - int (length pre))) suf
                 else take (nat maxLen) pre)"

definition Owns :: "string \<Rightarrow> string \<Rightarrow> bool" where
  "Owns instanceID name = prefix (Prefix instanceID) name"

section \<open>Properties\<close>

lemma fit_name_slices:
  assumes "0 < maxLen" and "maxLen < int (length (pre @ middle @ ''-'' @ suf))"
  shows "maxLen - int (length pre) - int (length suf) - 1 \<le> int (length middle)"
    and "maxLen < int (length pre) + int (length suf) \<Longrightarrow> maxLen - int (length pre) \<le> int (length suf)"
    and "maxLen \<le> int (length pre) \<Longrightarrow> nat maxLen \<le> length pre"
  using assms by auto

lemma fit_name_keeps_ends_facts:
  assumes "0 < maxLen"
  shows "int (length (FitName pre middle suf maxLen)) \<le> maxLen"
    and "int (length pre) \<le> maxLen \<Longrightarrow> prefix pre (FitName pre middle suf maxLen)"
    and "int (length pre) + int (length suf) \<le> maxLen \<Longrightarrow> suffix suf (FitName pre middle suf maxLen)"
proof -
  show "int (length (FitName pre middle suf maxLen)) \<le> maxLen"
    using assms by (auto simp: FitName_def Let_def)
  show "int (length pre) \<le> maxLen \<Longrightarrow> prefix pre (FitName pre middle suf maxLen)"
    using assms by (auto simp: FitName_def Let_def)
  show "int (length pre) + int (length suf) \<le> maxLen \<Longrightarrow> suffix suf (FitName pre middle suf maxLen)"
    using assms by (auto simp: FitName_def Let_def suffix_def intro: exI [of _ "pre @ middle @ ''-''"])
qed

text \<open>
  A fitted name is never longer than the cloud allows; it starts with the owner prefix whenever
  the limit has room for the prefix, and ends with the discriminator whenever it has room for both,
  so a shortened name still belongs to its mount and still tells its leases apart.
\<close>
theorem fit_name_keeps_ends:
  assumes "0 < maxLen"
  shows "int (length (FitName pre middle suf maxLen)) \<le> maxLen
         \<and> (int (length pre) \<le> maxLen \<longrightarrow> prefix pre (FitName pre middle suf maxLen))
         \<and> (int (length pre) + int (length suf) \<le> maxLen \<longrightarrow> suffix suf (FitName pre middle suf maxLen))"
  using fit_name_keeps_ends_facts [OF assms] by blast

theorem fit_name_keeps_ends_witness:
  "int (length (FitName ''cloud-creds-ab-'' ''a-long-role-name'' ''req1'' 24)) \<le> 24
   \<and> FitName ''cloud-creds-ab-'' ''a-long-role-name'' ''req1'' 24 = ''cloud-creds-ab-a-lo-req1''
   \<and> suffix ''req1'' (FitName ''cloud-creds-ab-'' ''a-long-role-name'' ''req1'' 24)"
  using fit_name_keeps_ends [of 24 "''cloud-creds-ab-''" "''a-long-role-name''" "''req1''"]
  by (simp add: FitName_def suffix_to_prefix)

text \<open>
  Mounts are kept apart by name: a mount owns every name it gives a credential, and of two mounts
  whose instance ids are of one length, as the generated ones are, none owns a name of the other.
\<close>
theorem owner_names_disjoint:
  assumes "length i = length j"
  shows "Owns j (CredentialName i role request) \<longleftrightarrow> i = j"
proof -
  have "prefix (i @ r) (j @ s) \<Longrightarrow> i = j" for r s
    using assms by (auto simp: prefix_def)
  then show ?thesis
    using assms by (auto simp: Owns_def CredentialName_def Prefix_def Base_def prefix_def)
qed

theorem owner_names_disjoint_witness:
  "Owns ''00ff'' (CredentialName ''00ff'' ''r'' ''q'') \<and> \<not> Owns ''00fe'' (CredentialName ''00ff'' ''r'' ''q'')"
  using owner_names_disjoint [of "''00ff''" "''00ff''"] owner_names_disjoint [of "''00ff''" "''00fe''"] by simp

lemma InstanceID_world:
  "InstanceID kv marshal random w = (w', r) \<Longrightarrow> w' = w \<or> (\<exists>i e. kput kv w storageKey (Raw i) = (w', e))"
  by (auto simp: InstanceID_def split: sum.splits option.splits prod.splits)

text \<open>
  A mount's instance id never changes: once a call has answered with one, every later call on
  that storage answers with the same id and writes nothing, whatever the random source would say,
  or fails to read.
\<close>
theorem instance_id_stable:
  assumes "kv_store kv view" and "InstanceID kv marshal random w = (w', Inr i)"
    and "random = Some r" and "r \<noteq> []"
  shows "InstanceID kv marshal random' w' = (w', Inr i)
         \<or> (\<exists>e. InstanceID kv marshal random' w' = (w', Inl e))"
proof (cases "kget kv w' storageKey")
  case (Inl e)
  then show ?thesis by (simp add: InstanceID_def)
next
  case (Inr entry)
  then have entry: "entry = view w' storageKey" using kv_store.get_view [OF assms(1)] by simp
  obtain e0 where e0: "kget kv w storageKey = Inr e0"
    using assms(2) by (cases "kget kv w storageKey") (auto simp: InstanceID_def)
  then have v0: "e0 = view w storageKey" using kv_store.get_view [OF assms(1)] by simp
  consider b where "e0 = Some b" "bytes marshal b \<noteq> []" "w' = w" "i = bytes marshal b"
    | "kput kv w storageKey (Raw i) = (w', None)" "i = r"
    using assms(2,3) e0
    by (auto simp: InstanceID_def split: option.splits prod.splits if_splits bind_splits)
  then have "\<exists>b. entry = Some b \<and> bytes marshal b = i \<and> i \<noteq> []"
  proof cases
    case 1
    then show ?thesis using entry v0 by simp
  next
    case 2
    then show ?thesis using kv_store.put_ok [OF assms(1) 2(1)] entry assms(4) by simp
  qed
  then show ?thesis using Inr by (auto simp: InstanceID_def)
qed

theorem instance_id_stable_witness:
  "\<exists>w'. InstanceID mem_kv (\<lambda>_. []) (Some ''00ff'') ([], ()) = (w', Inr ''00ff'')
     \<and> InstanceID mem_kv (\<lambda>_. []) (Some ''1234'') w' = (w', Inr ''00ff'')"
proof -
  have w: "InstanceID mem_kv (\<lambda>_. []) (Some ''00ff'') ([], ()) =
      (([(storageKey, Raw ''00ff'')], ()), Inr ''00ff'')"
    by (simp add: InstanceID_def mem_kv_def)
  from instance_id_stable [OF mem.kv_store_axioms w refl, of "Some ''1234''"]
  have "InstanceID mem_kv (\<lambda>_. []) (Some ''1234'') ([(storageKey, Raw ''00ff'')], ()) =
      (([(storageKey, Raw ''00ff'')], ()), Inr ''00ff'')"
    by (simp add: InstanceID_def mem_kv_def)
  with w show ?thesis by blast
qed

end
