(* ===== verification/Reconciler.thy ===== *)
theory Reconciler
  imports Storage
begin

text \<open>
  \<open>pkg/reconciler\<close>: one pass over the upstream entities that carry this mount's owner tag, deleting
  those that no record of the mount accounts for. The cloud and the registry of owned ids are
  interfaces of the package, so they are arguments: a listing, an owned set and a delete over a
  world. Log lines are not modelled.
\<close>

section \<open>Entities and budgets\<close>

record entity =
  eID :: string
  eName :: string
  eCreatedAt :: time
  eExpiresAt :: time

datatype orphan_class = liveOrphan | inertOrphan

definition classify :: "time \<Rightarrow> entity \<Rightarrow> orphan_class" where
  "classify now e =
     (if \<not> IsZero (eExpiresAt e) \<and> eExpiresAt e < now then inertOrphan else liveOrphan)"

text \<open>A string is a \<open>JTime\<close> exactly when \<open>time.Parse(time.RFC3339, _)\<close> accepts it.\<close>

definition ParseCreatedAt :: "json \<Rightarrow> time" where
  "ParseCreatedAt s = (case s of JTime ts \<Rightarrow> ts | _ \<Rightarrow> zero_time)"

record budget =
  blimit :: int
  blive :: int
  binert :: int

definition claim :: "orphan_class \<Rightarrow> budget \<Rightarrow> bool \<times> budget" where
  "claim cl b =
     (case cl of
        inertOrphan \<Rightarrow>
          if binert b \<ge> blimit b then (False, b) else (True, b \<lparr> binert := binert b + 1 \<rparr>)
      | liveOrphan \<Rightarrow>
          if blive b \<ge> blimit b then (False, b) else (True, b \<lparr> blive := blive b + 1 \<rparr>))"

definition MinConfirmationHold :: duration where "MinConfirmationHold = 5 * minute"
definition WorkerConfirmationHold :: duration where "WorkerConfirmationHold = hour"

record rconfig =
  rcMaxDeletesPerPass :: int
  rcConfirmationHold :: duration
  rcDryRun :: bool

record rresult =
  Scanned :: nat
  OrphansFound :: "string list"
  Deleted :: nat
  HitLimit :: bool
  Expired :: nat
  Errors :: "string list"

record 'w cloud_lister =
  ListTaggedEntities :: "'w \<Rightarrow> err + entity list"
  DeleteEntity :: "'w \<Rightarrow> string \<Rightarrow> 'w \<times> err option"

section \<open>A pass\<close>

text \<open>An entity that the pass leaves alone although nothing owns it: its age is not confirmed.\<close>

definition too_young :: "rconfig \<Rightarrow> time \<Rightarrow> entity \<Rightarrow> bool" where
  "too_young cfg now e \<longleftrightarrow>
     rcConfirmationHold cfg > 0
     \<and> (IsZero (eCreatedAt e) \<or> now - eCreatedAt e < rcConfirmationHold cfg)"

fun run_entities ::
  "rconfig \<Rightarrow> 'w cloud_lister \<Rightarrow> string set \<Rightarrow> time \<Rightarrow> 'w \<Rightarrow> budget \<Rightarrow> rresult \<Rightarrow> entity list \<Rightarrow> 'w \<times> rresult" where
  "run_entities cfg cloud owned now w b res [] = (w, res)"
| "run_entities cfg cloud owned now w b res (e # es) =
     (if eID e \<in> owned then run_entities cfg cloud owned now w b res es
      else if too_young cfg now e then run_entities cfg cloud owned now w b res es
      else
        let res = res \<lparr> OrphansFound := OrphansFound res @ [eID e] \<rparr>
        in if rcDryRun cfg then run_entities cfg cloud owned now w b res es
           else
             let cl = classify now e
             in case claim cl b of
                  (False, b) \<Rightarrow>
                    run_entities cfg cloud owned now w b (res \<lparr> HitLimit := True \<rparr>) es
                | (True, b) \<Rightarrow>
                    (case DeleteEntity cloud w (eID e) of
                       (w, Some _) \<Rightarrow>
                         run_entities cfg cloud owned now w b
                           (res \<lparr> Errors := Errors res @ [eID e] \<rparr>) es
                     | (w, None) \<Rightarrow>
                         run_entities cfg cloud owned now w b
                           (res \<lparr> Deleted := Deleted res + 1,
                                  Expired := (if cl = inertOrphan then Expired res + 1 else Expired res) \<rparr>) es))"

definition Run ::
  "rconfig \<Rightarrow> 'w cloud_lister \<Rightarrow> ('w \<Rightarrow> err + string set) \<Rightarrow> time \<Rightarrow> 'w \<Rightarrow> 'w \<times> (err + rresult)" where
  "Run cfg cloud OwnedIDs now w =
     (case ListTaggedEntities cloud w of
        Inl e \<Rightarrow> (w, Inl e)
      | Inr entities \<Rightarrow>
          (case OwnedIDs w of
             Inl e \<Rightarrow> (w, Inl e)
           | Inr owned \<Rightarrow>
               (let (w', res) = run_entities cfg cloud owned now w
                      \<lparr> blimit = rcMaxDeletesPerPass cfg, blive = 0, binert = 0 \<rparr>
                      \<lparr> Scanned = length entities, OrphansFound = [], Deleted = 0, HitLimit = False,
                        Expired = 0, Errors = [] \<rparr> entities
                in (w', Inr res))))"

section \<open>What a pass deletes\<close>

definition orphans :: "rconfig \<Rightarrow> string set \<Rightarrow> time \<Rightarrow> entity list \<Rightarrow> entity list" where
  "orphans cfg owned now es = filter (\<lambda>e. eID e \<notin> owned \<and> \<not> too_young cfg now e) es"

text \<open>The orphans a budget pays for, in order, and the world after deleting a list of ids.\<close>

fun funded :: "time \<Rightarrow> budget \<Rightarrow> entity list \<Rightarrow> entity list" where
  "funded now b [] = []"
| "funded now b (e # es) =
     (case claim (classify now e) b of
        (True, b) \<Rightarrow> e # funded now b es
      | (False, b) \<Rightarrow> funded now b es)"

fun delete_all :: "('w \<Rightarrow> string \<Rightarrow> 'w \<times> err option) \<Rightarrow> 'w \<Rightarrow> string list \<Rightarrow> 'w \<times> nat" where
  "delete_all del w [] = (w, 0)"
| "delete_all del w (i # is) =
     (let (w1, r) = del w i; (w2, n) = delete_all del w1 is
      in (w2, (if r = None then 1 else 0) + n))"

lemma run_entities_spec:
  assumes "\<not> rcDryRun cfg"
  shows "\<exists>n. delete_all (DeleteEntity cloud) w (map eID (funded now b (orphans cfg owned now es)))
           = (fst (run_entities cfg cloud owned now w b res es), n)
         \<and> Deleted (snd (run_entities cfg cloud owned now w b res es)) = Deleted res + n
         \<and> length (Errors (snd (run_entities cfg cloud owned now w b res es))) + n =
             length (Errors res) + length (funded now b (orphans cfg owned now es))
         \<and> OrphansFound (snd (run_entities cfg cloud owned now w b res es)) =
             OrphansFound res @ map eID (orphans cfg owned now es)"
  using assms
proof (induction es arbitrary: w b res)
  case Nil
  then show ?case by (simp add: orphans_def)
next
  case (Cons e es)
  note IH = Cons.IH [OF Cons.prems]
  show ?case
  proof (cases "eID e \<in> owned \<or> too_young cfg now e")
    case True
    then have "orphans cfg owned now (e # es) = orphans cfg owned now es" by (auto simp: orphans_def)
    then show ?thesis using True IH [of w b res] by auto
  next
    case False
    then have o: "orphans cfg owned now (e # es) = e # orphans cfg owned now es"
      by (auto simp: orphans_def)
    obtain g b' where c: "claim (classify now e) b = (g, b')" by force
    let ?res = "res \<lparr> OrphansFound := OrphansFound res @ [eID e] \<rparr>"
    show ?thesis
    proof (cases g)
      case True
      obtain w1 r where d: "DeleteEntity cloud w (eID e) = (w1, r)" by force
      show ?thesis
      proof (cases r)
        case None
        show ?thesis
          using IH [of w1 b' "?res \<lparr> Deleted := Deleted res + 1,
              Expired := (if classify now e = inertOrphan then Expired res + 1 else Expired res) \<rparr>"]
            False Cons.prems c True d None o
          by (auto simp: Let_def)
      next
        case (Some x)
        show ?thesis
          using IH [of w1 b' "?res \<lparr> Errors := Errors res @ [eID e] \<rparr>"] False Cons.prems c True d Some o
          by (auto simp: Let_def)
      qed
    next
      case g: False
      show ?thesis
        using IH [of w b' "?res \<lparr> HitLimit := True \<rparr>"] False Cons.prems c g o
        by (auto simp: Let_def)
    qed
  qed
qed

lemma run_entities_dry:
  assumes "rcDryRun cfg"
  shows "run_entities cfg cloud owned now w b res es =
           (w, res \<lparr> OrphansFound := OrphansFound res @ map eID (orphans cfg owned now es) \<rparr>)"
  using assms by (induction es arbitrary: res) (auto simp: orphans_def Let_def)

lemma nat_step: "x < l \<Longrightarrow> nat (l - x) = Suc (nat (l - (x + 1)))" for x l :: int
  by simp

lemma funded_live:
  "filter (\<lambda>e. classify now e = liveOrphan) (funded now b es) =
     take (nat (blimit b - blive b)) (filter (\<lambda>e. classify now e = liveOrphan) es)"
proof (induction es arbitrary: b)
  case (Cons e es)
  show ?case
    using Cons.IH [of b] Cons.IH [of "b \<lparr> binert := binert b + 1 \<rparr>"]
      Cons.IH [of "b \<lparr> blive := blive b + 1 \<rparr>"]
    by (cases "classify now e") (auto simp: claim_def nat_step not_le)
qed simp

lemma funded_inert:
  "filter (\<lambda>e. classify now e = inertOrphan) (funded now b es) =
     take (nat (blimit b - binert b)) (filter (\<lambda>e. classify now e = inertOrphan) es)"
proof (induction es arbitrary: b)
  case (Cons e es)
  show ?case
    using Cons.IH [of b] Cons.IH [of "b \<lparr> binert := binert b + 1 \<rparr>"]
      Cons.IH [of "b \<lparr> blive := blive b + 1 \<rparr>"]
    by (cases "classify now e") (auto simp: claim_def nat_step not_le)
qed simp

lemma funded_length:
  "length (funded now b es) \<le> nat (blimit b - blive b) + nat (blimit b - binert b)"
proof -
  have "length xs = length (filter (\<lambda>e. classify now e = liveOrphan) xs)
      + length (filter (\<lambda>e. classify now e = inertOrphan) xs)" for xs
  proof -
    have "(\<lambda>e. classify now e = inertOrphan) = (\<lambda>e. \<not> classify now e = liveOrphan)"
    proof (rule ext)
      fix e
      show "(classify now e = inertOrphan) = (\<not> classify now e = liveOrphan)"
        by (cases "classify now e") simp_all
    qed
    then show ?thesis using sum_length_filter_compl [of "\<lambda>e. classify now e = liveOrphan" xs] by simp
  qed
  from this [of "funded now b es"] show ?thesis
    unfolding funded_live funded_inert by (simp add: add_mono)
qed

lemma funded_subset: "set (funded now b es) \<subseteq> set es"
proof (induction es arbitrary: b)
  case (Cons e es)
  obtain g b' where c: "claim (classify now e) b = (g, b')" by force
  then show ?case using Cons.IH [of b'] by (cases g) auto
qed simp

text \<open>
  C4. What a pass deletes, exactly: of the entities nothing owns and whose age is confirmed, in the
  order of the listing, the first \<open>max_deletes_per_pass\<close> that can still be used and, on a budget of
  their own, the first so many that have expired. Expired ones never take the place of live ones.
\<close>
theorem reconcile_pass_spec:
  assumes "ListTaggedEntities cloud w = Inr es" and "OwnedIDs w = Inr owned" and "\<not> rcDryRun cfg"
  shows "\<exists>chosen w' n res. Run cfg cloud OwnedIDs now w = (w', Inr res)
     \<and> delete_all (DeleteEntity cloud) w (map eID chosen) = (w', n)
     \<and> OrphansFound res = map eID (orphans cfg owned now es)
     \<and> Deleted res = n \<and> Deleted res + length (Errors res) = length chosen
     \<and> set chosen \<subseteq> set (orphans cfg owned now es)
     \<and> (\<forall>cl. filter (\<lambda>e. classify now e = cl) chosen =
           take (nat (rcMaxDeletesPerPass cfg))
             (filter (\<lambda>e. classify now e = cl) (orphans cfg owned now es)))"
proof -
  let ?b = "\<lparr> blimit = rcMaxDeletesPerPass cfg, blive = 0, binert = 0 \<rparr>"
  let ?r = "\<lparr> Scanned = length es, OrphansFound = [], Deleted = 0, HitLimit = False, Expired = 0, Errors = [] \<rparr>"
  let ?o = "orphans cfg owned now es"
  obtain w' res where r: "run_entities cfg cloud owned now w ?b ?r es = (w', res)" by force
  then have run: "Run cfg cloud OwnedIDs now w = (w', Inr res)" by (simp add: Run_def assms(1,2))
  obtain n where "delete_all (DeleteEntity cloud) w (map eID (funded now ?b ?o)) = (w', n)"
    "Deleted res = n" "length (Errors res) + n = length (funded now ?b ?o)" "OrphansFound res = map eID ?o"
    using run_entities_spec [OF assms(3), of cloud w now ?b owned es ?r] r by auto
  moreover have "filter (\<lambda>e. classify now e = cl) (funded now ?b ?o) =
      take (nat (rcMaxDeletesPerPass cfg)) (filter (\<lambda>e. classify now e = cl) ?o)" for cl
    using funded_live [of now ?b ?o] funded_inert [of now ?b ?o] by (cases cl) simp_all
  ultimately show ?thesis
    using run funded_subset [of now ?b ?o]
    by (intro exI [of _ "funded now ?b ?o"] exI [of _ w'] exI [of _ n] exI [of _ res]) simp
qed

text \<open>
  What the cloud side promises: a delete of one id, answered with success or failure, makes nothing
  disappear but that id and brings nothing into being.
\<close>

definition deletes_only ::
  "('w \<Rightarrow> string set) \<Rightarrow> ('w \<Rightarrow> string \<Rightarrow> 'w \<times> err option) \<Rightarrow> bool" where
  "deletes_only alive del \<longleftrightarrow>
     (\<forall>w i w' r. del w i = (w', r) \<longrightarrow> alive w - {i} \<subseteq> alive w' \<and> alive w' \<subseteq> alive w)"

lemma delete_all_alive:
  assumes "deletes_only alive del" and "delete_all del w is = (w', n)"
  shows "alive w - set is \<subseteq> alive w' \<and> alive w' \<subseteq> alive w"
  using assms(2)
proof (induction "is" arbitrary: w n)
  case (Cons i "is")
  obtain w1 r m where s: "del w i = (w1, r)" "delete_all del w1 is = (w', m)"
    using Cons.prems by (auto split: prod.splits)
  have "alive w - {i} \<subseteq> alive w1 \<and> alive w1 \<subseteq> alive w"
    using assms(1) s(1) unfolding deletes_only_def by blast
  then show ?case using Cons.IH [OF s(2)] by auto
qed simp

text \<open>Every pass is one of two things: it leaves the world alone, or it deletes a list of orphans in turn.\<close>

lemma run_deletes [consumes 1, case_names untouched deleted]:
  assumes "Run cfg cloud OwnedIDs now w = (w', r)"
  obtains "w' = w"
  | es owned chosen n where "ListTaggedEntities cloud w = Inr es" "OwnedIDs w = Inr owned" "\<not> rcDryRun cfg"
      "delete_all (DeleteEntity cloud) w (map eID chosen) = (w', n)"
      "length chosen \<le> 2 * nat (rcMaxDeletesPerPass cfg)"
      "\<forall>e \<in> set chosen. e \<in> set es \<and> eID e \<notin> owned
         \<and> (0 < rcConfirmationHold cfg \<longrightarrow> eCreatedAt e \<noteq> 0 \<and> rcConfirmationHold cfg \<le> now - eCreatedAt e)"
proof (cases "\<exists>es owned. ListTaggedEntities cloud w = Inr es \<and> OwnedIDs w = Inr owned \<and> \<not> rcDryRun cfg")
  case False
  then have "w' = w"
    using assms by (auto simp: Run_def run_entities_dry split: sum.splits)
  then show thesis by (rule that(1))
next
  case True
  then obtain es owned where es: "ListTaggedEntities cloud w = Inr es" "OwnedIDs w = Inr owned"
    and nd: "\<not> rcDryRun cfg" by blast
  let ?b = "\<lparr> blimit = rcMaxDeletesPerPass cfg, blive = 0, binert = 0 \<rparr>"
  let ?r = "\<lparr> Scanned = length es, OrphansFound = [], Deleted = 0, HitLimit = False, Expired = 0, Errors = [] \<rparr>"
  let ?c = "funded now ?b (orphans cfg owned now es)"
  obtain n where d: "delete_all (DeleteEntity cloud) w (map eID ?c) = (w', n)"
    using run_entities_spec [OF nd, of cloud w now ?b owned es ?r] assms es
    by (auto simp: Run_def split: prod.splits)
  have "length ?c \<le> 2 * nat (rcMaxDeletesPerPass cfg)"
    using funded_length [of now ?b "orphans cfg owned now es"] by simp
  moreover have "\<forall>e \<in> set ?c. e \<in> set es \<and> eID e \<notin> owned
         \<and> (0 < rcConfirmationHold cfg \<longrightarrow> eCreatedAt e \<noteq> 0 \<and> rcConfirmationHold cfg \<le> now - eCreatedAt e)"
    using funded_subset [of now ?b "orphans cfg owned now es"] by (auto simp: orphans_def too_young_def)
  ultimately show thesis by (rule that(2) [OF es nd d])
qed

text \<open>
  C3. A pass is safe: whatever the cloud lists and however its deletes fare, an upstream credential
  that was there and is gone afterwards was listed, is owned by no record of the mount, and, with a
  confirmation hold, has a known creation time at least that long ago; at most twice the configured
  number go; a dry run, an unreadable owned set or a failed listing deletes none.
\<close>
theorem reconcile_safe:
  assumes "deletes_only alive (DeleteEntity cloud)" and "Run cfg cloud OwnedIDs now w = (w', r)"
  shows "(\<forall>i \<in> alive w - alive w'. \<exists>es owned e. ListTaggedEntities cloud w = Inr es \<and> OwnedIDs w = Inr owned
           \<and> e \<in> set es \<and> eID e = i \<and> i \<notin> owned \<and> \<not> rcDryRun cfg
           \<and> (0 < rcConfirmationHold cfg \<longrightarrow> eCreatedAt e \<noteq> 0 \<and> rcConfirmationHold cfg \<le> now - eCreatedAt e))
         \<and> card (alive w - alive w') \<le> 2 * nat (rcMaxDeletesPerPass cfg)"
  using assms(2)
proof (cases rule: run_deletes)
  case untouched
  then show ?thesis by simp
next
  case (deleted es owned chosen n)
  have gone: "alive w - alive w' \<subseteq> eID ` set chosen"
    using delete_all_alive [OF assms(1) deleted(4)] by fastforce
  have "card (alive w - alive w') \<le> length chosen"
    using card_mono [OF _ gone] card_image_le [of "set chosen" eID] card_length [of chosen] by fastforce
  then have "card (alive w - alive w') \<le> 2 * nat (rcMaxDeletesPerPass cfg)" using deleted(5) by simp
  then show ?thesis using deleted(1-3,6) gone by (fastforce simp: subset_iff image_iff)
qed

text \<open>A cloud of four keys, for concrete runs: the world is the list of ids that exist.\<close>

definition four_keys :: "entity list" where
  "four_keys =
     [\<lparr> eID = ''old'', eName = [], eCreatedAt = 1, eExpiresAt = 2 \<rparr>,
      \<lparr> eID = ''leased'', eName = [], eCreatedAt = 1, eExpiresAt = 0 \<rparr>,
      \<lparr> eID = ''lost'', eName = [], eCreatedAt = 1, eExpiresAt = 0 \<rparr>,
      \<lparr> eID = ''new'', eName = [], eCreatedAt = 7 * hour, eExpiresAt = 0 \<rparr>]"

definition list_cloud :: "string list cloud_lister" where
  "list_cloud =
     \<lparr> ListTaggedEntities = (\<lambda>w. Inr (filter (\<lambda>e. eID e \<in> set w) four_keys)),
       DeleteEntity = (\<lambda>w i. (filter (\<lambda>x. x \<noteq> i) w, None)) \<rparr>"

lemma list_cloud_deletes_only: "deletes_only set (DeleteEntity list_cloud)"
  by (auto simp: deletes_only_def list_cloud_def)

definition hourly :: rconfig where
  "hourly = \<lparr> rcMaxDeletesPerPass = 1, rcConfirmationHold = hour, rcDryRun = False \<rparr>"

lemma hourly_run:
  "\<exists>res. Run hourly list_cloud (\<lambda>_. Inr {''leased''}) (7 * hour + 1) [''old'', ''leased'', ''lost'', ''new''] =
     ([''leased'', ''new''], Inr res) \<and> Deleted res = 2 \<and> Expired res = 1"
  by (simp add: Run_def hourly_def list_cloud_def four_keys_def too_young_def classify_def claim_def
      duration_defs Let_def)

theorem reconcile_safe_witness:
  "\<exists>w' r. Run hourly list_cloud (\<lambda>_. Inr {''leased''}) (7 * hour + 1) [''old'', ''leased'', ''lost'', ''new''] =
     (w', r) \<and> set w' = {''leased'', ''new''}
     \<and> card ({''old'', ''leased'', ''lost'', ''new''} - set w') \<le> 2"
proof -
  obtain res where r: "Run hourly list_cloud (\<lambda>_. Inr {''leased''}) (7 * hour + 1)
      [''old'', ''leased'', ''lost'', ''new''] = ([''leased'', ''new''], Inr res)"
    using hourly_run by blast
  from reconcile_safe [OF list_cloud_deletes_only r, THEN conjunct2] show ?thesis
    using r by (intro exI [of _ "[''leased'', ''new'']"] exI [of _ "Inr res"]) (simp add: hourly_def)
qed

theorem reconcile_pass_spec_witness:
  "\<exists>w' res. Run hourly list_cloud (\<lambda>_. Inr {''leased''}) (7 * hour + 1) [''old'', ''leased'', ''lost'', ''new''] =
     (w', Inr res) \<and> OrphansFound res = [''old'', ''lost'']"
  using reconcile_pass_spec [of list_cloud "[''old'', ''leased'', ''lost'', ''new'']" four_keys
      "\<lambda>_. Inr {''leased''}" "{''leased''}" hourly "7 * hour + 1"]
  by (auto simp: list_cloud_def four_keys_def hourly_def orphans_def too_young_def duration_defs)

end
