(* ===== verification/Purge.thy ===== *)
theory Purge
  imports MinterSets
begin

text \<open>
  \<open>pkg/upstreampurge\<close>: deleting upstream what one role has issued, from the mount's tracking
  records, as a durable intent and bounded passes. A plugin's deleter is an argument over the same
  world as the storage, and so is the resolution of a role to its tracking prefix and deleter.
\<close>

section \<open>Records and intents\<close>

definition PurgePrefix :: string where "PurgePrefix = ''purge/''"

definition ErrThrottled :: err where "ErrThrottled = Sentinel ''upstream is rate-limiting us''"

definition Outcome :: "int \<Rightarrow> err option \<Rightarrow> err option" where
  "Outcome status e =
     (if e = None \<or> status = 404 then None
      else if status = 429 then Some ErrThrottled
      else e)"

record tracked =
  tID :: string
  tRole :: string
  tMinter :: string
  tCreated :: time
  tFields :: json

type_synonym 'w deleter = "'w \<Rightarrow> tracked \<Rightarrow> 'w \<times> err option"

record purge_config =
  pcPrefix :: string
  pcRole :: string
  pcCutoff :: time
  pcMaxDeletes :: int

record purge_result =
  Tracked :: int
  PurgeDeleted :: int
  Failed :: int
  Remaining :: int
  Throttled :: bool

definition DefaultMaxDeletes :: int where "DefaultMaxDeletes = 50"

definition zero_result :: purge_result where
  "zero_result = \<lparr> Tracked = 0, PurgeDeleted = 0, Failed = 0, Remaining = 0, Throttled = False \<rparr>"

definition Complete :: "purge_result \<Rightarrow> bool" where
  "Complete r \<longleftrightarrow> Remaining r = 0"

record intent =
  iRole :: string
  iArmedAt :: time
  iCutoff :: time
  iTracked :: int
  iDeleted :: int
  iFailed :: int
  iComplete :: bool

section \<open>Scanning\<close>

definition str_field :: "json \<Rightarrow> string \<Rightarrow> string" where
  "str_field d k = (case field d k of Some (JStr s) \<Rightarrow> s | _ \<Rightarrow> [])"

definition recordCreated :: "json \<Rightarrow> time" where
  "recordCreated d = (case field d ''created'' of Some (JTime t) \<Rightarrow> t | _ \<Rightarrow> zero_time)"

text \<open>The record an entry makes when it is in scope.\<close>

definition scan_entry :: "string \<Rightarrow> time \<Rightarrow> string \<Rightarrow> blob \<Rightarrow> tracked option" where
  "scan_entry role cutoff i b =
     (case b of
        Raw _ \<Rightarrow> None
      | Json d \<Rightarrow>
          if \<not> is_object d then None
          else if str_field d ''role'' \<noteq> role then None
          else let created = recordCreated d
               in if \<not> IsZero created \<and> created > cutoff then None
                  else Some \<lparr> tID = i, tRole = role, tMinter = str_field d ''minter'',
                              tCreated = created, tFields = d \<rparr>)"

fun scan_ids ::
  "'w kv \<Rightarrow> 'w \<Rightarrow> string \<Rightarrow> string \<Rightarrow> time \<Rightarrow> tracked list \<Rightarrow> string list \<Rightarrow> err + tracked list" where
  "scan_ids kv w pre role cutoff acc [] = Inr acc"
| "scan_ids kv w pre role cutoff acc (i # is) =
     (case kget kv w (pre @ i) of
        Inl e \<Rightarrow> Inl (Wrap ''reading: '' e)
      | Inr None \<Rightarrow> scan_ids kv w pre role cutoff acc is
      | Inr (Some b) \<Rightarrow>
          (case scan_entry role cutoff i b of
             None \<Rightarrow> scan_ids kv w pre role cutoff acc is
           | Some r \<Rightarrow> scan_ids kv w pre role cutoff (acc @ [r]) is))"

definition Scan :: "'w kv \<Rightarrow> 'w \<Rightarrow> string \<Rightarrow> string \<Rightarrow> time \<Rightarrow> err + tracked list" where
  "Scan kv w pre role cutoff =
     (case klist kv w pre of
        Inl e \<Rightarrow> Inl (Wrap ''listing: '' e)
      | Inr ids \<Rightarrow> scan_ids kv w pre role cutoff [] (sort ids))"

section \<open>Passes\<close>

definition is_throttled :: "err \<Rightarrow> bool" where
  "is_throttled e \<longleftrightarrow> leaf e = ErrThrottled"

fun pass_records ::
  "'w kv \<Rightarrow> string \<Rightarrow> int \<Rightarrow> 'w deleter \<Rightarrow> 'w \<Rightarrow> purge_result \<Rightarrow> tracked list
     \<Rightarrow> 'w \<times> purge_result \<times> err option" where
  "pass_records kv pre budget del w res [] = (w, res, None)"
| "pass_records kv pre budget del w res (r # rs) =
     (if PurgeDeleted res + Failed res \<ge> budget then (w, res, None)
      else case del w r of
        (w, Some e) \<Rightarrow>
          if is_throttled e then (w, res \<lparr> Throttled := True \<rparr>, None)
          else pass_records kv pre budget del w (res \<lparr> Failed := Failed res + 1 \<rparr>) rs
      | (w, None) \<Rightarrow>
          (case kdel kv w (pre @ tID r) of
             (w, Some e) \<Rightarrow> (w, res, Some (Wrap ''deleting: '' e))
           | (w, None) \<Rightarrow>
               pass_records kv pre budget del w (res \<lparr> PurgeDeleted := PurgeDeleted res + 1 \<rparr>) rs))"

text \<open>A pass answers with its result and an error; the result counts what was done before an error.\<close>

definition Pass ::
  "'w kv \<Rightarrow> purge_config \<Rightarrow> 'w deleter \<Rightarrow> 'w \<Rightarrow> 'w \<times> purge_result \<times> err option" where
  "Pass kv cfg del w =
     (case Scan kv w (pcPrefix cfg) (pcRole cfg) (pcCutoff cfg) of
        Inl e \<Rightarrow> (w, zero_result, Some e)
      | Inr records \<Rightarrow>
          let budget = (if pcMaxDeletes cfg \<le> 0 then DefaultMaxDeletes else pcMaxDeletes cfg)
          in case pass_records kv (pcPrefix cfg) budget del w
                    (zero_result \<lparr> Tracked := int (length records) \<rparr>) records of
               (w, res, Some e) \<Rightarrow> (w, res, Some e)
             | (w, res, None) \<Rightarrow> (w, res \<lparr> Remaining := Tracked res - PurgeDeleted res \<rparr>, None))"

section \<open>Intents\<close>

definition enc_intent :: "intent \<Rightarrow> blob" where
  "enc_intent i =
     Json (JObj [(''role'', JStr (iRole i)), (''armed_at'', JTime (iArmedAt i)),
       (''cutoff'', JTime (iCutoff i)), (''tracked'', JInt (iTracked i)),
       (''deleted'', JInt (iDeleted i)), (''failed'', JInt (iFailed i)),
       (''complete'', JBool (iComplete i))])"

definition dec_intent :: "blob \<Rightarrow> intent option" where
  "dec_intent b =
     (case b of
        Raw _ \<Rightarrow> None
      | Json d \<Rightarrow>
          if \<not> is_object d then None
          else case (opt_field [] dec_str d ''role'', opt_field 0 dec_time d ''armed_at'',
                     opt_field 0 dec_time d ''cutoff'', opt_field 0 dec_int d ''tracked'',
                     opt_field 0 dec_int d ''deleted'', opt_field 0 dec_int d ''failed'',
                     opt_field False dec_bool d ''complete'') of
            (Some r, Some a, Some c, Some t, Some dl, Some f, Some cp) \<Rightarrow>
              Some \<lparr> iRole = r, iArmedAt = a, iCutoff = c, iTracked = t, iDeleted = dl,
                     iFailed = f, iComplete = cp \<rparr>
          | _ \<Rightarrow> None)"

definition SaveIntent :: "'w kv \<Rightarrow> intent \<Rightarrow> 'w \<Rightarrow> 'w \<times> err option" where
  "SaveIntent kv i w =
     (case kput kv w (PurgePrefix @ iRole i) (enc_intent i) of
        (w', None) \<Rightarrow> (w', None)
      | (w', Some e) \<Rightarrow> (w', Some (Wrap ''storing the purge intent: '' e)))"

definition LoadIntent :: "'w kv \<Rightarrow> 'w \<Rightarrow> string \<Rightarrow> err + intent option" where
  "LoadIntent kv w role =
     (case kget kv w (PurgePrefix @ role) of
        Inl e \<Rightarrow> Inl (Wrap ''reading the purge intent: '' e)
      | Inr None \<Rightarrow> Inr None
      | Inr (Some b) \<Rightarrow>
          (case dec_intent b of
             None \<Rightarrow> Inl (Opaque ''parsing the purge intent'')
           | Some i \<Rightarrow> Inr (Some i)))"

definition ArmedRoles :: "'w kv \<Rightarrow> 'w \<Rightarrow> err + string list" where
  "ArmedRoles kv w =
     (case klist kv w PurgePrefix of
        Inl e \<Rightarrow> Inl (Wrap ''listing purge intents: '' e)
      | Inr roles \<Rightarrow> Inr roles)"

definition Arm :: "'w kv \<Rightarrow> string \<Rightarrow> string \<Rightarrow> time \<Rightarrow> 'w \<Rightarrow> 'w \<times> (err + intent)" where
  "Arm kv pre role now w =
     (let cutoff = now
      in case Scan kv w pre role cutoff of
           Inl e \<Rightarrow> (w, Inl e)
         | Inr records \<Rightarrow>
             let i = \<lparr> iRole = role, iArmedAt = cutoff, iCutoff = cutoff,
                       iTracked = int (length records), iDeleted = 0, iFailed = 0,
                       iComplete = (length records = 0) \<rparr>
             in case SaveIntent kv i w of
                  (w', Some e) \<Rightarrow> (w', Inl e)
                | (w', None) \<Rightarrow> (w', Inr i))"

text \<open>\<open>Advance\<close> changes the intent in place: the intent after it is part of the answer.\<close>

definition Advance ::
  "'w kv \<Rightarrow> string \<Rightarrow> int \<Rightarrow> 'w deleter \<Rightarrow> intent \<Rightarrow> 'w \<Rightarrow> 'w \<times> intent \<times> purge_result \<times> err option" where
  "Advance kv pre maxDeletes del i w =
     (if iComplete i then (w, i, zero_result, None)
      else case Pass kv \<lparr> pcPrefix = pre, pcRole = iRole i, pcCutoff = iCutoff i,
                          pcMaxDeletes = maxDeletes \<rparr> del w of
        (w, res, Some e) \<Rightarrow> (w, i, res, Some e)
      | (w, res, None) \<Rightarrow>
          let i = i \<lparr> iDeleted := iDeleted i + PurgeDeleted res, iFailed := Failed res,
                      iComplete := Complete res \<rparr>
          in case SaveIntent kv i w of
               (w, Some e) \<Rightarrow> (w, i, res, Some e)
             | (w, None) \<Rightarrow> (w, i, res, None))"

section \<open>Reports and the endpoint\<close>

record report =
  repRole :: string
  repArmed :: bool
  repCutoff :: "time option"
  repTracked :: int
  repDeleted :: int
  repRemaining :: int
  repFailed :: int
  repComplete :: bool

definition Report :: "intent \<Rightarrow> int \<Rightarrow> report" where
  "Report i remaining =
     \<lparr> repRole = iRole i, repArmed = (\<not> iComplete i), repCutoff = Some (rfc3339 (iCutoff i)),
       repTracked = iTracked i, repDeleted = iDeleted i, repRemaining = remaining,
       repFailed = iFailed i, repComplete = iComplete i \<rparr>"

definition NoIntentReport :: "string \<Rightarrow> report" where
  "NoIntentReport role =
     \<lparr> repRole = role, repArmed = False, repCutoff = None, repTracked = 0, repDeleted = 0,
       repRemaining = 0, repFailed = 0, repComplete = False \<rparr>"

definition DryRunReport :: "string \<Rightarrow> time \<Rightarrow> int \<Rightarrow> report" where
  "DryRunReport role cutoff tracked =
     \<lparr> repRole = role, repArmed = False, repCutoff = Some (rfc3339 cutoff), repTracked = tracked,
       repDeleted = 0, repRemaining = tracked, repFailed = 0, repComplete = False \<rparr>"

definition Progress :: "'w kv \<Rightarrow> 'w \<Rightarrow> string \<Rightarrow> string \<Rightarrow> err + report" where
  "Progress kv w pre role =
     (case LoadIntent kv w role of
        Inl e \<Rightarrow> Inl e
      | Inr None \<Rightarrow> Inr (NoIntentReport role)
      | Inr (Some i) \<Rightarrow>
          (case Scan kv w pre role (iCutoff i) of
             Inl e \<Rightarrow> Inl e
           | Inr records \<Rightarrow> Inr (Report i (int (length records)))))"

text \<open>An endpoint: the pace, and a role's target or the code it is refused with.\<close>

record 'w endpoint =
  MaxDeletes :: int
  Resolve :: "'w \<Rightarrow> string \<Rightarrow> code + string \<times> 'w deleter"

definition purge_write ::
  "'w kv \<Rightarrow> 'w endpoint \<Rightarrow> string \<Rightarrow> string \<Rightarrow> time \<Rightarrow> 'w \<Rightarrow> 'w \<times> (code + report)" where
  "purge_write kv ep role mode now w =
     (if mode \<noteq> ''normal'' \<and> mode \<noteq> ''dry_run'' then (w, Inl ErrConfigInvalid)
      else case Resolve ep w role of
        Inl c \<Rightarrow> (w, Inl c)
      | Inr (pre, del) \<Rightarrow>
          if mode = ''dry_run'' then
            (case Scan kv w pre role now of
               Inl e \<Rightarrow> (w, Inl ErrInternal)
             | Inr records \<Rightarrow> (w, Inr (DryRunReport role now (int (length records)))))
          else
            (case Arm kv pre role now w of
               (w, Inl e) \<Rightarrow> (w, Inl ErrInternal)
             | (w, Inr i) \<Rightarrow>
                 (case Advance kv pre (MaxDeletes ep) del i w of
                    (w, i, res, Some e) \<Rightarrow> (w, Inl ErrInternal)
                  | (w, i, res, None) \<Rightarrow> (w, Inr (Report i (Remaining res))))))"

definition purge_read :: "'w kv \<Rightarrow> 'w endpoint \<Rightarrow> string \<Rightarrow> 'w \<Rightarrow> code + report" where
  "purge_read kv ep role w =
     (case Resolve ep w role of
        Inl c \<Rightarrow> Inl c
      | Inr (pre, _) \<Rightarrow>
          (case Progress kv w pre role of Inl e \<Rightarrow> Inl ErrInternal | Inr rep \<Rightarrow> Inr rep))"

text \<open>One role of a sweep, from reading its intent to saving it, and the sweep over all roles.\<close>

definition sweep_role :: "'w kv \<Rightarrow> 'w endpoint \<Rightarrow> string \<Rightarrow> 'w \<Rightarrow> 'w" where
  "sweep_role kv ep role w =
     (case LoadIntent kv w role of
        Inl e \<Rightarrow> w
      | Inr None \<Rightarrow> w
      | Inr (Some i) \<Rightarrow>
          if iComplete i then w
          else case Resolve ep w role of
            Inl c \<Rightarrow> w
          | Inr (pre, del) \<Rightarrow> fst (Advance kv pre (MaxDeletes ep) del i w))"

definition PurgeSweep :: "'w kv \<Rightarrow> 'w endpoint \<Rightarrow> 'w \<Rightarrow> 'w \<times> err option" where
  "PurgeSweep kv ep w =
     (case ArmedRoles kv w of
        Inl e \<Rightarrow> (w, Some e)
      | Inr roles \<Rightarrow> (fold (sweep_role kv ep) roles w, None))"

definition SweepInterval :: duration where "SweepInterval = minute"

section \<open>Scope\<close>

definition in_scope :: "string \<Rightarrow> time \<Rightarrow> (string \<Rightarrow> blob option) \<Rightarrow> string \<Rightarrow> string \<Rightarrow> bool" where
  "in_scope role cutoff m pre i \<longleftrightarrow>
     i \<noteq> [] \<and> segment i = i \<and> (\<exists>b. m (pre @ i) = Some b \<and> scan_entry role cutoff i b \<noteq> None)"

lemma scan_entry_fields:
  "scan_entry role cutoff i b = Some r \<Longrightarrow>
     tID r = i \<and> tRole r = role \<and> (tCreated r = 0 \<or> tCreated r \<le> cutoff)"
  by (auto simp: scan_entry_def Let_def split: blob.splits if_splits)

context kv_store
begin

lemma scan_ids_spec:
  assumes "scan_ids kv w pre role cutoff acc is = Inr rs"
  shows "rs = acc @ List.map_filter (\<lambda>i. Option.bind (view w (pre @ i)) (scan_entry role cutoff i)) is"
  using assms
proof (induction "is" arbitrary: acc)
  case Nil
  then show ?case by (simp add: map_filter_simps)
next
  case (Cons i "is")
  obtain r where r: "kget kv w (pre @ i) = Inr r"
    using Cons.prems by (cases "kget kv w (pre @ i)") auto
  then have "view w (pre @ i) = r" using get_view by simp
  then show ?case
    using Cons r by (cases r) (fastforce simp: map_filter_simps split: option.splits)+
qed

lemma map_tID_filter:
  "map tID (List.map_filter (\<lambda>i. Option.bind (m (pre @ i)) (scan_entry role cutoff i)) is) =
     filter (\<lambda>i. Option.bind (m (pre @ i)) (scan_entry role cutoff i) \<noteq> None) is"
  by (induction "is")
    (auto simp: map_filter_simps scan_entry_fields split: option.splits bind_splits)

lemma Scan_spec:
  assumes "Scan kv w pre role cutoff = Inr rs"
  shows "sorted (map tID rs)" and "distinct (map tID rs)"
    and "set (map tID rs) = {i. in_scope role cutoff (view w) pre i}"
    and "\<forall>r \<in> set rs. \<exists>b. view w (pre @ tID r) = Some b \<and> scan_entry role cutoff (tID r) b = Some r"
proof -
  obtain ids where ids: "klist kv w pre = Inr ids"
    using assms by (cases "klist kv w pre") (auto simp: Scan_def)
  then have l: "sorted ids" "distinct ids" "set ids = children (view w) pre"
    using list_view by (auto simp: lists_def)
  let ?f = "\<lambda>i. Option.bind (view w (pre @ i)) (scan_entry role cutoff i)"
  have rs: "rs = List.map_filter ?f ids"
    using assms ids scan_ids_spec [of w pre role cutoff "[]" "sort ids" rs] l(1)
    by (simp add: Scan_def sorted_sort_id)
  then have ids': "map tID rs = filter (\<lambda>i. ?f i \<noteq> None) ids" by (simp only: map_tID_filter)
  show "sorted (map tID rs)" using l(1) sorted_filter [of "\<lambda>x. x" ids] by (simp add: ids')
  show "distinct (map tID rs)" using l(2) by (simp add: ids')
  have child: "i \<in> children (view w) pre \<longleftrightarrow> i \<noteq> [] \<and> segment i = i"
    if "view w (pre @ i) \<noteq> None" for i
  proof
    assume "i \<in> children (view w) pre"
    then show "i \<noteq> [] \<and> segment i = i" by (auto simp: children_def)
  next
    assume "i \<noteq> [] \<and> segment i = i"
    with that show "i \<in> children (view w) pre" unfolding children_def by force
  qed
  show "set (map tID rs) = {i. in_scope role cutoff (view w) pre i}"
  proof (rule set_eqI)
    fix i
    show "i \<in> set (map tID rs) \<longleftrightarrow> i \<in> {i. in_scope role cutoff (view w) pre i}"
      using child [of i] unfolding ids' in_scope_def
      by (cases "view w (pre @ i)") (auto simp: l(3))
  qed
  show "\<forall>r \<in> set rs. \<exists>b. view w (pre @ tID r) = Some b \<and> scan_entry role cutoff (tID r) b = Some r"
  proof
    fix r
    assume "r \<in> set rs"
    then obtain i where "?f i = Some r" unfolding rs map_filter_def by auto
    then show "\<exists>b. view w (pre @ tID r) = Some b \<and> scan_entry role cutoff (tID r) b = Some r"
      using scan_entry_fields by (auto split: bind_splits)
  qed
qed

end

section \<open>The deleter's contract\<close>

text \<open>
  What a pass relies on of the cloud: \<open>alive w\<close> are the credentials that exist upstream. A delete
  leaves the mount's records alone and every other credential; answered with success, its own is
  gone. The storage does not reach the cloud.
\<close>

locale purge_cloud = kv_store kv view
  for kv :: "'w kv" and view :: "'w \<Rightarrow> string \<Rightarrow> blob option" +
  fixes alive :: "'w \<Rightarrow> string set" and del :: "'w deleter"
  assumes del_records: "del w r = (w', x) \<Longrightarrow> view w' = view w"
    and del_alive: "del w r = (w', x) \<Longrightarrow> alive w - {tID r} \<subseteq> alive w' \<and> alive w' \<subseteq> alive w"
    and del_gone: "del w r = (w', None) \<Longrightarrow> tID r \<notin> alive w'"
    and kdel_cloud: "kdel kv w k = (w', x) \<Longrightarrow> alive w' = alive w"
    and kput_cloud: "kput kv w k b = (w', x) \<Longrightarrow> alive w' = alive w"
begin

lemma pass_records_safe:
  assumes "pass_records kv pre budget del w res rs = (w', res', e)"
  shows "(view w' k = view w k \<or> view w' k = None \<and> (\<exists>i \<in> tID ` set rs. k = pre @ i \<and> i \<notin> alive w'))
    \<and> alive w - tID ` set rs \<subseteq> alive w' \<and> alive w' \<subseteq> alive w
    \<and> PurgeDeleted res' + Failed res' \<le> max budget (PurgeDeleted res + Failed res)
    \<and> Tracked res' = Tracked res \<and> Remaining res' = Remaining res"
  using assms
proof (induction rs arbitrary: w res)
  case Nil
  then show ?case by simp
next
  case (Cons r rs)
  show ?case
  proof (cases "PurgeDeleted res + Failed res \<ge> budget")
    case True
    then show ?thesis using Cons.prems by auto
  next
    case False
    obtain w1 x where d: "del w r = (w1, x)" by force
    note d' = del_records [OF d] del_alive [OF d]
    show ?thesis
    proof (cases x)
      case (Some y)
      show ?thesis
      proof (cases "is_throttled y")
        case True
        then show ?thesis using Cons.prems d d' Some False by auto
      next
        case nt: False
        have "pass_records kv pre budget del w1 (res \<lparr> Failed := Failed res + 1 \<rparr>) rs = (w', res', e)"
          using Cons.prems d Some nt False by simp
        from Cons.IH [OF this] show ?thesis using d' False by auto
      qed
    next
      case None
      then have gone: "tID r \<notin> alive w1" using d del_gone by simp
      obtain w2 y where k: "kdel kv w1 (pre @ tID r) = (w2, y)" by force
      have a2: "alive w2 = alive w1" using kdel_cloud [OF k] .
      have v2: "view w2 k = view w1 k \<or> k = pre @ tID r \<and> view w2 k = None" for k
        using del_ok [of w1 "pre @ tID r" w2] del_err [of w1 "pre @ tID r" w2] k by (cases y) (auto split: if_splits)
      show ?thesis
      proof (cases y)
        case (Some z)
        then have "w' = w2" "res' = res" using Cons.prems d None k False by auto
        then show ?thesis using v2 [of k] a2 d' gone by auto
      next
        case y: None
        have "pass_records kv pre budget del w2 (res \<lparr> PurgeDeleted := PurgeDeleted res + 1 \<rparr>) rs = (w', res', e)"
          using Cons.prems d None k y False by simp
        from Cons.IH [OF this] show ?thesis using v2 [of k] a2 d' gone False by auto
      qed
    qed
  qed
qed

end

text \<open>
  A storage and a deleter that work: what a purge needs to come to an end. The tracking prefix is
  not the prefix of the intents.
\<close>

locale purge_works = purge_cloud kv view alive del
  for kv :: "'w kv" and view :: "'w \<Rightarrow> string \<Rightarrow> blob option" and alive :: "'w \<Rightarrow> string set"
    and del :: "'w deleter" +
  assumes get_works: "\<exists>r. kget kv w k = Inr r"
    and list_works: "\<exists>r. klist kv w k = Inr r"
    and put_works: "\<exists>w'. kput kv w k b = (w', None)"
    and kdel_works: "\<exists>w'. kdel kv w k = (w', None)"
    and delete_works: "\<exists>w'. del w r = (w', None)"
begin

lemma scan_ids_works: "\<exists>rs. scan_ids kv w pre role cutoff acc is = Inr rs"
proof (induction "is" arbitrary: acc)
  case (Cons i "is")
  obtain r where "kget kv w (pre @ i) = Inr r" using get_works by blast
  then show ?case using Cons.IH by (auto split: option.splits)
qed simp

lemma Scan_works: "\<exists>rs. Scan kv w pre role cutoff = Inr rs"
proof -
  obtain ids where "klist kv w pre = Inr ids" using list_works by blast
  then show ?thesis using scan_ids_works by (simp add: Scan_def)
qed

lemma pass_records_works:
  assumes "n = min (length rs) (nat (budget - (PurgeDeleted res + Failed res)))"
  shows "\<exists>w'. pass_records kv pre budget del w res rs =
             (w', res \<lparr> PurgeDeleted := PurgeDeleted res + int n \<rparr>, None)
           \<and> (\<forall>k. view w' k = (if k \<in> (\<lambda>r. pre @ tID r) ` set (take n rs) then None else view w k))
           \<and> alive w' \<subseteq> alive w - tID ` set (take n rs)"
  using assms
proof (induction rs arbitrary: w res n)
  case Nil
  then show ?case by auto
next
  case (Cons r rs)
  show ?case
  proof (cases "PurgeDeleted res + Failed res \<ge> budget")
    case True
    then show ?thesis using Cons.prems by auto
  next
    case False
    obtain w1 where d: "del w r = (w1, None)" using delete_works by blast
    obtain w2 where k: "kdel kv w1 (pre @ tID r) = (w2, None)" using kdel_works by blast
    let ?res = "res \<lparr> PurgeDeleted := PurgeDeleted res + 1 \<rparr>"
    obtain m where m: "n = Suc m" "m = min (length rs) (nat (budget - (PurgeDeleted ?res + Failed ?res)))"
    proof (rule that [of "n - 1"])
      have "0 < n" using Cons.prems False by simp
      then show "n = Suc (n - 1)" by simp
      show "n - 1 = min (length rs) (nat (budget - (PurgeDeleted ?res + Failed ?res)))"
        using Cons.prems False by (simp add: min_def nat_diff_distrib') linarith
    qed
    obtain w' where w': "pass_records kv pre budget del w2 ?res rs =
             (w', ?res \<lparr> PurgeDeleted := PurgeDeleted ?res + int m \<rparr>, None)"
        "\<forall>k. view w' k = (if k \<in> (\<lambda>r. pre @ tID r) ` set (take m rs) then None else view w2 k)"
        "alive w' \<subseteq> alive w2 - tID ` set (take m rs)"
      using Cons.IH [OF m(2)] by blast
    have "view w2 = (view w)(pre @ tID r := None)" using del_ok [OF k] del_records [OF d] by simp
    moreover have "alive w2 \<subseteq> alive w - {tID r}"
      using kdel_cloud [OF k] del_alive [OF d] del_gone [OF d] by auto
    ultimately show ?thesis
      using w' d k False m(1) by (intro exI [of _ w']) auto
  qed
qed

abbreviation budget_of :: "int \<Rightarrow> int" where
  "budget_of b \<equiv> (if b \<le> 0 then DefaultMaxDeletes else b)"

lemma budget_pos: "0 < budget_of b"
  by (simp add: DefaultMaxDeletes_def)

lemma Pass_works:
  fixes cfg
  defines "S \<equiv> \<lambda>w. {i. in_scope (pcRole cfg) (pcCutoff cfg) (view w) (pcPrefix cfg) i}"
  shows "\<exists>w' res ids. Pass kv cfg del w = (w', res, None)
           \<and> finite (S w) \<and> ids \<subseteq> S w \<and> S w' = S w - ids
           \<and> int (card ids) = min (int (card (S w))) (budget_of (pcMaxDeletes cfg))
           \<and> Remaining res = int (card (S w')) \<and> alive w' \<subseteq> alive w - ids
           \<and> (\<forall>k. \<not> prefix (pcPrefix cfg) k \<longrightarrow> view w' k = view w k)"
proof -
  let ?pre = "pcPrefix cfg"
  obtain rs where rs: "Scan kv w ?pre (pcRole cfg) (pcCutoff cfg) = Inr rs" using Scan_works by blast
  note spec = Scan_spec [OF rs]
  have S: "S w = tID ` set rs" using spec(3) by (simp add: S_def)
  have card: "card (S w) = length rs" using spec(2) by (simp add: S flip: set_map) (metis distinct_card length_map)
  let ?b = "budget_of (pcMaxDeletes cfg)"
  define n where "n = min (length rs) (nat ?b)"
  let ?r0 = "zero_result \<lparr> Tracked := int (length rs) \<rparr>"
  obtain w' where w': "pass_records kv ?pre ?b del w ?r0 rs =
        (w', ?r0 \<lparr> PurgeDeleted := int n \<rparr>, None)"
      "\<forall>k. view w' k = (if k \<in> (\<lambda>r. ?pre @ tID r) ` set (take n rs) then None else view w k)"
      "alive w' \<subseteq> alive w - tID ` set (take n rs)"
    using pass_records_works [of n rs ?b ?r0 ?pre w] by (auto simp: n_def zero_result_def)
  let ?ids = "tID ` set (take n rs)"
  have sub: "?ids \<subseteq> S w" unfolding S by (meson image_mono set_take_subset)
  have S': "S w' = S w - ?ids"
    using w'(2) by (auto simp: S_def in_scope_def image_iff split: if_splits)
  have cids: "card ?ids = n"
  proof -
    have "distinct (map tID (take n rs))" using spec(2) by (simp add: take_map [symmetric])
    from distinct_card [OF this] show ?thesis by (simp add: n_def)
  qed
  have fin: "finite (S w)" by (simp add: S)
  have "card (S w') = length rs - n" using card_Diff_subset [OF _ sub] by (simp add: S' card cids)
  then have rem: "int (length rs) - int n = int (card (S w'))" by (simp add: n_def)
  have pass: "Pass kv cfg del w =
      (w', ?r0 \<lparr> PurgeDeleted := int n, Remaining := int (length rs) - int n \<rparr>, None)"
    using rs w'(1) by (simp add: Pass_def Let_def)
  have "int n = min (int (length rs)) ?b"
    using budget_pos [of "pcMaxDeletes cfg"] by (simp add: n_def)
  then have "int (card ?ids) = min (int (card (S w))) ?b" by (simp only: cids card)
  moreover have "\<forall>k. \<not> prefix ?pre k \<longrightarrow> view w' k = view w k" using w'(2) by auto
  ultimately show ?thesis
    using pass fin sub S' rem w'(3)
    by (intro exI [of _ w'] exI [of _ "?r0 \<lparr> PurgeDeleted := int n, Remaining := int (length rs) - int n \<rparr>"]
        exI [of _ ?ids]) simp
qed

text \<open>The worker's view of one purge: its passes one after another, the world and the intent after each.\<close>

lemma Advance_works:
  fixes pre b
  defines "S \<equiv> \<lambda>w i. {x. in_scope (iRole i) (iCutoff i) (view w) pre x}"
  assumes "\<not> prefix pre (PurgePrefix @ iRole i)" and "iComplete i \<longleftrightarrow> S w i = {}"
  shows "\<exists>w' i' res. Advance kv pre b del i w = (w', i', res, None)
           \<and> iRole i' = iRole i \<and> iCutoff i' = iCutoff i
           \<and> (iComplete i' \<longleftrightarrow> S w' i = {}) \<and> finite (S w' i)
           \<and> int (card (S w' i)) = max 0 (int (card (S w i)) - budget_of b)
           \<and> S w' i \<subseteq> S w i \<and> alive w' \<subseteq> alive w - (S w i - S w' i)"
proof (cases "iComplete i")
  case True
  then have "S w i = {}" using assms(3) by simp
  then show ?thesis
    using True budget_pos [of b] by (auto simp: Advance_def)
next
  case False
  let ?cfg = "\<lparr> pcPrefix = pre, pcRole = iRole i, pcCutoff = iCutoff i, pcMaxDeletes = b \<rparr>"
  obtain w1 res ids where p: "Pass kv ?cfg del w = (w1, res, None)"
      "finite (S w i)" "ids \<subseteq> S w i" "S w1 i = S w i - ids"
      "int (card ids) = min (int (card (S w i))) (budget_of b)"
      "Remaining res = int (card (S w1 i))" "alive w1 \<subseteq> alive w - ids"
      "\<forall>k. \<not> prefix pre k \<longrightarrow> view w1 k = view w k"
    using Pass_works [of ?cfg w] unfolding S_def by auto
  let ?i = "i \<lparr> iDeleted := iDeleted i + PurgeDeleted res, iFailed := Failed res, iComplete := Complete res \<rparr>"
  obtain w2 where put: "kput kv w1 (PurgePrefix @ iRole i) (enc_intent ?i) = (w2, None)"
    using put_works by blast
  have adv: "Advance kv pre b del i w = (w2, ?i, res, None)"
    using False p(1) put by (simp add: Advance_def SaveIntent_def Let_def)
  have v2: "view w2 = (view w1)(PurgePrefix @ iRole i \<mapsto> enc_intent ?i)" using put_ok [OF put] .
  have "pre @ x \<noteq> PurgePrefix @ iRole i" for x using assms(2) by (metis prefixI)
  then have S2: "S w2 i = S w1 i" by (simp add: S_def in_scope_def v2)
  have fin: "finite (S w1 i)" using p(2,4) by simp
  have comp: "Complete res \<longleftrightarrow> S w1 i = {}" using fin by (simp add: Complete_def p(6))
  have "card ids \<le> card (S w i)" using p(2,3) by (rule card_mono)
  then have "int (card (S w1 i)) = int (card (S w i)) - int (card ids)"
    using p(2,3,4) card_Diff_subset [of ids "S w i"] finite_subset by fastforce
  then have "int (card (S w2 i)) = max 0 (int (card (S w i)) - budget_of b)"
    unfolding S2 p(5) using budget_pos [of b] by linarith
  moreover have "alive w2 \<subseteq> alive w - (S w i - S w2 i)"
    using p(3,4,7) kput_cloud [OF put] unfolding S2 by auto
  ultimately show ?thesis
    using adv comp fin S2 p(4)
    by (intro exI [of _ w2] exI [of _ ?i] exI [of _ res]) auto
qed

end

definition purge_pass ::
  "'w kv \<Rightarrow> string \<Rightarrow> int \<Rightarrow> 'w deleter \<Rightarrow> 'w \<times> intent \<Rightarrow> 'w \<times> intent" where
  "purge_pass kv pre b del =
     (\<lambda>(w, i). case Advance kv pre b del i w of (w', i', _) \<Rightarrow> (w', i'))"

context purge_works
begin

lemma max_drop: "0 < d \<Longrightarrow> max 0 (max 0 (c - x) - d) = max 0 (c - (x + d))" for c x d :: int
  by (auto simp: max_def)

lemma passes_work:
  assumes "\<not> prefix pre (PurgePrefix @ iRole i)"
    and "iComplete i \<longleftrightarrow> {x. in_scope (iRole i) (iCutoff i) (view w) pre x} = {}"
    and "(purge_pass kv pre b del ^^ n) (w, i) = (w', i')"
  shows "iRole i' = iRole i \<and> iCutoff i' = iCutoff i
      \<and> (iComplete i' \<longleftrightarrow> {x. in_scope (iRole i) (iCutoff i) (view w') pre x} = {})
      \<and> int (card {x. in_scope (iRole i) (iCutoff i) (view w') pre x}) =
          max 0 (int (card {x. in_scope (iRole i) (iCutoff i) (view w) pre x}) - int n * budget_of b)
      \<and> alive w' \<subseteq> alive w - ({x. in_scope (iRole i) (iCutoff i) (view w) pre x}
                             - {x. in_scope (iRole i) (iCutoff i) (view w') pre x})
      \<and> {x. in_scope (iRole i) (iCutoff i) (view w') pre x} \<subseteq> {x. in_scope (iRole i) (iCutoff i) (view w) pre x}"
  using assms(3)
proof (induction n arbitrary: w' i')
  case 0
  then show ?case using assms(2) by simp
next
  case (Suc n)
  obtain w1 i1 where s: "(purge_pass kv pre b del ^^ n) (w, i) = (w1, i1)" by force
  then have last: "purge_pass kv pre b del (w1, i1) = (w', i')" using Suc.prems by simp
  let ?S = "\<lambda>w. {x. in_scope (iRole i) (iCutoff i) (view w) pre x}"
  note IH = Suc.IH [OF s]
  obtain w2 i2 res where a: "Advance kv pre b del i1 w1 = (w2, i2, res, None)"
      "iRole i2 = iRole i" "iCutoff i2 = iCutoff i" "iComplete i2 \<longleftrightarrow> ?S w2 = {}"
      "int (card (?S w2)) = max 0 (int (card (?S w1)) - budget_of b)"
      "?S w2 \<subseteq> ?S w1" "alive w2 \<subseteq> alive w1 - (?S w1 - ?S w2)"
  proof -
    have r: "iRole i1 = iRole i" "iCutoff i1 = iCutoff i" "iComplete i1 \<longleftrightarrow> ?S w1 = {}"
      using IH by (blast+)
    show thesis
      using Advance_works [of pre i1 w1 b, unfolded r(1,2), OF assms(1) r(3)] that by blast
  qed
  have eq: "w' = w2" "i' = i2" using last a(1) by (auto simp: purge_pass_def)
  have card: "int (card (?S w2)) = max 0 (int (card (?S w)) - int (Suc n) * budget_of b)"
  proof -
    have "int (card (?S w2)) = max 0 (max 0 (int (card (?S w)) - int n * budget_of b) - budget_of b)"
      using a(5) IH by simp
    also have "\<dots> = max 0 (int (card (?S w)) - (int n * budget_of b + budget_of b))"
      by (rule max_drop [OF budget_pos])
    also have "int n * budget_of b + budget_of b = int (Suc n) * budget_of b"
      by (simp only: of_nat_Suc distrib_right mult_1 add.commute)
    finally show ?thesis .
  qed
  have gone: "alive w2 \<subseteq> alive w - (?S w - ?S w2)" using a(7) IH by blast
  have sub: "?S w2 \<subseteq> ?S w" using a(6) IH by blast
  show ?case unfolding eq by (intro conjI) (fact a card gone sub)+
qed

end

section \<open>Storage beside other state\<close>

definition beside :: "'w kv \<Rightarrow> ('b \<times> 'w) kv" where
  "beside kv =
     \<lparr> kget = (\<lambda>(b, w) k. kget kv w k),
       kput = (\<lambda>(b, w) k v. case kput kv w k v of (w', e) \<Rightarrow> ((b, w'), e)),
       kdel = (\<lambda>(b, w) k. case kdel kv w k of (w', e) \<Rightarrow> ((b, w'), e)),
       klist = (\<lambda>(b, w) p. klist kv w p),
       kpage = (\<lambda>(b, w) p after n. kpage kv w p after n) \<rparr>"

lemma beside_store:
  assumes "kv_store kv view"
  shows "kv_store (beside kv) (\<lambda>bw. view (snd bw))"
proof -
  note laws = assms [unfolded kv_store_def]
  show ?thesis
    unfolding kv_store_def
    by (intro conjI allI impI) (use laws in \<open>fastforce simp: beside_def split: prod.splits\<close>)+
qed

text \<open>A deleter that counts how often it is called, beside the world it works on.\<close>

definition counted :: "'w deleter \<Rightarrow> (nat \<times> 'w) deleter" where
  "counted del = (\<lambda>(n, w) r. case del w r of (w', e) \<Rightarrow> ((n + 1, w'), e))"

lemma scan_ids_beside: "scan_ids (beside kv) (b, w) pre role cutoff acc is = scan_ids kv w pre role cutoff acc is"
  by (induction "is" arbitrary: acc) (auto simp: beside_def split: sum.splits option.splits)

lemma Scan_beside: "Scan (beside kv) (b, w) pre role cutoff = Scan kv w pre role cutoff"
proof -
  have "klist (beside kv) (b, w) pre = klist kv w pre" by (simp add: beside_def)
  then show ?thesis by (simp add: Scan_def scan_ids_beside split: sum.split)
qed

lemma pass_records_counted:
  assumes "pass_records kv pre budget del w res rs = (w', res', e)"
  shows "\<exists>k. pass_records (beside kv) pre budget (counted del) (n, w) res rs = ((n + k, w'), res', e)
          \<and> int k \<le> max 0 (budget - (PurgeDeleted res + Failed res))"
  using assms
proof (induction rs arbitrary: n w res)
  case Nil
  then show ?case by (intro exI [of _ 0]) simp
next
  case (Cons r rs)
  show ?case
  proof (cases "PurgeDeleted res + Failed res \<ge> budget")
    case True
    then show ?thesis using Cons.prems by (intro exI [of _ 0]) simp
  next
    case False
    obtain w1 x where d: "del w r = (w1, x)" by force
    then have c: "counted del (n, w) r = ((Suc n, w1), x)" by (simp add: counted_def)
    obtain w2 y where k: "kdel kv w1 (pre @ tID r) = (w2, y)" by force
    then have b: "kdel (beside kv) (Suc n, w1) (pre @ tID r) = ((Suc n, w2), y)" by (simp add: beside_def)
    note step = Cons.prems False d c k b
    consider (failed) z where "x = Some z" "\<not> is_throttled z" | (deleted) "x = None" "y = None"
      | (ended) "pass_records (beside kv) pre budget (counted del) (n, w) res (r # rs) = ((Suc n, w'), res', e)"
      using step by (cases x; cases y) (auto split: if_splits)
    then show ?thesis
    proof cases
      case failed
      let ?res = "res \<lparr> Failed := Failed res + 1 \<rparr>"
      have "pass_records kv pre budget del w1 ?res rs = (w', res', e)" using step failed by simp
      from Cons.IH [OF this, of "Suc n"] obtain k where
        "pass_records (beside kv) pre budget (counted del) (Suc n, w1) ?res rs = ((Suc n + k, w'), res', e)"
        "int k \<le> max 0 (budget - (PurgeDeleted ?res + Failed ?res))" by blast
      then show ?thesis using step failed by (intro exI [of _ "Suc k"]) simp
    next
      case deleted
      let ?res = "res \<lparr> PurgeDeleted := PurgeDeleted res + 1 \<rparr>"
      have "pass_records kv pre budget del w2 ?res rs = (w', res', e)" using step deleted by simp
      from Cons.IH [OF this, of "Suc n"] obtain k where
        "pass_records (beside kv) pre budget (counted del) (Suc n, w2) ?res rs = ((Suc n + k, w'), res', e)"
        "int k \<le> max 0 (budget - (PurgeDeleted ?res + Failed ?res))" by blast
      then show ?thesis using step deleted by (intro exI [of _ "Suc k"]) simp
    next
      case ended
      then show ?thesis using False by (intro exI [of _ "Suc 0"]) simp
    qed
  qed
qed

lemma Pass_counted:
  assumes "Pass kv cfg del w = (w', res, e)"
  shows "\<exists>n. Pass (beside kv) cfg (counted del) (0, w) = ((n, w'), res, e)
          \<and> int n \<le> (if pcMaxDeletes cfg \<le> 0 then 50 else pcMaxDeletes cfg)"
proof (cases "Scan kv w (pcPrefix cfg) (pcRole cfg) (pcCutoff cfg)")
  case (Inl x)
  then show ?thesis using assms by (intro exI [of _ 0]) (auto simp: Pass_def Scan_beside)
next
  case (Inr rs)
  let ?b = "if pcMaxDeletes cfg \<le> 0 then DefaultMaxDeletes else pcMaxDeletes cfg"
  let ?r0 = "zero_result \<lparr> Tracked := int (length rs) \<rparr>"
  obtain w1 r x where p: "pass_records kv (pcPrefix cfg) ?b del w ?r0 rs = (w1, r, x)"
    by (cases "pass_records kv (pcPrefix cfg) ?b del w ?r0 rs")
  obtain k where k: "pass_records (beside kv) (pcPrefix cfg) ?b (counted del) (0, w) ?r0 rs = ((0 + k, w1), r, x)"
      "int k \<le> max 0 (?b - (PurgeDeleted ?r0 + Failed ?r0))"
    using pass_records_counted [OF p, of 0] by blast
  have "Pass (beside kv) cfg (counted del) (0, w) = ((k, w'), res, e)"
    using assms Inr p k(1) by (cases x) (auto simp: Pass_def Scan_beside)
  moreover have "int k \<le> (if pcMaxDeletes cfg \<le> 0 then 50 else pcMaxDeletes cfg)"
    using k(2) by (simp add: zero_result_def DefaultMaxDeletes_def split: if_splits)
  ultimately show ?thesis by blast
qed

lemma purge_pass_safe_facts:
  assumes "purge_cloud kv view alive del" and "Pass kv cfg del w = (w', res, e)"
  shows "\<forall>c \<in> alive w - alive w'. in_scope (pcRole cfg) (pcCutoff cfg) (view w) (pcPrefix cfg) c"
    and "\<forall>k. view w k \<noteq> view w' k \<longrightarrow> view w' k = None \<and> (\<exists>c. k = pcPrefix cfg @ c \<and> c \<notin> alive w')"
    and "PurgeDeleted res + Failed res \<le> (if pcMaxDeletes cfg \<le> 0 then 50 else pcMaxDeletes cfg)"
proof -
  have kv: "kv_store kv view" using assms(1) by (simp add: purge_cloud_def)
  let ?pre = "pcPrefix cfg"
  let ?b = "if pcMaxDeletes cfg \<le> 0 then DefaultMaxDeletes else pcMaxDeletes cfg"
  let ?S = "\<lambda>c. in_scope (pcRole cfg) (pcCutoff cfg) (view w) ?pre c"
  have "(\<forall>c \<in> alive w - alive w'. ?S c)
      \<and> (\<forall>k. view w' k = view w k \<or> view w' k = None \<and> (\<exists>c. k = ?pre @ c \<and> c \<notin> alive w'))
      \<and> PurgeDeleted res + Failed res \<le> ?b"
  proof (cases "Scan kv w ?pre (pcRole cfg) (pcCutoff cfg)")
    case (Inl x)
    then show ?thesis using assms(2) by (auto simp: Pass_def zero_result_def DefaultMaxDeletes_def)
  next
    case (Inr rs)
    let ?r0 = "zero_result \<lparr> Tracked := int (length rs) \<rparr>"
    obtain r where p: "pass_records kv ?pre ?b del w ?r0 rs = (w', r, e)"
        "PurgeDeleted res = PurgeDeleted r" "Failed res = Failed r"
      using assms(2) Inr by (auto simp: Pass_def Let_def split: prod.splits option.splits)
    note safe = purge_cloud.pass_records_safe [OF assms(1) p(1)]
    have "tID ` set rs = {c. ?S c}" using kv_store.Scan_spec(3) [OF kv Inr] by simp
    moreover have "PurgeDeleted res + Failed res \<le> ?b"
      using safe p(2,3) by (simp add: zero_result_def DefaultMaxDeletes_def split: if_splits)
    ultimately show ?thesis using safe by blast
  qed
  then show "\<forall>c \<in> alive w - alive w'. ?S c"
    and "\<forall>k. view w k \<noteq> view w' k \<longrightarrow> view w' k = None \<and> (\<exists>c. k = ?pre @ c \<and> c \<notin> alive w')"
    and "PurgeDeleted res + Failed res \<le> (if pcMaxDeletes cfg \<le> 0 then 50 else pcMaxDeletes cfg)"
    by (auto simp: DefaultMaxDeletes_def) metis+
qed

text \<open>
  C5. A purge never strands a credential and never exceeds its brief, on any storage and with any
  deleter that keeps its contract, whatever fails: a pass deletes upstream only what the role's
  records named when it began, issued no later than the cutoff or at a time unknown; every tracking
  record that is gone after it has its credential gone; its result counts at most its budget of deletes
  and failures; and the same pass with a deleter that counts its calls makes at most its budget of
  calls, those that fail or are throttled included.
\<close>
theorem purge_pass_safe:
  assumes "purge_cloud kv view alive del" and "Pass kv cfg del w = (w', res, e)"
  shows "(\<forall>c \<in> alive w - alive w'. in_scope (pcRole cfg) (pcCutoff cfg) (view w) (pcPrefix cfg) c)
         \<and> (\<forall>k. view w k \<noteq> view w' k \<longrightarrow> view w' k = None \<and> (\<exists>c. k = pcPrefix cfg @ c \<and> c \<notin> alive w'))
         \<and> PurgeDeleted res + Failed res \<le> (if pcMaxDeletes cfg \<le> 0 then 50 else pcMaxDeletes cfg)
         \<and> (\<exists>calls. Pass (beside kv) cfg (counted del) (0, w) = ((calls, w'), res, e)
              \<and> int calls \<le> (if pcMaxDeletes cfg \<le> 0 then 50 else pcMaxDeletes cfg))"
  using purge_pass_safe_facts [OF assms] Pass_counted [OF assms(2)] by blast

text \<open>
  C6. A purge ends: armed over \<open>N\<close> credentials, with a storage and a deleter that work, it is complete
  after any number \<open>n\<close> of passes of budget \<open>b\<close> with \<open>N \<le> n * b\<close>; then no record is in scope and no
  credential that was in scope when the operator asked exists upstream.
\<close>
theorem purge_terminates:
  assumes "purge_works kv view alive del" and "Arm kv pre role now w = (w1, Inr i)"
    and "\<not> prefix pre (''purge/'' @ role)"
    and "iTracked i \<le> int n * (if b \<le> 0 then 50 else b)"
    and "(purge_pass kv pre b del ^^ n) (w1, i) = (w2, i2)"
  shows "iComplete i2 \<and> (\<forall>c. \<not> in_scope role now (view w2) pre c)
         \<and> (\<forall>c. in_scope role now (view w) pre c \<longrightarrow> c \<notin> alive w2)"
proof -
  have cloud: "purge_cloud kv view alive del" using assms(1) by (simp add: purge_works_def)
  then have kv: "kv_store kv view" by (simp add: purge_cloud_def)
  let ?S = "\<lambda>w. {c. in_scope role now (view w) pre c}"
  obtain rs where rs: "Scan kv w pre role now = Inr rs" and
    i: "i = \<lparr> iRole = role, iArmedAt = now, iCutoff = now, iTracked = int (length rs), iDeleted = 0,
             iFailed = 0, iComplete = (length rs = 0) \<rparr>" and
    save: "SaveIntent kv i w = (w1, None)"
    using assms(2) by (auto simp: Arm_def Let_def split: sum.splits prod.splits option.splits)
  note spec = kv_store.Scan_spec [OF kv rs]
  have S: "?S w = tID ` set rs" using spec(3) by simp
  have card: "card (?S w) = length rs"
    using distinct_card [OF spec(2)] S by simp
  have put: "kput kv w (PurgePrefix @ role) (enc_intent i) = (w1, None)"
    using save i by (auto simp: SaveIntent_def split: prod.splits option.splits)
  have "pre @ x \<noteq> PurgePrefix @ role" for x
    using assms(3) by (metis prefixI PurgePrefix_def)
  then have S1: "?S w1 = ?S w" by (simp add: in_scope_def kv_store.put_ok [OF kv put])
  have "iComplete i \<longleftrightarrow> ?S w1 = {}" unfolding S1 S using i by simp
  then have p: "iComplete i2 \<longleftrightarrow> ?S w2 = {}" "?S w2 \<subseteq> ?S w1" "alive w2 \<subseteq> alive w1 - (?S w1 - ?S w2)"
      "int (card (?S w2)) = max 0 (int (card (?S w1)) - int n * (if b \<le> 0 then DefaultMaxDeletes else b))"
    using purge_works.passes_work [OF assms(1), where i = i and w = w1 and n = n and b = b and w' = w2 and i' = i2]
      assms(3,5) i
    by (auto simp: PurgePrefix_def)
  have "int (card (?S w1)) \<le> int n * (if b \<le> 0 then DefaultMaxDeletes else b)"
    using assms(4) i unfolding S1 card DefaultMaxDeletes_def by simp
  then have "card (?S w2) = 0" using p(4) by simp
  moreover have "finite (?S w2)" using p(2) unfolding S1 S by (rule finite_subset) simp
  ultimately have empty: "?S w2 = {}" by simp
  have "c \<notin> alive w2" if "in_scope role now (view w) pre c" for c
    using p(3) that unfolding S1 empty by blast
  then show ?thesis using p(1) empty by blast
qed

section \<open>Concrete runs\<close>

text \<open>
  A store beside a cloud: the second component of the world is the list of credentials that exist
  upstream, and the deleter removes one, or refuses those it is told to refuse.
\<close>

definition mem_del :: "string set \<Rightarrow> string list mem deleter" where
  "mem_del refused =
     (\<lambda>(es, up) r. if tID r \<in> refused then ((es, up), Some (Opaque ''refused''))
                   else ((es, filter (\<lambda>c. c \<noteq> tID r) up), None))"

definition mem_alive :: "string list mem \<Rightarrow> string set" where
  "mem_alive w = set (snd w)"

interpretation mem_purge: purge_cloud mem_kv mem_view mem_alive "mem_del refused" for refused
  by unfold_locales (auto simp: mem_del_def mem_alive_def mem_view_def mem_kv_def split: prod.splits if_splits)

interpretation mem_works: purge_works mem_kv mem_view mem_alive "mem_del {}"
  by unfold_locales (auto simp: mem_del_def mem_kv_def split: prod.splits)

definition token_record :: "string \<Rightarrow> time \<Rightarrow> blob" where
  "token_record role t = Json (JObj [(''role'', JStr role), (''minter'', JStr ''m''), (''created'', JTime t)])"

definition leaked :: "string list mem" where
  "leaked =
     ([(''active-tokens/a'', token_record ''r'' 10), (''active-tokens/b'', token_record ''r'' 11),
       (''active-tokens/c'', token_record ''other'' 12), (''active-tokens/d'', token_record ''r'' 30)],
      [''a'', ''b'', ''c'', ''d''])"

definition one_pass :: purge_config where
  "one_pass = \<lparr> pcPrefix = ''active-tokens/'', pcRole = ''r'', pcCutoff = 20, pcMaxDeletes = 1 \<rparr>"

lemmas purge_eval = leaked_def one_pass_def token_record_def mem_del_def mem_kv_def mem_view_def
  mem_alive_def mem_children_def segment_def Pass_def Scan_def scan_entry_def str_field_def
  recordCreated_def is_object_def zero_result_def is_throttled_def ErrThrottled_def Arm_def
  Advance_def SaveIntent_def PurgePrefix_def Complete_def Let_def

theorem purge_pass_safe_witness:
  "\<exists>w' res calls. Pass mem_kv one_pass (mem_del {}) leaked = (w', res, None)
     \<and> mem_alive w' = {''b'', ''c'', ''d''} \<and> PurgeDeleted res + Failed res \<le> 1
     \<and> Pass (beside mem_kv) one_pass (counted (mem_del {})) (0, leaked) = ((calls, w'), res, None)
     \<and> calls \<le> 1"
proof -
  obtain w' res e where p: "Pass mem_kv one_pass (mem_del {}) leaked = (w', res, e)"
    by (cases "Pass mem_kv one_pass (mem_del {}) leaked") auto
  note bound = purge_pass_safe [OF mem_purge.purge_cloud_axioms p, THEN conjunct2, THEN conjunct2]
  have le: "PurgeDeleted res + Failed res \<le> 1" using bound [THEN conjunct1] by (simp add: one_pass_def)
  obtain calls where calls: "Pass (beside mem_kv) one_pass (counted (mem_del {})) (0, leaked) = ((calls, w'), res, e)"
      "calls \<le> 1"
    using bound [THEN conjunct2] by (auto simp: one_pass_def)
  have e: "e = None" "mem_alive w' = {''b'', ''c'', ''d''}" using p by (auto simp: purge_eval)
  show ?thesis
    by (rule exI [of _ w'], rule exI [of _ res], rule exI [of _ calls])
      (intro conjI p [unfolded e(1)] e(2) le calls(1) [unfolded e(1)] calls(2))
qed

theorem purge_terminates_witness:
  "\<exists>w1 i w2 i2. Arm mem_kv ''active-tokens/'' ''r'' 20 leaked = (w1, Inr i) \<and> iTracked i = 2
     \<and> (purge_pass mem_kv ''active-tokens/'' 1 (mem_del {}) ^^ 2) (w1, i) = (w2, i2)
     \<and> iComplete i2 \<and> ''a'' \<notin> mem_alive w2 \<and> ''b'' \<notin> mem_alive w2"
proof -
  obtain w1 i where a: "Arm mem_kv ''active-tokens/'' ''r'' 20 leaked = (w1, Inr i)" "iTracked i = 2"
    by (simp add: purge_eval)
  obtain w2 i2 where p: "(purge_pass mem_kv ''active-tokens/'' 1 (mem_del {}) ^^ 2) (w1, i) = (w2, i2)"
    by (cases "(purge_pass mem_kv ''active-tokens/'' 1 (mem_del {}) ^^ 2) (w1, i)") auto
  have s: "in_scope ''r'' 20 (mem_view leaked) ''active-tokens/'' ''a''"
    "in_scope ''r'' 20 (mem_view leaked) ''active-tokens/'' ''b''"
    by (simp_all add: in_scope_def purge_eval)
  have "iComplete i2 \<and> (\<forall>c. \<not> in_scope ''r'' 20 (mem_view w2) ''active-tokens/'' c)
      \<and> (\<forall>c. in_scope ''r'' 20 (mem_view leaked) ''active-tokens/'' c \<longrightarrow> c \<notin> mem_alive w2)"
    by (rule purge_terminates [OF mem_works.purge_works_axioms a(1) _ _ p]) (simp_all add: a(2))
  with s a p show ?thesis by blast
qed

text \<open>
  One credential the cloud keeps refusing can hold up a purge for good: with a budget of one and
  the first record's delete failing, every pass spends its budget on that record, and the second
  credential, which the cloud would delete, is alive after any number of passes.
\<close>
theorem purge_head_of_line:
  "\<exists>w1 i. Arm mem_kv ''active-tokens/'' ''r'' 20 leaked = (w1, Inr i)
     \<and> (\<forall>n. ''b'' \<in> mem_alive (fst ((purge_pass mem_kv ''active-tokens/'' 1 (mem_del {''a''}) ^^ n) (w1, i))))"
proof -
  let ?i = "\<lparr> iRole = ''r'', iArmedAt = 20, iCutoff = 20, iTracked = 2, iDeleted = 0, iFailed = 0,
     iComplete = False \<rparr>"
  let ?j = "?i \<lparr> iFailed := 1 \<rparr>"
  let ?w = "\<lambda>i. (fst leaked @ [(''purge/r'', enc_intent i)], snd leaked)"
  let ?f = "purge_pass mem_kv ''active-tokens/'' 1 (mem_del {''a''})"
  have arm: "Arm mem_kv ''active-tokens/'' ''r'' 20 leaked = (?w ?i, Inr ?i)" by code_simp
  have first: "?f (?w ?i, ?i) = (?w ?j, ?j)" by code_simp
  have again: "?f (?w ?j, ?j) = (?w ?j, ?j)" by code_simp
  have "(?f ^^ Suc n) (?w ?i, ?i) = (?w ?j, ?j)" for n
    by (induction n) (simp_all only: funpow.simps o_apply id_apply first again)
  moreover have "''b'' \<in> mem_alive (?w i)" for i by (simp add: mem_alive_def leaked_def)
  ultimately have "''b'' \<in> mem_alive (fst ((?f ^^ n) (?w ?i, ?i)))" for n
    by (cases n) (simp_all only: funpow_0 fst_conv)
  then show ?thesis using arm by blast
qed

text \<open>
  The cutoff is compared with a creation time that lost its fraction of a second, so a
  credential issued after the operator armed the purge, within the same second, is in its scope.
\<close>
theorem purge_takes_same_second:
  assumes "cutoff < t" and "rfc3339 t \<le> cutoff"
  shows "scan_entry role cutoff i
           (Json (JObj [(''role'', JStr role), (''created'', JTimestamp t)])) \<noteq> None"
  using assms
  by (simp add: scan_entry_def is_object_def str_field_def recordCreated_def JTimestamp_def Let_def)

theorem purge_takes_same_second_witness:
  "scan_entry ''r'' (5 * second + 1) ''id''
     (Json (JObj [(''role'', JStr ''r''), (''created'', JTimestamp (5 * second + 2))])) \<noteq> None"
  by (rule purge_takes_same_second) (simp_all add: rfc3339_def second_def)

text \<open>
  A pass saves the intent it was given, whatever is stored by then: a purge armed again while a
  sweep is between reading the intent and saving it is replaced by the older one, with the older
  cutoff and, when the pass found nothing left, marked complete.
\<close>
theorem advance_saves_given_intent:
  assumes "kv_store kv view" and "Advance kv pre b del i w = (w', i', res, None)" and "\<not> iComplete i"
  shows "view w' (''purge/'' @ iRole i) = Some (enc_intent i') \<and> iCutoff i' = iCutoff i
         \<and> (iComplete i' \<longleftrightarrow> Remaining res = 0)"
proof -
  let ?cfg = "\<lparr> pcPrefix = pre, pcRole = iRole i, pcCutoff = iCutoff i, pcMaxDeletes = b \<rparr>"
  obtain w1 res1 e1 where pass: "Pass kv ?cfg del w = (w1, res1, e1)" by (cases "Pass kv ?cfg del w") auto
  have "e1 = None" using assms(2,3) pass by (cases e1) (simp_all add: Advance_def)
  let ?i = "i \<lparr> iDeleted := iDeleted i + PurgeDeleted res1, iFailed := Failed res1, iComplete := Complete res1 \<rparr>"
  obtain w2 e2 where save: "SaveIntent kv ?i w1 = (w2, e2)" by force
  have p: "i' = ?i" "res = res1" "SaveIntent kv i' w1 = (w', None)"
    using assms(2,3) pass \<open>e1 = None\<close> save by (cases e2; simp add: Advance_def Let_def)+
  have "kput kv w1 (PurgePrefix @ iRole i') (enc_intent i') = (w', None)"
    using p(3) by (auto simp: SaveIntent_def split: prod.splits option.splits)
  then show ?thesis
    using kv_store.put_ok [OF assms(1)] p(1,2) by (auto simp: PurgePrefix_def Complete_def)
qed

text \<open>The interleaving, on a store where the first purge has nothing left: armed at 5 over nothing yet deleted.\<close>

definition stale_intent :: intent where
  "stale_intent = \<lparr> iRole = ''r'', iArmedAt = 5, iCutoff = 5, iTracked = 1, iDeleted = 0, iFailed = 0,
     iComplete = False \<rparr>"

theorem advance_saves_given_intent_witness:
  "\<exists>w1 i w2 i2 res. Arm mem_kv ''active-tokens/'' ''r'' 20 leaked = (w1, Inr i) \<and> iTracked i = 2
     \<and> Advance mem_kv ''active-tokens/'' 1 (mem_del {}) stale_intent w1 = (w2, i2, res, None)
     \<and> mem_view w2 ''purge/r'' = Some (enc_intent i2) \<and> iCutoff i2 = 5 \<and> iComplete i2"
proof -
  obtain w1 i where a: "Arm mem_kv ''active-tokens/'' ''r'' 20 leaked = (w1, Inr i)" "iTracked i = 2"
    by (simp add: purge_eval)
  obtain w2 i2 res e where adv: "Advance mem_kv ''active-tokens/'' 1 (mem_del {}) stale_intent w1 = (w2, i2, res, e)"
    by (cases "Advance mem_kv ''active-tokens/'' 1 (mem_del {}) stale_intent w1") auto
  have e: "e = None" "Remaining res = 0"
    using adv a(1) by (auto simp: purge_eval stale_intent_def enc_intent_def)
  have "mem_view w2 (''purge/'' @ iRole stale_intent) = Some (enc_intent i2) \<and> iCutoff i2 = iCutoff stale_intent
      \<and> (iComplete i2 \<longleftrightarrow> Remaining res = 0)"
    by (rule advance_saves_given_intent [OF mem.kv_store_axioms adv [unfolded e(1)]]) (simp add: stale_intent_def)
  then have "mem_view w2 ''purge/r'' = Some (enc_intent i2) \<and> iCutoff i2 = 5 \<and> iComplete i2"
    by (simp add: stale_intent_def e(2))
  then show ?thesis using a adv unfolding e(1) by blast
qed

end
