(* ===== verification/Issued.thy ===== *)
theory Issued
  imports Storage
begin

text \<open>
  \<open>pkg/issuedlist\<close>: the paged inventory of what a mount has issued, over one or more tracking
  prefixes. A request reads storage several times while other requests revoke, so a listing is
  given the world each prefix is paged in and the world its records are read in.
\<close>

section \<open>Cursors and limits\<close>

record cursor =
  cprefix :: nat
  ckey :: string

definition cursor_str :: "cursor \<Rightarrow> string" where
  "cursor_str c = Itoa (int (cprefix c)) @ ''|'' @ ckey c"

definition parseCursor :: "string \<Rightarrow> nat \<Rightarrow> code + cursor" where
  "parseCursor value pfxs =
     (if value = [] then Inr \<lparr> cprefix = 0, ckey = [] \<rparr>
      else case Cut value ''|'' of
        None \<Rightarrow> Inl ErrConfigInvalid
      | Some (index, key) \<Rightarrow>
          (case ParseInt index of
             None \<Rightarrow> Inl ErrConfigInvalid
           | Some i \<Rightarrow>
               if i < 0 \<or> i \<ge> int pfxs then Inl ErrConfigInvalid
               else Inr \<lparr> cprefix = nat i, ckey = key \<rparr>))"

definition DefaultLimit :: int where "DefaultLimit = 200"
definition MaxLimit :: int where "MaxLimit = 1000"

definition pageLimit :: "int \<Rightarrow> code + nat" where
  "pageLimit limit =
     (if limit = 0 then Inr (nat DefaultLimit)
      else if limit < 0 then Inl ErrConfigInvalid
      else if limit > MaxLimit then Inl ErrConfigInvalid
      else Inr (nat limit))"

section \<open>Listing\<close>

text \<open>The published vocabulary, with the names of \<open>pkg/requester\<close> and \<open>pkg/lineage\<close> written out.\<close>

definition Fields :: "string list" where
  "Fields =
     [''role'', ''minter'', ''minter_set'', ''created'', ''expires_at'', ''app_object_id'',
      ''requested_by_token_accessor'', ''requested_by_entity_id'',
      ''requested_by_parent_entity_id'', ''requested_by_unit_id'', ''requested_by_lineage_source'']"

definition published :: "blob \<Rightarrow> (string \<times> json) list" where
  "published b =
     (case b of
        Json (JObj kvs) \<Rightarrow> filter (\<lambda>(k, _). k \<in> set Fields) kvs
      | _ \<Rightarrow> [])"

record list_state =
  lsKeys :: "string list"
  lsInfo :: "string \<Rightarrow> (string \<times> json) list option"
  lsLast :: cursor

record list_response =
  lrKeys :: "string list"
  lrInfo :: "string \<Rightarrow> (string \<times> json) list option"
  lrMore :: bool
  lrNextAfter :: "string option"

fun read_page :: "'w kv \<Rightarrow> 'w \<Rightarrow> string \<Rightarrow> nat \<Rightarrow> list_state \<Rightarrow> string list \<Rightarrow> code + list_state" where
  "read_page kv w pre index st [] = Inr st"
| "read_page kv w pre index st (key # page) =
     (case kget kv w (pre @ key) of
        Inl _ \<Rightarrow> Inl ErrInternal
      | Inr entry \<Rightarrow>
          let st = st \<lparr> lsLast := \<lparr> cprefix = index, ckey = key \<rparr> \<rparr>
          in case entry of
               None \<Rightarrow> read_page kv w pre index st page
             | Some b \<Rightarrow>
                 read_page kv w pre index
                   (st \<lparr> lsKeys := lsKeys st @ [key], lsInfo := (lsInfo st)(key \<mapsto> published b) \<rparr>) page)"

text \<open>
  The loop over the prefixes from \<open>index\<close> on; \<open>start\<close> is where the previous page ended, and
  \<open>worlds index\<close> the worlds the prefix is paged and read in.
\<close>

fun list_prefixes ::
  "'w kv \<Rightarrow> (nat \<Rightarrow> 'w \<times> 'w) \<Rightarrow> nat \<Rightarrow> cursor \<Rightarrow> nat \<Rightarrow> string list \<Rightarrow> list_state \<Rightarrow> code + list_state" where
  "list_prefixes kv worlds limit start index [] st = Inr st"
| "list_prefixes kv worlds limit start index (pre # pres) st =
     (if \<not> length (lsKeys st) < limit then Inr st
      else
        let after = (if index = cprefix start then ckey start else [])
        in case kpage kv (fst (worlds index)) pre after (limit - length (lsKeys st)) of
             Inl _ \<Rightarrow> Inl ErrInternal
           | Inr page \<Rightarrow>
               (case read_page kv (snd (worlds index)) pre index st page of
                  Inl c \<Rightarrow> Inl c
                | Inr st \<Rightarrow> list_prefixes kv worlds limit start (Suc index) pres st))"

definition list_issued ::
  "'w kv \<Rightarrow> (nat \<Rightarrow> 'w \<times> 'w) \<Rightarrow> string list \<Rightarrow> int \<Rightarrow> string \<Rightarrow> code + list_response" where
  "list_issued kv worlds pfxs limit after =
     (case pageLimit limit of
        Inl c \<Rightarrow> Inl c
      | Inr limit \<Rightarrow>
          (case parseCursor after (length pfxs) of
             Inl c \<Rightarrow> Inl c
           | Inr cursor \<Rightarrow>
               (case list_prefixes kv worlds limit cursor (cprefix cursor)
                       (drop (cprefix cursor) pfxs)
                       \<lparr> lsKeys = [], lsInfo = Map.empty, lsLast = cursor \<rparr> of
                  Inl c \<Rightarrow> Inl c
                | Inr st \<Rightarrow>
                    Inr (if length (lsKeys st) = limit
                         then \<lparr> lrKeys = lsKeys st, lrInfo = lsInfo st, lrMore = True,
                                lrNextAfter = Some (cursor_str (lsLast st)) \<rparr>
                         else \<lparr> lrKeys = lsKeys st, lrInfo = lsInfo st, lrMore = False,
                                lrNextAfter = None \<rparr>))))"

section \<open>Cursor round trip\<close>

lemma parse_cursor_str:
  assumes "cprefix c < n" and "n < 2 ^ 63"
  shows "parseCursor (cursor_str c) n = Inr c"
proof -
  let ?i = "Itoa (int (cprefix c))"
  have "CHR ''|'' \<notin> set ?i" using nat_digits_clean(3) by (simp add: Itoa_def)
  then have "Cut (cursor_str c) ''|'' = Some (?i, ckey c)"
    using Cut_append [of "''|''" ?i "ckey c"] by (simp add: cursor_str_def)
  moreover have "int (cprefix c) < 2 ^ 63" using assms by (simp add: nat_less_iff zless_nat_eq_int_zless)
  then have "ParseInt ?i = Some (int (cprefix c))" by (simp add: ParseInt_Itoa)
  ultimately show ?thesis using assms(1) by (simp add: parseCursor_def cursor_str_def)
qed

section \<open>What a client that follows the cursor sees\<close>

text \<open>
  One page after another until \<open>more\<close> is false, at most \<open>n\<close> of them; \<open>None\<close> when they run out or a
  page is refused.
\<close>

fun follow :: "(string \<Rightarrow> code + list_response) \<Rightarrow> nat \<Rightarrow> string \<Rightarrow> string list option" where
  "follow page 0 after = None"
| "follow page (Suc n) after =
     (case page after of
        Inl _ \<Rightarrow> None
      | Inr r \<Rightarrow>
          (case lrNextAfter r of
             None \<Rightarrow> Some (lrKeys r)
           | Some next \<Rightarrow> map_option (\<lambda>ks. lrKeys r @ ks) (follow page n next)))"

text \<open>A storage whose reads work and whose keys below the prefixes are entries, not folders.\<close>

locale quiet_store = kv_store kv view
  for kv :: "'w kv" and view :: "'w \<Rightarrow> string \<Rightarrow> blob option" +
  fixes w :: 'w and pfxs :: "string list" and keys :: "string \<Rightarrow> string list"
  assumes get_total: "\<exists>r. kget kv w k = Inr r"
    and page_total: "\<exists>ks. kpage kv w pre after n = Inr ks"
    and keys_list: "pre \<in> set pfxs \<Longrightarrow> lists (children (view w) pre) (keys pre)"
    and keys_entries: "pre \<in> set pfxs \<Longrightarrow> k \<in> set (keys pre) \<Longrightarrow> view w (pre @ k) \<noteq> None"
begin

lemma lists_unique: "lists S xs \<Longrightarrow> lists S ys \<Longrightarrow> xs = ys"
  by (auto simp: lists_def intro: sorted_distinct_set_unique)

lemma page_keys:
  "pre \<in> set pfxs \<Longrightarrow> kpage kv w pre after n = Inr ks \<Longrightarrow>
     ks = take n (filter (\<lambda>k. after < k) (keys pre))"
  using page_view keys_list lists_unique by blast

lemma read_page_spec:
  assumes "pre \<in> set pfxs" and "set page \<subseteq> set (keys pre)"
  shows "\<exists>info. read_page kv w pre index st page =
           Inr (st \<lparr> lsKeys := lsKeys st @ page, lsInfo := info,
                     lsLast := (if page = [] then lsLast st else \<lparr> cprefix = index, ckey = last page \<rparr>) \<rparr>)"
  using assms(2)
proof (induction page arbitrary: st)
  case Nil
  then show ?case by (intro exI [of _ "lsInfo st"]) simp
next
  case (Cons k ks)
  obtain r where r: "kget kv w (pre @ k) = Inr r" using get_total by blast
  then have "r = view w (pre @ k)" using get_view by simp
  then obtain b where "r = Some b" using keys_entries [OF assms(1), of k] Cons.prems by auto
  then show ?case
    using Cons.IH [of "st \<lparr> lsLast := \<lparr> cprefix = index, ckey = k \<rparr>, lsKeys := lsKeys st @ [k],
        lsInfo := (lsInfo st)(k \<mapsto> published b) \<rparr>"] Cons.prems r
    by (auto simp: Let_def)
qed

fun rem_from :: "nat \<Rightarrow> string \<Rightarrow> string list \<Rightarrow> (nat \<times> string) list" where
  "rem_from index after [] = []"
| "rem_from index after (p # ps) =
     map (Pair index) (filter (\<lambda>k. after < k) (keys p)) @ rem_from (Suc index) [] ps"

lemma filter_Nil_less: "p \<in> set pfxs \<Longrightarrow> filter (\<lambda>k. [] < k) (keys p) = keys p"
proof (rule filter_True)
  assume "p \<in> set pfxs"
  then have "set (keys p) = children (view w) p" using keys_list by (simp add: lists_def)
  then show "\<forall>k \<in> set (keys p). [] < k" unfolding children_def
    by (auto simp: neq_Nil_conv) (metis Nil_less_Cons list.exhaust segment_Nil)
qed

lemma map_snd_rem_Nil:
  "set ps \<subseteq> set pfxs \<Longrightarrow> map snd (rem_from index [] ps) = concat (map keys ps)"
  by (induction ps arbitrary: index) (auto simp: filter_Nil_less o_def)

lemma list_prefixes_spec:
  assumes "set pres \<subseteq> set pfxs" and "cprefix start \<le> index"
    and "after = (if index = cprefix start then ckey start else [])"
    and "length (lsKeys st) \<le> limit"
    and "T = take (limit - length (lsKeys st)) (rem_from index after pres)"
  shows "\<exists>info. list_prefixes kv (\<lambda>_. (w, w)) limit start index pres st =
      Inr (st \<lparr> lsKeys := lsKeys st @ map snd T, lsInfo := info,
                lsLast := (if T = [] then lsLast st else \<lparr> cprefix = fst (last T), ckey = snd (last T) \<rparr>) \<rparr>)"
  using assms
proof (induction pres arbitrary: index after st T)
  case Nil
  then show ?case by (intro exI [of _ "lsInfo st"]) simp
next
  case (Cons p ps)
  show ?case
  proof (cases "length (lsKeys st) < limit")
    case False
    then show ?thesis using Cons.prems by (intro exI [of _ "lsInfo st"]) simp
  next
    case True
    let ?n = "limit - length (lsKeys st)"
    let ?F = "filter (\<lambda>k. after < k) (keys p)"
    obtain page where pg: "kpage kv w p after ?n = Inr page" using page_total by blast
    then have page: "page = take ?n ?F" using page_keys Cons.prems(1) by simp
    then have "set page \<subseteq> set (keys p)" using set_take_subset [of ?n ?F] by auto
    then obtain info where rp: "read_page kv w p index st page =
        Inr (st \<lparr> lsKeys := lsKeys st @ page, lsInfo := info,
                  lsLast := (if page = [] then lsLast st else \<lparr> cprefix = index, ckey = last page \<rparr>) \<rparr>)"
      using read_page_spec [of p page index st] Cons.prems(1) by auto
    let ?st = "st \<lparr> lsKeys := lsKeys st @ page, lsInfo := info,
        lsLast := (if page = [] then lsLast st else \<lparr> cprefix = index, ckey = last page \<rparr>) \<rparr>"
    let ?T = "take (limit - length (lsKeys ?st)) (rem_from (Suc index) [] ps)"
    have len: "length (lsKeys ?st) \<le> limit" using True page by simp
    have T: "T = map (Pair index) page @ ?T"
      using Cons.prems(5) True by (simp add: page take_map) (auto simp: min_def)
    obtain info' where "list_prefixes kv (\<lambda>_. (w, w)) limit start (Suc index) ps ?st =
        Inr (?st \<lparr> lsKeys := lsKeys ?st @ map snd ?T, lsInfo := info',
          lsLast := (if ?T = [] then lsLast ?st else \<lparr> cprefix = fst (last ?T), ckey = snd (last ?T) \<rparr>) \<rparr>)"
      using Cons.IH [of "Suc index" "[]" ?st ?T] Cons.prems(1,2) len by auto
    then show ?thesis
      using True Cons.prems(3) pg rp T
      by (intro exI [of _ info']) (auto simp: last_map o_def)
  qed
qed

lemma rem_from_split:
  assumes "set pres \<subseteq> set pfxs" and "rem_from index after pres = xs @ (i, k) # ys"
  shows "index \<le> i \<and> i < index + length pres \<and> rem_from i k (drop (i - index) pres) = ys"
  using assms
proof (induction pres arbitrary: index after xs)
  case Nil
  then show ?case by simp
next
  case (Cons p ps)
  let ?F = "filter (\<lambda>k. after < k) (keys p)"
  have sd: "sorted ?F" "distinct ?F" "sorted (keys p)" "distinct (keys p)"
    using keys_list [of p] Cons.prems(1) sorted_filter [of "\<lambda>x. x" "keys p"] by (auto simp: lists_def)
  have eq: "map (Pair index) ?F @ rem_from (Suc index) [] ps = xs @ (i, k) # ys"
    using Cons.prems(2) by simp
  show ?case
  proof (cases "length xs < length ?F")
    case True
    define G where "G = drop (Suc (length xs)) ?F"
    have F: "?F = take (length xs) ?F @ ?F ! length xs # G"
      using True by (simp add: G_def id_take_nth_drop)
    have "(map (Pair index) ?F @ rem_from (Suc index) [] ps) ! length xs = (i, k)"
      unfolding eq by simp
    then have ik: "i = index" "?F ! length xs = k" using True by (auto simp: nth_append)
    have "drop (Suc (length xs)) (map (Pair index) ?F @ rem_from (Suc index) [] ps) = ys"
      unfolding eq by simp
    then have ys: "ys = map (Pair index) G @ rem_from (Suc index) [] ps"
      using True by (simp add: G_def drop_map)
    have FG: "?F = take (length xs) ?F @ k # G" using F ik(2) by simp
    have "filter (\<lambda>x. k < x) (keys p) = filter (\<lambda>x. k < x) ?F"
    proof -
      have "k \<in> set ?F" using FG by (metis in_set_conv_decomp)
      then have "after < k" by simp
      then show ?thesis by (auto intro: filter_cong dest: less_trans)
    qed
    also have "\<dots> = filter (\<lambda>x. k < x) (take (length xs) ?F @ k # G)" using FG by metis
    also have "\<dots> = G"
    proof -
      have "sorted (take (length xs) ?F @ k # G)" "distinct (take (length xs) ?F @ k # G)"
        using sd FG by metis+
      then have "\<forall>x \<in> set (take (length xs) ?F). x \<le> k" "\<forall>x \<in> set G. k < x"
        by (auto simp: sorted_append order.order_iff_strict)
      then show ?thesis by (auto simp: filter_id_conv filter_empty_conv not_less)
    qed
    finally show ?thesis using ik(1) ys by simp
  next
    case False
    then obtain zs where "xs = map (Pair index) ?F @ zs" "rem_from (Suc index) [] ps = zs @ (i, k) # ys"
      using eq by (auto simp: append_eq_append_conv2 append_eq_Cons_conv dest: arg_cong [where f = length])
    then have "Suc index \<le> i \<and> i < Suc index + length ps \<and> rem_from i k (drop (i - Suc index) ps) = ys"
      using Cons.IH [of "Suc index" "[]" zs] Cons.prems(1) by simp
    moreover from this have "i - index = Suc (i - Suc index)" by linarith
    ultimately show ?thesis by simp
  qed
qed

lemma list_issued_page:
  assumes "pageLimit l = Inr limit" and "cprefix c \<le> length pfxs"
    and "parseCursor after (length pfxs) = Inr c"
    and "R = rem_from (cprefix c) (ckey c) (drop (cprefix c) pfxs)"
  shows "\<exists>r. list_issued kv (\<lambda>_. (w, w)) pfxs l after = Inr r \<and> lrKeys r = map snd (take limit R)
    \<and> lrMore r = (limit \<le> length R)
    \<and> lrNextAfter r = (if limit \<le> length R
        then Some (cursor_str (if take limit R = [] then c
               else \<lparr> cprefix = fst (last (take limit R)), ckey = snd (last (take limit R)) \<rparr>)) else None)"
proof -
  let ?st = "\<lparr> lsKeys = [], lsInfo = Map.empty, lsLast = c \<rparr>"
  have "set (drop (cprefix c) pfxs) \<subseteq> set pfxs" by (rule set_drop_subset)
  then obtain info where "list_prefixes kv (\<lambda>_. (w, w)) limit c (cprefix c) (drop (cprefix c) pfxs) ?st =
      Inr (?st \<lparr> lsKeys := lsKeys ?st @ map snd (take limit R), lsInfo := info,
        lsLast := (if take limit R = [] then lsLast ?st
          else \<lparr> cprefix = fst (last (take limit R)), ckey = snd (last (take limit R)) \<rparr>) \<rparr>)"
    using list_prefixes_spec [of "drop (cprefix c) pfxs" c "cprefix c" "ckey c" ?st limit "take limit R"]
      assms(4) by auto
  then show ?thesis using assms(1,3) by (auto simp: list_issued_def min_def)
qed

lemma follow_rest:
  assumes "pageLimit l = Inr limit" and "0 < limit" and "length pfxs < 2 ^ 63"
    and "parseCursor after (length pfxs) = Inr c" and "cprefix c \<le> length pfxs"
    and "R = rem_from (cprefix c) (ckey c) (drop (cprefix c) pfxs)" and "length R < n * limit"
  shows "follow (list_issued kv (\<lambda>_. (w, w)) pfxs l) n after = Some (map snd R)"
  using assms(4-)
proof (induction n arbitrary: after c R)
  case 0
  then show ?case by simp
next
  case (Suc n)
  obtain r where r: "list_issued kv (\<lambda>_. (w, w)) pfxs l after = Inr r" "lrKeys r = map snd (take limit R)"
      "lrNextAfter r = (if limit \<le> length R
        then Some (cursor_str (if take limit R = [] then c
               else \<lparr> cprefix = fst (last (take limit R)), ckey = snd (last (take limit R)) \<rparr>)) else None)"
    using list_issued_page [OF assms(1) Suc.prems(2,1,3)] by blast
  show ?case
  proof (cases "limit \<le> length R")
    case False
    then show ?thesis using r by simp
  next
    case True
    obtain i k where ik: "last (take limit R) = (i, k)" by force
    have ne: "take limit R \<noteq> []" using True assms(2) by auto
    then have "take limit R = butlast (take limit R) @ [(i, k)]" using ik by (metis append_butlast_last_id)
    then have "R = butlast (take limit R) @ (i, k) # drop limit R"
      by (metis append_Cons append_Nil append_assoc append_take_drop_id)
    then have "rem_from (cprefix c) (ckey c) (drop (cprefix c) pfxs) =
        butlast (take limit R) @ (i, k) # drop limit R" using Suc.prems(3) by simp
    from rem_from_split [OF set_drop_subset this]
    have i: "i < length pfxs" "rem_from i k (drop i pfxs) = drop limit R"
      using Suc.prems(2) by auto
    let ?c = "\<lparr> cprefix = i, ckey = k \<rparr>"
    have "parseCursor (cursor_str ?c) (length pfxs) = Inr ?c"
      using i(1) assms(3) by (intro parse_cursor_str) simp_all
    moreover have "length (drop limit R) < n * limit" using Suc.prems(4) True by simp
    ultimately have "follow (list_issued kv (\<lambda>_. (w, w)) pfxs l) n (cursor_str ?c) = Some (map snd (drop limit R))"
      using Suc.IH [of "cursor_str ?c" ?c "drop limit R"] i by simp
    then show ?thesis using r True ne ik by (simp flip: map_append)
  qed
qed

end

text \<open>
  C35. A client that follows the cursor sees every outstanding credential exactly once: on a storage
  that is not changing, with any accepted page size and any number of prefixes, the pages
  concatenate to the keys of all prefixes in their order, and the last page says so.
\<close>
theorem inventory_complete:
  assumes "quiet_store kv view w pfxs keys" and "length pfxs < 2 ^ 63"
    and "pageLimit l = Inr limit" and "length (concat (map keys pfxs)) < n * limit"
  shows "follow (list_issued kv (\<lambda>_. (w, w)) pfxs l) n [] = Some (concat (map keys pfxs))"
proof -
  let ?R = "quiet_store.rem_from keys 0 [] pfxs"
  have R: "map snd ?R = concat (map keys pfxs)"
    using quiet_store.map_snd_rem_Nil [OF assms(1)] by simp
  then have "length ?R < n * limit" using assms(4) by (metis length_map)
  moreover have "0 < limit"
    using assms(3) by (auto simp: pageLimit_def DefaultLimit_def split: if_splits)
  ultimately have "follow (list_issued kv (\<lambda>_. (w, w)) pfxs l) n [] = Some (map snd ?R)"
    using quiet_store.follow_rest [OF assms(1,3) _ assms(2), of "[]" "\<lparr> cprefix = 0, ckey = [] \<rparr>" ?R n]
    by (simp add: parseCursor_def)
  then show ?thesis using R by simp
qed

section \<open>Concrete runs\<close>

definition three_issued :: "unit mem" where
  "three_issued =
     ([(''active-tokens/a'', Json (JObj [(''role'', JStr ''r''), (''secret'', JStr ''s'')])),
       (''active-tokens/b'', Raw ''?''), (''active-spaces-keys/c'', Json (JObj []))], ())"

abbreviation do_prefixes :: "string list" where
  "do_prefixes \<equiv> [''active-tokens/'', ''active-spaces-keys/'']"

interpretation issued_mem: quiet_store mem_kv mem_view three_issued do_prefixes "mem_children (fst three_issued)"
proof
  show "\<exists>ks. kpage mem_kv three_issued pre after n = Inr ks" for pre after n
    by (simp add: mem_kv_def three_issued_def)
  show "lists (children (mem_view three_issued) pre) (mem_children (fst three_issued) pre)" for pre
    using mem_children_lists by (simp add: mem_view_def)
  show "mem_view three_issued (pre @ k) \<noteq> None"
    if "pre \<in> set do_prefixes" "k \<in> set (mem_children (fst three_issued) pre)" for pre k
    using that by (auto simp: mem_view_def three_issued_def mem_children_def segment_def)
qed (auto simp: mem_kv_def three_issued_def)

theorem inventory_complete_witness:
  "follow (list_issued mem_kv (\<lambda>_. (three_issued, three_issued)) do_prefixes 1) 4 [] = Some [''a'', ''b'', ''c'']"
proof -
  have keys: "concat (map (mem_children (fst three_issued)) do_prefixes) = [''a'', ''b'', ''c'']"
    by (simp add: mem_children_def three_issued_def segment_def)
  show ?thesis
    using inventory_complete [OF issued_mem.quiet_store_axioms, of 1 1 4] unfolding keys
    by (simp add: pageLimit_def MaxLimit_def)
qed

text \<open>
  A revocation during a listing can end it early: with a page size of two over three
  credentials, one of them revoked between the page and the read of its record, the answer names
  one credential and says there is no more, though the third is outstanding.
\<close>
theorem inventory_ends_early:
  "let before = ([(''t/a'', Raw []), (''t/b'', Raw []), (''t/c'', Raw [])], ()) :: unit mem;
       during = fst (kdel mem_kv before ''t/a'')
   in (case list_issued mem_kv (\<lambda>_. (before, during)) [''t/''] 2 [] of
         Inl _ \<Rightarrow> False
       | Inr r \<Rightarrow> lrKeys r = [''b''] \<and> \<not> lrMore r \<and> mem_view during ''t/c'' = Some (Raw []))"
  by code_simp

text \<open>
  What a listing publishes of a record is in its vocabulary: no other member of a tracking
  record, whatever a plugin stores there, is in the answer.
\<close>
theorem inventory_publishes_allowlist:
  assumes "(k, v) \<in> set (published b)"
  shows "k \<in> set Fields \<and> (\<exists>kvs. b = Json (JObj kvs) \<and> (k, v) \<in> set kvs)"
  using assms by (auto simp: published_def split: blob.splits json.splits)

theorem inventory_publishes_allowlist_witness:
  "''role'' \<in> set Fields \<and> published (Json (JObj [(''role'', JStr ''r''), (''token'', JStr ''s'')])) = [(''role'', JStr ''r'')]"
  using inventory_publishes_allowlist [of "''role''" "JStr ''r''" "Json (JObj [(''role'', JStr ''r'')])"]
  by (simp add: published_def Fields_def)

end
