(* ===== verification/CallerPolicy.thy ===== *)
theory CallerPolicy
  imports Envelope "HOL-Library.Multiset"
begin

text \<open>
  \<open>pkg/requester\<close> and \<open>pkg/lineage\<close>: who obtained a credential, whose unit the caller is, and how much
  of either a role demands before it issues. The identity store of core is an argument. A role
  holds a demand as a string; the locale \<open>requirement_field\<close> is what both packages promise of
  theirs, that nothing but the vocabulary and the empty string is understood.
\<close>

section \<open>Requests and the vocabulary of demands\<close>

record caller =
  ClientTokenAccessor :: string
  EntityID :: string

locale requirement_field =
  fixes parse :: "string \<Rightarrow> 'r option" and name :: "'r \<Rightarrow> string" and none :: 'r
  assumes parse_empty: "parse [] = Some none"
    and parse_name: "parse (name r) = Some r"
    and parse_known: "parse s = Some r \<Longrightarrow> s \<noteq> [] \<Longrightarrow> s = name r"
begin

lemma name_inj: "name r = name q \<Longrightarrow> r = q"
proof -
  assume "name r = name q"
  then have "parse (name r) = parse (name q)" by simp
  then show "r = q" by (simp only: parse_name option.inject)
qed

lemma parse_None: "parse s = None \<longleftrightarrow> s \<noteq> [] \<and> s \<notin> range name"
proof
  assume "parse s = None"
  then show "s \<noteq> [] \<and> s \<notin> range name" using parse_empty parse_name by auto
next
  assume "s \<noteq> [] \<and> s \<notin> range name"
  then show "parse s = None" using parse_known by (cases "parse s") auto
qed

lemma demand_stated: "parse s = Some r \<Longrightarrow> r \<noteq> none \<Longrightarrow> s = name r"
  using parse_empty parse_known by (cases "s = []") auto

end

section \<open>Requester\<close>

datatype identity_demand = RequireNone | RequireAny | RequireTokenAccessor

fun identity_demand_str :: "identity_demand \<Rightarrow> string" where
  "identity_demand_str RequireNone = ''none''"
| "identity_demand_str RequireAny = ''any''"
| "identity_demand_str RequireTokenAccessor = ''token_accessor''"

definition IdentityRequirements :: "identity_demand list" where
  "IdentityRequirements = [RequireNone, RequireAny, RequireTokenAccessor]"

definition ParseIdentityRequirement :: "string \<Rightarrow> identity_demand option" where
  "ParseIdentityRequirement value =
     (if value = [] then Some RequireNone
      else find (\<lambda>known. value = identity_demand_str known) IdentityRequirements)"

interpretation identity_field: requirement_field ParseIdentityRequirement identity_demand_str RequireNone
proof
  show "ParseIdentityRequirement [] = Some RequireNone" by (simp add: ParseIdentityRequirement_def)
  show "ParseIdentityRequirement (identity_demand_str r) = Some r" for r
    by (cases r) (simp_all add: ParseIdentityRequirement_def IdentityRequirements_def)
  show "ParseIdentityRequirement s = Some r \<Longrightarrow> s \<noteq> [] \<Longrightarrow> s = identity_demand_str r" for s r
    by (auto simp: ParseIdentityRequirement_def IdentityRequirements_def split: if_splits)
qed

text \<open>The provenance fields of a request, and their copy into a record.\<close>

definition Identity :: "caller option \<Rightarrow> (string \<times> json) list" where
  "Identity req =
     (case req of
        None \<Rightarrow> []
      | Some r \<Rightarrow>
          (if ClientTokenAccessor r \<noteq> []
           then [(''requested_by_token_accessor'', JStr (ClientTokenAccessor r))] else [])
          @ (if EntityID r \<noteq> [] then [(''requested_by_entity_id'', JStr (EntityID r))] else []))"

definition StampIdentity :: "(string \<times> json) list \<Rightarrow> caller option \<Rightarrow> (string \<times> json) list" where
  "StampIdentity record req = record @ Identity req"

text \<open>The code of the refusal, or nothing to proceed.\<close>

definition EnforceIdentity :: "caller option \<Rightarrow> string \<Rightarrow> code option" where
  "EnforceIdentity req value =
     (case ParseIdentityRequirement value of
        None \<Rightarrow> Some ErrConfigInvalid
      | Some RequireTokenAccessor \<Rightarrow>
          (case req of
             None \<Rightarrow> Some ErrCallerUnidentified
           | Some r \<Rightarrow> if ClientTokenAccessor r = [] then Some ErrCallerUnidentified else None)
      | Some RequireAny \<Rightarrow>
          (case req of
             None \<Rightarrow> Some ErrCallerUnidentified
           | Some r \<Rightarrow> if ClientTokenAccessor r = [] \<and> EntityID r = []
                       then Some ErrCallerUnidentified else None)
      | Some RequireNone \<Rightarrow> None)"

section \<open>Lineage\<close>

datatype source = SourceAliasCustomMetadata | SourceAliasMetadata | SourceEntityMetadata

fun source_str :: "source \<Rightarrow> string" where
  "source_str SourceAliasCustomMetadata = ''alias_custom_metadata''"
| "source_str SourceAliasMetadata = ''alias_metadata''"
| "source_str SourceEntityMetadata = ''entity_metadata''"

text \<open>The zero value has an empty parent, and no source.\<close>

record lineage =
  ParentEntityID :: string
  UnitID :: string
  Source :: "source option"

definition no_lineage :: lineage where
  "no_lineage = \<lparr> ParentEntityID = [], UnitID = [], Source = None \<rparr>"

type_synonym metadata_map = "string \<Rightarrow> string"

record alias_info =
  CustomMetadata :: metadata_map
  AliasMetadata :: metadata_map

record entity_info =
  Aliases :: "alias_info option list"
  EntityMetadata :: metadata_map
  Disabled :: bool

type_synonym entity_store = "string \<Rightarrow> err + entity_info option"

definition MetaParentEntityID :: string where
  "MetaParentEntityID = ''cloud_creds_parent_entity_id''"

definition MetaUnitID :: string where
  "MetaUnitID = ''cloud_creds_unit_id''"

definition fromMetadata :: "metadata_map \<Rightarrow> source \<Rightarrow> lineage" where
  "fromMetadata meta src =
     (if meta MetaParentEntityID = [] then no_lineage
      else \<lparr> ParentEntityID = meta MetaParentEntityID, UnitID = meta MetaUnitID, Source = Some src \<rparr>)"

definition alias_lineage :: "alias_info \<Rightarrow> lineage" where
  "alias_lineage a =
     (let next = fromMetadata (CustomMetadata a) SourceAliasCustomMetadata
      in if ParentEntityID next = [] then fromMetadata (AliasMetadata a) SourceAliasMetadata else next)"

fun alias_loop :: "lineage \<Rightarrow> bool \<Rightarrow> alias_info option list \<Rightarrow> lineage \<times> bool" where
  "alias_loop found unitDisputed [] =
     ((if unitDisputed then found \<lparr> UnitID := [] \<rparr> else found), True)"
| "alias_loop found unitDisputed (None # as) = alias_loop found unitDisputed as"
| "alias_loop found unitDisputed (Some a # as) =
     (let next = alias_lineage a
      in if ParentEntityID next = [] then alias_loop found unitDisputed as
         else if ParentEntityID found = [] then alias_loop next unitDisputed as
         else if ParentEntityID found \<noteq> ParentEntityID next then (no_lineage, False)
         else if UnitID next = [] \<or> UnitID next = UnitID found then alias_loop found unitDisputed as
         else if UnitID found = [] then alias_loop (found \<lparr> UnitID := UnitID next \<rparr>) unitDisputed as
         else alias_loop found True as)"

definition fromAliases :: "alias_info option list \<Rightarrow> lineage \<times> bool" where
  "fromAliases as = alias_loop no_lineage False as"

definition resolveCaller :: "caller option \<Rightarrow> entity_store option \<Rightarrow> lineage \<times> err option" where
  "resolveCaller req view =
     (case (req, view) of
        (Some r, Some info) \<Rightarrow>
          if EntityID r = [] then (no_lineage, None)
          else (case info (EntityID r) of
                  Inl e \<Rightarrow> (no_lineage, Some (Wrap ''reading the caller's entity: '' e))
                | Inr None \<Rightarrow> (no_lineage, None)
                | Inr (Some entity) \<Rightarrow>
                    (case fromAliases (Aliases entity) of
                       (found, True) \<Rightarrow>
                         if ParentEntityID found \<noteq> [] then (found, None)
                         else (fromMetadata (EntityMetadata entity) SourceEntityMetadata, None)
                     | (_, False) \<Rightarrow> (no_lineage, None)))
      | _ \<Rightarrow> (no_lineage, None))"

definition Resolve :: "caller option \<Rightarrow> entity_store option \<Rightarrow> lineage" where
  "Resolve req view = fst (resolveCaller req view)"

datatype lineage_demand = LineageNone | LineageParent | LineageLiveParent

fun lineage_demand_str :: "lineage_demand \<Rightarrow> string" where
  "lineage_demand_str LineageNone = ''none''"
| "lineage_demand_str LineageParent = ''parent''"
| "lineage_demand_str LineageLiveParent = ''live_parent''"

definition LineageRequirements :: "lineage_demand list" where
  "LineageRequirements = [LineageNone, LineageParent, LineageLiveParent]"

definition ParseLineageRequirement :: "string \<Rightarrow> lineage_demand option" where
  "ParseLineageRequirement value =
     (if value = [] then Some LineageNone
      else find (\<lambda>known. value = lineage_demand_str known) LineageRequirements)"

interpretation lineage_field: requirement_field ParseLineageRequirement lineage_demand_str LineageNone
proof
  show "ParseLineageRequirement [] = Some LineageNone" by (simp add: ParseLineageRequirement_def)
  show "ParseLineageRequirement (lineage_demand_str r) = Some r" for r
    by (cases r) (simp_all add: ParseLineageRequirement_def LineageRequirements_def)
  show "ParseLineageRequirement s = Some r \<Longrightarrow> s \<noteq> [] \<Longrightarrow> s = lineage_demand_str r" for s r
    by (auto simp: ParseLineageRequirement_def LineageRequirements_def split: if_splits)
qed

text \<open>A read through a store that is not there does not happen: with no store no parent is found.\<close>

definition EnforceLineage ::
  "caller option \<Rightarrow> entity_store option \<Rightarrow> string \<Rightarrow> lineage \<times> code option" where
  "EnforceLineage req view value =
     (case ParseLineageRequirement value of
        None \<Rightarrow> (no_lineage, Some ErrConfigInvalid)
      | Some requirement \<Rightarrow>
          (case resolveCaller req view of
             (found, resolveErr) \<Rightarrow>
               if requirement = LineageNone then (found, None)
               else if resolveErr \<noteq> None then (found, Some ErrEntityUnavailable)
               else if ParentEntityID found = [] then (found, Some ErrCallerUnparented)
               else if requirement = LineageParent then (found, None)
               else
                 (case (req, view) of
                    (Some r, Some info) \<Rightarrow>
                      if ParentEntityID found = EntityID r then (found, Some ErrCallerUnparented)
                      else (case info (ParentEntityID found) of
                              Inl e \<Rightarrow> (found, Some ErrEntityUnavailable)
                            | Inr None \<Rightarrow> (found, Some ErrCallerUnparented)
                            | Inr (Some parent) \<Rightarrow>
                                if Disabled parent then (found, Some ErrCallerUnparented) else (found, None))
                  | _ \<Rightarrow> (found, Some ErrCallerUnparented))))"

definition StampLineage :: "(string \<times> json) list \<Rightarrow> lineage \<Rightarrow> (string \<times> json) list" where
  "StampLineage record found =
     (if ParentEntityID found = [] then record
      else record
        @ [(''requested_by_parent_entity_id'', JStr (ParentEntityID found)),
           (''requested_by_lineage_source'',
             JStr (case Source found of None \<Rightarrow> [] | Some s \<Rightarrow> source_str s))]
        @ (if UnitID found \<noteq> [] then [(''requested_by_unit_id'', JStr (UnitID found))] else []))"

section \<open>What resolves\<close>

text \<open>The claims an entity's aliases make, and what a list of claims agrees on.\<close>

definition claims :: "alias_info option list \<Rightarrow> lineage list" where
  "claims as = filter (\<lambda>l. ParentEntityID l \<noteq> []) (map (alias_lineage \<circ> the) (filter (\<lambda>a. a \<noteq> None) as))"

lemma claims_simps [simp]:
  "claims [] = []"
  "claims (None # as) = claims as"
  "claims (Some a # as) =
     (if ParentEntityID (alias_lineage a) = [] then claims as else alias_lineage a # claims as)"
  by (simp_all add: claims_def)

definition units :: "lineage list \<Rightarrow> string set" where
  "units cs = UnitID ` set cs - {[]}"

definition sole :: "string set \<Rightarrow> string" where
  "sole U = (if is_singleton U then the_elem U else [])"

lemma sole_simps [simp]: "sole {} = []" "sole {u} = u"
  by (simp_all add: sole_def is_singleton_def)

lemma sole_drop [simp]: "sole ({u} - {[]}) = u"
  by (cases "u = []") simp_all

lemma sole_two: "u \<in> U \<Longrightarrow> v \<in> U \<Longrightarrow> u \<noteq> v \<Longrightarrow> sole U = []"
  by (auto simp: sole_def is_singleton_def)

lemma alias_loop_agree:
  assumes "ParentEntityID found = p" and "p \<noteq> []" and "\<forall>c \<in> set (claims as). ParentEntityID c = p"
  shows "\<exists>src. alias_loop found d as =
           (\<lparr> ParentEntityID = p, UnitID = (if d then [] else sole (({UnitID found} - {[]}) \<union> units (claims as))),
              Source = src \<rparr>, True)"
  using assms
proof (induction as arbitrary: found d)
  case Nil
  then show ?case
    by (cases found) (simp add: units_def)
next
  case (Cons a as)
  show ?case
  proof (cases "a = None \<or> ParentEntityID (alias_lineage (the a)) = []")
    case True
    then have "claims (a # as) = claims as" "alias_loop found d (a # as) = alias_loop found d as"
      by (cases a; simp add: Let_def)+
    then show ?thesis using Cons.IH [OF Cons.prems(1,2), of d] Cons.prems(3) by (cases d) simp_all
  next
    case False
    then obtain x where x: "a = Some x" "ParentEntityID (alias_lineage x) \<noteq> []" by (cases a) auto
    let ?n = "alias_lineage x"
    have cl: "claims (a # as) = ?n # claims as" using x by simp
    then have np: "ParentEntityID ?n = p" and rest: "\<forall>c \<in> set (claims as). ParentEntityID c = p"
      using Cons.prems(3) by auto
    note IH = Cons.IH [OF _ assms(2) rest]
    have u: "units (?n # claims as) = ({UnitID ?n} - {[]}) \<union> units (claims as)"
      by (auto simp: units_def)
    consider "UnitID ?n = [] \<or> UnitID ?n = UnitID found" | "UnitID found = []" "UnitID ?n \<noteq> []"
      | "UnitID found \<noteq> []" "UnitID ?n \<noteq> []" "UnitID ?n \<noteq> UnitID found" by blast
    then show ?thesis
    proof cases
      case 1
      then have "alias_loop found d (a # as) = alias_loop found d as"
        using x np Cons.prems(1,2) by (simp add: Let_def)
      moreover have "({UnitID found} - {[]}) \<union> (({UnitID ?n} - {[]}) \<union> units (claims as)) =
          ({UnitID found} - {[]}) \<union> units (claims as)" using 1 by auto
      ultimately show ?thesis using IH [of found d] Cons.prems(1) unfolding cl u by (cases d) simp_all
    next
      case 2
      then have "alias_loop found d (a # as) = alias_loop (found \<lparr> UnitID := UnitID ?n \<rparr>) d as"
        using x np Cons.prems(1,2) by (simp add: Let_def)
      then show ?thesis using IH [of "found \<lparr> UnitID := UnitID ?n \<rparr>" d] Cons.prems(1) 2 unfolding cl u
        by (cases d) simp_all
    next
      case 3
      then have "alias_loop found d (a # as) = alias_loop found True as"
        using x np Cons.prems(1,2) by (simp add: Let_def)
      moreover have "sole (({UnitID found} - {[]}) \<union> (({UnitID ?n} - {[]}) \<union> units (claims as))) = []"
        using 3 by (intro sole_two [of "UnitID found" _ "UnitID ?n"]) auto
      ultimately show ?thesis using IH [of found True] Cons.prems(1) unfolding cl u by simp
    qed
  qed
qed

lemma alias_loop_conflict:
  assumes "ParentEntityID found = p" and "p \<noteq> []" and "c \<in> set (claims as)" and "ParentEntityID c \<noteq> p"
  shows "alias_loop found d as = (no_lineage, False)"
  using assms
proof (induction as arbitrary: found d)
  case (Cons a as)
  show ?case
  proof (cases a)
    case None
    then show ?thesis using Cons by simp
  next
    case (Some x)
    then show ?thesis
      using Cons.IH [OF _ assms(2) _ assms(4)] Cons.prems by (auto simp: Let_def)
  qed
qed simp

lemma alias_loop_first:
  assumes "claims as = c # cs"
  shows "\<exists>bs. claims bs = cs \<and> alias_loop no_lineage d as = alias_loop c d bs"
  using assms
proof (induction as)
  case (Cons a as)
  show ?case
  proof (cases "a = None \<or> ParentEntityID (alias_lineage (the a)) = []")
    case True
    then have "claims (a # as) = claims as" "alias_loop no_lineage d (a # as) = alias_loop no_lineage d as"
      by (cases a; simp add: Let_def)+
    then show ?thesis using Cons by simp
  next
    case False
    then obtain x where "a = Some x" "ParentEntityID (alias_lineage x) \<noteq> []" by (cases a) auto
    then show ?thesis
      using Cons.prems by (intro exI [of _ as]) (simp add: Let_def no_lineage_def)
  qed
qed simp

lemma alias_loop_none: "claims as = [] \<Longrightarrow> alias_loop f False as = (f, True)"
proof (induction as)
  case (Cons a as)
  then show ?case by (cases a) (auto simp: Let_def split: if_splits)
qed simp

lemma claims_parent: "c \<in> set (claims as) \<Longrightarrow> ParentEntityID c \<noteq> []"
  by (auto simp: claims_def)

lemma fromAliases_spec:
  "\<exists>src. fromAliases as =
     (if claims as = [] then (no_lineage, True)
      else if \<exists>c \<in> set (claims as). ParentEntityID c \<noteq> ParentEntityID (hd (claims as)) then (no_lineage, False)
      else (\<lparr> ParentEntityID = ParentEntityID (hd (claims as)), UnitID = sole (units (claims as)),
              Source = src \<rparr>, True))"
proof (cases "claims as")
  case Nil
  then show ?thesis by (simp add: fromAliases_def alias_loop_none)
next
  case (Cons c cs)
  obtain bs where bs: "claims bs = cs" "fromAliases as = alias_loop c False bs"
    using alias_loop_first [OF Cons] by (auto simp: fromAliases_def)
  have ne: "ParentEntityID c \<noteq> []" using claims_parent [of c as] Cons by simp
  show ?thesis
  proof (cases "\<exists>x \<in> set cs. ParentEntityID x \<noteq> ParentEntityID c")
    case True
    then obtain x where "x \<in> set (claims bs)" "ParentEntityID x \<noteq> ParentEntityID c" using bs by blast
    then show ?thesis using alias_loop_conflict [OF refl ne] bs(2) Cons True by simp
  next
    case False
    have "units (c # cs) = ({UnitID c} - {[]}) \<union> units cs" by (auto simp: units_def)
    then show ?thesis
      using alias_loop_agree [OF refl ne, of bs False] bs Cons False by simp
  qed
qed

text \<open>
  The parent and the unit a caller is attributed to do not depend on the order of the identity
  store's aliases: any two orders agree on whether the aliases contradict one another, on the
  parent, and on the unit, which is named only if no two aliases name different ones.
\<close>
theorem lineage_order_independent:
  assumes "mset as = mset bs"
  shows "snd (fromAliases as) = snd (fromAliases bs)
         \<and> ParentEntityID (fst (fromAliases as)) = ParentEntityID (fst (fromAliases bs))
         \<and> UnitID (fst (fromAliases as)) = UnitID (fst (fromAliases bs))"
proof -
  have "mset (claims as) = mset (claims bs)" using assms by (simp add: claims_def)
  then have cl: "set (claims as) = set (claims bs)" by (rule mset_eq_setD)
  then have e: "claims as = [] \<longleftrightarrow> claims bs = []" by (metis set_empty)
  show ?thesis
  proof (cases "claims as = []")
    case True
    then show ?thesis using fromAliases_spec [of as] fromAliases_spec [of bs] e by auto
  next
    case False
    then have h: "hd (claims as) \<in> set (claims bs)" "hd (claims bs) \<in> set (claims bs)"
      using cl e by (metis list.set_sel(1))+
    let ?diff = "\<lambda>as. \<exists>c \<in> set (claims as). ParentEntityID c \<noteq> ParentEntityID (hd (claims as))"
    have diff: "?diff as \<longleftrightarrow> ?diff bs" unfolding cl using h by metis
    obtain s1 where s1: "fromAliases as = (if ?diff as then (no_lineage, False)
        else (\<lparr> ParentEntityID = ParentEntityID (hd (claims as)), UnitID = sole (units (claims as)), Source = s1 \<rparr>, True))"
      using fromAliases_spec [of as, unfolded if_not_P [OF False]] by blast
    have False': "claims bs \<noteq> []" using False e by simp
    obtain s2 where s2: "fromAliases bs = (if ?diff bs then (no_lineage, False)
        else (\<lparr> ParentEntityID = ParentEntityID (hd (claims bs)), UnitID = sole (units (claims bs)), Source = s2 \<rparr>, True))"
      using fromAliases_spec [of bs, unfolded if_not_P [OF False']] by blast
    have u: "units (claims as) = units (claims bs)" by (simp add: units_def cl)
    show ?thesis
    proof (cases "?diff bs")
      case True
      then show ?thesis using s1 s2 diff by simp
    next
      case False
      then have "ParentEntityID (hd (claims as)) = ParentEntityID (hd (claims bs))" using h(1) by blast
      then show ?thesis using False s1 s2 diff u by simp
    qed
  qed
qed

definition claim_alias :: "string \<Rightarrow> string \<Rightarrow> bool \<Rightarrow> alias_info option" where
  "claim_alias p u custom =
     (let m = (\<lambda>k. if k = MetaParentEntityID then p else if k = MetaUnitID then u else [])
      in Some (if custom then \<lparr> CustomMetadata = m, AliasMetadata = (\<lambda>_. []) \<rparr>
               else \<lparr> CustomMetadata = (\<lambda>_. []), AliasMetadata = m \<rparr>))"

theorem lineage_order_independent_witness:
  "UnitID (fst (fromAliases [claim_alias ''p'' [] True, claim_alias ''p'' ''u'' False]))
     = UnitID (fst (fromAliases [claim_alias ''p'' ''u'' False, claim_alias ''p'' [] True]))"
  using lineage_order_independent [of "[claim_alias ''p'' [] True, claim_alias ''p'' ''u'' False]"
      "[claim_alias ''p'' ''u'' False, claim_alias ''p'' [] True]"]
  by (simp add: add_mset_commute)

text \<open>
  The recorded source of the lineage does depend on that order: of two aliases that agree, the
  first one's source is recorded, so the same caller is reported with a deliberate claim or with
  one a login may have written.
\<close>
theorem lineage_source_order_dependent:
  "Source (fst (fromAliases [claim_alias ''p'' ''u'' True, claim_alias ''p'' ''u'' False]))
     = Some SourceAliasCustomMetadata
   \<and> Source (fst (fromAliases [claim_alias ''p'' ''u'' False, claim_alias ''p'' ''u'' True]))
     = Some SourceAliasMetadata"
  by code_simp

text \<open>
  C39. Demands on the caller fail closed. A role whose stored demand is not in the vocabulary issues to
  nobody; a role that demands a token accessor issues to nobody without one; and one that demands a
  live parent issues only to a caller whose parent is another entity that the identity store
  answered for and reports as enabled.
\<close>
theorem caller_demands_fail_closed:
  "(EnforceIdentity req v = None \<longrightarrow> v \<in> {[], ''none'', ''any'', ''token_accessor''})
   \<and> (EnforceIdentity req ''token_accessor'' = None \<longrightarrow> (\<exists>r. req = Some r \<and> ClientTokenAccessor r \<noteq> []))
   \<and> (snd (EnforceLineage req view v) = None \<longrightarrow> v \<in> {[], ''none'', ''parent'', ''live_parent''})
   \<and> (snd (EnforceLineage req view ''live_parent'') = None \<longrightarrow>
        (\<exists>r info e. req = Some r \<and> view = Some info
           \<and> ParentEntityID (Resolve req view) \<notin> {[], EntityID r}
           \<and> info (ParentEntityID (Resolve req view)) = Inr (Some e) \<and> \<not> Disabled e))"
proof (intro conjI impI)
  assume "EnforceIdentity req v = None"
  then have "ParseIdentityRequirement v \<noteq> None" 
    by (cases "ParseIdentityRequirement v") (simp_all add: EnforceIdentity_def)
  then obtain d where "v = [] \<or> v = identity_demand_str d" using identity_field.parse_None [of v] by auto
  then show "v \<in> {[], ''none'', ''any'', ''token_accessor''}" by (cases d) auto
next
  assume "EnforceIdentity req ''token_accessor'' = None"
  then show "\<exists>r. req = Some r \<and> ClientTokenAccessor r \<noteq> []"
    using identity_field.parse_name [of RequireTokenAccessor]
    by (auto simp: EnforceIdentity_def split: option.splits if_splits)
next
  assume "snd (EnforceLineage req view v) = None"
  then have "ParseLineageRequirement v \<noteq> None" 
    by (cases "ParseLineageRequirement v") (simp_all add: EnforceLineage_def)
  then obtain d where "v = [] \<or> v = lineage_demand_str d" using lineage_field.parse_None [of v] by auto
  then show "v \<in> {[], ''none'', ''parent'', ''live_parent''}" by (cases d) auto
next
  assume e: "snd (EnforceLineage req view ''live_parent'') = None"
  obtain found x where r: "resolveCaller req view = (found, x)" by force
  then have f: "Resolve req view = found" by (simp add: Resolve_def)
  have p: "ParseLineageRequirement ''live_parent'' = Some LineageLiveParent"
    using lineage_field.parse_name [of LineageLiveParent] by simp
  show "\<exists>r info e. req = Some r \<and> view = Some info
      \<and> ParentEntityID (Resolve req view) \<notin> {[], EntityID r}
      \<and> info (ParentEntityID (Resolve req view)) = Inr (Some e) \<and> \<not> Disabled e"
    using e unfolding f
    by (auto simp: EnforceLineage_def p r split: if_splits option.splits sum.splits)
qed

definition unit_store :: "bool \<Rightarrow> entity_store" where
  "unit_store parent_disabled =
     (\<lambda>e. if e = ''unit'' then
            Inr (Some \<lparr> Aliases = [claim_alias ''svc'' ''u1'' True], EntityMetadata = (\<lambda>_. []), Disabled = False \<rparr>)
          else if e = ''svc'' then
            Inr (Some \<lparr> Aliases = [], EntityMetadata = (\<lambda>_. []), Disabled = parent_disabled \<rparr>)
          else Inr None)"

definition unit_caller :: caller where
  "unit_caller = \<lparr> ClientTokenAccessor = [], EntityID = ''unit'' \<rparr>"

theorem caller_demands_fail_closed_witness:
  "snd (EnforceLineage (Some unit_caller) (Some (unit_store False)) ''live_parent'') = None
   \<and> snd (EnforceLineage (Some unit_caller) (Some (unit_store True)) ''live_parent'') = Some ErrCallerUnparented
   \<and> (\<exists>r info e. Some unit_caller = Some r \<and> Some (unit_store False) = Some info
        \<and> info (ParentEntityID (Resolve (Some unit_caller) (Some (unit_store False)))) = Inr (Some e) \<and> \<not> Disabled e)"
proof -
  have a: "snd (EnforceLineage (Some unit_caller) (Some (unit_store False)) ''live_parent'') = None" by code_simp
  moreover have "snd (EnforceLineage (Some unit_caller) (Some (unit_store True)) ''live_parent'') = Some ErrCallerUnparented"
    by code_simp
  ultimately show ?thesis
    using caller_demands_fail_closed [of "Some unit_caller" "[]" "Some (unit_store False)"] by blast
qed

end
