(* ===== verification/Recovery.thy ===== *)
theory Recovery
  imports Envelope
begin

text \<open>
  \<open>pkg/recovery\<close>: the health of one minting credential. A machine is the record of the fields of
  Go's \<open>StateMachine\<close>; what runs under one hold of the machine's mutex is one function on the record, and
  what several goroutines do to a machine is a sequence of such steps. One method takes the mutex twice:
  recording a rate limit is \<open>openCooldown\<close> and then \<open>RecordError\<close>, and a run may have other steps
  between the two. The random
  fraction of the jitter is a rational argument in \<open>[0,1)\<close>, and the product with a duration is
  exact and truncated.
\<close>

section \<open>The machine\<close>

datatype state = Healthy | TransientFailing | AuthFailing | Missing

fun state_str :: "state \<Rightarrow> string" where
  "state_str Healthy = ''healthy''"
| "state_str TransientFailing = ''transient_failing''"
| "state_str AuthFailing = ''auth_failing''"
| "state_str Missing = ''missing''"

record config =
  AuthFailThreshold :: duration
  HealthCheckInterval :: duration

record machine =
  mstate :: state
  mconfig :: config
  firstAuthErrorAt :: time
  lastErrorAt :: time
  lastSuccessAt :: time
  enteredAuthFailed :: time
  cooldownUntil :: time
  consecutiveFailures :: nat
  consecutiveAuthFailures :: nat
  rateLimitStrikes :: nat
  probeUntil :: time

definition NewStateMachine :: "config \<Rightarrow> machine" where
  "NewStateMachine cfg =
     \<lparr> mstate = Healthy, mconfig = cfg, firstAuthErrorAt = zero_time, lastErrorAt = zero_time,
       lastSuccessAt = zero_time, enteredAuthFailed = zero_time, cooldownUntil = zero_time,
       consecutiveFailures = 0, consecutiveAuthFailures = 0, rateLimitStrikes = 0,
       probeUntil = zero_time \<rparr>"

definition RateLimitCooldown :: duration where "RateLimitCooldown = 5 * second"
definition MaxRateLimitCooldown :: duration where "MaxRateLimitCooldown = 2 * minute"
definition MaxCloudHintJitter :: duration where "MaxCloudHintJitter = 2 * second"
definition ProbeGrace :: duration where "ProbeGrace = 35 * second"
definition probePollInterval :: duration where "probePollInterval = 100000000"

lemmas ratelimit_defs = RateLimitCooldown_def MaxRateLimitCooldown_def MaxCloudHintJitter_def
  ProbeGrace_def probePollInterval_def duration_defs

definition serviceable :: "machine \<Rightarrow> bool" where
  "serviceable sm \<longleftrightarrow> mstate sm = Healthy \<or> mstate sm = TransientFailing"

definition isAuthError :: "int \<Rightarrow> bool" where
  "isAuthError st \<longleftrightarrow> st = 401 \<or> st = 403"

section \<open>Cooldown windows\<close>

text \<open>The jittered share of a duration: \<open>time.Duration(jitterFraction() * float64(d))\<close>.\<close>

definition jitter :: "rat \<Rightarrow> duration \<Rightarrow> duration" where
  "jitter j d = \<lfloor>j * of_int d\<rfloor>"

text \<open>The loop of \<open>cooldownFor\<close>: \<open>n\<close> is the number of doublings still allowed.\<close>

fun backoff_loop :: "nat \<Rightarrow> duration \<Rightarrow> duration" where
  "backoff_loop 0 b = b"
| "backoff_loop (Suc n) b = (if b < MaxRateLimitCooldown then backoff_loop n (b * 2) else b)"

definition cooldownFor :: "rat \<Rightarrow> nat \<Rightarrow> duration \<Rightarrow> duration" where
  "cooldownFor j strikes hint =
     (if 0 < hint then
        (let bound = min hint MaxCloudHintJitter in hint + jitter j bound)
      else
        let strikes = (if strikes < 1 then 1 else strikes);
            backoff = min (backoff_loop (strikes - 1) RateLimitCooldown) MaxRateLimitCooldown;
            half = go_div backoff 2
        in half + jitter j half)"

section \<open>Recording outcomes\<close>

definition RecordSuccess :: "time \<Rightarrow> machine \<Rightarrow> machine" where
  "RecordSuccess t sm =
     sm \<lparr> consecutiveFailures := 0, consecutiveAuthFailures := 0, lastSuccessAt := t,
          firstAuthErrorAt := zero_time, cooldownUntil := zero_time, rateLimitStrikes := 0,
          probeUntil := zero_time, mstate := Healthy \<rparr>"

definition ReleaseProbe :: "machine \<Rightarrow> machine" where
  "ReleaseProbe sm = sm \<lparr> probeUntil := zero_time \<rparr>"

definition RecordMissing :: "machine \<Rightarrow> machine" where
  "RecordMissing sm = sm \<lparr> mstate := Missing \<rparr>"

text \<open>The switch on the state at the end of \<open>RecordError\<close>.\<close>

definition error_transition :: "int \<Rightarrow> time \<Rightarrow> machine \<Rightarrow> machine" where
  "error_transition status t sm =
     (case mstate sm of
        Healthy \<Rightarrow>
          (let sm = sm \<lparr> mstate := TransientFailing \<rparr>
           in if isAuthError status then sm \<lparr> firstAuthErrorAt := t \<rparr> else sm)
      | TransientFailing \<Rightarrow>
          if isAuthError status then
            (let sm = (if IsZero (firstAuthErrorAt sm) then sm \<lparr> firstAuthErrorAt := t \<rparr> else sm)
             in if t - firstAuthErrorAt sm \<ge> AuthFailThreshold (mconfig sm)
                then sm \<lparr> mstate := AuthFailing, enteredAuthFailed := t \<rparr> else sm)
          else sm \<lparr> firstAuthErrorAt := zero_time \<rparr>
      | AuthFailing \<Rightarrow> sm
      | Missing \<Rightarrow> sm)"

definition RecordError :: "rat \<Rightarrow> int \<Rightarrow> time \<Rightarrow> machine \<Rightarrow> machine" where
  "RecordError j status t sm =
     (let sm = sm \<lparr> consecutiveFailures := consecutiveFailures sm + 1 \<rparr>;
          sm = (if isAuthError status
                then sm \<lparr> consecutiveAuthFailures := consecutiveAuthFailures sm + 1 \<rparr> else sm);
          sm = sm \<lparr> lastErrorAt := t \<rparr>;
          sm = (if status = 429 then sm \<lparr> cooldownUntil := t + cooldownFor j 1 0 \<rparr> else sm)
      in error_transition status t sm)"

record outcome =
  Status :: int
  Err :: "err option"
  RetryAfter :: duration

text \<open>
  A rate limit is recorded under two holds of the mutex: the cooldown is opened under the first, the
  failure is counted under the second.
\<close>

definition openCooldown :: "rat \<Rightarrow> duration \<Rightarrow> time \<Rightarrow> machine \<Rightarrow> machine" where
  "openCooldown j retryAfter t sm =
     (let sm = sm \<lparr> rateLimitStrikes := rateLimitStrikes sm + 1 \<rparr>;
          sm = sm \<lparr> cooldownUntil := t + cooldownFor j (rateLimitStrikes sm) retryAfter \<rparr>
      in sm \<lparr> probeUntil := zero_time \<rparr>)"

definition recordRateLimited :: "rat \<Rightarrow> duration \<Rightarrow> time \<Rightarrow> machine \<Rightarrow> machine" where
  "recordRateLimited j retryAfter t sm = RecordError j 503 t (openCooldown j retryAfter t sm)"

definition Record :: "rat \<Rightarrow> outcome \<Rightarrow> time \<Rightarrow> machine \<Rightarrow> machine" where
  "Record j out t sm =
     (let code = Classify (Status out) (Err out)
      in if \<not> IndictsMinter code then ReleaseProbe sm
         else if code = ErrUpstreamQuotaExceeded then recordRateLimited j (RetryAfter out) t sm
         else RecordError j (HealthStatus code) t sm)"

definition RecordUpstream :: "rat \<Rightarrow> int \<Rightarrow> err option \<Rightarrow> time \<Rightarrow> machine \<Rightarrow> machine" where
  "RecordUpstream j httpStatus e t sm =
     Record j \<lparr> Status = httpStatus, Err = e, RetryAfter = 0 \<rparr> t sm"

section \<open>Selection\<close>

definition Selectable :: "time \<Rightarrow> machine \<Rightarrow> bool" where
  "Selectable now sm = (if now < cooldownUntil sm then False else serviceable sm)"

definition TryAcquire :: "time \<Rightarrow> machine \<Rightarrow> bool \<times> machine" where
  "TryAcquire now sm =
     (if \<not> serviceable sm then (False, sm)
      else if now < cooldownUntil sm then (False, sm)
      else if rateLimitStrikes sm = 0 then (True, sm)
      else if now < probeUntil sm then (False, sm)
      else (True, sm \<lparr> probeUntil := now + ProbeGrace \<rparr>))"

definition InRateLimitCooldown :: "time \<Rightarrow> machine \<Rightarrow> bool" where
  "InRateLimitCooldown now sm \<longleftrightarrow> now < cooldownUntil sm \<or> 0 < rateLimitStrikes sm"

definition RetryIn :: "time \<Rightarrow> machine \<Rightarrow> duration" where
  "RetryIn now sm =
     (if \<not> serviceable sm then 0
      else if now < cooldownUntil sm then cooldownUntil sm - now
      else if 0 < rateLimitStrikes sm \<and> now < probeUntil sm then probePollInterval
      else 0)"

definition NeedsHealthCheck :: "time \<Rightarrow> machine \<Rightarrow> bool" where
  "NeedsHealthCheck now sm =
     (if mstate sm \<noteq> AuthFailing then False
      else let lastCheck = enteredAuthFailed sm;
               lastCheck = (if \<not> IsZero (lastSuccessAt sm) \<and> lastSuccessAt sm > lastCheck
                            then lastSuccessAt sm else lastCheck)
           in now - lastCheck \<ge> HealthCheckInterval (mconfig sm))"

text \<open>
  \<open>UnavailableError\<close>: the soonest retry over the machines in a cooldown, \<open>-1\<close> while none was
  seen. The result is the code of the error and the wait its message reports.
\<close>

fun soonest_retry :: "time \<Rightarrow> duration \<Rightarrow> machine list \<Rightarrow> duration" where
  "soonest_retry now soonest [] = soonest"
| "soonest_retry now soonest (sm # sms) =
     (if \<not> InRateLimitCooldown now sm then soonest_retry now soonest sms
      else let retryIn = RetryIn now sm
           in soonest_retry now (if soonest < 0 \<or> retryIn < soonest then retryIn else soonest) sms)"

definition UnavailableError :: "machine list \<Rightarrow> time \<Rightarrow> code \<times> duration option" where
  "UnavailableError machines now =
     (let soonest = soonest_retry now (-1) machines
      in if 0 \<le> soonest then (ErrUpstreamQuotaExceeded, Some soonest)
         else (ErrUpstreamAuthFailed, None))"

text \<open>
  \<open>ParseRetryAfter\<close>: the header is absent or a string, and \<open>http.ParseTime\<close> is an argument. The
  product of the parsed seconds with a second is 64-bit arithmetic and wraps.
\<close>

definition ParseRetryAfter :: "(string \<Rightarrow> time option) \<Rightarrow> string option \<Rightarrow> time \<Rightarrow> duration" where
  "ParseRetryAfter parse_time header now =
     (let raw = TrimSpace (case header of None \<Rightarrow> [] | Some v \<Rightarrow> v)
      in if raw = [] then 0
         else case ParseInt raw of
           Some seconds \<Rightarrow> if seconds \<le> 0 then 0 else wrap64 (seconds * second)
         | None \<Rightarrow>
             (case parse_time raw of
                None \<Rightarrow> 0
              | Some when_ \<Rightarrow> (let wait = when_ - now in if 0 < wait then wait else 0)))"

record snapshot =
  snapState :: string
  snapConsecutiveFailures :: nat
  snapConsecutiveAuthFailures :: nat
  snapLastSuccessAt :: "time option"
  snapSelectable :: bool
  snapRateLimited :: bool
  snapRetryInSeconds :: int

definition Snapshot :: "time \<Rightarrow> machine \<Rightarrow> snapshot" where
  "Snapshot now sm =
     \<lparr> snapState = state_str (mstate sm),
       snapConsecutiveFailures = consecutiveFailures sm,
       snapConsecutiveAuthFailures = consecutiveAuthFailures sm,
       snapLastSuccessAt =
         (if \<not> IsZero (lastSuccessAt sm) then Some (rfc3339 (lastSuccessAt sm)) else None),
       snapSelectable = (\<not> now < cooldownUntil sm \<and> serviceable sm),
       snapRateLimited = (now < cooldownUntil sm \<or> 0 < rateLimitStrikes sm),
       snapRetryInSeconds = (let retryIn = RetryIn now sm
                             in if 0 < retryIn then go_div retryIn second else 0) \<rparr>"

section \<open>Runs of a machine\<close>

text \<open>
  What a machine sees, in the order its mutex admits it: a caller asking to issue and the answer
  it got, the outcome of an upstream attempt, a success, a released probe, a failure recorded
  directly, the discovery that the credential is gone, and the first half of recording a rate limit,
  for the runs in which another goroutine's event comes before the second half, a failure with 503.
\<close>

datatype event =
    Acquire time bool
  | Attempt rat outcome time
  | Succeed time
  | Release
  | Fail rat int time
  | Gone
  | Limit rat duration time

inductive step :: "machine \<Rightarrow> event \<Rightarrow> machine \<Rightarrow> bool" where
  acquire: "TryAcquire now sm = (g, sm') \<Longrightarrow> step sm (Acquire now g) sm'"
| attempt: "0 \<le> j \<Longrightarrow> j < 1 \<Longrightarrow> step sm (Attempt j out t) (Record j out t sm)"
| succeed: "step sm (Succeed t) (RecordSuccess t sm)"
| release: "step sm Release (ReleaseProbe sm)"
| fail: "0 \<le> j \<Longrightarrow> j < 1 \<Longrightarrow> step sm (Fail j st t) (RecordError j st t sm)"
| gone: "step sm Gone (RecordMissing sm)"
| limit: "0 \<le> j \<Longrightarrow> j < 1 \<Longrightarrow> step sm (Limit j h t) (openCooldown j h t sm)"

inductive_cases stepE [elim!]: "step sm ev sm'"

inductive run :: "machine \<Rightarrow> event list \<Rightarrow> machine \<Rightarrow> bool" where
  run_Nil: "run sm [] sm"
| run_Cons: "step sm ev sm1 \<Longrightarrow> run sm1 evs sm2 \<Longrightarrow> run sm (ev # evs) sm2"

inductive_simps run_Nil_iff [simp]: "run sm [] sm'"
inductive_simps run_Cons_iff [simp]: "run sm (ev # evs) sm'"

lemma run_invariant:
  assumes "run sm evs sm'" and "P sm"
    and "\<And>m ev m'. step m ev m' \<Longrightarrow> ev \<in> set evs \<Longrightarrow> P m \<Longrightarrow> P m'"
  shows "P sm'"
  using assms
proof (induction rule: run.induct)
  case (run_Nil sm)
  then show ?case by simp
next
  case (run_Cons sm ev sm1 evs sm2)
  from run_Cons.prems(2) [OF run_Cons.hyps(1)] run_Cons.prems(1) have "P sm1" by simp
  then show ?case using run_Cons.IH run_Cons.prems(2) by simp
qed

text \<open>The fields an operation leaves alone.\<close>

lemma error_transition_frame [simp]:
  "rateLimitStrikes (error_transition st t sm) = rateLimitStrikes sm"
  "probeUntil (error_transition st t sm) = probeUntil sm"
  "cooldownUntil (error_transition st t sm) = cooldownUntil sm"
  "lastSuccessAt (error_transition st t sm) = lastSuccessAt sm"
  "mconfig (error_transition st t sm) = mconfig sm"
  "consecutiveFailures (error_transition st t sm) = consecutiveFailures sm"
  "consecutiveAuthFailures (error_transition st t sm) = consecutiveAuthFailures sm"
  by (auto simp: error_transition_def Let_def split: state.splits)

lemma RecordError_frame [simp]:
  "rateLimitStrikes (RecordError j st t sm) = rateLimitStrikes sm"
  "probeUntil (RecordError j st t sm) = probeUntil sm"
  "st \<noteq> 429 \<Longrightarrow> cooldownUntil (RecordError j st t sm) = cooldownUntil sm"
  "mconfig (RecordError j st t sm) = mconfig sm"
  "consecutiveFailures (RecordError j st t sm) = consecutiveFailures sm + 1"
  "consecutiveAuthFailures (RecordError j st t sm) =
     consecutiveAuthFailures sm + (if isAuthError st then 1 else 0)"
  by (simp_all add: RecordError_def Let_def)

lemma HealthStatus_not_429: "c \<noteq> ErrUpstreamQuotaExceeded \<Longrightarrow> HealthStatus c \<noteq> 429"
  by (cases c) simp_all

definition out_code :: "outcome \<Rightarrow> code" where
  "out_code out = Classify (Status out) (Err out)"

definition rate_limited :: "outcome \<Rightarrow> bool" where
  "rate_limited out \<longleftrightarrow> out_code out = ErrUpstreamQuotaExceeded"

lemma Record_cases [case_names exonerated limited failed]:
  obtains "\<not> IndictsMinter (out_code out)" "Record j out t sm = ReleaseProbe sm"
  | "rate_limited out" "Record j out t sm = recordRateLimited j (RetryAfter out) t sm"
  | "IndictsMinter (out_code out)" "\<not> rate_limited out"
    "Record j out t sm = RecordError j (HealthStatus (out_code out)) t sm"
    "HealthStatus (out_code out) \<noteq> 429"
  using HealthStatus_not_429 by (auto simp: Record_def rate_limited_def out_code_def Let_def)

lemma recordRateLimited_frame [simp]:
  "rateLimitStrikes (recordRateLimited j h t sm) = rateLimitStrikes sm + 1"
  "probeUntil (recordRateLimited j h t sm) = zero_time"
  "cooldownUntil (recordRateLimited j h t sm) = t + cooldownFor j (rateLimitStrikes sm + 1) h"
  by (simp_all add: recordRateLimited_def openCooldown_def Let_def)

lemma TryAcquire_False: "TryAcquire now sm = (False, sm') \<Longrightarrow> sm' = sm"
  by (auto simp: TryAcquire_def split: if_splits)

lemma TryAcquire_True:
  "TryAcquire now sm = (True, sm') \<longleftrightarrow>
     Selectable now sm \<and>
     (rateLimitStrikes sm = 0 \<and> sm' = sm \<or>
      0 < rateLimitStrikes sm \<and> probeUntil sm \<le> now \<and> sm' = sm \<lparr> probeUntil := now + ProbeGrace \<rparr>)"
  by (auto simp: TryAcquire_def Selectable_def)


section \<open>Selection properties\<close>

definition failure_event :: "event \<Rightarrow> bool" where
  "failure_event ev =
     (case ev of
        Acquire _ _ \<Rightarrow> True
      | Attempt _ out _ \<Rightarrow> IndictsMinter (out_code out) \<and> \<not> rate_limited out
      | _ \<Rightarrow> False)"

fun grants :: "event list \<Rightarrow> time list" where
  "grants [] = []"
| "grants (Acquire t True # evs) = t # grants evs"
| "grants (_ # evs) = grants evs"

lemma step_failure_frame:
  assumes "step sm ev sm'" and "failure_event ev" and "0 < rateLimitStrikes sm"
  shows "rateLimitStrikes sm' = rateLimitStrikes sm"
    and "(\<forall>t. ev \<noteq> Acquire t True) \<Longrightarrow> probeUntil sm' = probeUntil sm"
    and "\<And>t. ev = Acquire t True \<Longrightarrow> probeUntil sm \<le> t \<and> probeUntil sm' = t + ProbeGrace"
proof -
  show "rateLimitStrikes sm' = rateLimitStrikes sm"
    using assms by (auto simp: failure_event_def TryAcquire_def Record_def rate_limited_def
        out_code_def Let_def split: if_splits)
  show "(\<forall>t. ev \<noteq> Acquire t True) \<Longrightarrow> probeUntil sm' = probeUntil sm"
    using assms by (auto simp: failure_event_def TryAcquire_def Record_def rate_limited_def
        out_code_def Let_def split: if_splits)
  show "\<And>t. ev = Acquire t True \<Longrightarrow> probeUntil sm \<le> t \<and> probeUntil sm' = t + ProbeGrace"
    using assms by (auto simp: TryAcquire_True)
qed

lemma failures_keep_probe:
  assumes "run sm evs sm'" and "0 < rateLimitStrikes sm" and "\<forall>ev \<in> set evs. failure_event ev"
  shows "sorted_wrt (\<lambda>a b. a + ProbeGrace \<le> b) (grants evs)
         \<and> (\<forall>t \<in> set (grants evs). probeUntil sm \<le> t)"
  using assms
proof (induction rule: run.induct)
  case (run_Nil sm)
  then show ?case by simp
next
  case (run_Cons sm ev sm1 evs sm2)
  note frame = step_failure_frame [OF run_Cons.hyps(1)]
  have fe: "failure_event ev" using run_Cons.prems by simp
  have IH: "sorted_wrt (\<lambda>a b. a + ProbeGrace \<le> b) (grants evs)"
    "\<forall>t \<in> set (grants evs). probeUntil sm1 \<le> t"
    using run_Cons frame(1) by auto
  show ?case
  proof (cases "\<exists>t. ev = Acquire t True")
    case True
    then obtain t where t: "ev = Acquire t True" by blast
    then have "probeUntil sm \<le> t" "probeUntil sm1 = t + ProbeGrace"
      using frame(3) fe run_Cons.prems by auto
    moreover have "0 \<le> ProbeGrace" by (simp add: ratelimit_defs)
    ultimately show ?thesis using IH t by fastforce
  next
    case False
    then have "grants (ev # evs) = grants evs" by (cases ev rule: event.exhaust) auto
    moreover have "probeUntil sm1 = probeUntil sm"
      using False frame(2) fe run_Cons.prems by auto
    ultimately show ?thesis using IH by simp
  qed
qed

text \<open>
  C28. While a minter is half-open, grants to issue are at least the probe grace apart: among any
  requests and any recorded failures that indict the minter without being a rate limit (an outage, a
  timeout, a rejected login), in any order and from any number of callers, two grants are never closer
  than 35 seconds, so one caller probes. Such a failure does not hand the claim back, which the comments
  of the code say a recorded outcome does: see \<open>recorded_failure_keeps_claim\<close>.
\<close>
theorem half_open_single_probe:
  assumes "run sm evs sm'" and "0 < rateLimitStrikes sm" and "\<forall>ev \<in> set evs. failure_event ev"
  shows "sorted_wrt (\<lambda>a b. a + 35 * 1000000000 \<le> b) (grants evs)"
  using failures_keep_probe [OF assms] by (simp add: ratelimit_defs)

definition limited_machine :: machine where
  "limited_machine =
     Record 0 \<lparr> Status = 429, Err = None, RetryAfter = 60 * second \<rparr> (100 * second)
       (NewStateMachine \<lparr> AuthFailThreshold = 5 * minute, HealthCheckInterval = minute \<rparr>)"

theorem half_open_single_probe_witness:
  "\<exists>evs sm'. run limited_machine evs sm' \<and> grants evs = [200 * second, 235 * second]
     \<and> sorted_wrt (\<lambda>a b. a + 35 * 1000000000 \<le> b) (grants evs)"
proof -
  let ?m = limited_machine
  let ?evs = "[Acquire (150 * second) False, Acquire (200 * second) True,
    Attempt 0 \<lparr> Status = 503, Err = None, RetryAfter = 0 \<rparr> (201 * second),
    Acquire (202 * second) False, Acquire (235 * second) True]"
  note ev = limited_machine_def NewStateMachine_def Record_def Classify_def ClassifyUpstream_def
    recordRateLimited_def openCooldown_def RecordError_def error_transition_def isAuthError_def cooldownFor_def
    jitter_def ratelimit_defs TryAcquire_def serviceable_def Let_def
  have "\<exists>sm'. run ?m ?evs sm'"
    by (auto simp: ev intro!: step.intros run.intros exI)
  then obtain sm' where r: "run ?m ?evs sm'" ..
  have "0 < rateLimitStrikes ?m" by (simp add: ev)
  moreover have "\<forall>e \<in> set ?evs. failure_event e"
    by (simp add: failure_event_def rate_limited_def out_code_def Classify_def ClassifyUpstream_def)
  ultimately have "sorted_wrt (\<lambda>a b. a + 35 * 1000000000 \<le> b) (grants ?evs)"
    using half_open_single_probe [OF r] by blast
  then show ?thesis using r by (intro exI [of _ ?evs] exI [of _ sm']) simp
qed

text \<open>
  The claim of a probe lapses with the grace, or is handed back by a success, a rate limit or an outcome
  that says nothing about the minter. A recorded outage is none of these: the next caller, a second
  after it, is refused, where after a recorded 404 it is granted.
\<close>
theorem recorded_failure_keeps_claim:
  "let probing = snd (TryAcquire (200 * second) limited_machine);
       told = (\<lambda>st. Record 0 \<lparr> Status = st, Err = None, RetryAfter = 0 \<rparr> (201 * second) probing)
   in fst (TryAcquire (200 * second) limited_machine)
      \<and> \<not> fst (TryAcquire (202 * second) (told 503)) \<and> \<not> fst (TryAcquire (202 * second) (told 504))
      \<and> \<not> fst (TryAcquire (202 * second) (told 403)) \<and> fst (TryAcquire (202 * second) (told 404))"
  by code_simp

section \<open>Cooldowns\<close>

lemma jitter_bounds:
  assumes "0 \<le> j" and "j < 1" and "0 \<le> d"
  shows "0 \<le> jitter j d" and "jitter j d \<le> d"
proof -
  show "0 \<le> jitter j d" using assms by (simp add: jitter_def)
  have "j * of_int d \<le> 1 * (of_int d :: rat)"
    using assms by (intro mult_right_mono) auto
  then show "jitter j d \<le> d" by (simp add: jitter_def floor_le_iff)
qed

lemma cooldown_hint:
  assumes "0 \<le> j" and "j < 1" and "0 < hint"
  shows "hint \<le> cooldownFor j n hint" and "cooldownFor j n hint \<le> hint + 2 * second"
  using jitter_bounds [of j "min hint MaxCloudHintJitter"] assms
  by (auto simp: cooldownFor_def Let_def ratelimit_defs)

lemma backoff_loop_closed:
  "b = RateLimitCooldown * 2 ^ k \<Longrightarrow>
     min (backoff_loop n b) MaxRateLimitCooldown = min (RateLimitCooldown * 2 ^ (k + n)) MaxRateLimitCooldown"
proof (induction n arbitrary: b k)
  case 0
  then show ?case by simp
next
  case (Suc n)
  show ?case
  proof (cases "b < MaxRateLimitCooldown")
    case True
    then show ?thesis using Suc.IH [of "b * 2" "Suc k"] Suc.prems by (simp add: mult.commute)
  next
    case False
    have "(1::int) \<le> 2 ^ Suc n" by (rule one_le_power) simp
    then have "b * 1 \<le> b * 2 ^ Suc n"
      using Suc.prems by (intro mult_left_mono) (auto simp: ratelimit_defs)
    then have "MaxRateLimitCooldown \<le> RateLimitCooldown * 2 ^ (k + Suc n)"
      using False Suc.prems by (simp add: power_add ac_simps)
    then show ?thesis using False by (simp add: min_def)
  qed
qed

text \<open>
  The cooldown after the \<open>n\<close>-th consecutive rate limit without a hint from the cloud lies
  between half of and the whole of \<open>5s * 2^(n-1)\<close> capped at two minutes, whatever the jitter.
\<close>
theorem cooldown_backoff:
  assumes "0 \<le> j" and "j < 1" and "1 \<le> n" and "hint \<le> 0"
  shows "min (5 * second * 2 ^ (n - 1)) (120 * second) div 2 \<le> cooldownFor j n hint
         \<and> cooldownFor j n hint \<le> min (5 * second * 2 ^ (n - 1)) (120 * second)"
proof -
  define b where "b = min (5 * second * 2 ^ (n - 1)) (120 * second)"
  have loop: "min (backoff_loop (n - 1) RateLimitCooldown) MaxRateLimitCooldown = b"
    using backoff_loop_closed [of RateLimitCooldown 0 "n - 1"]
    by (simp add: b_def ratelimit_defs)
  have nn: "0 \<le> b" by (simp add: b_def ratelimit_defs)
  then have half: "go_div b 2 = b div 2" by simp
  have "cooldownFor j n hint =
      (let h = go_div (min (backoff_loop (n - 1) RateLimitCooldown) MaxRateLimitCooldown) 2
       in h + jitter j h)"
    using assms by (simp add: cooldownFor_def Let_def not_less)
  then have "cooldownFor j n hint = b div 2 + jitter j (b div 2)"
    unfolding loop half Let_def .
  moreover have "0 \<le> jitter j (b div 2)" "jitter j (b div 2) \<le> b div 2"
    using jitter_bounds [of j "b div 2"] assms nn by auto
  moreover have "b div 2 + b div 2 \<le> b" by presburger
  ultimately show ?thesis unfolding b_def [symmetric] by linarith
qed

theorem cooldown_backoff_witness:
  "10 * second \<le> cooldownFor (1 / 2) 3 0 \<and> cooldownFor (1 / 2) 3 0 \<le> 20 * second"
  using cooldown_backoff [of "1 / 2" 3 0] by (simp add: duration_defs)

text \<open>
  A rate limit with a hint \<open>h\<close> at \<open>t\<close> keeps the cooldown at or after \<open>t + h\<close> for as long as the
  machine sees neither a success nor another rate limit.
\<close>

definition quiet_event :: "event \<Rightarrow> bool" where
  "quiet_event ev =
     (case ev of
        Acquire _ _ \<Rightarrow> True
      | Attempt _ out _ \<Rightarrow> \<not> rate_limited out
      | Succeed _ \<Rightarrow> False
      | Release \<Rightarrow> True
      | Fail _ st _ \<Rightarrow> st \<noteq> 429
      | Gone \<Rightarrow> True
      | Limit _ _ _ \<Rightarrow> False)"

lemma quiet_keeps_cooldown:
  assumes "step sm ev sm'" and "quiet_event ev"
  shows "cooldownUntil sm' = cooldownUntil sm"
proof (cases ev rule: event.exhaust)
  case (Attempt j out t)
  then have "\<not> rate_limited out" and "sm' = Record j out t sm"
    using assms by (auto simp: quiet_event_def)
  then show ?thesis
    by (cases rule: Record_cases [of out j t sm]) (simp_all add: ReleaseProbe_def)
next
  case (Acquire t g)
  then show ?thesis using assms by (auto simp: TryAcquire_def split: if_splits)
qed (use assms in \<open>auto simp: quiet_event_def ReleaseProbe_def RecordMissing_def\<close>)

lemma quiet_no_grant:
  assumes "run sm evs sm'" and "\<forall>ev \<in> set evs. quiet_event ev"
  shows "\<forall>t \<in> set (grants evs). cooldownUntil sm \<le> t"
  using assms
proof (induction rule: run.induct)
  case (run_Nil sm)
  then show ?case by simp
next
  case (run_Cons sm ev sm1 evs sm2)
  then have "cooldownUntil sm1 = cooldownUntil sm" using quiet_keeps_cooldown by simp
  moreover have "ev = Acquire t True \<Longrightarrow> cooldownUntil sm \<le> t" for t
    using run_Cons.hyps(1) by (auto simp: TryAcquire_True Selectable_def split: if_splits)
  ultimately show ?case using run_Cons by (cases "(ev # evs)" rule: grants.cases) auto
qed

text \<open>
  What the cloud asked for is kept: after a rate limit with hint \<open>h\<close> recorded at \<open>t\<close>, no request
  is granted before \<open>t + h\<close>, whatever other requests, failures and released probes follow, as long
  as the machine records neither a success nor a further rate limit.
\<close>
theorem hint_respected:
  assumes "0 \<le> j" and "j < 1" and "0 < RetryAfter out" and "rate_limited out"
    and "run (Record j out t sm) evs sm'" and "\<forall>ev \<in> set evs. quiet_event ev"
  shows "\<forall>now \<in> set (grants evs). t + RetryAfter out \<le> now"
proof -
  have "Record j out t sm = recordRateLimited j (RetryAfter out) t sm"
    using assms(4) by (auto simp: Record_def rate_limited_def out_code_def Let_def)
  then have "t + RetryAfter out \<le> cooldownUntil (Record j out t sm)"
    using cooldown_hint(1) assms(1-3) by simp
  then show ?thesis using quiet_no_grant [OF assms(5,6)] by fastforce
qed

theorem hint_respected_witness:
  "\<exists>evs sm'. run limited_machine evs sm' \<and> grants evs = [200 * second]
     \<and> (\<forall>now \<in> set (grants evs). 100 * second + 60 * second \<le> now)"
proof -
  let ?out = "\<lparr> Status = 429, Err = None, RetryAfter = 60 * second \<rparr>"
  let ?sm = "NewStateMachine \<lparr> AuthFailThreshold = 5 * minute, HealthCheckInterval = minute \<rparr>"
  let ?evs = "[Acquire (150 * second) False, Acquire (200 * second) True]"
  note ev = NewStateMachine_def Record_def Classify_def ClassifyUpstream_def
    recordRateLimited_def openCooldown_def RecordError_def error_transition_def isAuthError_def cooldownFor_def
    jitter_def ratelimit_defs TryAcquire_def serviceable_def Let_def
  have "\<exists>sm'. run (Record 0 ?out (100 * second) ?sm) ?evs sm'"
    by (auto simp: ev intro!: step.intros run.intros exI)
  then obtain sm' where r: "run (Record 0 ?out (100 * second) ?sm) ?evs sm'" ..
  have "rate_limited ?out" by (simp add: rate_limited_def out_code_def Classify_def ClassifyUpstream_def)
  then have "\<forall>now \<in> set (grants ?evs). 100 * second + 60 * second \<le> now"
    using hint_respected [of 0 ?out "100 * second" ?sm ?evs sm'] r
    by (simp add: quiet_event_def second_def)
  then show ?thesis
    using r unfolding limited_machine_def by (intro exI [of _ ?evs] exI [of _ sm']) simp
qed

text \<open>
  A second rate limit does not always lengthen the window: one without a hint, from a request
  that was in flight when the first asked for 60 seconds, replaces it by a window that the
  exponential backoff chooses, and the minter is offered 50 seconds before the cloud allowed.
\<close>
theorem later_limit_shortens_window:
  "let sm = Record 0 \<lparr> Status = 429, Err = None, RetryAfter = 60 * second \<rparr> (100 * second)
              (NewStateMachine cfg);
       sm' = Record 0 \<lparr> Status = 429, Err = None, RetryAfter = 0 \<rparr> (101 * second) sm
   in \<not> fst (TryAcquire (110 * second) sm) \<and> fst (TryAcquire (110 * second) sm')"
  by code_simp

section \<open>When a minter is taken out of service\<close>

text \<open>
  A rejected login, told from what the caller of the machine hands in: the cloud's status 401 or 403, or,
  when there was no response, an error that carries the code of one.
\<close>

definition login_rejected :: "int \<Rightarrow> err option \<Rightarrow> bool" where
  "login_rejected st e \<longleftrightarrow>
     st = 401 \<or> st = 403
     \<or> st \<le> 0 \<and> (case e of
           None \<Rightarrow> False
         | Some x \<Rightarrow> (case leaf x of PluginError (Some c) _ _ \<Rightarrow> c = ErrUpstreamAuthFailed | _ \<Rightarrow> False))"

definition rejection :: "event \<Rightarrow> time option" where
  "rejection ev =
     (case ev of
        Attempt _ out t \<Rightarrow> if login_rejected (Status out) (Err out) then Some t else None
      | Fail _ st t \<Rightarrow> if st = 401 \<or> st = 403 then Some t else None
      | _ \<Rightarrow> None)"

text \<open>Events that leave a suspicion standing: requests, releases, failures that say nothing, rejected logins.\<close>

definition undisturbed :: "event \<Rightarrow> bool" where
  "undisturbed ev =
     (case ev of
        Acquire _ _ \<Rightarrow> True
      | Attempt _ out _ \<Rightarrow> IndictsMinter (out_code out) \<longrightarrow> login_rejected (Status out) (Err out)
      | Succeed _ \<Rightarrow> False
      | Release \<Rightarrow> True
      | Fail _ st _ \<Rightarrow> st = 401 \<or> st = 403
      | Gone \<Rightarrow> False
      | Limit _ _ _ \<Rightarrow> True)"

definition convicted :: "duration \<Rightarrow> event list \<Rightarrow> bool" where
  "convicted thr evs \<longleftrightarrow>
     (\<exists>xs e1 zs e2 rest t1 t2. evs = xs @ e1 # zs @ e2 # rest
        \<and> rejection e1 = Some t1 \<and> rejection e2 = Some t2 \<and> thr \<le> t2 - t1
        \<and> (\<forall>ev \<in> set zs. undisturbed ev) \<and> (\<forall>ev \<in> set rest. \<forall>t. ev \<noteq> Succeed t))"

definition evidence :: "duration \<Rightarrow> event list \<Rightarrow> state \<Rightarrow> time \<Rightarrow> bool" where
  "evidence thr evs s f \<longleftrightarrow>
     (s = Healthy \<longrightarrow> f = 0)
     \<and> (s = TransientFailing \<and> f \<noteq> 0 \<longrightarrow>
          (\<exists>xs e zs. evs = xs @ e # zs \<and> rejection e = Some f \<and> (\<forall>ev \<in> set zs. undisturbed ev)))
     \<and> (s = AuthFailing \<longrightarrow> convicted thr evs)"

lemma out_code_rejected:
  "HealthStatus (out_code out) = 401 \<or> HealthStatus (out_code out) = 403 \<Longrightarrow> login_rejected (Status out) (Err out)"
  by (cases "out_code out")
    (auto simp: out_code_def Classify_def ClassifyUpstream_def classifyTransport_def login_rejected_def
      split: if_splits option.splits err.splits)

lemma convicted_snoc: "convicted thr evs \<Longrightarrow> \<forall>t. ev \<noteq> Succeed t \<Longrightarrow> convicted thr (evs @ [ev])"
  unfolding convicted_def by (elim exE conjE, intro exI conjI) (assumption | force)+

lemma evidence_snoc:
  assumes "evidence thr evs s f" and "undisturbed ev"
  shows "evidence thr (evs @ [ev]) s f"
proof -
  have ns: "\<forall>t. ev \<noteq> Succeed t" using assms(2) by (auto simp: undisturbed_def)
  have "\<exists>xs e zs. evs @ [ev] = xs @ e # zs \<and> rejection e = Some f \<and> (\<forall>ev \<in> set zs. undisturbed ev)"
    if "evs = xs @ e # zs" "rejection e = Some f" "\<forall>ev \<in> set zs. undisturbed ev" for xs e zs
    using that assms(2) by (intro exI [of _ xs] exI [of _ e] exI [of _ "zs @ [ev]"]) auto
  then show ?thesis using assms(1) convicted_snoc ns unfolding evidence_def by blast
qed

text \<open>One recorded failure: the machine convicts only on a rejection that closes a span opened by one.\<close>

lemma evidence_error:
  assumes "evidence thr evs (mstate sm) (firstAuthErrorAt sm)" and "mconfig sm = cfg" and "thr = AuthFailThreshold cfg"
    and "0 < thr" and "t \<noteq> 0" and "\<forall>t. ev \<noteq> Succeed t"
    and "st = 401 \<or> st = 403 \<Longrightarrow> rejection ev = Some t"
  shows "evidence thr (evs @ [ev]) (mstate (RecordError j st t sm)) (firstAuthErrorAt (RecordError j st t sm))"
proof -
  let ?f = "firstAuthErrorAt sm"
  have opens: "\<exists>xs e zs. evs @ [ev] = xs @ e # zs \<and> rejection e = Some t \<and> (\<forall>ev \<in> set zs. undisturbed ev)"
    if "rejection ev = Some t"
    using that by (intro exI [of _ evs] exI [of _ ev] exI [of _ "[]"]) simp
  have rej: "undisturbed ev" if "rejection ev = Some t" "st = 401 \<or> st = 403"
    using that by (cases ev rule: event.exhaust) (auto simp: rejection_def undisturbed_def split: if_splits)
  have closes: "convicted thr (evs @ [ev])"
    if "mstate sm = TransientFailing" "?f \<noteq> 0" "thr \<le> t - ?f" "rejection ev = Some t"
  proof -
    from assms(1) that(1,2) obtain xs e zs where "evs = xs @ e # zs" "rejection e = Some ?f"
      "\<forall>ev \<in> set zs. undisturbed ev"
      unfolding evidence_def by blast
    then show ?thesis using that(3,4) unfolding convicted_def
      by (intro exI [of _ xs] exI [of _ e] exI [of _ zs] exI [of _ ev] exI [of _ "[]"] exI [of _ ?f] exI [of _ t]) simp
  qed
  note old = evidence_snoc [OF assms(1)]
  show ?thesis
  proof (cases "mstate sm")
    case Healthy
    then have "?f = 0" using assms(1) by (simp add: evidence_def)
    with Healthy show ?thesis using opens assms(7)
      by (auto simp: RecordError_def error_transition_def isAuthError_def evidence_def Let_def)
  next
    case TransientFailing
    show ?thesis
    proof (cases "st = 401 \<or> st = 403")
      case True
      then show ?thesis using TransientFailing opens closes old rej assms(2-5,7)
        by (auto simp: RecordError_def error_transition_def isAuthError_def evidence_def Let_def)
    next
      case False
      then show ?thesis using TransientFailing
        by (auto simp: RecordError_def error_transition_def isAuthError_def evidence_def Let_def)
    qed
  next
    case AuthFailing
    then show ?thesis using assms(1,6) convicted_snoc
      by (auto simp: RecordError_def error_transition_def evidence_def Let_def)
  next
    case Missing
    then show ?thesis by (simp add: RecordError_def error_transition_def evidence_def Let_def)
  qed
qed

definition event_time :: "event \<Rightarrow> time" where
  "event_time ev =
     (case ev of Attempt _ _ t \<Rightarrow> t | Fail _ _ t \<Rightarrow> t | Acquire t _ \<Rightarrow> t | Succeed t \<Rightarrow> t | _ \<Rightarrow> 1)"

lemma evidence_step:
  assumes "step sm ev sm'" and "evidence thr evs (mstate sm) (firstAuthErrorAt sm)" and "mconfig sm = cfg"
    and "thr = AuthFailThreshold cfg" and "0 < thr" and "event_time ev \<noteq> 0"
  shows "evidence thr (evs @ [ev]) (mstate sm') (firstAuthErrorAt sm') \<and> mconfig sm' = cfg"
proof (cases ev rule: event.exhaust)
  case (Acquire t g)
  then have "TryAcquire t sm = (g, sm')" using assms(1) by blast
  then have "mstate sm' = mstate sm" "firstAuthErrorAt sm' = firstAuthErrorAt sm" "mconfig sm' = mconfig sm"
    by (auto simp: TryAcquire_def split: if_splits)
  moreover have "undisturbed ev" by (simp add: Acquire undisturbed_def)
  ultimately show ?thesis using evidence_snoc assms(2,3) by simp
next
  case (Attempt j out t)
  then have sm': "sm' = Record j out t sm" and t: "t \<noteq> 0" using assms(1,6) by (auto simp: event_time_def)
  note err = evidence_error [OF _ _ assms(4,5) t, where ev = ev and j = j]
  have ns: "\<forall>t. ev \<noteq> Succeed t" by (simp add: Attempt)
  show ?thesis
  proof (cases rule: Record_cases [of out j t sm])
    case exonerated
    then have "undisturbed ev" by (simp add: Attempt undisturbed_def)
    then show ?thesis using exonerated(2) evidence_snoc assms(2,3) sm' by (simp add: ReleaseProbe_def)
  next
    case limited
    let ?m = "sm \<lparr> rateLimitStrikes := rateLimitStrikes sm + 1,
      cooldownUntil := t + cooldownFor j (rateLimitStrikes sm + 1) (RetryAfter out), probeUntil := zero_time \<rparr>"
    have "sm' = RecordError j 503 t ?m" using limited(2) sm' by (simp add: recordRateLimited_def openCooldown_def Let_def)
    then show ?thesis using err [of evs ?m 503] assms(2,3) ns by simp
  next
    case failed
    have "rejection ev = Some t" if "HealthStatus (out_code out) = 401 \<or> HealthStatus (out_code out) = 403"
      using out_code_rejected [OF that] by (simp add: Attempt rejection_def)
    then show ?thesis using failed(3) sm' err [of evs sm "HealthStatus (out_code out)"] assms(2,3) ns by simp
  qed
next
  case (Fail j st t)
  then have "sm' = RecordError j st t sm" and "t \<noteq> 0" using assms(1,6) by (auto simp: event_time_def)
  then show ?thesis using evidence_error [OF assms(2-5), of t ev st j] assms(3)
    by (simp add: Fail rejection_def)
next
  case (Succeed t)
  then show ?thesis using assms(1,3) by (auto simp: RecordSuccess_def evidence_def)
next
  case Release
  then have "undisturbed ev" by (simp add: undisturbed_def)
  then show ?thesis using Release assms(1-3) evidence_snoc by (auto simp: ReleaseProbe_def)
next
  case Gone
  then show ?thesis using assms(1,3) by (auto simp: RecordMissing_def evidence_def)
next
  case (Limit j h t)
  then have "undisturbed ev" by (simp add: undisturbed_def)
  then show ?thesis using Limit assms(1-3) evidence_snoc by (auto simp: openCooldown_def Let_def)
qed

lemma run_evidence:
  assumes "run sm evs sm'" and "evidence thr past (mstate sm) (firstAuthErrorAt sm)" and "mconfig sm = cfg"
    and "thr = AuthFailThreshold cfg" and "0 < thr" and "\<forall>ev \<in> set evs. event_time ev \<noteq> 0"
  shows "evidence thr (past @ evs) (mstate sm') (firstAuthErrorAt sm')"
  using assms(1-3,6)
proof (induction arbitrary: past rule: run.induct)
  case (run_Nil sm)
  then show ?case by simp
next
  case (run_Cons sm ev sm1 evs sm2)
  from run_Cons.prems have ev: "event_time ev \<noteq> 0" by simp
  note step = evidence_step [OF run_Cons.hyps(1) run_Cons.prems(1,2) assms(4,5) ev]
  show ?case using run_Cons.IH [of "past @ [ev]"] step run_Cons.prems(3) by simp
qed

text \<open>
  C29. A machine is taken out of service as \<open>AuthFailing\<close> only on evidence, whatever it is told and in
  whatever order: among the events since it was made there are two rejected logins (a status 401 or 403,
  or an error that carries the code of one) at least the configured threshold apart, with no success
  since the first, and between the two nothing was recorded against the minter but rejected logins. So
  no rate limit, timeout, outage or malformed request gets a machine there or counts towards it.
\<close>
theorem auth_failing_evidence:
  assumes "run (NewStateMachine cfg) evs sm" and "0 < AuthFailThreshold cfg"
    and "\<forall>ev \<in> set evs. event_time ev \<noteq> 0" and "mstate sm = AuthFailing"
  shows "\<exists>xs e1 zs e2 rest t1 t2. evs = xs @ e1 # zs @ e2 # rest
           \<and> rejection e1 = Some t1 \<and> rejection e2 = Some t2 \<and> AuthFailThreshold cfg \<le> t2 - t1
           \<and> (\<forall>ev \<in> set zs. undisturbed ev) \<and> (\<forall>ev \<in> set rest. \<forall>t. ev \<noteq> Succeed t)"
proof -
  have "evidence (AuthFailThreshold cfg) ([] @ evs) (mstate sm) (firstAuthErrorAt sm)"
    by (rule run_evidence [OF assms(1) _ _ refl assms(2,3)]) (simp_all add: evidence_def NewStateMachine_def)
  then show ?thesis using assms(4) by (simp add: evidence_def convicted_def)
qed

theorem auth_failing_evidence_witness:
  "\<exists>evs sm. run (NewStateMachine \<lparr> AuthFailThreshold = 300 * second, HealthCheckInterval = minute \<rparr>) evs sm
     \<and> mstate sm = AuthFailing
     \<and> (\<exists>xs e1 zs e2 rest t1 t2. evs = xs @ e1 # zs @ e2 # rest
          \<and> rejection e1 = Some t1 \<and> rejection e2 = Some t2 \<and> 300 * second \<le> t2 - t1
          \<and> (\<forall>ev \<in> set zs. undisturbed ev) \<and> (\<forall>ev \<in> set rest. \<forall>t. ev \<noteq> Succeed t))"
proof -
  let ?cfg = "\<lparr> AuthFailThreshold = 300 * second, HealthCheckInterval = minute \<rparr>"
  let ?o = "\<lparr> Status = 403, Err = None, RetryAfter = 0 \<rparr>"
  let ?evs = "[Attempt 0 ?o (100 * second), Attempt 0 ?o (400 * second)]"
  let ?sm = "Record 0 ?o (400 * second) (Record 0 ?o (100 * second) (NewStateMachine ?cfg))"
  have r: "run (NewStateMachine ?cfg) ?evs ?sm"
    by (rule run_Cons [OF step.attempt run_Cons [OF step.attempt run_Nil]]) simp_all
  have s: "mstate ?sm = AuthFailing"
    by (simp add: NewStateMachine_def Record_def Classify_def ClassifyUpstream_def RecordError_def
        error_transition_def isAuthError_def duration_defs Let_def)
  have c: "\<exists>xs e1 zs e2 rest t1 t2. ?evs = xs @ e1 # zs @ e2 # rest
          \<and> rejection e1 = Some t1 \<and> rejection e2 = Some t2 \<and> AuthFailThreshold ?cfg \<le> t2 - t1
          \<and> (\<forall>ev \<in> set zs. undisturbed ev) \<and> (\<forall>ev \<in> set rest. \<forall>t. ev \<noteq> Succeed t)"
    by (rule auth_failing_evidence [OF r _ _ s]) (simp_all add: event_time_def second_def)
  show ?thesis
    by (rule exI [of _ ?evs], rule exI [of _ ?sm]) (intro conjI r s c [unfolded config.simps])
qed

text \<open>
  A failure that says nothing about the minter changes nothing but the half-open claim, which
  it hands back: the state, the counters and the cooldown are those before it.
\<close>
theorem exonerated_outcome:
  assumes "\<not> IndictsMinter (Classify (Status out) (Err out))"
  shows "Record j out t sm = sm \<lparr> probeUntil := zero_time \<rparr>"
  using assms by (simp add: Record_def ReleaseProbe_def Let_def)

theorem exonerated_outcome_witness:
  "Record 0 \<lparr> Status = 404, Err = None, RetryAfter = 0 \<rparr> 5 limited_machine =
     limited_machine \<lparr> probeUntil := 0 \<rparr>"
  by (rule exonerated_outcome) (simp add: Classify_def ClassifyUpstream_def)

section \<open>What a client is told\<close>

lemma RetryIn_nonneg: "0 \<le> RetryIn now sm"
  by (simp add: RetryIn_def probePollInterval_def)

lemma soonest_retry_nonneg:
  "0 \<le> soonest_retry now s ms \<longleftrightarrow> 0 \<le> s \<or> (\<exists>m \<in> set ms. InRateLimitCooldown now m)"
proof (induction ms arbitrary: s)
  case (Cons m ms)
  then show ?case using RetryIn_nonneg [of now m] by (auto simp: Let_def)
qed simp

lemma soonest_retry_ge0:
  assumes "0 \<le> s"
  shows "soonest_retry now s ms =
           fold min (map (RetryIn now) (filter (InRateLimitCooldown now) ms)) s"
  using assms
proof (induction ms arbitrary: s)
  case (Cons m ms)
  have "(if s < 0 \<or> RetryIn now m < s then RetryIn now m else s) = min (RetryIn now m) s"
    using Cons.prems by (auto simp: min_def)
  then show ?case using Cons RetryIn_nonneg [of now m] by (simp add: Let_def)
qed simp

lemma soonest_retry_Min:
  assumes "\<exists>m \<in> set ms. InRateLimitCooldown now m"
  shows "soonest_retry now (-1) ms = Min (RetryIn now ` {m \<in> set ms. InRateLimitCooldown now m})"
  using assms
proof (induction ms)
  case (Cons m ms)
  show ?case
  proof (cases "InRateLimitCooldown now m")
    case True
    let ?r = "map (RetryIn now) (filter (InRateLimitCooldown now) ms)"
    have "soonest_retry now (-1) (m # ms) = soonest_retry now (RetryIn now m) ms"
      using True by (simp add: Let_def)
    also have "\<dots> = fold min ?r (RetryIn now m)"
      using soonest_retry_ge0 [OF RetryIn_nonneg] .
    also have "\<dots> = Min (set (RetryIn now m # ?r))" by (rule Min.set_eq_fold [symmetric])
    also have "set (RetryIn now m # ?r) = RetryIn now ` {x \<in> set (m # ms). InRateLimitCooldown now x}"
      using True by auto
    finally show ?thesis .
  next
    case False
    then have "{x \<in> set (m # ms). InRateLimitCooldown now x} = {x \<in> set ms. InRateLimitCooldown now x}"
      by auto
    then show ?thesis using False Cons by simp
  qed
qed simp

text \<open>
  When no minter of a set can serve, the client is told \<open>upstream_quota_exceeded\<close> exactly when
  some minter has rate limits outstanding, with the smallest of their waits; otherwise it is told
  \<open>upstream_auth_failed\<close>.
\<close>
theorem unavailable_error_spec:
  "UnavailableError ms now =
     (let limited = {m \<in> set ms. now < cooldownUntil m \<or> 0 < rateLimitStrikes m}
      in if limited = {} then (ErrUpstreamAuthFailed, None)
         else (ErrUpstreamQuotaExceeded, Some (Min (RetryIn now ` limited))))"
  using soonest_retry_nonneg [of now "-1" ms] soonest_retry_Min [of ms now]
  by (auto simp: UnavailableError_def Let_def InRateLimitCooldown_def)

text \<open>
  A minter whose logins are rejected is reported as rate-limited with nothing to wait for, when
  a rate limit preceded the rejections: strikes are cleared by a success only, and the state is
  not consulted.
\<close>
theorem rejected_minter_reported_as_quota:
  "let o429 = \<lparr> Status = 429, Err = None, RetryAfter = 0 \<rparr>;
       o403 = \<lparr> Status = 403, Err = None, RetryAfter = 0 \<rparr>;
       cfg = \<lparr> AuthFailThreshold = 300 * second, HealthCheckInterval = minute \<rparr>;
       sm = Record 0 o403 (1000 * second) (Record 0 o403 (600 * second)
              (Record 0 o429 (100 * second) (NewStateMachine cfg)))
   in mstate sm = AuthFailing
      \<and> UnavailableError [sm] (2000 * second) = (ErrUpstreamQuotaExceeded, Some 0)"
  by code_simp

text \<open>
  A number of seconds up to 9223372036 in a \<open>Retry-After\<close> header is the wait; the next longer
  one wraps to a negative duration, and 18446744074 to less than a third of a second.
\<close>
theorem retry_after_seconds:
  assumes "0 < n" and "n \<le> 9223372036"
  shows "ParseRetryAfter pt (Some (Itoa n)) now = n * second"
    and "ParseRetryAfter pt (Some (Itoa 9223372037)) now < 0"
    and "ParseRetryAfter pt (Some (Itoa 18446744074)) now = 290448384"
proof -
  have p: "ParseRetryAfter pt (Some (Itoa k)) now = wrap64 (k * second)" if "0 < k" "k < 2 ^ 63" for k
  proof -
    have "TrimSpace (Itoa k) = Itoa k" by (simp add: TrimSpace_id Itoa_no_space)
    moreover have "ParseInt (Itoa k) = Some k" using that by (simp add: ParseInt_Itoa)
    moreover have "Itoa k \<noteq> []" using that by (simp add: Itoa_def)
    ultimately show ?thesis using that by (simp add: ParseRetryAfter_def Let_def)
  qed
  show "ParseRetryAfter pt (Some (Itoa n)) now = n * second"
    using p [of n] assms by (simp add: wrap64_id second_def)
  show "ParseRetryAfter pt (Some (Itoa 9223372037)) now < 0"
    using p [of 9223372037] by (simp add: wrap64_def second_def)
  show "ParseRetryAfter pt (Some (Itoa 18446744074)) now = 290448384"
    using p [of 18446744074] by (simp add: wrap64_def second_def)
qed

theorem retry_after_seconds_witness:
  "ParseRetryAfter (\<lambda>_. None) (Some (Itoa 120)) 0 = 120 * second"
  by (rule retry_after_seconds(1)) simp_all

end
