(* ===== verification/Housekeeping.thy ===== *)
theory Housekeeping
  imports MountConfig
begin

text \<open>
  \<open>pkg/mintledger\<close> and \<open>pkg/localexpiry\<close>: when this mount minted an upstream id, for clouds that do
  not say, and the passes that remove local entries which have served their purpose. Both passes
  walk a listing and delete an entry only when it says itself that it is stale; the locale
  \<open>prune_step\<close> is what one step of such a walk promises.
\<close>

section \<open>Walks that delete stale entries\<close>

fun sweep :: "('w \<Rightarrow> string \<Rightarrow> 'w \<times> bool) \<Rightarrow> 'w \<Rightarrow> string list \<Rightarrow> 'w \<times> nat" where
  "sweep step w [] = (w, 0)"
| "sweep step w (k # ks) =
     (let (w1, d) = step w k; (w2, n) = sweep step w1 ks
      in (w2, (if d then 1 else 0) + n))"

locale prune_step =
  fixes view :: "'w \<Rightarrow> string \<Rightarrow> blob option"
    and pre :: string
    and stale :: "blob \<Rightarrow> bool"
    and step :: "'w \<Rightarrow> string \<Rightarrow> 'w \<times> bool"
  assumes step_view: "step w k = (w', d) \<Longrightarrow>
      view w' = view w \<and> \<not> d
      \<or> (\<exists>b. view w (pre @ k) = Some b \<and> stale b \<and> view w' = (view w)(pre @ k := None))"
begin

lemma sweep_kept:
  assumes "sweep step w ks = (w', n)" and "view w x = Some b" and "\<not> stale b"
  shows "view w' x = Some b"
  using assms
proof (induction ks arbitrary: w n)
  case (Cons k ks)
  obtain w1 d m where s: "step w k = (w1, d)" "sweep step w1 ks = (w', m)"
    using Cons.prems(1) by (auto split: prod.splits)
  have "view w1 x = Some b" using step_view [OF s(1)] Cons.prems(2,3) by auto
  then show ?case using Cons.IH [OF s(2)] Cons.prems(3) by simp
qed simp

lemma sweep_sub:
  assumes "sweep step w ks = (w', n)" and "view w' x = Some b"
  shows "view w x = Some b"
  using assms
proof (induction ks arbitrary: w n)
  case (Cons k ks)
  obtain w1 d m where s: "step w k = (w1, d)" "sweep step w1 ks = (w', m)"
    using Cons.prems(1) by (auto split: prod.splits)
  have "view w1 x = Some b" using Cons.IH [OF s(2) Cons.prems(2)] .
  then show ?case using step_view [OF s(1)] by (auto split: if_splits)
qed simp

lemma sweep_outside:
  assumes "sweep step w ks = (w', n)" and "\<not> prefix pre x"
  shows "view w' x = view w x"
  using assms
proof (induction ks arbitrary: w n)
  case (Cons k ks)
  obtain w1 d m where s: "step w k = (w1, d)" "sweep step w1 ks = (w', m)"
    using Cons.prems(1) by (auto split: prod.splits)
  have "view w1 x = view w x" using step_view [OF s(1)] Cons.prems(2) by (auto simp: prefix_def)
  then show ?case using Cons.IH [OF s(2) Cons.prems(2)] by simp
qed simp

end

section \<open>The mint ledger\<close>

definition LedgerPrefix :: string where "LedgerPrefix = ''mint-ledger/''"

definition Retention :: duration where "Retention = 30 * 24 * hour"

text \<open>The Unix epoch, from Go's zero time; \<open>Unix\<close> floors to whole seconds.\<close>

definition epoch :: time where "epoch = 62135596800 * second"

definition Unix :: "time \<Rightarrow> int" where "Unix t = (t - epoch) div second"

definition UnixTime :: "int \<Rightarrow> time" where "UnixTime s = epoch + s * second"

lemma UnixTime_Unix: "UnixTime (Unix t) = rfc3339 t"
proof -
  have "(t - epoch) div second * second = t - epoch - (t - epoch) mod second"
    by (simp add: minus_mod_eq_div_mult)
  moreover have "(t - epoch) mod second = t mod second"
    by (simp add: epoch_def second_def mod_diff_eq [symmetric])
  ultimately show ?thesis by (simp add: UnixTime_def Unix_def rfc3339_def)
qed

definition LedgerRecord :: "'w kv option \<Rightarrow> string \<Rightarrow> time \<Rightarrow> 'w \<Rightarrow> 'w \<times> err option" where
  "LedgerRecord storage i t w =
     (case storage of
        None \<Rightarrow> (w, None)
      | Some kv \<Rightarrow>
          if i = [] then (w, None)
          else kput kv w (LedgerPrefix @ PathEscape i) (Raw (Itoa (Unix t))))"

definition LedgerCreatedAt :: "'w kv option \<Rightarrow> (json \<Rightarrow> string) \<Rightarrow> 'w \<Rightarrow> string \<Rightarrow> time" where
  "LedgerCreatedAt storage marshal w i =
     (case storage of
        None \<Rightarrow> zero_time
      | Some kv \<Rightarrow>
          if i = [] then zero_time
          else case kget kv w (LedgerPrefix @ PathEscape i) of
            Inr (Some b) \<Rightarrow>
              (case ParseInt (TrimSpace (bytes marshal b)) of
                 None \<Rightarrow> zero_time
               | Some seconds \<Rightarrow> UnixTime seconds)
          | _ \<Rightarrow> zero_time)"

definition ledger_step ::
  "'w kv \<Rightarrow> (json \<Rightarrow> string) \<Rightarrow> time \<Rightarrow> 'w \<Rightarrow> string \<Rightarrow> 'w \<times> bool" where
  "ledger_step kv marshal now w key =
     (case kget kv w (LedgerPrefix @ key) of
        Inr (Some b) \<Rightarrow>
          (case ParseInt (TrimSpace (bytes marshal b)) of
             None \<Rightarrow> (w, False)
           | Some seconds \<Rightarrow>
               if now - UnixTime seconds \<le> Retention then (w, False)
               else (case kdel kv w (LedgerPrefix @ key) of
                       (w', None) \<Rightarrow> (w', True)
                     | (w', Some _) \<Rightarrow> (w', False)))
      | _ \<Rightarrow> (w, False))"

definition Prune ::
  "'w kv option \<Rightarrow> (json \<Rightarrow> string) \<Rightarrow> time \<Rightarrow> 'w \<Rightarrow> 'w \<times> (err + nat)" where
  "Prune storage marshal now w =
     (case storage of
        None \<Rightarrow> (w, Inr 0)
      | Some kv \<Rightarrow>
          (case klist kv w LedgerPrefix of
             Inl e \<Rightarrow> (w, Inl (Wrap ''listing the mint ledger: '' e))
           | Inr keys \<Rightarrow> (let (w', n) = sweep (ledger_step kv marshal now) w keys in (w', Inr n))))"

definition ledger_stale :: "(json \<Rightarrow> string) \<Rightarrow> time \<Rightarrow> blob \<Rightarrow> bool" where
  "ledger_stale marshal now b \<longleftrightarrow>
     (\<exists>s. ParseInt (TrimSpace (bytes marshal b)) = Some s \<and> now - UnixTime s > Retention)"

section \<open>Local expiry\<close>

record prune_result =
  prScanned :: nat
  prExpired :: "string list"
  prDeleted :: nat

record prune_options =
  poPrefix :: string
  poNow :: time
  poDryRun :: bool

definition expired_blob :: "time \<Rightarrow> blob \<Rightarrow> bool" where
  "expired_blob now b =
     (case b of
        Json d \<Rightarrow> (case field d ''expires_at'' of Some (JTime t) \<Rightarrow> now > t | _ \<Rightarrow> False)
      | Raw _ \<Rightarrow> False)"

definition isExpired :: "'w kv \<Rightarrow> 'w \<Rightarrow> string \<Rightarrow> time \<Rightarrow> bool" where
  "isExpired kv w fullKey now =
     (case kget kv w fullKey of Inr (Some b) \<Rightarrow> expired_blob now b | _ \<Rightarrow> False)"

fun expire_keys :: "'w kv \<Rightarrow> prune_options \<Rightarrow> 'w \<Rightarrow> prune_result \<Rightarrow> string list \<Rightarrow> 'w \<times> prune_result" where
  "expire_keys kv opts w res [] = (w, res)"
| "expire_keys kv opts w res (key # keys) =
     (if \<not> isExpired kv w (poPrefix opts @ key) (poNow opts) then expire_keys kv opts w res keys
      else let res = res \<lparr> prExpired := prExpired res @ [key] \<rparr>
           in if poDryRun opts then expire_keys kv opts w res keys
              else case kdel kv w (poPrefix opts @ key) of
                (w', Some _) \<Rightarrow> expire_keys kv opts w' res keys
              | (w', None) \<Rightarrow> expire_keys kv opts w' (res \<lparr> prDeleted := prDeleted res + 1 \<rparr>) keys)"

definition PruneExpired :: "'w kv \<Rightarrow> prune_options \<Rightarrow> 'w \<Rightarrow> 'w \<times> (err + prune_result)" where
  "PruneExpired kv opts w =
     (case klist kv w (poPrefix opts) of
        Inl e \<Rightarrow> (w, Inl e)
      | Inr keys \<Rightarrow>
          (let (w', res) = expire_keys kv opts w
             \<lparr> prScanned = length keys, prExpired = [], prDeleted = 0 \<rparr> keys
           in (w', Inr res)))"

text \<open>One step of that walk, and the walk as a sweep.\<close>

definition expiry_step :: "'w kv \<Rightarrow> prune_options \<Rightarrow> 'w \<Rightarrow> string \<Rightarrow> 'w \<times> bool" where
  "expiry_step kv opts w key =
     (if \<not> isExpired kv w (poPrefix opts @ key) (poNow opts) then (w, False)
      else if poDryRun opts then (w, False)
      else case kdel kv w (poPrefix opts @ key) of (w', r) \<Rightarrow> (w', r = None))"

lemma expire_keys_sweep:
  "sweep (expiry_step kv opts) w keys = (w', n) \<Longrightarrow>
     fst (expire_keys kv opts w res keys) = w'
     \<and> prDeleted (snd (expire_keys kv opts w res keys)) = prDeleted res + n
     \<and> (poDryRun opts \<longrightarrow> w' = w \<and> n = 0)"
proof (induction keys arbitrary: w res n)
  case Nil
  then show ?case by simp
next
  case (Cons k ks)
  obtain w1 d m where s: "expiry_step kv opts w k = (w1, d)" "sweep (expiry_step kv opts) w1 ks = (w', m)"
    "n = (if d then 1 else 0) + m"
    using Cons.prems by (auto split: prod.splits)
  show ?case
  proof (cases "isExpired kv w (poPrefix opts @ k) (poNow opts)")
    case False
    then have "w1 = w" "\<not> d" using s(1) by (auto simp: expiry_step_def)
    then show ?thesis using Cons.IH [of w m res] s False by simp
  next
    case ex: True
    let ?res = "res \<lparr> prExpired := prExpired res @ [k] \<rparr>"
    show ?thesis
    proof (cases "poDryRun opts")
      case True
      then have "w1 = w" "\<not> d" using s(1) ex by (auto simp: expiry_step_def)
      then show ?thesis using Cons.IH [of w m ?res] s True ex by simp
    next
      case False
      obtain r where r: "kdel kv w (poPrefix opts @ k) = (w1, r)" "d = (r = None)"
        using s(1) ex False by (auto simp: expiry_step_def split: prod.splits)
      show ?thesis
      proof (cases r)
        case None
        then show ?thesis
          using Cons.IH [of w1 m "?res \<lparr> prDeleted := prDeleted ?res + 1 \<rparr>"] s r ex False
          by (simp add: Let_def)
      next
        case (Some e)
        then show ?thesis using Cons.IH [of w1 m ?res] s r ex False by (simp add: Let_def)
      qed
    qed
  qed
qed

section \<open>Both walks delete stale entries only\<close>

sublocale kv_store \<subseteq> ledger: prune_step view LedgerPrefix "ledger_stale marshal now" "ledger_step kv marshal now"
  for marshal now
proof
  fix w k w' d
  assume s: "ledger_step kv marshal now w k = (w', d)"
  show "view w' = view w \<and> \<not> d \<or> (\<exists>b. view w (LedgerPrefix @ k) = Some b \<and> ledger_stale marshal now b
      \<and> view w' = (view w)(LedgerPrefix @ k := None))"
  proof (cases "\<exists>b. kget kv w (LedgerPrefix @ k) = Inr (Some b) \<and> ledger_stale marshal now b")
    case True
    then obtain b where b: "kget kv w (LedgerPrefix @ k) = Inr (Some b)" "ledger_stale marshal now b" by blast
    then have v: "view w (LedgerPrefix @ k) = Some b" using get_view by force
    obtain r where r: "kdel kv w (LedgerPrefix @ k) = (w', r)" "d = (r = None)"
      using s b by (auto simp: ledger_step_def ledger_stale_def split: prod.splits option.splits)
    show ?thesis
      using v b(2) r del_ok [of w "LedgerPrefix @ k" w'] del_err [of w "LedgerPrefix @ k" w']
      by (cases r) auto
  next
    case False
    then have "w' = w \<and> \<not> d"
      using s by (auto simp: ledger_step_def ledger_stale_def split: sum.splits option.splits if_splits)
    then show ?thesis by simp
  qed
qed

sublocale kv_store \<subseteq> expiry: prune_step view "poPrefix opts" "expired_blob (poNow opts)" "expiry_step kv opts"
  for opts
proof
  fix w k w' d
  assume s: "expiry_step kv opts w k = (w', d)"
  show "view w' = view w \<and> \<not> d \<or> (\<exists>b. view w (poPrefix opts @ k) = Some b \<and> expired_blob (poNow opts) b
      \<and> view w' = (view w)(poPrefix opts @ k := None))"
  proof (cases "isExpired kv w (poPrefix opts @ k) (poNow opts) \<and> \<not> poDryRun opts")
    case True
    then obtain b where b: "kget kv w (poPrefix opts @ k) = Inr (Some b)" "expired_blob (poNow opts) b"
      by (auto simp: isExpired_def split: sum.splits option.splits)
    then have v: "view w (poPrefix opts @ k) = Some b" using get_view by force
    obtain r where r: "kdel kv w (poPrefix opts @ k) = (w', r)" "d = (r = None)"
      using s True by (auto simp: expiry_step_def split: prod.splits)
    show ?thesis
      using v b(2) r del_ok [of w "poPrefix opts @ k" w'] del_err [of w "poPrefix opts @ k" w']
      by (cases r) auto
  next
    case False
    then show ?thesis using s by (auto simp: expiry_step_def split: if_splits)
  qed
qed

context kv_store
begin

lemmas ledger_sweep_kept = ledger.sweep_kept
lemmas expiry_sweep_kept = expiry.sweep_kept
lemmas expiry_sweep_outside = expiry.sweep_outside
lemmas expiry_sweep_sub = expiry.sweep_sub

end

text \<open>
  What the ledger recorded it remembers: an id recorded as minted at \<open>t\<close> still has that creation
  time, to the second, after any pruning pass within thirty days of it, on any store, so an orphan
  does not become unreclaimable by ageing out of the ledger early.
\<close>
theorem ledger_remembers:
  assumes "kv_store kv view" and "LedgerRecord (Some kv) i t w = (w1, None)" and "i \<noteq> []"
    and "- (2 ^ 63) \<le> Unix t" and "Unix t < 2 ^ 63"
    and "Prune (Some kv) marshal now w1 = (w2, r)" and "now \<le> rfc3339 t + 30 * 24 * hour"
    and "kget kv w2 (''mint-ledger/'' @ PathEscape i) = Inr entry"
  shows "LedgerCreatedAt (Some kv) marshal w2 i = rfc3339 t"
proof -
  let ?k = "LedgerPrefix @ PathEscape i"
  let ?b = "Raw (Itoa (Unix t))"
  have parse: "ParseInt (TrimSpace (Itoa (Unix t))) = Some (Unix t)"
    using assms(4,5) by (simp add: TrimSpace_id Itoa_no_space ParseInt_Itoa)
  have v1: "view w1 ?k = Some ?b"
    using assms(2,3) kv_store.put_ok [OF assms(1)] by (fastforce simp: LedgerRecord_def)
  have fresh: "\<not> ledger_stale marshal now ?b"
    using assms(7) by (simp add: ledger_stale_def parse UnixTime_Unix Retention_def)
  have "view w2 ?k = Some ?b"
  proof (cases "klist kv w1 LedgerPrefix")
    case (Inl e)
    then show ?thesis using assms(6) v1 by (simp add: Prune_def)
  next
    case (Inr keys)
    then obtain n where "sweep (ledger_step kv marshal now) w1 keys = (w2, n)"
      using assms(6) by (auto simp: Prune_def split: prod.splits)
    then show ?thesis using kv_store.ledger_sweep_kept [OF assms(1)] v1 fresh by blast
  qed
  then have "entry = Some ?b"
    using kv_store.get_view [OF assms(1) assms(8)] by (simp add: LedgerPrefix_def)
  then show ?thesis
    using assms(3,8) by (simp add: LedgerCreatedAt_def LedgerPrefix_def parse UnixTime_Unix)
qed

theorem ledger_remembers_witness:
  "\<exists>w1 w2 r. LedgerRecord (Some mem_kv) ''key/1'' (epoch + 5 * second + 7) ([(''mint-ledger/old'', Raw ''3'')], ()) = (w1, None)
     \<and> Prune (Some mem_kv) (\<lambda>_. []) (epoch + 30 * 24 * hour + 5 * second) w1 = (w2, r)
     \<and> r = Inr 1 \<and> LedgerCreatedAt (Some mem_kv) (\<lambda>_. []) w2 ''key/1'' = epoch + 5 * second"
proof -
  let ?w0 = "([(''mint-ledger/old'', Raw ''3'')], ())"
  let ?w1 = "([(''mint-ledger/old'', Raw ''3''), (''mint-ledger/key%2F1'', Raw ''5'')], ())"
  let ?w2 = "([(''mint-ledger/key%2F1'', Raw ''5'')], ())"
  have esc: "PathEscape ''key/1'' = ''key%2F1''"
    by code_simp
  have unix: "Unix (epoch + 5 * second + 7) = 5" by (simp add: Unix_def second_def)
  have itoa: "Itoa 5 = ''5''"
    by code_simp
  have rec: "LedgerRecord (Some mem_kv) ''key/1'' (epoch + 5 * second + 7) ?w0 = (?w1, None)"
    by (simp add: LedgerRecord_def mem_kv_def LedgerPrefix_def esc unix itoa)
  have parse: "ParseInt (TrimSpace ''3'') = Some 3" "ParseInt (TrimSpace ''5'') = Some 5"
    by (simp_all add: ParseInt_def TrimSpace_def is_space_def char_digit_def)
  have prune: "Prune (Some mem_kv) (\<lambda>_. []) (epoch + 30 * 24 * hour + 5 * second) ?w1 = (?w2, Inr 1)"
    by (simp add: Prune_def mem_kv_def mem_children_def segment_def LedgerPrefix_def ledger_step_def
        parse UnixTime_def Retention_def duration_defs)
  have "LedgerCreatedAt (Some mem_kv) (\<lambda>_. []) ?w2 ''key/1'' = rfc3339 (epoch + 5 * second + 7)"
    by (rule ledger_remembers [OF mem.kv_store_axioms rec _ _ _ prune])
      (simp add: unix | simp add: rfc3339_def epoch_def duration_defs mem_kv_def)+
  then show ?thesis using rec prune by (simp add: rfc3339_def epoch_def second_def)
qed

lemma prune_expired_only_facts:
  assumes "kv_store kv view" and "PruneExpired kv opts w = (w', r)"
  shows "\<forall>x b. view w x = Some b \<and> (\<not> prefix (poPrefix opts) x \<or> \<not> expired_blob (poNow opts) b)
           \<longrightarrow> view w' x = Some b"
    and "\<forall>x b. view w' x = Some b \<longrightarrow> view w x = Some b"
    and "poDryRun opts \<longrightarrow> w' = w"
proof -
  have "\<exists>keys n. sweep (expiry_step kv opts) w keys = (w', n) \<and> (poDryRun opts \<longrightarrow> w' = w)"
  proof (cases "klist kv w (poPrefix opts)")
    case (Inl e)
    then show ?thesis
      using assms(2) by (intro exI [of _ "[]"] exI [of _ 0]) (simp add: PruneExpired_def)
  next
    case (Inr keys)
    obtain v n where "sweep (expiry_step kv opts) w keys = (v, n)"
      by (cases "sweep (expiry_step kv opts) w keys") auto
    note sw = this expire_keys_sweep [OF this, of "\<lparr> prScanned = length keys, prExpired = [], prDeleted = 0 \<rparr>"]
    have "v = w'" using Inr sw assms(2) by (auto simp: PruneExpired_def Let_def split: prod.splits)
    with sw show ?thesis by blast
  qed
  then obtain keys n where s: "sweep (expiry_step kv opts) w keys = (w', n)"
    and dry: "poDryRun opts \<longrightarrow> w' = w" by blast
  show "\<forall>x b. view w x = Some b \<and> (\<not> prefix (poPrefix opts) x \<or> \<not> expired_blob (poNow opts) b)
          \<longrightarrow> view w' x = Some b"
    using kv_store.expiry_sweep_kept [OF assms(1) s] kv_store.expiry_sweep_outside [OF assms(1) s]
    by metis
  show "\<forall>x b. view w' x = Some b \<longrightarrow> view w x = Some b"
    using kv_store.expiry_sweep_sub [OF assms(1) s] by blast
  show "poDryRun opts \<longrightarrow> w' = w" by (rule dry)
qed

text \<open>
  A local pruning pass removes expired entries below its prefix and nothing else: every other
  entry of the storage is as it was, and a dry run changes nothing at all.
\<close>
theorem prune_expired_only:
  assumes "kv_store kv view" and "PruneExpired kv opts w = (w', r)"
  shows "(\<forall>x b. view w x = Some b \<and> (\<not> prefix (poPrefix opts) x \<or> \<not> expired_blob (poNow opts) b)
           \<longrightarrow> view w' x = Some b)
         \<and> (\<forall>x b. view w' x = Some b \<longrightarrow> view w x = Some b)
         \<and> (poDryRun opts \<longrightarrow> w' = w)"
  using prune_expired_only_facts [OF assms] by blast

definition two_leases :: "unit mem" where
  "two_leases =
     ([(''active-tokens/a'', Json (JObj [(''expires_at'', JTime 10)])),
       (''active-tokens/b'', Json (JObj [(''expires_at'', JTime 30)]))], ())"

theorem prune_expired_only_witness:
  "\<exists>w' r. PruneExpired mem_kv \<lparr> poPrefix = ''active-tokens/'', poNow = 20, poDryRun = False \<rparr> two_leases = (w', r)
     \<and> mem_view w' ''active-tokens/a'' = None \<and> mem_view w' ''active-tokens/b'' \<noteq> None"
proof -
  let ?o = "\<lparr> poPrefix = ''active-tokens/'', poNow = 20, poDryRun = False \<rparr>"
  obtain w' r where p: "PruneExpired mem_kv ?o two_leases = (w', r)"
    by (cases "PruneExpired mem_kv ?o two_leases") auto
  have "mem_view two_leases ''active-tokens/b'' = Some (Json (JObj [(''expires_at'', JTime 30)]))"
    by (simp add: mem_view_def two_leases_def)
  then have "mem_view w' ''active-tokens/b'' = Some (Json (JObj [(''expires_at'', JTime 30)]))"
    using prune_expired_only [OF mem.kv_store_axioms p, THEN conjunct1] by (simp add: expired_blob_def)
  moreover have "mem_view w' ''active-tokens/a'' = None"
    using p by (auto simp: PruneExpired_def two_leases_def mem_kv_def mem_children_def segment_def
        isExpired_def expired_blob_def mem_view_def Let_def)
  ultimately show ?thesis using p by (intro exI [of _ w'] exI [of _ r]) simp
qed

end
