(* ===== verification/Capability.thy ===== *)
theory Capability
  imports Recovery Housekeeping
begin

text \<open>
  \<open>pkg/capability\<close>: the probes that prove a minter can mint before a minter set or a role is written.
  A probe is a function on the world \<open>'w\<close> (the storage and the cloud) that answers with an HTTP
  status and an error. The clock and the jitter are read from the world, so time may pass while a
  probe runs. The state machines of the minters are a map from minter id that a verification
  threads through. SHA-256 in hexadecimal is the argument \<open>digest\<close>.
\<close>

section \<open>Checks\<close>

definition ErrProbeUnsupported :: err where
  "ErrProbeUnsupported = Sentinel ''capability verification is not supported on this cloud''"

record 'w check =
  ckKey :: string
  ckMinter :: string
  ckRoles :: "string list"
  ckRun :: "'w \<Rightarrow> 'w \<times> int \<times> err option"
  ckMinterJSON :: "string option"

record verify_result =
  Ran :: nat
  Skipped :: nat
  Cached :: nat

datatype verify_error = Throttled string duration | Failure string "string list" err

fun appendMissing :: "string list \<Rightarrow> string list \<Rightarrow> string list" where
  "appendMissing dst [] = dst"
| "appendMissing dst (s # src) = appendMissing (if s \<in> set dst then dst else dst @ [s]) src"

text \<open>The loop of \<open>Dedupe\<close>: the checks by key, in the order the keys were first seen.\<close>

definition absorb :: "'w check \<Rightarrow> 'w check \<Rightarrow> 'w check" where
  "absorb c x =
     (if ckKey x = ckKey c then x \<lparr> ckRoles := appendMissing (ckRoles x) (ckRoles c) \<rparr> else x)"

fun by_key :: "'w check list \<Rightarrow> 'w check list \<Rightarrow> 'w check list" where
  "by_key acc [] = acc"
| "by_key acc (c # cs) =
     (if ckKey c \<in> set (map ckKey acc)
      then by_key (map (absorb c) acc) cs
      else by_key (acc @ [c]) cs)"

definition Dedupe :: "'w check list \<Rightarrow> 'w check list" where
  "Dedupe checks = sort_key ckKey (by_key [] checks)"

section \<open>The cache of verdicts\<close>

definition cachePrefix :: string where "cachePrefix = ''capability-cache/''"

record 'w cache =
  cStorage :: "'w kv option"
  cTTL :: duration
  cNow :: "'w \<Rightarrow> time"
  cDigest :: "string \<Rightarrow> string"

definition cache_usable :: "'w cache option \<Rightarrow> 'w kv option" where
  "cache_usable c =
     (case c of None \<Rightarrow> None | Some c \<Rightarrow> if cTTL c > 0 then cStorage c else None)"

definition cache_key :: "'w cache \<Rightarrow> 'w check \<Rightarrow> string" where
  "cache_key c ck = cachePrefix @ cDigest c (ckKey ck)"

definition fingerprint :: "'w cache \<Rightarrow> string \<Rightarrow> string" where
  "fingerprint c raw = cDigest c raw"

definition enc_verdict :: "string \<Rightarrow> int \<Rightarrow> blob" where
  "enc_verdict fp v = Json (JObj [(''fingerprint'', JStr fp), (''verified_at'', JInt v)])"

definition dec_verdict :: "blob \<Rightarrow> (string \<times> int) option" where
  "dec_verdict b =
     (case b of
        Raw _ \<Rightarrow> None
      | Json d \<Rightarrow>
          if \<not> is_object d then None
          else case (opt_field [] dec_str d ''fingerprint'', opt_field 0 dec_int d ''verified_at'') of
            (Some fp, Some v) \<Rightarrow> Some (fp, v)
          | _ \<Rightarrow> None)"

definition fresh :: "'w cache option \<Rightarrow> 'w \<Rightarrow> 'w check \<Rightarrow> bool" where
  "fresh co w ck =
     (case (co, cache_usable co, ckMinterJSON ck) of
        (Some c, Some kv, Some raw) \<Rightarrow>
          (case kget kv w (cache_key c ck) of
             Inr (Some b) \<Rightarrow>
               (case dec_verdict b of
                  None \<Rightarrow> False
                | Some (fp, v) \<Rightarrow>
                    if fp \<noteq> fingerprint c raw then False
                    else let age = cNow c w - UnixTime v in 0 \<le> age \<and> age \<le> cTTL c)
           | _ \<Rightarrow> False)
      | _ \<Rightarrow> False)"

definition store :: "'w cache option \<Rightarrow> 'w \<Rightarrow> 'w check \<Rightarrow> 'w" where
  "store co w ck =
     (case (co, cache_usable co, ckMinterJSON ck) of
        (Some c, Some kv, Some raw) \<Rightarrow>
          fst (kput kv w (cache_key c ck) (enc_verdict (fingerprint c raw) (Unix (cNow c w))))
      | _ \<Rightarrow> w)"

text \<open>An entry that cannot be read counts as expired.\<close>

definition cache_expired :: "'w kv \<Rightarrow> 'w \<Rightarrow> string \<Rightarrow> time \<Rightarrow> duration \<Rightarrow> bool" where
  "cache_expired kv w key now ttl =
     (case kget kv w key of
        Inr (Some b) \<Rightarrow>
          (case dec_verdict b of None \<Rightarrow> True | Some (_, v) \<Rightarrow> now - UnixTime v > ttl)
      | _ \<Rightarrow> True)"

definition cache_step :: "'w kv \<Rightarrow> time \<Rightarrow> duration \<Rightarrow> 'w \<Rightarrow> string \<Rightarrow> 'w \<times> bool" where
  "cache_step kv now ttl w key =
     (if ttl > 0 \<and> \<not> cache_expired kv w (cachePrefix @ key) now ttl then (w, False)
      else case kdel kv w (cachePrefix @ key) of (w', r) \<Rightarrow> (w', r = None))"

definition PruneCache :: "'w kv option \<Rightarrow> time \<Rightarrow> duration \<Rightarrow> 'w \<Rightarrow> 'w \<times> (err + nat)" where
  "PruneCache storage now ttl w =
     (case storage of
        None \<Rightarrow> (w, Inr 0)
      | Some kv \<Rightarrow>
          (case klist kv w cachePrefix of
             Inl e \<Rightarrow> (w, Inl (Wrap ''listing the capability cache: '' e))
           | Inr keys \<Rightarrow> (let (w', n) = sweep (cache_step kv now ttl) w keys in (w', Inr n))))"

lemma dec_enc_verdict [simp]: "dec_verdict (enc_verdict fp v) = Some (fp, v)"
  by (simp add: dec_verdict_def enc_verdict_def is_object_def opt_field_def dec_str_def dec_int_def)

lemma fresh_iff:
  "fresh (Some c) w ck \<longleftrightarrow>
     0 < cTTL c \<and>
     (\<exists>kv raw b v. cStorage c = Some kv \<and> ckMinterJSON ck = Some raw
        \<and> kget kv w (cache_key c ck) = Inr (Some b) \<and> dec_verdict b = Some (fingerprint c raw, v)
        \<and> 0 \<le> cNow c w - UnixTime v \<and> cNow c w - UnixTime v \<le> cTTL c)"
  unfolding fresh_def cache_usable_def Let_def
  by (cases "cStorage c"; cases "ckMinterJSON ck"; cases "kget (the (cStorage c)) w (cache_key c ck)")
    (auto split: option.splits)

section \<open>The limiter\<close>

type_synonym states = "string \<Rightarrow> machine option"

record 'w limiter =
  lNow :: "'w \<Rightarrow> time"
  lJitter :: "'w \<Rightarrow> rat"

definition stateFor :: "'w limiter option \<Rightarrow> states \<Rightarrow> string \<Rightarrow> machine option" where
  "stateFor l sms i = (case l of None \<Rightarrow> None | Some _ \<Rightarrow> sms i)"

definition loginRejected :: "'w limiter option \<Rightarrow> states \<Rightarrow> string \<Rightarrow> nat option" where
  "loginRejected l sms i =
     (case stateFor l sms i of
        None \<Rightarrow> None
      | Some sm \<Rightarrow> if 0 < consecutiveAuthFailures sm then Some (consecutiveAuthFailures sm) else None)"

definition acquire :: "'w limiter option \<Rightarrow> states \<Rightarrow> 'w \<Rightarrow> string \<Rightarrow> verify_error option" where
  "acquire l sms w i =
     (case (l, stateFor l sms i) of
        (Some li, Some sm) \<Rightarrow>
          (let now = lNow li w
           in if InRateLimitCooldown now sm then Some (Throttled i (RetryIn now sm)) else None)
      | _ \<Rightarrow> None)"

definition record_probe ::
  "'w limiter option \<Rightarrow> states \<Rightarrow> 'w \<Rightarrow> string \<Rightarrow> int \<Rightarrow> err option \<Rightarrow> states" where
  "record_probe l sms w i status e =
     (case (l, stateFor l sms i) of
        (Some li, Some sm) \<Rightarrow>
          (let now = lNow li w
           in sms(i \<mapsto>
                (if e = None then RecordSuccess now sm
                 else if Classify status e = ErrUpstreamQuotaExceeded
                 then Record (lJitter li w) \<lparr> Status = status, Err = e, RetryAfter = 0 \<rparr> now sm
                 else ReleaseProbe sm)))
      | _ \<Rightarrow> sms)"

section \<open>Verification\<close>

record 'w runner =
  rCache :: "'w cache option"
  rLimiter :: "'w limiter option"

fun verify_loop ::
  "'w runner \<Rightarrow> 'w \<Rightarrow> states \<Rightarrow> verify_result \<Rightarrow> 'w check list
     \<Rightarrow> ('w \<times> states) \<times> verify_result \<times> verify_error option" where
  "verify_loop r w sms res [] = ((w, sms), res, None)"
| "verify_loop r w sms res (c # cs) =
     (if fresh (rCache r) w c then verify_loop r w sms (res \<lparr> Cached := Cached res + 1 \<rparr>) cs
      else case acquire (rLimiter r) sms w (ckMinter c) of
        Some e \<Rightarrow> ((w, sms), res, Some e)
      | None \<Rightarrow>
          (case ckRun c w of
             (w', status, e) \<Rightarrow>
               (let sms' = record_probe (rLimiter r) sms w' (ckMinter c) status e
                in case e of
                     None \<Rightarrow>
                       verify_loop r (store (rCache r) w' c) sms' (res \<lparr> Ran := Ran res + 1 \<rparr>) cs
                   | Some e \<Rightarrow>
                       if leaf e = ErrProbeUnsupported
                       then verify_loop r w' sms' (res \<lparr> Skipped := Skipped res + 1 \<rparr>) cs
                       else ((w', sms'), res, Some (Failure (ckMinter c) (ckRoles c) e)))))"

definition Verify ::
  "'w runner \<Rightarrow> 'w \<Rightarrow> states \<Rightarrow> 'w check list
     \<Rightarrow> ('w \<times> states) \<times> verify_result \<times> verify_error option" where
  "Verify r w sms checks =
     verify_loop r w sms \<lparr> Ran = 0, Skipped = 0, Cached = 0 \<rparr> (Dedupe checks)"

section \<open>The gate\<close>

definition rolesPrefix :: string where "rolesPrefix = ''roles/''"

record bound_role =
  brName :: string
  brRaw :: blob

text \<open>The members of a stored role that decide whether it is probed: name, minter set, disabled.\<close>

definition dec_bound :: "blob \<Rightarrow> (string \<times> string \<times> bool) option" where
  "dec_bound b =
     (case b of
        Raw _ \<Rightarrow> None
      | Json d \<Rightarrow>
          if \<not> is_object d then None
          else case (opt_field [] dec_str d ''name'', opt_field [] dec_str d ''minter_set'',
                     opt_field False dec_bool d ''disabled'') of
            (Some n, Some s, Some dis) \<Rightarrow> Some (n, s, dis)
          | _ \<Rightarrow> None)"

fun bound_roles ::
  "'w kv \<Rightarrow> 'w \<Rightarrow> string \<Rightarrow> string list \<Rightarrow> err + bound_role list" where
  "bound_roles kv w setName [] = Inr []"
| "bound_roles kv w setName (name # names) =
     (case kget kv w (rolesPrefix @ name) of
        Inl e \<Rightarrow> Inl e
      | Inr r \<Rightarrow>
          (case (bound_roles kv w setName names) of
             Inl e \<Rightarrow> Inl e
           | Inr rest \<Rightarrow>
               (case r of
                  None \<Rightarrow> Inr rest
                | Some b \<Rightarrow>
                    (case dec_bound b of
                       None \<Rightarrow> Inr rest
                     | Some (n, s, disabled) \<Rightarrow>
                         if disabled \<or> s \<noteq> setName then Inr rest
                         else Inr (\<lparr> brName = n, brRaw = b \<rparr> # rest)))))"

definition RolesBoundTo :: "'w kv \<Rightarrow> 'w \<Rightarrow> string \<Rightarrow> err + bound_role list" where
  "RolesBoundTo kv w setName =
     (case klist kv w rolesPrefix of
        Inl e \<Rightarrow> Inl e
      | Inr names \<Rightarrow> bound_roles kv w setName (sort names))"

definition LoadMinterSet :: "'w kv \<Rightarrow> 'w \<Rightarrow> string \<Rightarrow> err + minter_set option" where
  "LoadMinterSet kv w name =
     (case kget kv w (minterSetPrefix @ name) of
        Inl e \<Rightarrow> Inl e
      | Inr None \<Rightarrow> Inr None
      | Inr (Some b) \<Rightarrow>
          (case dec_minter_set b of
             None \<Rightarrow> Inl (Opaque ''stored minter set is unparseable'')
           | Some s \<Rightarrow> Inr (Some s)))"

record 'w gate =
  gEnabled :: bool
  gLimiter :: "'w limiter option"
  gCacheTTL :: duration
  gNow :: "'w \<Rightarrow> time"
  gDigest :: "string \<Rightarrow> string"

type_synonym 'w checks_func = "minter_set \<Rightarrow> blob \<Rightarrow> 'w check list"

text \<open>A minter's marshalled form is the text of its document.\<close>

definition ChecksPerMinter ::
  "(json \<Rightarrow> string) \<Rightarrow> minter_set \<Rightarrow> string \<Rightarrow> string \<Rightarrow> (minter \<Rightarrow> 'w \<Rightarrow> 'w \<times> int \<times> err option)
     \<Rightarrow> 'w check list" where
  "ChecksPerMinter marshal s rName shape probe =
     map (\<lambda>m. \<lparr> ckKey = ID m @ ''|'' @ shape, ckMinter = ID m, ckRoles = [rName], ckRun = probe m,
                ckMinterJSON = Some (marshal (enc_minter m)) \<rparr>) (ActiveMinters (Minters s))"

definition renderFailure :: "verify_error \<Rightarrow> code" where
  "renderFailure e =
     (case e of Throttled _ _ \<Rightarrow> ErrUpstreamQuotaExceeded | Failure _ _ _ \<Rightarrow> ErrConfigInvalid)"

definition gate_run ::
  "'w gate \<Rightarrow> 'w kv \<Rightarrow> 'w \<Rightarrow> states \<Rightarrow> 'w check list \<Rightarrow> ('w \<times> states) \<times> code option" where
  "gate_run g kv w sms checks =
     (let r = \<lparr> rCache = Some \<lparr> cStorage = Some kv, cTTL = gCacheTTL g, cNow = gNow g,
                               cDigest = gDigest g \<rparr>,
                rLimiter = gLimiter g \<rparr>
      in case Verify r w sms checks of
           (ws, _, Some e) \<Rightarrow> (ws, Some (renderFailure e))
         | (ws, _, None) \<Rightarrow> (ws, None))"

definition VerifySet ::
  "'w gate \<Rightarrow> 'w kv \<Rightarrow> 'w \<Rightarrow> states \<Rightarrow> minter_set \<Rightarrow> 'w checks_func \<Rightarrow> ('w \<times> states) \<times> code option" where
  "VerifySet g kv w sms s checks =
     (if \<not> gEnabled g then ((w, sms), None)
      else case RolesBoundTo kv w (Name s) of
        Inl e \<Rightarrow> ((w, sms), Some ErrInternal)
      | Inr roles \<Rightarrow> gate_run g kv w sms (concat (map (\<lambda>r. checks s (brRaw r)) roles)))"

definition VerifySuccessor ::
  "'w gate \<Rightarrow> 'w kv \<Rightarrow> 'w \<Rightarrow> states \<Rightarrow> string \<Rightarrow> minter \<Rightarrow> 'w checks_func
     \<Rightarrow> ('w \<times> states) \<times> code option" where
  "VerifySuccessor g kv w sms setName successor checks =
     VerifySet g kv w sms \<lparr> Schema = 0, Name = setName, Minters = [successor] \<rparr> checks"

definition refuseLoginRejected :: "'w gate \<Rightarrow> states \<Rightarrow> minter_set \<Rightarrow> code option" where
  "refuseLoginRejected g sms s =
     (case find (\<lambda>m. loginRejected (gLimiter g) sms (ID m) \<noteq> None) (ActiveMinters (Minters s)) of
        Some _ \<Rightarrow> Some ErrUpstreamAuthFailed
      | None \<Rightarrow> None)"

definition disabledRole :: "blob \<Rightarrow> bool" where
  "disabledRole b = (case dec_bound b of None \<Rightarrow> False | Some (_, _, d) \<Rightarrow> d)"

definition VerifyRole ::
  "'w gate \<Rightarrow> 'w kv \<Rightarrow> 'w \<Rightarrow> states \<Rightarrow> string \<Rightarrow> blob \<Rightarrow> 'w checks_func
     \<Rightarrow> ('w \<times> states) \<times> code option" where
  "VerifyRole g kv w sms setName roleJSON checks =
     (if \<not> gEnabled g \<or> disabledRole roleJSON then ((w, sms), None)
      else case LoadMinterSet kv w setName of
        Inl e \<Rightarrow> ((w, sms), Some ErrInternal)
      | Inr None \<Rightarrow> ((w, sms), Some ErrConfigInvalid)
      | Inr (Some s) \<Rightarrow>
          (case refuseLoginRejected g sms s of
             Some c \<Rightarrow> ((w, sms), Some c)
           | None \<Rightarrow> gate_run g kv w sms (checks s roleJSON)))"

section \<open>Merging checks\<close>

lemma set_appendMissing [simp]: "set (appendMissing dst src) = set dst \<union> set src"
  by (induction src arbitrary: dst) auto

definition merge_roles :: "string list \<Rightarrow> 'w check list \<Rightarrow> string list" where
  "merge_roles rs cs = fold (\<lambda>c a. appendMissing a (ckRoles c)) cs rs"

lemma set_merge_roles: "set (merge_roles rs cs) = set rs \<union> (\<Union>c \<in> set cs. set (ckRoles c))"
  by (induction cs arbitrary: rs) (auto simp: merge_roles_def)

definition with_key :: "string \<Rightarrow> 'w check list \<Rightarrow> 'w check list" where
  "with_key k cs = filter (\<lambda>c. ckKey c = k) cs"

lemma ckKey_absorb [simp]: "ckKey (absorb c x) = ckKey x" "ckKey \<circ> absorb c = ckKey"
  by (auto simp: absorb_def)

lemma by_key_find:
  "find (\<lambda>x. ckKey x = k) (by_key acc cs) =
     (case find (\<lambda>x. ckKey x = k) acc of
        Some x \<Rightarrow> Some (x \<lparr> ckRoles := merge_roles (ckRoles x) (with_key k cs) \<rparr>)
      | None \<Rightarrow>
          (case with_key k cs of
             [] \<Rightarrow> None
           | c # rest \<Rightarrow> Some (c \<lparr> ckRoles := merge_roles (ckRoles c) rest \<rparr>)))"
proof (induction cs arbitrary: acc)
  case Nil
  then show ?case by (simp add: merge_roles_def with_key_def split: option.split)
next
  case (Cons c cs)
  have fmap: "find (\<lambda>x. ckKey x = k) (map (absorb c) acc) = map_option (absorb c) (find (\<lambda>x. ckKey x = k) acc)"
    by (induction acc) auto
  have fapp: "find (\<lambda>x. ckKey x = k) (acc @ [c]) =
      (case find (\<lambda>x. ckKey x = k) acc of Some x \<Rightarrow> Some x
       | None \<Rightarrow> if ckKey c = k then Some c else None)"
    by (induction acc) auto
  have none: "find (\<lambda>x. ckKey x = k) acc = None \<longleftrightarrow> k \<notin> set (map ckKey acc)"
    by (auto simp: find_None_iff)
  have hit: "ckKey x = k" if "find (\<lambda>x. ckKey x = k) acc = Some x" for x
    using that by (auto simp: find_Some_iff)
  show ?case
  proof (cases "ckKey c \<in> set (map ckKey acc)")
    case True
    show ?thesis
    proof (cases "find (\<lambda>x. ckKey x = k) acc")
      case None
      then have "ckKey c \<noteq> k" using True none by auto
      then show ?thesis using True Cons.IH [of "map (absorb c) acc"] fmap None
        by (auto simp: with_key_def absorb_def)
    next
      case (Some x)
      then show ?thesis using True Cons.IH [of "map (absorb c) acc"] fmap hit [OF Some]
        by (auto simp: with_key_def merge_roles_def absorb_def)
    qed
  next
    case False
    show ?thesis
    proof (cases "find (\<lambda>x. ckKey x = k) acc")
      case None
      then show ?thesis using False Cons.IH [of "acc @ [c]"] fapp
        by (auto simp: with_key_def merge_roles_def)
    next
      case (Some x)
      then have "ckKey c \<noteq> k" using False none [THEN iffD2] by auto
      then show ?thesis using False Cons.IH [of "acc @ [c]"] fapp Some
        by (auto simp: with_key_def)
    qed
  qed
qed

lemma by_key_keys:
  "distinct (map ckKey acc) \<Longrightarrow>
     distinct (map ckKey (by_key acc cs))
     \<and> set (map ckKey (by_key acc cs)) = set (map ckKey acc) \<union> set (map ckKey cs)"
proof (induction cs arbitrary: acc)
  case Nil
  then show ?case by simp
next
  case (Cons c cs)
  then show ?case
    using Cons.IH [of "map (absorb c) acc"] Cons.IH [of "acc @ [c]"]
    by (auto simp: image_image)
qed

lemma distinct_find:
  assumes "distinct (map ckKey ds)" and "d \<in> set ds"
  shows "find (\<lambda>x. ckKey x = ckKey d) ds = Some d"
  using assms by (induction ds) (auto simp: rev_image_eqI)

lemma Dedupe_keys:
  "sorted (map ckKey (Dedupe cs))" "distinct (map ckKey (Dedupe cs))"
  "set (map ckKey (Dedupe cs)) = set (map ckKey cs)"
proof -
  have m: "mset (map ckKey (Dedupe cs)) = mset (map ckKey (by_key [] cs))"
    by (simp add: Dedupe_def)
  show "sorted (map ckKey (Dedupe cs))" by (simp add: Dedupe_def)
  show "distinct (map ckKey (Dedupe cs))"
    using by_key_keys [of "[]" cs] mset_eq_imp_distinct_iff [OF m] by simp
  show "set (map ckKey (Dedupe cs)) = set (map ckKey cs)"
    using by_key_keys [of "[]" cs] by (simp add: Dedupe_def)
qed

lemma Dedupe_member:
  assumes "d \<in> set (Dedupe cs)"
  obtains c rest where "with_key (ckKey d) cs = c # rest"
    and "d = c \<lparr> ckRoles := merge_roles (ckRoles c) rest \<rparr>"
proof -
  have d: "d \<in> set (by_key [] cs)" using assms by (simp add: Dedupe_def)
  have "distinct (map ckKey (by_key [] cs))" using by_key_keys [of "[]" cs] by simp
  from distinct_find [OF this d] have "find (\<lambda>x. ckKey x = ckKey d) (by_key [] cs) = Some d" .
  then have "(case with_key (ckKey d) cs of [] \<Rightarrow> None
      | c # rest \<Rightarrow> Some (c \<lparr> ckRoles := merge_roles (ckRoles c) rest \<rparr>)) = Some d"
    by (simp add: by_key_find)
  then show thesis using that by (cases "with_key (ckKey d) cs") auto
qed

lemma Dedupe_roles:
  assumes "d \<in> set (Dedupe cs)"
  shows "set (ckRoles d) = (\<Union>c \<in> {c \<in> set cs. ckKey c = ckKey d}. set (ckRoles c))"
proof -
  obtain c rest where c: "with_key (ckKey d) cs = c # rest"
    "d = c \<lparr> ckRoles := merge_roles (ckRoles c) rest \<rparr>"
    using Dedupe_member [OF assms] .
  have "{c \<in> set cs. ckKey c = ckKey d} = set (with_key (ckKey d) cs)"
    by (auto simp: with_key_def)
  also have "\<dots> = insert c (set rest)" by (simp only: c(1) list.simps)
  finally show ?thesis by (subst c(2)) (simp add: set_merge_roles)
qed

text \<open>
  Deduplication probes each mint request once and loses nobody: the keys come out sorted and
  without repetition, exactly those that went in, each check is the first one given with its key,
  and its roles are all the roles given with that key.
\<close>
theorem dedupe_spec:
  "sorted (map ckKey (Dedupe cs)) \<and> distinct (map ckKey (Dedupe cs))
   \<and> set (map ckKey (Dedupe cs)) = set (map ckKey cs)
   \<and> (\<forall>d \<in> set (Dedupe cs).
        set (ckRoles d) = (\<Union>c \<in> {c \<in> set cs. ckKey c = ckKey d}. set (ckRoles c))
        \<and> (\<exists>c. find (\<lambda>c. ckKey c = ckKey d) cs = Some c \<and> ckRun d = ckRun c
               \<and> ckMinter d = ckMinter c \<and> ckMinterJSON d = ckMinterJSON c))"
proof (intro conjI ballI)
  fix d assume d: "d \<in> set (Dedupe cs)"
  show "set (ckRoles d) = (\<Union>c \<in> {c \<in> set cs. ckKey c = ckKey d}. set (ckRoles c))"
    using d by (rule Dedupe_roles)
  obtain c rest where c: "with_key (ckKey d) cs = c # rest"
    "d = c \<lparr> ckRoles := merge_roles (ckRoles c) rest \<rparr>"
    using Dedupe_member [OF d] .
  have "find P xs = Some x" if "filter P xs = x # r" for P and xs :: "'a check list" and x r
    using that by (induction xs) (auto split: if_splits)
  from this [OF c(1) [unfolded with_key_def]] c(2)
  show "\<exists>c. find (\<lambda>c. ckKey c = ckKey d) cs = Some c \<and> ckRun d = ckRun c
          \<and> ckMinter d = ckMinter c \<and> ckMinterJSON d = ckMinterJSON c"
    by (intro exI [of _ c]) simp
qed (rule Dedupe_keys)+

definition sample_check :: "string \<Rightarrow> string list \<Rightarrow> err option \<Rightarrow> unit mem check" where
  "sample_check k rs e =
     \<lparr> ckKey = k, ckMinter = ''m'', ckRoles = rs, ckRun = (\<lambda>w. (w, if e = None then 200 else 403, e)),
       ckMinterJSON = Some ''secret'' \<rparr>"

theorem dedupe_spec_witness:
  "\<exists>d \<in> set (Dedupe [sample_check ''m|b'' [''r1''] None, sample_check ''m|a'' [''r2''] None,
                   sample_check ''m|b'' [''r3'', ''r1''] None]).
     ckKey d = ''m|b'' \<and> set (ckRoles d) = {''r1'', ''r3''}"
proof -
  let ?cs = "[sample_check ''m|b'' [''r1''] None, sample_check ''m|a'' [''r2''] None,
                   sample_check ''m|b'' [''r3'', ''r1''] None]"
  have keys: "set (map ckKey (Dedupe ?cs)) = set (map ckKey ?cs)"
    and roles: "\<forall>d \<in> set (Dedupe ?cs).
        set (ckRoles d) = (\<Union>c \<in> {c \<in> set ?cs. ckKey c = ckKey d}. set (ckRoles c))"
    using dedupe_spec [of ?cs] by blast+
  have "''m|b'' \<in> ckKey ` set (Dedupe ?cs)" using keys by (simp add: sample_check_def)
  then obtain d where d: "d \<in> set (Dedupe ?cs)" "ckKey d = ''m|b''" by auto
  have "{c \<in> set ?cs. ckKey c = ''m|b''} =
      {sample_check ''m|b'' [''r1''] None, sample_check ''m|b'' [''r3'', ''r1''] None}"
    by (auto simp: sample_check_def)
  then have "set (ckRoles d) = {''r1'', ''r3''}" using roles d by (auto simp: sample_check_def)
  then show ?thesis using d by blast
qed

section \<open>What a verification establishes\<close>

text \<open>
  How a check may be passed, from one world to the next: a recent verdict, a probe that minted
  (whose verdict is then stored), or a cloud that cannot be probed.
\<close>

definition cleared :: "'w runner \<Rightarrow> 'w check \<Rightarrow> 'w \<Rightarrow> 'w \<Rightarrow> bool" where
  "cleared r c w w' \<longleftrightarrow>
     fresh (rCache r) w c \<and> w' = w
     \<or> (\<exists>w1 st. ckRun c w = (w1, st, None) \<and> w' = store (rCache r) w1 c)
     \<or> (\<exists>st e. ckRun c w = (w', st, Some e) \<and> leaf e = ErrProbeUnsupported)"

inductive cleared_all :: "'w runner \<Rightarrow> 'w \<Rightarrow> 'w check list \<Rightarrow> 'w \<Rightarrow> bool" where
  cleared_Nil: "cleared_all r w [] w"
| cleared_Cons: "cleared r c w w1 \<Longrightarrow> cleared_all r w1 cs w2 \<Longrightarrow> cleared_all r w (c # cs) w2"

inductive_simps cleared_all_Cons_iff: "cleared_all r w (c # cs) w'"
inductive_simps cleared_all_Nil_iff [simp]: "cleared_all r w [] w'"

lemma verify_loop_Cons_cases [case_names hit throttled ran unsupported refused]:
  obtains "fresh (rCache r) w c"
      "verify_loop r w sms res (c # cs) = verify_loop r w sms (res \<lparr> Cached := Cached res + 1 \<rparr>) cs"
  | e where "\<not> fresh (rCache r) w c" "acquire (rLimiter r) sms w (ckMinter c) = Some e"
      "verify_loop r w sms res (c # cs) = ((w, sms), res, Some e)"
  | w1 st where "acquire (rLimiter r) sms w (ckMinter c) = None" "ckRun c w = (w1, st, None)"
      "verify_loop r w sms res (c # cs) =
         verify_loop r (store (rCache r) w1 c) (record_probe (rLimiter r) sms w1 (ckMinter c) st None)
           (res \<lparr> Ran := Ran res + 1 \<rparr>) cs"
  | w1 st e where "acquire (rLimiter r) sms w (ckMinter c) = None" "ckRun c w = (w1, st, Some e)"
      "leaf e = ErrProbeUnsupported"
      "verify_loop r w sms res (c # cs) =
         verify_loop r w1 (record_probe (rLimiter r) sms w1 (ckMinter c) st (Some e))
           (res \<lparr> Skipped := Skipped res + 1 \<rparr>) cs"
  | w1 st e where "acquire (rLimiter r) sms w (ckMinter c) = None" "ckRun c w = (w1, st, Some e)"
      "leaf e \<noteq> ErrProbeUnsupported"
      "verify_loop r w sms res (c # cs) =
         ((w1, record_probe (rLimiter r) sms w1 (ckMinter c) st (Some e)), res,
          Some (Failure (ckMinter c) (ckRoles c) e))"
proof (cases "fresh (rCache r) w c")
  case True
  then show thesis using that(1) by simp
next
  case fresh: False
  show thesis
  proof (cases "acquire (rLimiter r) sms w (ckMinter c)")
    case (Some e)
    then show thesis using that(2) fresh by simp
  next
    case None
    obtain w1 st oe where run: "ckRun c w = (w1, st, oe)" by (cases "ckRun c w")
    show thesis
    proof (cases oe)
      case None
      then show thesis using that(3) run fresh \<open>acquire _ _ _ _ = None\<close> by simp
    next
      case (Some e)
      then show thesis using that(4,5) run fresh None
        by (cases "leaf e = ErrProbeUnsupported") simp_all
    qed
  qed
qed

lemma verify_loop_cleared:
  "verify_loop r w sms res cs = ((w', sms'), res', None) \<Longrightarrow>
     cleared_all r w cs w'
     \<and> Ran res' + Skipped res' + Cached res' = Ran res + Skipped res + Cached res + length cs"
proof (induction cs arbitrary: w sms res)
  case Nil
  then show ?case by simp
next
  case (Cons c cs)
  show ?case
  proof (cases rule: verify_loop_Cons_cases [of r w c sms res cs])
    case hit
    with Cons.IH [of w sms "res \<lparr> Cached := Cached res + 1 \<rparr>"] Cons.prems show ?thesis
      by (auto simp: cleared_all_Cons_iff cleared_def)
  next
    case (ran w1 st)
    with Cons.IH [OF ran(3) [symmetric, THEN trans, OF Cons.prems]] show ?thesis
      by (auto simp: cleared_all_Cons_iff cleared_def)
  next
    case (unsupported w1 st e)
    with Cons.IH [OF unsupported(4) [symmetric, THEN trans, OF Cons.prems]] show ?thesis
      by (auto simp: cleared_all_Cons_iff cleared_def)
  qed (use Cons.prems in auto)
qed

lemma verify_clears_every_check_facts:
  assumes "Verify r w sms cs = ((w', sms'), res, None)"
  shows "cleared_all r w (Dedupe cs) w'"
    and "\<forall>c \<in> set cs. \<exists>d \<in> set (Dedupe cs). ckKey d = ckKey c \<and> set (ckRoles c) \<subseteq> set (ckRoles d)"
    and "Ran res + Skipped res + Cached res = card (ckKey ` set cs)"
proof -
  have v: "cleared_all r w (Dedupe cs) w'"
    "Ran res + Skipped res + Cached res = length (Dedupe cs)"
    using verify_loop_cleared [OF assms [unfolded Verify_def]] by simp_all
  show "cleared_all r w (Dedupe cs) w'" by (rule v)
  show "\<forall>c \<in> set cs. \<exists>d \<in> set (Dedupe cs). ckKey d = ckKey c \<and> set (ckRoles c) \<subseteq> set (ckRoles d)"
  proof
    fix c assume c: "c \<in> set cs"
    then have "ckKey c \<in> ckKey ` set (Dedupe cs)" using Dedupe_keys(3) [of cs] by auto
    then obtain d where d: "d \<in> set (Dedupe cs)" "ckKey d = ckKey c" by auto
    then show "\<exists>d \<in> set (Dedupe cs). ckKey d = ckKey c \<and> set (ckRoles c) \<subseteq> set (ckRoles d)"
      using Dedupe_roles [OF d(1)] c by auto
  qed
  have "length (Dedupe cs) = card (set (map ckKey (Dedupe cs)))"
    using distinct_card [OF Dedupe_keys(2), of cs] by (simp only: length_map)
  then show "Ran res + Skipped res + Cached res = card (ckKey ` set cs)"
    using v(2) Dedupe_keys(3) [of cs] by simp
qed

text \<open>
  C31. A write is let through only when every probe it asks for was answered: if verification
  returns no error, then each check it was given is covered by a deduplicated check that names all
  its roles, and those checks passed one after another, each through a recent verdict, a probe that
  minted, or a cloud that cannot be probed; and the counts add up to the number of distinct probes.
\<close>
theorem verify_clears_every_check:
  assumes "Verify r w sms cs = ((w', sms'), res, None)"
  shows "cleared_all r w (Dedupe cs) w'
         \<and> (\<forall>c \<in> set cs. \<exists>d \<in> set (Dedupe cs). ckKey d = ckKey c \<and> set (ckRoles c) \<subseteq> set (ckRoles d))
         \<and> Ran res + Skipped res + Cached res = card (ckKey ` set cs)"
  using verify_clears_every_check_facts [OF assms] by blast

definition sample_runner :: "unit mem runner" where
  "sample_runner =
     \<lparr> rCache = Some \<lparr> cStorage = Some mem_kv, cTTL = hour, cNow = (\<lambda>_. epoch + hour), cDigest = id \<rparr>,
       rLimiter = None \<rparr>"

theorem verify_clears_every_check_witness:
  "\<exists>w' sms' res. Verify sample_runner ([], ()) Map.empty
       [sample_check ''m|b'' [''r1''] None, sample_check ''m|b'' [''r2''] None] = ((w', sms'), res, None)
     \<and> Ran res + Skipped res + Cached res = 1 \<and> mem_view w' ''capability-cache/m|b'' \<noteq> None"
proof -
  let ?cs = "[sample_check ''m|b'' [''r1''] None, sample_check ''m|b'' [''r2''] None]"
  let ?w = "([], ()) :: unit mem"
  let ?v = "Verify sample_runner ?w Map.empty ?cs"
  have e: "snd (snd ?v) = None" "mem_view (fst (fst ?v)) ''capability-cache/m|b'' \<noteq> None"
    by code_simp+
  obtain w' sms' res oe where r: "?v = ((w', sms'), res, oe)" by (metis surj_pair)
  with e have v: "?v = ((w', sms'), res, None)" "mem_view w' ''capability-cache/m|b'' \<noteq> None"
    by simp_all
  from verify_clears_every_check [OF v(1), THEN conjunct2, THEN conjunct2]
  have "Ran res + Skipped res + Cached res = 1" by (simp add: sample_check_def)
  then show ?thesis using v by blast
qed

section \<open>Probes and the health of the minters\<close>

text \<open>What a probe may do to a machine: nothing worse than open a cooldown.\<close>

definition no_worse :: "machine \<Rightarrow> machine \<Rightarrow> bool" where
  "no_worse sm sm' \<longleftrightarrow>
     consecutiveAuthFailures sm' \<le> consecutiveAuthFailures sm \<and> (serviceable sm \<longrightarrow> serviceable sm')"

lemma no_worse_refl [simp]: "no_worse sm sm"
  by (simp add: no_worse_def)

lemma no_worse_trans [trans]: "no_worse a b \<Longrightarrow> no_worse b c \<Longrightarrow> no_worse a c"
  by (auto simp: no_worse_def)

lemma no_worse_RecordSuccess: "no_worse sm (RecordSuccess t sm)"
  by (simp add: no_worse_def RecordSuccess_def serviceable_def)

lemma no_worse_ReleaseProbe: "no_worse sm (ReleaseProbe sm)"
  by (simp add: no_worse_def ReleaseProbe_def serviceable_def)

lemma no_worse_recordRateLimited: "no_worse sm (recordRateLimited j h t sm)"
  by (cases "mstate sm")
    (simp_all add: no_worse_def recordRateLimited_def openCooldown_def RecordError_def error_transition_def
      isAuthError_def serviceable_def Let_def)

lemma no_worse_record:
  assumes "sms i = Some sm"
  shows "\<exists>sm'. record_probe l sms w k st e i = Some sm' \<and> no_worse sm sm'"
proof (cases "k = i")
  case False
  then show ?thesis using assms
    by (auto simp: record_probe_def Let_def split: option.split)
next
  case k: True
  show ?thesis
  proof (cases l)
    case None
    then show ?thesis using assms by (simp add: record_probe_def)
  next
    case (Some li)
    have limited: "Record j \<lparr> Status = st, Err = e, RetryAfter = 0 \<rparr> t sm = recordRateLimited j 0 t sm"
      if "Classify st e = ErrUpstreamQuotaExceeded" for j t
      using that by (simp add: Record_def)
    show ?thesis using assms Some k
      by (simp add: record_probe_def stateFor_def Let_def limited no_worse_RecordSuccess
          no_worse_ReleaseProbe no_worse_recordRateLimited)
  qed
qed

lemma verify_loop_no_worse:
  "verify_loop r w sms res cs = ((w', sms'), res', e) \<Longrightarrow> sms i = Some sm \<Longrightarrow>
     \<exists>sm'. sms' i = Some sm' \<and> no_worse sm sm'"
proof (induction cs arbitrary: w sms res sm)
  case Nil
  then show ?case by simp
next
  case (Cons c cs)
  have rec: "\<exists>sm'. record_probe l sms w k st e i = Some sm' \<and> no_worse sm sm'"
    for l :: "'a limiter option" and w k st e
    using no_worse_record [of sms i sm, OF Cons.prems(2)] .
  show ?case
  proof (cases rule: verify_loop_Cons_cases [of r w c sms res cs])
    case hit
    with Cons show ?thesis by simp
  next
    case (throttled e)
    with Cons.prems show ?thesis by auto
  next
    case (ran w1 st)
    obtain sm1 where "record_probe (rLimiter r) sms w1 (ckMinter c) st None i = Some sm1"
      "no_worse sm sm1" using rec by blast
    with Cons.IH [OF ran(3) [symmetric, THEN trans, OF Cons.prems(1)]] show ?thesis
      using no_worse_trans by blast
  next
    case (unsupported w1 st e)
    obtain sm1 where "record_probe (rLimiter r) sms w1 (ckMinter c) st (Some e) i = Some sm1"
      "no_worse sm sm1" using rec by blast
    with Cons.IH [OF unsupported(4) [symmetric, THEN trans, OF Cons.prems(1)]] show ?thesis
      using no_worse_trans by blast
  next
    case (refused w1 st e)
    with Cons.prems(1) rec show ?thesis by auto
  qed
qed

text \<open>
  C32. Verification never takes a minter out of service: whatever the probes answer, a minter that
  could serve before can serve after (a cooldown apart), and no count of rejected logins has grown,
  so a role written wrong does not indict a minter that other roles use.
\<close>
theorem probes_never_indict:
  assumes "Verify r w sms cs = ((w', sms'), res, e)" and "sms i = Some sm"
  shows "\<exists>sm'. sms' i = Some sm' \<and> consecutiveAuthFailures sm' \<le> consecutiveAuthFailures sm
           \<and> (serviceable sm \<longrightarrow> serviceable sm')"
  using verify_loop_no_worse [OF assms(1) [unfolded Verify_def] assms(2)]
  by (simp add: no_worse_def)

definition sample_limiter :: "unit mem limiter" where
  "sample_limiter = \<lparr> lNow = (\<lambda>_. epoch + hour), lJitter = (\<lambda>_. 0) \<rparr>"

definition sample_machine :: machine where
  "sample_machine =
     NewStateMachine \<lparr> AuthFailThreshold = 5 * minute, HealthCheckInterval = minute \<rparr>"

theorem probes_never_indict_witness:
  "\<exists>w' sms' res e sm'.
     Verify (sample_runner \<lparr> rLimiter := Some sample_limiter \<rparr>) ([], ()) [''m'' \<mapsto> sample_machine]
       [sample_check ''m|b'' [''r1''] (Some (Opaque ''no privilege''))]
     = ((w', sms'), res, Some (Failure ''m'' [''r1''] e))
     \<and> sms' ''m'' = Some sm' \<and> serviceable sm'"
proof -
  let ?v = "Verify (sample_runner \<lparr> rLimiter := Some sample_limiter \<rparr>) ([], ()) [''m'' \<mapsto> sample_machine]
       [sample_check ''m|b'' [''r1''] (Some (Opaque ''no privilege''))]"
  have e: "snd (snd ?v) = Some (Failure ''m'' [''r1''] (Opaque ''no privilege''))"
    by (simp add: Verify_def Dedupe_def sample_check_def sample_runner_def sample_limiter_def fresh_def
        cache_usable_def duration_defs mem_kv_def cache_key_def acquire_def stateFor_def
        sample_machine_def NewStateMachine_def InRateLimitCooldown_def ErrProbeUnsupported_def
        epoch_def)
  obtain w' sms' res oe where r: "?v = ((w', sms'), res, oe)" by (metis surj_pair)
  have s: "serviceable sample_machine"
    by (simp add: sample_machine_def NewStateMachine_def serviceable_def)
  obtain sm' where sm: "sms' ''m'' = Some sm'" "serviceable sm'"
    using probes_never_indict [OF r, of "''m''" sample_machine] s by auto
  have "oe = Some (Failure ''m'' [''r1''] (Opaque ''no privilege''))" using e r by simp
  with r sm show ?thesis by blast
qed

section \<open>Role writes and set writes\<close>

text \<open>
  A role write spends no login on a credential that is being refused: if any active minter of the
  set has a rejected login since its last success, the write of an enabled role is refused with no
  probe run and no machine touched, and the write that disables a role is let through untouched.
\<close>
theorem role_write_spares_rejected_login:
  assumes "gEnabled g"
    and "kget kv w (''minter-sets/'' @ setName) = Inr (Some (enc_minter_set s))"
    and "m \<in> set (Minters s)" and "\<not> Retired m"
    and "gLimiter g = Some li" and "sms (ID m) = Some sm" and "0 < consecutiveAuthFailures sm"
  shows "VerifyRole g kv w sms setName roleJSON checks =
     ((w, sms), if disabledRole roleJSON then None else Some ErrUpstreamAuthFailed)"
proof -
  have load: "LoadMinterSet kv w setName = Inr (Some s)"
    using assms(2) by (simp add: LoadMinterSet_def minterSetPrefix_def dec_enc_minter_set)
  have "loginRejected (gLimiter g) sms (ID m) \<noteq> None"
    using assms(5-7) by (simp add: loginRejected_def stateFor_def)
  moreover have "m \<in> set (ActiveMinters (Minters s))"
    using assms(3,4) by (simp add: ActiveMinters_def)
  ultimately have "refuseLoginRejected g sms s = Some ErrUpstreamAuthFailed"
    by (auto simp: refuseLoginRejected_def find_None_iff split: option.split)
  with load assms(1) show ?thesis by (simp add: VerifyRole_def)
qed

definition sample_gate :: "unit mem gate" where
  "sample_gate =
     \<lparr> gEnabled = True, gLimiter = Some sample_limiter, gCacheTTL = hour, gNow = (\<lambda>_. epoch + hour),
       gDigest = id \<rparr>"

definition sample_set :: minter_set where
  "sample_set = \<lparr> Schema = 1, Name = ''s'', Minters = [sample_minter ''m'' False] \<rparr>"

definition sample_role :: "bool \<Rightarrow> blob" where
  "sample_role d =
     Json (JObj [(''name'', JStr ''r''), (''minter_set'', JStr ''s''), (''disabled'', JBool d)])"

definition sample_world :: "unit mem" where
  "sample_world =
     ([(''minter-sets/s'', enc_minter_set sample_set), (''roles/r'', sample_role False)], ())"

text \<open>A machine that was limited, then refused twice far enough apart to be failing authentication.\<close>

definition locked_machine :: machine where
  "locked_machine =
     RecordError 0 403 (epoch + 20 * minute)
       (RecordError 0 403 (epoch + 10 * minute)
         (recordRateLimited 0 0 (epoch + minute) sample_machine))"

lemma locked_machine_facts:
  "mstate locked_machine = AuthFailing" "rateLimitStrikes locked_machine = 1"
  "consecutiveAuthFailures locked_machine = 2"
  by code_simp+

theorem role_write_spares_rejected_login_witness:
  "VerifyRole sample_gate mem_kv sample_world [''m'' \<mapsto> locked_machine] ''s'' (sample_role False)
     (\<lambda>s b. [sample_check ''m|b'' [''r''] None])
   = ((sample_world, [''m'' \<mapsto> locked_machine]), Some ErrUpstreamAuthFailed)"
proof -
  have d: "\<not> disabledRole (sample_role False)" by code_simp
  show ?thesis
    using role_write_spares_rejected_login [of sample_gate mem_kv sample_world "''s''" sample_set
        "sample_minter ''m'' False" sample_limiter "[''m'' \<mapsto> locked_machine]" locked_machine
        "sample_role False" "\<lambda>s b. [sample_check ''m|b'' [''r''] None]"] d
    by (simp add: sample_gate_def sample_world_def mem_kv_def sample_set_def sample_minter_def
        locked_machine_facts)
qed

text \<open>
  A set write is not exempt from the health of the minter it repairs: while the machine of a
  minter id is failing authentication with a rate-limit strike on record, every write of a set whose
  probes concern that id is answered with a quota error and runs no probe, at every later time and
  with whatever new credential, since only a success clears the strike.
\<close>
theorem set_write_stays_throttled:
  assumes "gEnabled g" and "gLimiter g = Some li"
    and "RolesBoundTo kv w (Name s) = Inr roles"
    and "concat (map (\<lambda>r. checks s (brRaw r)) roles) \<noteq> []"
    and "\<forall>r \<in> set roles. \<forall>c \<in> set (checks s (brRaw r)). ckMinter c = i \<and> ckMinterJSON c = Some new"
    and "\<forall>k b v. kget kv w (''capability-cache/'' @ k) = Inr (Some b) \<longrightarrow> dec_verdict b \<noteq> Some (gDigest g new, v)"
    and "sms i = Some sm" and "mstate sm = AuthFailing" and "0 < rateLimitStrikes sm"
  shows "VerifySet g kv w sms s checks = ((w, sms), Some ErrUpstreamQuotaExceeded)"
proof -
  let ?all = "concat (map (\<lambda>r. checks s (brRaw r)) roles)"
  let ?c = "\<lparr> cStorage = Some kv, cTTL = gCacheTTL g, cNow = gNow g, cDigest = gDigest g \<rparr>"
  have "set (map ckKey (Dedupe ?all)) \<noteq> {}" using assms(4) unfolding Dedupe_keys(3) by simp
  then obtain d ds where d: "Dedupe ?all = d # ds" by (cases "Dedupe ?all") auto
  obtain c rest where c: "with_key (ckKey d) ?all = c # rest"
    "d = c \<lparr> ckRoles := merge_roles (ckRoles c) rest \<rparr>"
    using Dedupe_member [of d ?all] d by auto
  have "c \<in> set (with_key (ckKey d) ?all)" using c(1) by simp
  then have "c \<in> set ?all" by (simp add: with_key_def)
  then have "ckMinter c = i" "ckMinterJSON c = Some new" using assms(5) by auto
  then have m: "ckMinter d = i" "ckMinterJSON d = Some new" by (subst c(2), simp)+
  have "\<not> fresh (Some ?c) w d"
  proof
    assume f: "fresh (Some ?c) w d"
    then obtain b v where "kget kv w (''capability-cache/'' @ gDigest g (ckKey d)) = Inr (Some b)"
      "dec_verdict b = Some (gDigest g new, v)"
      using m(2) by (auto simp: fresh_iff cache_key_def cachePrefix_def fingerprint_def)
    then show False using assms(6) by blast
  qed
  moreover have "acquire (gLimiter g) sms w (ckMinter d) = Some (Throttled i (RetryIn (lNow li w) sm))"
    using assms(2,7,9) m(1) by (simp add: acquire_def stateFor_def InRateLimitCooldown_def)
  ultimately show ?thesis
    using assms(1,3) by (simp add: VerifySet_def gate_run_def Verify_def d renderFailure_def Let_def)
qed

theorem set_write_stays_throttled_witness:
  "VerifySet sample_gate mem_kv sample_world [''m'' \<mapsto> locked_machine] sample_set
     (\<lambda>s b. [sample_check ''m|b'' [''r''] None])
   = ((sample_world, [''m'' \<mapsto> locked_machine]), Some ErrUpstreamQuotaExceeded)"
proof (rule set_write_stays_throttled [where li = sample_limiter and i = "''m''" and new = "''secret''"
      and sm = locked_machine and roles = "[\<lparr> brName = ''r'', brRaw = sample_role False \<rparr>]"])
  show "RolesBoundTo mem_kv sample_world (Name sample_set) =
      Inr [\<lparr> brName = ''r'', brRaw = sample_role False \<rparr>]" by code_simp
  show "\<forall>k b v. kget mem_kv sample_world (''capability-cache/'' @ k) = Inr (Some b) \<longrightarrow>
      dec_verdict b \<noteq> Some (gDigest sample_gate ''secret'', v)"
    by (simp add: mem_kv_def sample_world_def)
qed (simp_all add: sample_gate_def sample_check_def locked_machine_facts)

section \<open>The cache of verdicts: what stands in for a probe\<close>

text \<open>
  A stored verdict stands in for the same probe exactly while the credential behind the minter id
  is unchanged and the verdict, whose time is kept to the second, is at most the configured age old:
  a rewritten credential always proves itself again.
\<close>
theorem verdict_stands_for:
  assumes "kv_store kv view" and "cStorage c = Some kv" and "0 < cTTL c"
    and "ckMinterJSON ck = Some raw" and "ckKey ck' = ckKey ck" and "ckMinterJSON ck' = Some raw'"
    and "kput kv w (cache_key c ck) (enc_verdict (fingerprint c raw) (Unix (cNow c w))) = (w1, None)"
    and "view w2 (cache_key c ck) = view (store (Some c) w ck) (cache_key c ck)"
    and "kget kv w2 (cache_key c ck) = Inr got"
  shows "fresh (Some c) w2 ck' \<longleftrightarrow>
     cDigest c raw' = cDigest c raw
     \<and> rfc3339 (cNow c w) \<le> cNow c w2 \<and> cNow c w2 - rfc3339 (cNow c w) \<le> cTTL c"
proof -
  let ?v = "enc_verdict (fingerprint c raw) (Unix (cNow c w))"
  have "store (Some c) w ck = w1"
    using assms(2-4,7) by (simp add: store_def cache_usable_def)
  then have "view w2 (cache_key c ck) = Some ?v"
    using kv_store.put_ok [OF assms(1) assms(7)] assms(8) by simp
  then have "got = Some ?v" using kv_store.get_view [OF assms(1) assms(9)] by simp
  moreover have "cache_key c ck' = cache_key c ck" using assms(5) by (simp add: cache_key_def)
  ultimately show ?thesis
    using assms(2,3,6,9) by (auto simp: fresh_iff fingerprint_def UnixTime_Unix)
qed

definition sample_cache :: "unit mem cache" where
  "sample_cache =
     \<lparr> cStorage = Some mem_kv, cTTL = hour, cNow = (\<lambda>_. epoch + hour), cDigest = id \<rparr>"

theorem verdict_stands_for_witness:
  "\<not> fresh (Some sample_cache) (store (Some sample_cache) ([], ()) (sample_check ''m|b'' [] None))
        (sample_check ''m|b'' [''r''] None \<lparr> ckMinterJSON := Some ''rotated'' \<rparr>)
   \<and> fresh (Some sample_cache) (store (Some sample_cache) ([], ()) (sample_check ''m|b'' [] None))
        (sample_check ''m|b'' [''r''] None)"
proof -
  let ?ck = "sample_check ''m|b'' [] None"
  let ?k = "cache_key sample_cache ?ck"
  let ?v = "enc_verdict (fingerprint sample_cache ''secret'') (Unix (cNow sample_cache ([], ())))"
  let ?w1 = "store (Some sample_cache) ([], ()) ?ck"
  have c: "cStorage sample_cache = Some mem_kv" "0 < cTTL sample_cache"
    by (simp_all add: sample_cache_def duration_defs)
  have r: "ckMinterJSON ?ck = Some ''secret''" by (simp add: sample_check_def)
  obtain w1 where p: "kput mem_kv ([], ()) ?k ?v = (w1, None)" by (simp add: mem_kv_def)
  have g: "\<exists>got. kget mem_kv ?w1 ?k = Inr got" by (cases ?w1) (simp add: mem_kv_def)
  then obtain got where g: "kget mem_kv ?w1 ?k = Inr got" ..
  have "rfc3339 (cNow sample_cache ([], ())) = epoch + hour" "cNow sample_cache ?w1 = epoch + hour"
    "cTTL sample_cache = hour"
    by (simp_all add: sample_cache_def rfc3339_def epoch_def duration_defs)
  moreover note t = this
  note v = verdict_stands_for [OF mem.kv_store_axioms c r _ _ p refl g]
  have "\<not> fresh (Some sample_cache) ?w1
        (sample_check ''m|b'' [''r''] None \<lparr> ckMinterJSON := Some ''rotated'' \<rparr>)"
    by (subst v [of _ "''rotated''"]) (simp_all add: sample_check_def, simp add: sample_cache_def)
  moreover have "fresh (Some sample_cache) ?w1 (sample_check ''m|b'' [''r''] None)"
    by (subst v [of _ "''secret''"]) (simp_all add: t, simp_all add: sample_check_def duration_defs)
  ultimately show ?thesis by blast
qed

end
