(* ===== verification/DOClient.thy ===== *)
theory DOClient
  imports MountConfig
begin

text \<open>
  \<open>plugins/credential-do/do_client.go\<close> and \<open>spaces_client.go\<close>: the client of DigitalOcean's API. The
  HTTP transport is an argument: a request that changes something returns a new world and either a
  transport error or a status and a body; a read returns the answer alone. Only what a caller looks
  at is decoded; the texts of errors carry the operation, not the upstream body.
\<close>

section \<open>Transport\<close>

datatype verb = POST | DELETE

record 'w http =
  hSend :: "'w \<Rightarrow> verb \<Rightarrow> string \<Rightarrow> string \<Rightarrow> json option \<Rightarrow> 'w \<times> (err + int \<times> blob)"
  hGet :: "'w \<Rightarrow> string \<Rightarrow> string \<Rightarrow> err + int \<times> blob"

record do_client =
  baseURL :: string
  clToken :: string

definition newDOClient :: "string \<Rightarrow> string \<Rightarrow> do_client" where
  "newDOClient url tok = \<lparr> baseURL = url, clToken = tok \<rparr>"

definition dec_object :: "(json \<Rightarrow> 'a option) \<Rightarrow> json \<Rightarrow> 'a option" where
  "dec_object dec d = (if is_object d then dec d else None)"

definition dec_body :: "(json \<Rightarrow> 'a option) \<Rightarrow> blob \<Rightarrow> 'a option" where
  "dec_body dec b = (case b of Raw _ \<Rightarrow> None | Json d \<Rightarrow> dec_object dec d)"

section \<open>Tokens\<close>

record token =
  tokID :: string
  tokName :: string
  tokAccess :: string
  tokScopes :: "string list"

definition no_token :: token where
  "no_token = \<lparr> tokID = [], tokName = [], tokAccess = [], tokScopes = [] \<rparr>"

definition dec_token :: "json \<Rightarrow> token option" where
  "dec_token d =
     (case (opt_field [] dec_str d ''id'', opt_field [] dec_str d ''name'',
            opt_field [] dec_str d ''access_token'', opt_field [] (dec_list dec_str) d ''scopes'') of
        (Some i, Some n, Some a, Some s) \<Rightarrow>
          Some \<lparr> tokID = i, tokName = n, tokAccess = a, tokScopes = s \<rparr>
      | _ \<Rightarrow> None)"

definition dec_token_response :: "json \<Rightarrow> token option" where
  "dec_token_response d = opt_field no_token (dec_object dec_token) d ''token''"

definition CreateToken ::
  "'w http \<Rightarrow> do_client \<Rightarrow> string \<Rightarrow> string list \<Rightarrow> 'w \<Rightarrow> 'w \<times> int \<times> (err + token)" where
  "CreateToken h c name scopes w =
     (case hSend h w POST (baseURL c @ ''/v2/tokens'') (clToken c)
             (Some (JObj [(''name'', JStr name), (''scopes'', JArr (map JStr scopes))])) of
        (w', Inl e) \<Rightarrow> (w', 0, Inl e)
      | (w', Inr (st, body)) \<Rightarrow>
          if st \<noteq> 201 then (w', st, Inl (Opaque ''DO API returned''))
          else (case dec_body dec_token_response body of
                  None \<Rightarrow> (w', st, Inl (Opaque ''decoding''))
                | Some t \<Rightarrow> (w', st, Inr t)))"

definition DeleteToken ::
  "'w http \<Rightarrow> do_client \<Rightarrow> string \<Rightarrow> 'w \<Rightarrow> 'w \<times> int \<times> err option" where
  "DeleteToken h c tokenID w =
     (case hSend h w DELETE (baseURL c @ ''/v2/tokens/'' @ PathSegment tokenID) (clToken c) None of
        (w', Inl e) \<Rightarrow> (w', 0, Some e)
      | (w', Inr (st, _)) \<Rightarrow>
          if st \<noteq> 204 then (w', st, Some (Opaque ''DO API delete returned'')) else (w', st, None))"

definition CheckHealth :: "'w http \<Rightarrow> do_client \<Rightarrow> 'w \<Rightarrow> int \<times> err option" where
  "CheckHealth h c w =
     (case hGet h w (baseURL c @ ''/v2/account'') (clToken c) of
        Inl e \<Rightarrow> (0, Some e)
      | Inr (st, _) \<Rightarrow> (st, None))"

definition listJSON :: "'w http \<Rightarrow> do_client \<Rightarrow> string \<Rightarrow> (json \<Rightarrow> 'a option) \<Rightarrow> 'w \<Rightarrow> err + 'a" where
  "listJSON h c path dec w =
     (case hGet h w (baseURL c @ path) (clToken c) of
        Inl e \<Rightarrow> Inl e
      | Inr (st, body) \<Rightarrow>
          if st \<noteq> 200 then Inl (Opaque ''DO API listing returned'')
          else (case dec_body dec body of None \<Rightarrow> Inl (Opaque ''decoding'') | Some x \<Rightarrow> Inr x))"

text \<open>A creation time is kept as the JSON string it came as; the reconciler parses it.\<close>

definition dec_text :: "json \<Rightarrow> json option" where
  "dec_text v = (case v of JStr s \<Rightarrow> Some v | JTime t \<Rightarrow> Some v | _ \<Rightarrow> None)"

record token_info =
  tiID :: string
  tiName :: string
  tiCreatedAt :: json

definition dec_token_info :: "json \<Rightarrow> token_info option" where
  "dec_token_info d =
     (case (opt_field [] dec_str d ''id'', opt_field [] dec_str d ''name'',
            opt_field (JStr []) dec_text d ''created_at'') of
        (Some i, Some n, Some a) \<Rightarrow> Some \<lparr> tiID = i, tiName = n, tiCreatedAt = a \<rparr>
      | _ \<Rightarrow> None)"

definition ListTokens :: "'w http \<Rightarrow> do_client \<Rightarrow> 'w \<Rightarrow> err + token_info list" where
  "ListTokens h c w =
     listJSON h c ''/v2/tokens''
       (\<lambda>d. opt_field [] (dec_list (dec_object dec_token_info)) d ''tokens'') w"

section \<open>Spaces keys\<close>

record grant =
  Bucket :: string
  Permission :: string

record spaces_key_info =
  skName :: string
  skAccessKey :: string
  skSecretKey :: string
  skGrants :: "grant list"
  skCreatedAt :: json

definition enc_grant :: "grant \<Rightarrow> json" where
  "enc_grant g = JObj [(''bucket'', JStr (Bucket g)), (''permission'', JStr (Permission g))]"

definition dec_grant :: "json \<Rightarrow> grant option" where
  "dec_grant d =
     (if \<not> is_object d then None
      else case (opt_field [] dec_str d ''bucket'', opt_field [] dec_str d ''permission'') of
        (Some b, Some p) \<Rightarrow> Some \<lparr> Bucket = b, Permission = p \<rparr>
      | _ \<Rightarrow> None)"

definition no_key :: spaces_key_info where
  "no_key = \<lparr> skName = [], skAccessKey = [], skSecretKey = [], skGrants = [], skCreatedAt = JStr [] \<rparr>"

definition dec_key :: "json \<Rightarrow> spaces_key_info option" where
  "dec_key d =
     (case (opt_field [] dec_str d ''name'', opt_field [] dec_str d ''access_key'',
            opt_field [] dec_str d ''secret_key'', opt_field [] (dec_list dec_grant) d ''grants'',
            opt_field (JStr []) dec_text d ''created_at'') of
        (Some n, Some a, Some s, Some g, Some t) \<Rightarrow>
          Some \<lparr> skName = n, skAccessKey = a, skSecretKey = s, skGrants = g, skCreatedAt = t \<rparr>
      | _ \<Rightarrow> None)"

definition CreateSpacesKey ::
  "'w http \<Rightarrow> do_client \<Rightarrow> string \<Rightarrow> grant list \<Rightarrow> 'w \<Rightarrow> 'w \<times> int \<times> (err + spaces_key_info)" where
  "CreateSpacesKey h c name grants w =
     (case hSend h w POST (baseURL c @ ''/v2/spaces/keys'') (clToken c)
             (Some (JObj [(''name'', JStr name), (''grants'', JArr (map enc_grant grants))])) of
        (w', Inl e) \<Rightarrow> (w', 0, Inl e)
      | (w', Inr (st, body)) \<Rightarrow>
          if st \<noteq> 201 then (w', st, Inl (Opaque ''DO API create spaces key returned''))
          else (case dec_body (\<lambda>d. opt_field no_key (dec_object dec_key) d ''key'') body of
                  None \<Rightarrow> (w', st, Inl (Opaque ''decoding''))
                | Some k \<Rightarrow> (w', st, Inr k)))"

definition DeleteSpacesKey ::
  "'w http \<Rightarrow> do_client \<Rightarrow> string \<Rightarrow> 'w \<Rightarrow> 'w \<times> int \<times> err option" where
  "DeleteSpacesKey h c accessKey w =
     (case hSend h w DELETE (baseURL c @ ''/v2/spaces/keys/'' @ PathSegment accessKey) (clToken c) None of
        (w', Inl e) \<Rightarrow> (w', 0, Some e)
      | (w', Inr (st, _)) \<Rightarrow>
          if st \<noteq> 204 then (w', st, Some (Opaque ''DO API delete spaces key returned'')) else (w', st, None))"

definition spacesListPageSize :: int where "spacesListPageSize = 200"
definition spacesListMaxPages :: nat where "spacesListMaxPages = 50"

text \<open>One page: its keys and the link to the next one.\<close>

definition dec_links :: "json \<Rightarrow> string option" where
  "dec_links d =
     opt_field [] (dec_object (\<lambda>l.
       opt_field [] (dec_object (\<lambda>p. opt_field [] dec_str p ''next'')) l ''pages'')) d ''links''"

definition dec_key_page :: "json \<Rightarrow> (spaces_key_info list \<times> string) option" where
  "dec_key_page d =
     (case (opt_field [] (dec_list (dec_object dec_key)) d ''keys'', dec_links d) of
        (Some ks, Some next) \<Rightarrow> Some (ks, next)
      | _ \<Rightarrow> None)"

definition key_page ::
  "'w http \<Rightarrow> do_client \<Rightarrow> 'w \<Rightarrow> nat \<Rightarrow> err + spaces_key_info list \<times> string" where
  "key_page h c w page =
     listJSON h c (''/v2/spaces/keys?per_page='' @ Itoa spacesListPageSize @ ''&page='' @ Itoa (int page))
       dec_key_page w"

text \<open>The loop over the pages, from \<open>page\<close> on.\<close>

function key_pages ::
  "'w http \<Rightarrow> do_client \<Rightarrow> 'w \<Rightarrow> nat \<Rightarrow> spaces_key_info list \<Rightarrow> err + spaces_key_info list" where
  "key_pages h c w page all =
     (case key_page h c w page of
        Inl e \<Rightarrow> Inl e
      | Inr (ks, next) \<Rightarrow>
          if next = [] then Inr (all @ ks)
          else if page \<ge> spacesListMaxPages then Inl (Opaque ''refusing to return a partial listing'')
          else key_pages h c w (page + 1) (all @ ks))"
  by pat_completeness auto
termination by (relation "measure (\<lambda>(h, c, w, page, all). spacesListMaxPages - page)") auto

declare key_pages.simps [simp del]

definition ListSpacesKeys :: "'w http \<Rightarrow> do_client \<Rightarrow> 'w \<Rightarrow> err + spaces_key_info list" where
  "ListSpacesKeys h c w = key_pages h c w 1 []"

section \<open>A listing is whole or an error\<close>

text \<open>The pages from \<open>page\<close> up to the first that names no next one.\<close>

inductive whole :: "(nat \<Rightarrow> err + 'k list \<times> string) \<Rightarrow> nat \<Rightarrow> 'k list list \<Rightarrow> bool"
  for pages where
  last_page: "pages p = Inr (ks, []) \<Longrightarrow> whole pages p [ks]"
| next_page: "pages p = Inr (ks, next) \<Longrightarrow> next \<noteq> [] \<Longrightarrow> whole pages (Suc p) kss \<Longrightarrow>
     whole pages p (ks # kss)"

inductive_cases whole_NilE: "whole pages p []"
inductive_cases whole_ConsE: "whole pages p (ks # kss)"

lemma whole_not_Nil: "whole pages p kss \<Longrightarrow> kss \<noteq> []"
  by (induction rule: whole.induct) auto

lemma key_pages_whole:
  assumes "page \<le> spacesListMaxPages"
  shows "key_pages h c w page all = Inr out \<longleftrightarrow>
     (\<exists>kss. whole (key_page h c w) page kss \<and> page + length kss \<le> Suc spacesListMaxPages
        \<and> out = all @ concat kss)"
  using assms
proof (induction h c w page all rule: key_pages.induct)
  case (1 h c w page all)
  note unfold = key_pages.simps [of h c w page all]
  show ?case
  proof (cases "key_page h c w page")
    case (Inl e)
    then have "\<not> whole (key_page h c w) page kss" for kss by (auto elim: whole.cases)
    then show ?thesis using Inl by (simp add: unfold)
  next
    case (Inr p)
    obtain ks nxt where p: "key_page h c w page = Inr (ks, nxt)" using Inr by (cases p) auto
    show ?thesis
    proof (cases "nxt = []")
      case True
      then have "whole (key_page h c w) page kss \<longleftrightarrow> kss = [ks]" for kss
        using p by (auto elim: whole.cases intro: last_page)
      then show ?thesis using p True 1(2) by (auto simp: unfold)
    next
      case more: False
      have w: "whole (key_page h c w) page kss \<longleftrightarrow>
          (\<exists>rest. kss = ks # rest \<and> whole (key_page h c w) (Suc page) rest)" for kss
        using p more by (auto elim: whole.cases intro: next_page)
      show ?thesis
      proof (cases "page \<ge> spacesListMaxPages")
        case True
        then have "\<not> page + length (ks # rest) \<le> Suc spacesListMaxPages"
          if "whole (key_page h c w) (Suc page) rest" for rest
          using whole_not_Nil [OF that] by (cases rest) auto
        then show ?thesis using p more True w by (auto simp: unfold)
      next
        case False
        have "key_pages h c w page all = key_pages h c w (page + 1) (all @ ks)"
          using p more False by (simp add: unfold)
        then show ?thesis using 1(1) [OF p refl more False] False w by auto
      qed
    qed
  qed
qed

text \<open>
  C37. The reconciler sees every Spaces key of the account or gets an error: a listing succeeds exactly
  when the pages from the first one up to the first that names no next page can all be read and are
  at most fifty, and then it is all their keys in order. The loop always ends.
\<close>
theorem listing_whole_or_error:
  "ListSpacesKeys h c w = Inr out \<longleftrightarrow>
     (\<exists>kss. whole (key_page h c w) 1 kss \<and> length kss \<le> 50 \<and> out = concat kss)"
  using key_pages_whole [of 1 h c w "[]" out]
  by (simp add: ListSpacesKeys_def spacesListMaxPages_def)

end
