(* ===== verification/DORoles.thy ===== *)
theory DORoles
  imports DOClient CallerPolicy
begin

text \<open>
  \<open>plugins/credential-do\<close>, roles: the record a role is stored as, the grants of a Spaces key, the
  fields that depend on the credential type, and the lifecycle of a rotated key
  (\<open>path_roles.go\<close>, \<open>spaces_grants.go\<close>, \<open>consts.go\<close>). Every refusal of a parser carries the code
  \<open>config_invalid\<close>, so a parser answers with an option. The fields of a request are the values the
  SDK has converted to the schema's types; an absent field is one the request did not carry.
\<close>

section \<open>The role\<close>

definition credentialTypeToken :: string where "credentialTypeToken = ''token''"
definition credentialTypeSpacesKey :: string where "credentialTypeSpacesKey = ''spaces_key''"
definition credentialTypeSpacesKeyRotated :: string where
  "credentialTypeSpacesKeyRotated = ''spaces_key_rotated''"

lemmas credential_type_defs = credentialTypeToken_def credentialTypeSpacesKey_def
  credentialTypeSpacesKeyRotated_def

record do_role =
  drName :: string
  drDefaultTTL :: duration
  drMaxTTL :: duration
  drScopes :: "string list"
  drMinterSet :: string
  drDisabled :: bool
  RequireCallerIdentity :: string
  RequireCallerLineage :: string
  CredentialType :: string
  Grants :: "grant list"
  Region :: string
  Endpoint :: string
  RotationPeriod :: duration
  RotationJitter :: duration
  OverlapTTL :: duration

definition credentialType :: "do_role \<Rightarrow> string" where
  "credentialType r = (if CredentialType r = [] then credentialTypeToken else CredentialType r)"

definition issuesSpacesKey :: "do_role \<Rightarrow> bool" where
  "issuesSpacesKey r \<longleftrightarrow>
     credentialType r = credentialTypeSpacesKey \<or> credentialType r = credentialTypeSpacesKeyRotated"

definition rotatesSharedKey :: "do_role \<Rightarrow> bool" where
  "rotatesSharedKey r \<longleftrightarrow> credentialType r = credentialTypeSpacesKeyRotated"

definition credentialKindFor :: "string \<Rightarrow> credential_kind" where
  "credentialKindFor ct =
     (if ct = credentialTypeSpacesKey \<or> ct = credentialTypeSpacesKeyRotated
      then KindS3Credentials else KindScopedToken)"

text \<open>The stored form: the members of an object, without those that are left out when empty.\<close>

definition members :: "(string \<times> json option) list \<Rightarrow> json" where
  "members kvs = JObj (concat (map (\<lambda>(k, v). case v of None \<Rightarrow> [] | Some x \<Rightarrow> [(k, x)]) kvs))"

definition omit_str :: "string \<Rightarrow> json option" where
  "omit_str s = (if s = [] then None else Some (JStr s))"

definition omit_int :: "int \<Rightarrow> json option" where
  "omit_int i = (if i = 0 then None else Some (JInt i))"

definition role_members :: "do_role \<Rightarrow> (string \<times> json option) list" where
  "role_members r =
     [(''name'', Some (JStr (drName r))), (''default_ttl'', Some (JInt (drDefaultTTL r))),
      (''max_ttl'', Some (JInt (drMaxTTL r))), (''scopes'', Some (JArr (map JStr (drScopes r)))),
      (''minter_set'', Some (JStr (drMinterSet r))),
      (''disabled'', if drDisabled r then Some (JBool True) else None),
      (''require_caller_identity'', omit_str (RequireCallerIdentity r)),
      (''require_caller_lineage'', omit_str (RequireCallerLineage r)),
      (''credential_type'', omit_str (CredentialType r)),
      (''grants'', if Grants r = [] then None else Some (JArr (map enc_grant (Grants r)))),
      (''region'', omit_str (Region r)), (''endpoint'', omit_str (Endpoint r)),
      (''rotation_period'', omit_int (RotationPeriod r)),
      (''rotation_jitter'', omit_int (RotationJitter r)), (''overlap_ttl'', omit_int (OverlapTTL r))]"

definition enc_role :: "do_role \<Rightarrow> blob" where
  "enc_role r = Json (members (role_members r))"

definition dec_role_json :: "json \<Rightarrow> do_role option" where
  "dec_role_json d =
     (case (opt_field [] dec_str d ''name'', opt_field 0 dec_int d ''default_ttl'',
            opt_field 0 dec_int d ''max_ttl'', opt_field [] (dec_list dec_str) d ''scopes'',
            opt_field [] dec_str d ''minter_set'', opt_field False dec_bool d ''disabled'',
            opt_field [] dec_str d ''require_caller_identity'') of
        (Some n, Some dt, Some mt, Some sc, Some ms, Some dis, Some rci) \<Rightarrow>
          (case (opt_field [] dec_str d ''require_caller_lineage'', opt_field [] dec_str d ''credential_type'',
                 opt_field [] (dec_list dec_grant) d ''grants'', opt_field [] dec_str d ''region'',
                 opt_field [] dec_str d ''endpoint'', opt_field 0 dec_int d ''rotation_period'',
                 opt_field 0 dec_int d ''rotation_jitter'', opt_field 0 dec_int d ''overlap_ttl'') of
             (Some rcl, Some ct, Some gs, Some rg, Some ep, Some rp, Some rj, Some ov) \<Rightarrow>
               Some \<lparr> drName = n, drDefaultTTL = dt, drMaxTTL = mt, drScopes = sc, drMinterSet = ms,
                      drDisabled = dis, RequireCallerIdentity = rci, RequireCallerLineage = rcl,
                      CredentialType = ct, Grants = gs, Region = rg, Endpoint = ep,
                      RotationPeriod = rp, RotationJitter = rj, OverlapTTL = ov \<rparr>
           | _ \<Rightarrow> None)
      | _ \<Rightarrow> None)"

definition dec_role :: "blob \<Rightarrow> do_role option" where
  "dec_role b = dec_body dec_role_json b"

section \<open>Grants\<close>

definition permissionRead :: string where "permissionRead = ''read''"
definition permissionReadWrite :: string where "permissionReadWrite = ''readwrite''"
definition permissionFullAccess :: string where "permissionFullAccess = ''fullaccess''"
definition grantAllBuckets :: string where "grantAllBuckets = ''*''"

lemmas grant_defs = permissionRead_def permissionReadWrite_def permissionFullAccess_def grantAllBuckets_def

definition checkGrantPrivilege :: "string \<Rightarrow> string \<Rightarrow> nat \<Rightarrow> bool" where
  "checkGrantPrivilege bucket permission grantCount =
     (if permission = permissionRead \<or> permission = permissionReadWrite then bucket \<noteq> grantAllBuckets
      else if permission = permissionFullAccess then
        (if bucket \<noteq> grantAllBuckets then False else if grantCount > 1 then False else True)
      else False)"

fun parse_specs :: "nat \<Rightarrow> string list \<Rightarrow> grant list option" where
  "parse_specs n [] = Some []"
| "parse_specs n (spec # specs) =
     (case Cut (TrimSpace spec) '':'' of
        None \<Rightarrow> None
      | Some (bucket, permission) \<Rightarrow>
          (let bucket = TrimSpace bucket; permission = TrimSpace permission
           in if bucket = [] then None
              else if permission = [] then None
              else if \<not> checkGrantPrivilege bucket permission n then None
              else let wireBucket = (if bucket = grantAllBuckets then [] else bucket)
                   in map_option (Cons \<lparr> Bucket = wireBucket, Permission = permission \<rparr>)
                        (parse_specs n specs)))"

definition parseGrants :: "string list \<Rightarrow> grant list option" where
  "parseGrants specs = (if specs = [] then None else parse_specs (length specs) specs)"

definition renderGrants :: "grant list \<Rightarrow> string list" where
  "renderGrants gs =
     map (\<lambda>g. (if Bucket g = [] then grantAllBuckets else Bucket g) @ '':'' @ Permission g) gs"

definition spacesEndpointForRegion :: "string \<Rightarrow> string" where
  "spacesEndpointForRegion region = ''https://'' @ region @ ''.digitaloceanspaces.com''"

section \<open>Fields that depend on the credential type\<close>

type_synonym request_fields = "string \<Rightarrow> json option"

definition get_str :: "request_fields \<Rightarrow> string \<Rightarrow> string \<Rightarrow> string" where
  "get_str d k dflt = (case d k of Some (JStr s) \<Rightarrow> s | _ \<Rightarrow> dflt)"

definition get_int :: "request_fields \<Rightarrow> string \<Rightarrow> int \<Rightarrow> int" where
  "get_int d k dflt = (case d k of Some (JInt i) \<Rightarrow> i | _ \<Rightarrow> dflt)"

definition get_bool :: "request_fields \<Rightarrow> string \<Rightarrow> bool" where
  "get_bool d k = (case d k of Some (JBool b) \<Rightarrow> b | _ \<Rightarrow> False)"

definition get_strs :: "request_fields \<Rightarrow> string \<Rightarrow> string list" where
  "get_strs d k =
     (case d k of Some v \<Rightarrow> (case dec_list dec_str v of Some ss \<Rightarrow> ss | None \<Rightarrow> []) | None \<Rightarrow> [])"

text \<open>Seconds as a duration, in 64 bits.\<close>

definition of_seconds :: "int \<Rightarrow> duration" where
  "of_seconds s = wrap64 (s * second)"

record lifecycle_fields =
  lfPeriod :: "duration option"
  lfJitter :: "duration option"
  lfOverlap :: "duration option"

definition read_duration :: "request_fields \<Rightarrow> string \<Rightarrow> duration option" where
  "read_duration d k = (case d k of Some (JInt s) \<Rightarrow> Some (of_seconds s) | _ \<Rightarrow> None)"

definition readLifecycleFields :: "request_fields \<Rightarrow> lifecycle_fields" where
  "readLifecycleFields d =
     \<lparr> lfPeriod = read_duration d ''rotation_period'', lfJitter = read_duration d ''rotation_jitter'',
       lfOverlap = read_duration d ''overlap_ttl'' \<rparr>"

record type_fields =
  tfType :: string
  tfGrants :: "grant list"
  tfRegion :: string
  tfEndpoint :: string
  tfPeriod :: duration
  tfJitter :: duration
  tfOverlap :: duration

definition no_type_fields :: type_fields where
  "no_type_fields =
     \<lparr> tfType = [], tfGrants = [], tfRegion = [], tfEndpoint = [], tfPeriod = 0, tfJitter = 0, tfOverlap = 0 \<rparr>"

definition minRotationPeriod :: duration where "minRotationPeriod = hour"

definition apply_lifecycle :: "lifecycle_fields \<Rightarrow> duration \<Rightarrow> type_fields \<Rightarrow> type_fields option" where
  "apply_lifecycle l maxTTL base =
     (case lfPeriod l of
        None \<Rightarrow> None
      | Some period \<Rightarrow>
          if period \<le> 0 then None
          else if period < minRotationPeriod then None
          else case lfOverlap l of
            None \<Rightarrow> None
          | Some overlap \<Rightarrow>
              if overlap \<le> 0 then None
              else if overlap > period then None
              else let jitter = (case lfJitter l of None \<Rightarrow> go_div period 10 | Some j \<Rightarrow> j)
                   in if jitter < 0 \<or> jitter \<ge> period then None
                      else if maxTTL > overlap then None
                      else Some (base \<lparr> tfPeriod := period, tfJitter := jitter, tfOverlap := overlap \<rparr>))"

record write_fields =
  wfType :: string
  wfScopes :: "string list"
  wfMaxTTL :: duration
  wfGrantSpecs :: "string list"
  wfRegion :: string
  wfEndpoint :: string
  wfLife :: lifecycle_fields

definition spacesOwned :: "write_fields \<Rightarrow> bool list" where
  "spacesOwned w = [wfGrantSpecs w \<noteq> [], wfRegion w \<noteq> [], wfEndpoint w \<noteq> []]"

definition lifecycleOwned :: "write_fields \<Rightarrow> bool list" where
  "lifecycleOwned w =
     [lfPeriod (wfLife w) \<noteq> None, lfJitter (wfLife w) \<noteq> None, lfOverlap (wfLife w) \<noteq> None]"

text \<open>Whether no foreign field is set.\<close>

definition refuseForeignFields :: "bool list \<Rightarrow> bool" where
  "refuseForeignFields given = list_all Not given"

definition parseToken :: "write_fields \<Rightarrow> type_fields option" where
  "parseToken w =
     (if wfScopes w = [] then None
      else if \<not> refuseForeignFields (spacesOwned w @ lifecycleOwned w) then None
      else Some (no_type_fields \<lparr> tfType := credentialTypeToken \<rparr>))"

definition parseSpaces :: "write_fields \<Rightarrow> type_fields option" where
  "parseSpaces w =
     (if wfScopes w \<noteq> [] then None
      else if wfType w = credentialTypeSpacesKey \<and> \<not> refuseForeignFields (lifecycleOwned w) then None
      else case parseGrants (wfGrantSpecs w) of
        None \<Rightarrow> None
      | Some parsed \<Rightarrow>
          if wfRegion w = [] then None
          else
            let endpoint = (if wfEndpoint w = [] then spacesEndpointForRegion (wfRegion w) else wfEndpoint w);
                base = no_type_fields \<lparr> tfType := wfType w, tfGrants := parsed, tfRegion := wfRegion w,
                                          tfEndpoint := endpoint \<rparr>
            in if wfType w = credentialTypeSpacesKeyRotated
               then apply_lifecycle (wfLife w) (wfMaxTTL w) base
               else Some base)"

definition parseCredentialTypeFields :: "request_fields \<Rightarrow> string list \<Rightarrow> duration \<Rightarrow> type_fields option" where
  "parseCredentialTypeFields d scopes maxTTL =
     (let ct = get_str d ''credential_type'' credentialTypeToken;
          w = \<lparr> wfType = (if ct = [] then credentialTypeToken else ct), wfScopes = scopes,
                wfMaxTTL = maxTTL, wfGrantSpecs = get_strs d ''grants'', wfRegion = get_str d ''region'' [],
                wfEndpoint = get_str d ''endpoint'' [], wfLife = readLifecycleFields d \<rparr>
      in if wfType w = credentialTypeToken then parseToken w
         else if wfType w = credentialTypeSpacesKey \<or> wfType w = credentialTypeSpacesKeyRotated
         then parseSpaces w
         else None)"

section \<open>A role as its read endpoint reports it\<close>

definition seconds_of :: "duration \<Rightarrow> int" where
  "seconds_of d = go_div d second"

definition roleData :: "do_role \<Rightarrow> (string \<times> json) list" where
  "roleData r =
     [(''name'', JStr (drName r)), (''default_ttl'', JInt (seconds_of (drDefaultTTL r))),
      (''max_ttl'', JInt (seconds_of (drMaxTTL r))), (''minter_set'', JStr (drMinterSet r)),
      (''disabled'', JBool (drDisabled r)),
      (''require_caller_identity'', JStr (RequireCallerIdentity r)),
      (''require_caller_lineage'', JStr (RequireCallerLineage r)),
      (''credential_type'', JStr (credentialType r))]
     @ (if issuesSpacesKey r
        then [(''grants'', JArr (map JStr (renderGrants (Grants r)))), (''region'', JStr (Region r)),
              (''endpoint'', JStr (Endpoint r))]
        else [(''scopes'', JArr (map JStr (drScopes r)))])
     @ (if rotatesSharedKey r
        then [(''rotation_period'', JInt (seconds_of (RotationPeriod r))),
              (''rotation_jitter'', JInt (seconds_of (RotationJitter r))),
              (''overlap_ttl'', JInt (seconds_of (OverlapTTL r)))]
        else [])"

definition storedRoleData :: "blob \<Rightarrow> request_fields option" where
  "storedRoleData b = map_option (\<lambda>r. map_of (roleData r)) (dec_role b)"

section \<open>The stored form round trips\<close>

lemma dec_enc_grant [simp]: "dec_grant (enc_grant g) = Some g"
  by (simp add: dec_grant_def enc_grant_def is_object_def opt_field_def dec_str_def)

lemma dec_list_map:
  "(\<And>x. dec (enc x) = Some x) \<Longrightarrow> dec_list dec (JArr (map enc xs)) = Some xs"
  by (simp add: dec_list_def dec_all_map)

lemma field_members:
  assumes "distinct (map fst kvs)"
  shows "field (members kvs) k = Option.bind (map_of kvs k) (\<lambda>v. v)"
proof -
  let ?m = "\<lambda>kvs. concat (map (\<lambda>(k, v). case v of None \<Rightarrow> [] | Some x \<Rightarrow> [(k, x)]) kvs)"
  have sub: "set (map fst (?m kvs)) \<subseteq> set (map fst kvs)" for kvs :: "(string \<times> json option) list"
    by (force split: option.splits)
  have "distinct (map fst (?m kvs)) \<and> map_of (?m kvs) k = Option.bind (map_of kvs k) (\<lambda>v. v)"
    using assms
  proof (induction kvs)
    case (Cons kv kvs)
    obtain j v where kv: "kv = (j, v)" by force
    have "j \<notin> set (map fst kvs)" using Cons.prems kv by simp
    then have "map_of kvs j = None" "j \<notin> set (map fst (?m kvs))"
      using sub [of kvs] unfolding map_of_eq_None_iff set_map by blast+
    then show ?case using Cons kv by (cases v) auto
  qed simp
  moreover have "map_of (rev xs) = map_of xs" if "distinct (map fst xs)" for xs :: "(string \<times> json) list"
    using that by (subst map_of_inject_set) (auto simp: rev_map [symmetric])
  ultimately show ?thesis by (simp add: members_def)
qed

lemma is_object_members [simp]: "is_object (members kvs)"
  by (simp add: is_object_def members_def)

lemma opt_field_cases:
  "opt_field z dec d k =
     (case field d k of None \<Rightarrow> Some z | Some v \<Rightarrow> if v = JNull then Some z else dec v)"
  by (simp add: opt_field_def split: option.split json.split)

lemma dec_scalars [simp]:
  "dec_str (JStr s) = Some s" "dec_int (JInt i) = Some i" "dec_bool (JBool b) = Some b"
  by (simp_all add: dec_str_def dec_int_def dec_bool_def)

lemma distinct_role_members: "distinct (map fst (role_members r))"
  by (simp add: role_members_def)

lemma dec_enc_role: "dec_role (enc_role r) = Some r"
proof -
  note f = field_members [OF distinct_role_members]
  have fields:
    "opt_field [] dec_str (members (role_members r)) ''name'' = Some (drName r)"
    "opt_field 0 dec_int (members (role_members r)) ''default_ttl'' = Some (drDefaultTTL r)"
    "opt_field 0 dec_int (members (role_members r)) ''max_ttl'' = Some (drMaxTTL r)"
    "opt_field [] (dec_list dec_str) (members (role_members r)) ''scopes'' = Some (drScopes r)"
    "opt_field [] dec_str (members (role_members r)) ''minter_set'' = Some (drMinterSet r)"
    "opt_field False dec_bool (members (role_members r)) ''disabled'' = Some (drDisabled r)"
    "opt_field [] dec_str (members (role_members r)) ''require_caller_identity'' = Some (RequireCallerIdentity r)"
    "opt_field [] dec_str (members (role_members r)) ''require_caller_lineage'' = Some (RequireCallerLineage r)"
    "opt_field [] dec_str (members (role_members r)) ''credential_type'' = Some (CredentialType r)"
    "opt_field [] (dec_list dec_grant) (members (role_members r)) ''grants'' = Some (Grants r)"
    "opt_field [] dec_str (members (role_members r)) ''region'' = Some (Region r)"
    "opt_field [] dec_str (members (role_members r)) ''endpoint'' = Some (Endpoint r)"
    "opt_field 0 dec_int (members (role_members r)) ''rotation_period'' = Some (RotationPeriod r)"
    "opt_field 0 dec_int (members (role_members r)) ''rotation_jitter'' = Some (RotationJitter r)"
    "opt_field 0 dec_int (members (role_members r)) ''overlap_ttl'' = Some (OverlapTTL r)"
    unfolding opt_field_cases f
    by (simp_all add: role_members_def omit_str_def omit_int_def dec_list_map)
  then show ?thesis
    by (simp add: enc_role_def dec_role_def dec_body_def dec_object_def dec_role_json_def)
qed

section \<open>Grants\<close>

lemma set_TrimSpace: "set (TrimSpace s) \<subseteq> set s"
  by (auto simp: TrimSpace_def dest!: set_dropWhileD)

lemma TrimSpace_ends:
  assumes "TrimSpace s \<noteq> []"
  shows "\<not> is_space (hd (TrimSpace s))" and "\<not> is_space (last (TrimSpace s))"
proof -
  let ?t = "dropWhile is_space s"
  let ?u = "dropWhile is_space (rev ?t)"
  have u: "?u \<noteq> []" "TrimSpace s = rev ?u" using assms by (auto simp: TrimSpace_def)
  show "\<not> is_space (last (TrimSpace s))" using hd_dropWhile [OF u(1)] u by (simp add: last_rev)
  have "\<exists>zs. rev ?t = zs @ ?u" by (metis takeWhile_dropWhile_id)
  then obtain zs where "rev ?t = zs @ ?u" ..
  then have "?t = TrimSpace s @ rev zs" using u(2) by (metis rev_append rev_rev_ident)
  then have "hd ?t = hd (TrimSpace s)" "?t \<noteq> []" using assms by auto
  then show "\<not> is_space (hd (TrimSpace s))" using hd_dropWhile [of is_space s] by simp
qed

lemma TrimSpace_done:
  assumes "s \<noteq> []" and "\<not> is_space (hd s)" and "\<not> is_space (last s)"
  shows "TrimSpace s = s"
proof -
  have "dropWhile is_space s = s" using assms by (cases s) auto
  moreover have "dropWhile is_space (rev s) = rev s" using assms by (cases s rule: rev_cases) auto
  ultimately show ?thesis by (simp add: TrimSpace_def)
qed

lemma TrimSpace_idem [simp]: "TrimSpace (TrimSpace s) = TrimSpace s"
proof (cases "TrimSpace s = []")
  case True
  moreover have "TrimSpace [] = []" by (simp add: TrimSpace_def)
  ultimately show ?thesis by simp
next
  case False
  then show ?thesis using TrimSpace_ends [OF False] by (rule TrimSpace_done)
qed

lemma Cut_char_left: "Cut k [c] = Some (a, b) \<Longrightarrow> c \<notin> set a"
  by (induction k "[c]" arbitrary: a b rule: Cut.induct) (auto split: if_splits)

text \<open>A grant a parser can produce, for a role with \<open>n\<close> grants.\<close>

definition sound_grant :: "nat \<Rightarrow> grant \<Rightarrow> bool" where
  "sound_grant n g \<longleftrightarrow>
     (if Permission g = permissionFullAccess then Bucket g = [] \<and> n \<le> 1
      else Permission g \<in> {permissionRead, permissionReadWrite}
           \<and> Bucket g \<noteq> [] \<and> Bucket g \<noteq> grantAllBuckets
           \<and> TrimSpace (Bucket g) = Bucket g \<and> CHR '':'' \<notin> set (Bucket g))"

lemma parse_specs_sound:
  assumes "parse_specs n specs = Some gs"
  shows "length gs = length specs \<and> (\<forall>g \<in> set gs. sound_grant n g)"
  using assms
proof (induction specs arbitrary: gs)
  case Nil
  then show ?case by simp
next
  case (Cons spec specs)
  obtain b p where bp: "Cut (TrimSpace spec) '':'' = Some (b, p)"
    using Cons.prems by (cases "Cut (TrimSpace spec) '':''") auto
  let ?g = "\<lparr> Bucket = (if TrimSpace b = grantAllBuckets then [] else TrimSpace b), Permission = TrimSpace p \<rparr>"
  obtain rest where rest: "parse_specs n specs = Some rest" "gs = ?g # rest"
    and c: "checkGrantPrivilege (TrimSpace b) (TrimSpace p) n" "TrimSpace b \<noteq> []"
    using Cons.prems bp by (auto simp: Let_def split: if_splits)
  have "CHR '':'' \<notin> set (TrimSpace b)" using Cut_char_left [OF bp] set_TrimSpace by blast
  then have "sound_grant n ?g"
    using c by (auto simp: sound_grant_def checkGrantPrivilege_def grant_defs split: if_splits)
  then show ?case using Cons.IH [OF rest(1)] rest(2) by auto
qed

lemma parse_specs_render:
  assumes "\<forall>g \<in> set gs. sound_grant n g"
  shows "parse_specs n (renderGrants gs) = Some gs"
  using assms
proof (induction gs)
  case Nil
  then show ?case by (simp add: renderGrants_def)
next
  case (Cons g gs)
  obtain b where bdef: "b = (if Bucket g = [] then grantAllBuckets else Bucket g)" by simp
  have s: "sound_grant n g" using Cons.prems by simp
  have b: "TrimSpace b = b" "b \<noteq> []" "CHR '':'' \<notin> set b"
    using s bdef by (auto simp: sound_grant_def grant_defs TrimSpace_id is_space_def split: if_splits)
  have p: "TrimSpace (Permission g) = Permission g" "Permission g \<noteq> []"
    using s by (auto simp: sound_grant_def grant_defs TrimSpace_id is_space_def split: if_splits)
  have "TrimSpace (b @ '':'' @ Permission g) = b @ '':'' @ Permission g"
    using TrimSpace_ends(1) [of b] TrimSpace_ends(2) [of "Permission g"] b p
    by (intro TrimSpace_done) (auto simp: hd_append)
  moreover have "Cut (b @ '':'' @ Permission g) '':'' = Some (b, Permission g)"
    using Cut_append [of "'':''" b "Permission g"] b(3) by simp
  moreover have "checkGrantPrivilege b (Permission g) n"
    using s bdef by (auto simp: sound_grant_def checkGrantPrivilege_def grant_defs split: if_splits)
  moreover have "(if b = grantAllBuckets then [] else b) = Bucket g"
    using s bdef by (auto simp: sound_grant_def grant_defs split: if_splits)
  moreover have "\<lparr> Bucket = Bucket g, Permission = Permission g \<rparr> = g" by simp
  moreover have "renderGrants (g # gs) = (b @ '':'' @ Permission g) # renderGrants gs"
    by (simp add: renderGrants_def bdef)
  moreover have "parse_specs n (renderGrants gs) = Some gs" using Cons by simp
  ultimately show ?case using p b
    by (simp only: parse_specs.simps Let_def option.case prod.case if_False if_True not_not
        option.map simp_thms)
qed

lemma grants_least_privilege_facts:
  assumes "parseGrants specs = Some gs"
  shows "gs = [\<lparr> Bucket = [], Permission = ''fullaccess'' \<rparr>]
     \<or> (\<forall>g \<in> set gs. Bucket g \<noteq> [] \<and> Bucket g \<noteq> ''*'' \<and> Permission g \<in> {''read'', ''readwrite''})"
    and "parseGrants (renderGrants gs) = Some gs"
proof -
  have p: "parse_specs (length specs) specs = Some gs" "specs \<noteq> []"
    using assms by (auto simp: parseGrants_def split: if_splits)
  have len: "length gs = length specs" and sound: "\<forall>g \<in> set gs. sound_grant (length specs) g"
    using parse_specs_sound [OF p(1)] by auto
  show "parseGrants (renderGrants gs) = Some gs"
    using parse_specs_render [OF sound] len p(2) by (auto simp: parseGrants_def renderGrants_def)
  show "gs = [\<lparr> Bucket = [], Permission = ''fullaccess'' \<rparr>]
     \<or> (\<forall>g \<in> set gs. Bucket g \<noteq> [] \<and> Bucket g \<noteq> ''*'' \<and> Permission g \<in> {''read'', ''readwrite''})"
  proof (cases "\<exists>g \<in> set gs. Permission g = permissionFullAccess")
    case True
    then obtain g where g: "g \<in> set gs" "Permission g = permissionFullAccess" by blast
    then have "Bucket g = []" "length gs \<le> 1" using sound len by (auto simp: sound_grant_def)
    then have "gs = [g]" using g(1) by (cases gs) auto
    then show ?thesis using g(2) \<open>Bucket g = []\<close> by (cases g) (simp add: grant_defs)
  next
    case False
    then show ?thesis using sound by (auto simp: sound_grant_def grant_defs)
  qed
qed

text \<open>
  C38. A role's grants say the privilege that is minted: when a list of grants is accepted, either it is
  the account-wide full access grant alone, or every grant names a bucket and asks to read or to read
  and write it; and the grants as they are reported parse back to the same list.
\<close>
theorem grants_least_privilege:
  assumes "parseGrants specs = Some gs"
  shows "(gs = [\<lparr> Bucket = [], Permission = ''fullaccess'' \<rparr>]
     \<or> (\<forall>g \<in> set gs. Bucket g \<noteq> [] \<and> Bucket g \<noteq> ''*'' \<and> Permission g \<in> {''read'', ''readwrite''}))
         \<and> parseGrants (renderGrants gs) = Some gs"
  using grants_least_privilege_facts [OF assms] by blast

theorem grants_least_privilege_witness:
  "\<exists>gs. parseGrants [''backups:read'', '' logs : readwrite ''] = Some gs
     \<and> renderGrants gs = [''backups:read'', ''logs:readwrite'']
     \<and> parseGrants (renderGrants gs) = Some gs
     \<and> parseGrants [''backups:read'', ''*:fullaccess''] = None"
proof -
  let ?gs = "[\<lparr> Bucket = ''backups'', Permission = ''read'' \<rparr>,
    \<lparr> Bucket = ''logs'', Permission = ''readwrite'' \<rparr>]"
  have p: "parseGrants [''backups:read'', '' logs : readwrite ''] = Some ?gs"
    and n: "parseGrants [''backups:read'', ''*:fullaccess''] = None" by code_simp+
  from grants_least_privilege [OF p, THEN conjunct2] show ?thesis
    using p n by (intro exI [of _ ?gs]) (simp add: renderGrants_def)
qed

section \<open>Lifecycles\<close>

text \<open>The arithmetic every rotated role obeys.\<close>

definition lifecycle_ok :: "duration \<Rightarrow> duration \<Rightarrow> duration \<Rightarrow> duration \<Rightarrow> bool" where
  "lifecycle_ok period jit overlap maxTTL \<longleftrightarrow>
     hour \<le> period \<and> 0 < overlap \<and> overlap \<le> period \<and> 0 \<le> jit \<and> jit < period \<and> maxTTL \<le> overlap"

lemma apply_lifecycle_ok:
  "apply_lifecycle l maxTTL base = Some f \<longleftrightarrow>
     (\<exists>p ov j. lfPeriod l = Some p \<and> lfOverlap l = Some ov
        \<and> j = (case lfJitter l of None \<Rightarrow> p div 10 | Some j \<Rightarrow> j)
        \<and> lifecycle_ok p j ov maxTTL
        \<and> f = base \<lparr> tfPeriod := p, tfJitter := j, tfOverlap := ov \<rparr>)"
proof -
  have pos: "0 < hour" by (simp add: duration_defs)
  show ?thesis
  proof (cases "lfPeriod l")
    case None
    then show ?thesis by (simp add: apply_lifecycle_def)
  next
    case p: (Some p)
    show ?thesis
    proof (cases "lfOverlap l")
      case None
      then show ?thesis using p by (simp add: apply_lifecycle_def)
    next
      case ov: (Some ov)
      show ?thesis
      proof (cases "lfJitter l")
        case None
        then show ?thesis using p ov pos
          by (auto simp: apply_lifecycle_def lifecycle_ok_def minRotationPeriod_def Let_def)
      next
        case (Some j)
        then show ?thesis using p ov pos
          by (auto simp: apply_lifecycle_def lifecycle_ok_def minRotationPeriod_def Let_def)
      qed
    qed
  qed
qed

lemma parseSpaces_rotated:
  assumes "parseSpaces w = Some f" and "tfType f = credentialTypeSpacesKeyRotated"
  obtains base where "apply_lifecycle (wfLife w) (wfMaxTTL w) base = Some f"
proof (cases "wfType w = credentialTypeSpacesKeyRotated")
  case True
  obtain gs where "parseGrants (wfGrantSpecs w) = Some gs"
    using assms(1) by (cases "parseGrants (wfGrantSpecs w)") (simp_all add: parseSpaces_def split: if_splits)
  then have "\<exists>base. apply_lifecycle (wfLife w) (wfMaxTTL w) base = Some f"
    using assms(1) True by (simp add: parseSpaces_def Let_def split: if_splits) blast+
  then show thesis using that by blast
next
  case False
  then have "tfType f = wfType w"
    using assms(1) by (auto simp: parseSpaces_def Let_def split: if_splits option.splits)
  with False assms(2) show thesis by simp
qed

lemma parse_rotated:
  assumes "parseCredentialTypeFields d scopes maxTTL = Some f" and "tfType f = credentialTypeSpacesKeyRotated"
  shows "lifecycle_ok (tfPeriod f) (tfJitter f) (tfOverlap f) maxTTL"
proof -
  let ?ct = "get_str d ''credential_type'' credentialTypeToken"
  obtain w where w: "w = \<lparr> wfType = (if ?ct = [] then credentialTypeToken else ?ct), wfScopes = scopes,
                wfMaxTTL = maxTTL, wfGrantSpecs = get_strs d ''grants'', wfRegion = get_str d ''region'' [],
                wfEndpoint = get_str d ''endpoint'' [], wfLife = readLifecycleFields d \<rparr>" by simp
  have "(if wfType w = credentialTypeToken then parseToken w
         else if wfType w = credentialTypeSpacesKey \<or> wfType w = credentialTypeSpacesKeyRotated
         then parseSpaces w else None) = Some f"
    using assms(1) unfolding parseCredentialTypeFields_def Let_def w [symmetric] .
  then have w': "parseToken w = Some f \<or> parseSpaces w = Some f" by (simp split: if_splits)
  have "parseToken w \<noteq> Some f"
    using assms(2) by (auto simp: parseToken_def credential_type_defs split: if_splits)
  with w' have "parseSpaces w = Some f" by blast
  then obtain base where "apply_lifecycle (wfLife w) (wfMaxTTL w) base = Some f"
    using parseSpaces_rotated assms(2) by blast
  moreover have "wfMaxTTL w = maxTTL" by (simp add: w)
  ultimately show ?thesis unfolding apply_lifecycle_ok by auto
qed

text \<open>
  A rotated role stays one: a write that changes the credential type of a stored rotated role to
  either other type is refused unless it also carries a value of its own for the rotation period,
  because the prefill supplies the stored one and the other types refuse that field.
\<close>
theorem type_switch_refused:
  assumes "storedRoleData b = Some stored" and "dec_role b = Some r" and "rotatesSharedKey r"
    and "raw ''credential_type'' = Some (JStr ct)" and "ct \<in> {''token'', ''spaces_key''}"
    and "raw ''rotation_period'' = None" and "''rotation_period'' \<in> schema"
  shows "parseCredentialTypeFields (prefill schema stored raw) scopes maxTTL = None"
proof -
  let ?d = "prefill schema stored raw"
  have "stored ''rotation_period'' = Some (JInt (seconds_of (RotationPeriod r)))"
    using assms(1-3) by (auto simp: storedRoleData_def roleData_def issuesSpacesKey_def rotatesSharedKey_def)
  then have "?d ''rotation_period'' = Some (JInt (seconds_of (RotationPeriod r)))"
    using assms(6,7) by (simp add: prefill_def)
  then have life: "lfPeriod (readLifecycleFields ?d) \<noteq> None"
    by (simp add: readLifecycleFields_def read_duration_def)
  have "get_str ?d ''credential_type'' credentialTypeToken = ct"
    using assms(4) by (simp add: get_str_def prefill_def)
  then show ?thesis using life assms(5)
    by (auto simp: parseCredentialTypeFields_def Let_def parseToken_def parseSpaces_def
        refuseForeignFields_def lifecycleOwned_def spacesOwned_def credential_type_defs)
qed

definition rotated_role :: do_role where
  "rotated_role =
     \<lparr> drName = ''r'', drDefaultTTL = hour, drMaxTTL = hour, drScopes = [], drMinterSet = ''s'',
       drDisabled = False, RequireCallerIdentity = [], RequireCallerLineage = [],
       CredentialType = ''spaces_key_rotated'',
       Grants = [\<lparr> Bucket = ''backups'', Permission = ''read'' \<rparr>], Region = ''nyc3'',
       Endpoint = ''https://nyc3.digitaloceanspaces.com'', RotationPeriod = 240 * hour,
       RotationJitter = 24 * hour, OverlapTTL = 2 * hour \<rparr>"

theorem type_switch_refused_witness:
  "\<exists>stored. storedRoleData (enc_role rotated_role) = Some stored
     \<and> parseCredentialTypeFields
         (prefill {''rotation_period''} stored [''credential_type'' \<mapsto> JStr ''spaces_key'']) [] hour = None"
proof -
  let ?s = "map_of (roleData rotated_role)"
  have s: "storedRoleData (enc_role rotated_role) = Some ?s"
    by (simp add: storedRoleData_def dec_enc_role)
  show ?thesis
    using type_switch_refused [OF s dec_enc_role, of "[''credential_type'' \<mapsto> JStr ''spaces_key'']"
        "''spaces_key''" "{''rotation_period''}" "[]" hour] s
    by (simp add: rotatesSharedKey_def credentialType_def rotated_role_def credential_type_defs)
qed

end
