(* ===== verification/DOBackend.thy ===== *)
theory DOBackend
  imports DORoles Capability Affinity Capacity OwnerTag
begin

text \<open>
  \<open>plugins/credential-do\<close>, the mount: its state, which minter issues, the capability gate, and the
  handlers of minter sets and roles (\<open>backend.go\<close>, \<open>path_creds.go\<close>, \<open>capability.go\<close>,
  \<open>path_minter_sets.go\<close>, \<open>path_roles.go\<close>). The in-memory state is a record that handlers thread
  together with the world; a Go map of minters is a list of pairs in the order its iteration takes.
  What a handler gets from outside - storage, transport, clock, random source - is an environment.
  Background workers that a write starts are not run.
\<close>

section \<open>State and environment\<close>

record minter_state =
  msMinter :: minter
  msSM :: machine

type_synonym set_states = "(string \<times> minter_state) list"

record backend =
  bInstanceID :: string
  bConfig :: "plugin_config option"
  bSets :: "(string \<times> set_states) list"
  bApiURL :: string

record 'w env =
  eKV :: "'w kv"
  eHttp :: "'w http"
  eNow :: "'w \<Rightarrow> time"
  eJitter :: "'w \<Rightarrow> rat"
  eSha256 :: "string \<Rightarrow> nat list"
  eDigest :: "string \<Rightarrow> string"
  eDraw :: "'w \<Rightarrow> nat \<Rightarrow> nat option"
  eMarshal :: "json \<Rightarrow> string"
  eRandomID :: "'w \<Rightarrow> string option"
  eSuffix :: "'w \<Rightarrow> string"
  eValidate :: "request_fields \<Rightarrow> err option"

type_synonym 'w st = "backend \<times> 'w"

record lease =
  lsEnvelope :: json
  lsInternal :: "(string \<times> string) list"
  lsType :: string
  lsTTL :: duration
  lsMaxTTL :: duration

datatype response = RespNil | RespErr code | RespData "(string \<times> json) list" | RespLease lease

definition resp_code :: "response \<Rightarrow> code option" where
  "resp_code r = (case r of RespErr c \<Rightarrow> Some c | _ \<Rightarrow> None)"

definition doAPIURL :: "backend \<Rightarrow> string" where
  "doAPIURL b = (if bApiURL b \<noteq> [] then bApiURL b else ''https://api.digitalocean.com'')"

definition find_minter :: "backend \<Rightarrow> string \<Rightarrow> string \<Rightarrow> minter_state option" where
  "find_minter b setName i =
     (case map_of (bSets b) setName of None \<Rightarrow> None | Some states \<Rightarrow> map_of states i)"

text \<open>A step of one minter's machine, where the map has that minter.\<close>

definition update_machine :: "backend \<Rightarrow> string \<Rightarrow> string \<Rightarrow> (machine \<Rightarrow> machine) \<Rightarrow> backend" where
  "update_machine b setName i f =
     b \<lparr> bSets :=
           map (\<lambda>(s, states). (s, if s = setName
                 then map (\<lambda>(j, ms). (j, if j = i then ms \<lparr> msSM := f (msSM ms) \<rparr> else ms)) states
                 else states)) (bSets b) \<rparr>"

definition recordMinterSuccess :: "backend \<Rightarrow> string \<Rightarrow> string \<Rightarrow> time \<Rightarrow> backend" where
  "recordMinterSuccess b setName i t = update_machine b setName i (RecordSuccess t)"

definition recordMinterError ::
  "rat \<Rightarrow> backend \<Rightarrow> string \<Rightarrow> string \<Rightarrow> int \<Rightarrow> err \<Rightarrow> time \<Rightarrow> backend" where
  "recordMinterError j b setName i httpStatus e t =
     update_machine b setName i (RecordUpstream j httpStatus (Some e) t)"

definition credentialLimitPerMinter :: "backend \<Rightarrow> int" where
  "credentialLimitPerMinter b = CredentialLimitPerMinter (bConfig b)"

definition ownerInstanceID :: "'w env \<Rightarrow> 'w st \<Rightarrow> 'w st \<times> (err + string)" where
  "ownerInstanceID env bw =
     (case bw of
        (b, w) \<Rightarrow>
          if bInstanceID b \<noteq> [] then ((b, w), Inr (bInstanceID b))
          else case InstanceID (eKV env) (eMarshal env) (eRandomID env w) w of
            (w', Inl e) \<Rightarrow> ((b, w'), Inl e)
          | (w', Inr i) \<Rightarrow> ((b \<lparr> bInstanceID := i \<rparr>, w'), Inr i))"

lemma ownerInstanceID_world:
  assumes "ownerInstanceID env (b, w) = ((b', w'), r)"
  shows "w' = w \<or> (\<exists>i e. kput (eKV env) w storageKey (Raw i) = (w', e))"
proof -
  obtain v r' where i: "InstanceID (eKV env) (eMarshal env) (eRandomID env w) w = (v, r')" by force
  then show ?thesis
    using assms InstanceID_world [OF i] by (cases r') (auto simp: ownerInstanceID_def split: if_splits)
qed

definition credentialName :: "'w env \<Rightarrow> 'w st \<Rightarrow> string \<Rightarrow> string \<Rightarrow> 'w st \<times> (code + string)" where
  "credentialName env bw rName suf =
     (case ownerInstanceID env bw of
        (bw, Inl e) \<Rightarrow> (bw, Inl ErrInternal)
      | (bw, Inr i) \<Rightarrow> (bw, Inr (CredentialName i rName suf)))"

section \<open>Selection\<close>

record selected =
  selSet :: string
  selMinter :: string
  selClient :: do_client

definition machinesOf :: "set_states \<Rightarrow> machine list" where
  "machinesOf states = map (\<lambda>(_, ms). msSM ms) (filter (\<lambda>(_, ms). \<not> Retired (msMinter ms)) states)"

text \<open>The loop of \<open>selectMinter\<close>: the first minter in order that has room and grants, or whether one was full.\<close>

fun select_loop ::
  "capacity \<Rightarrow> time \<Rightarrow> set_states \<Rightarrow> bool \<Rightarrow> string list \<Rightarrow> (string \<times> minter \<times> machine) option \<times> bool" where
  "select_loop cap now states atCapacity [] = (None, atCapacity)"
| "select_loop cap now states atCapacity (i # ids) =
     (case map_of states i of
        None \<Rightarrow> select_loop cap now states atCapacity ids
      | Some ms \<Rightarrow>
          if \<not> HasRoom cap i then select_loop cap now states True ids
          else if Retired (msMinter ms) then select_loop cap now states atCapacity ids
          else case TryAcquire now (msSM ms) of
            (True, sm) \<Rightarrow> (Some (i, msMinter ms, sm), atCapacity)
          | (False, _) \<Rightarrow> select_loop cap now states atCapacity ids)"

definition selectMinter ::
  "'w env \<Rightarrow> 'w st \<Rightarrow> string \<Rightarrow> string \<Rightarrow> capacity \<Rightarrow> time \<Rightarrow> 'w st \<times> (code + selected)" where
  "selectMinter env bw setName affinityKey cap now =
     (case bw of
        (b, w) \<Rightarrow>
          (case map_of (bSets b) setName of
             None \<Rightarrow> (bw, Inl ErrConfigInvalid)
           | Some states \<Rightarrow>
               (case select_loop cap now states False
                       (OrderKeys (eSha256 env) (eDraw env w) affinityKey states) of
                  (Some (i, m, sm), _) \<Rightarrow>
                    ((update_machine b setName i (\<lambda>_. sm), w),
                     Inr \<lparr> selSet = setName, selMinter = i, selClient = newDOClient (doAPIURL b) (Token m) \<rparr>)
                | (None, True) \<Rightarrow> (bw, Inl ErrPoolExhausted)
                | (None, False) \<Rightarrow> (bw, Inl (fst (UnavailableError (machinesOf states) now))))))"

definition getMinter :: "backend \<Rightarrow> string \<Rightarrow> string \<Rightarrow> do_client option" where
  "getMinter b setName i =
     map_option (\<lambda>ms. newDOClient (doAPIURL b) (Token (msMinter ms))) (find_minter b setName i)"

definition first_healthy :: "backend \<Rightarrow> time \<Rightarrow> set_states \<Rightarrow> do_client option" where
  "first_healthy b now states =
     map_option (\<lambda>(_, ms). newDOClient (doAPIURL b) (Token (msMinter ms)))
       (find (\<lambda>(_, ms). \<not> Retired (msMinter ms) \<and> Selectable now (msSM ms)) states)"

definition anyHealthyMinterInSet :: "backend \<Rightarrow> time \<Rightarrow> string \<Rightarrow> do_client option" where
  "anyHealthyMinterInSet b now setName =
     (case map_of (bSets b) setName of None \<Rightarrow> None | Some states \<Rightarrow> first_healthy b now states)"

definition anyHealthyMinter :: "backend \<Rightarrow> time \<Rightarrow> do_client option" where
  "anyHealthyMinter b now = first_healthy b now (concat (map snd (bSets b)))"

section \<open>The capability gate\<close>

text \<open>\<open>minterStateByID\<close> looks through every set; a probe's verdict goes to the machine it found.\<close>

definition minterStateByID :: "backend \<Rightarrow> states" where
  "minterStateByID b i =
     (case find (\<lambda>(_, states). map_of states i \<noteq> None) (bSets b) of
        None \<Rightarrow> None
      | Some (_, states) \<Rightarrow> map_option msSM (map_of states i))"

definition put_state :: "string \<Rightarrow> machine \<Rightarrow> backend \<Rightarrow> backend" where
  "put_state i sm b =
     (case find (\<lambda>(_, states). map_of states i \<noteq> None) (bSets b) of
        None \<Rightarrow> b
      | Some (s, _) \<Rightarrow> update_machine b s i (\<lambda>_. sm))"

definition with_states :: "backend \<Rightarrow> states \<Rightarrow> backend" where
  "with_states b sms =
     fold (\<lambda>i b. case sms i of None \<Rightarrow> b | Some sm \<Rightarrow> put_state i sm b)
       (concat (map (\<lambda>(_, states). map fst states) (bSets b))) b"

definition gate :: "'w env \<Rightarrow> backend \<Rightarrow> 'w gate" where
  "gate env b =
     \<lparr> gEnabled = CapabilityVerificationEnabled (bConfig b),
       gLimiter = Some \<lparr> lNow = eNow env, lJitter = eJitter env \<rparr>,
       gCacheTTL = CapabilityCacheDuration (bConfig b), gNow = eNow env, gDigest = eDigest env \<rparr>"

definition ProbeName :: "string \<Rightarrow> string \<Rightarrow> string \<Rightarrow> string" where
  "ProbeName ownerPrefix rName suf = ownerPrefix @ rName @ ''-'' @ ''probe-'' @ suf"

definition probeMint ::
  "'w env \<Rightarrow> string \<Rightarrow> string \<Rightarrow> string \<Rightarrow> string list \<Rightarrow> minter \<Rightarrow> 'w \<Rightarrow> 'w \<times> int \<times> err option" where
  "probeMint env apiURL instanceID rName scopes m w =
     (let client = newDOClient apiURL (Token m)
      in case CreateToken (eHttp env) client (ProbeName (Prefix instanceID) rName (eSuffix env w)) scopes w of
           (w', status, Inl e) \<Rightarrow> (w', status, Some (Wrap ''probe mint returned: '' e))
         | (w', status, Inr t) \<Rightarrow>
             (case DeleteToken (eHttp env) client (tokID t) w' of (w'', _) \<Rightarrow> (w'', status, None)))"

definition probeSpacesMint ::
  "'w env \<Rightarrow> string \<Rightarrow> string \<Rightarrow> string \<Rightarrow> grant list \<Rightarrow> minter \<Rightarrow> 'w \<Rightarrow> 'w \<times> int \<times> err option" where
  "probeSpacesMint env apiURL instanceID rName gs m w =
     (let client = newDOClient apiURL (Token m)
      in case CreateSpacesKey (eHttp env) client (ProbeName (Prefix instanceID) rName (eSuffix env w)) gs w of
           (w', status, Inl e) \<Rightarrow> (w', status, Some (Wrap ''probe mint returned: '' e))
         | (w', status, Inr k) \<Rightarrow>
             (case DeleteSpacesKey (eHttp env) client (skAccessKey k) w' of (w'', _) \<Rightarrow> (w'', status, None)))"

fun join :: "string \<Rightarrow> string list \<Rightarrow> string" where
  "join sep [] = []"
| "join sep [s] = s"
| "join sep (s # t # ss) = s @ sep @ join sep (t # ss)"

definition mintShapeOf :: "do_role \<Rightarrow> string" where
  "mintShapeOf r =
     (if issuesSpacesKey r then credentialTypeSpacesKey @ ''|'' @ join '','' (renderGrants (Grants r))
      else credentialTypeToken @ ''|'' @ join '','' (drScopes r))"

definition capabilityChecks :: "'w env \<Rightarrow> backend \<Rightarrow> 'w checks_func" where
  "capabilityChecks env b s roleJSON =
     (case dec_role roleJSON of
        None \<Rightarrow> []
      | Some r \<Rightarrow>
          ChecksPerMinter (eMarshal env) s (drName r) (mintShapeOf r)
            (\<lambda>m. if issuesSpacesKey r
                 then probeSpacesMint env (doAPIURL b) (bInstanceID b) (drName r) (Grants r) m
                 else probeMint env (doAPIURL b) (bInstanceID b) (drName r) (drScopes r) m))"

definition verifySetCapability :: "'w env \<Rightarrow> 'w st \<Rightarrow> minter_set \<Rightarrow> 'w st \<times> code option" where
  "verifySetCapability env bw s =
     (case ownerInstanceID env bw of
        (bw, Inl e) \<Rightarrow> (bw, Some ErrInternal)
      | ((b, w), Inr _) \<Rightarrow>
          (case VerifySet (gate env b) (eKV env) w (minterStateByID b) s (capabilityChecks env b) of
             ((w', sms), r) \<Rightarrow> ((with_states b sms, w'), r)))"

definition verifyRoleCapability :: "'w env \<Rightarrow> 'w st \<Rightarrow> do_role \<Rightarrow> 'w st \<times> code option" where
  "verifyRoleCapability env bw r =
     (case ownerInstanceID env bw of
        (bw, Inl e) \<Rightarrow> (bw, Some ErrInternal)
      | ((b, w), Inr _) \<Rightarrow>
          (case VerifyRole (gate env b) (eKV env) w (minterStateByID b) (drMinterSet r) (enc_role r)
                  (capabilityChecks env b) of
             ((w', sms), c) \<Rightarrow> ((with_states b sms, w'), c)))"

section \<open>Minter sets\<close>

text \<open>
  One minter of a request. \<open>parse\<close> is \<open>time.Parse(time.RFC3339, _)\<close>; \<open>fmt.Sprintf("%v")\<close> of a string is the
  string, of an absent value \<open>\<lless>nil\<ggreater>\<close>, of anything else \<open>print\<close>.
\<close>

definition sprint :: "(json \<Rightarrow> string) \<Rightarrow> json option \<Rightarrow> string" where
  "sprint print v = (case v of None \<Rightarrow> ''<nil>'' | Some JNull \<Rightarrow> ''<nil>'' | Some (JStr s) \<Rightarrow> s | Some d \<Rightarrow> print d)"

definition parseMinter ::
  "(json \<Rightarrow> string) \<Rightarrow> time \<Rightarrow> (string \<times> json) list \<Rightarrow> minter option" where
  "parseMinter print now kvs =
     (let get = field (JObj kvs)
      in if \<not> ValidateMinterKeys (map fst kvs) [''id'', ''expires_at'', ''never_expires'', ''token''] then None
         else
           let m = \<lparr> ID = sprint print (get ''id''), Token = sprint print (get ''token''), ExpiresAt = 0,
                     ExpiresSource = [], NeverExpires = (get ''never_expires'' = Some (JBool True)),
                     CreatedAt = now, Retired = False, RetiredAt = 0, RotationParams = [] \<rparr>
           in case get ''expires_at'' of
                Some (JStr s) \<Rightarrow> None
              | Some (JTime t) \<Rightarrow> Some (m \<lparr> ExpiresAt := t \<rparr>)
              | _ \<Rightarrow> Some m)"

definition parseMinters :: "(json \<Rightarrow> string) \<Rightarrow> time \<Rightarrow> request_fields \<Rightarrow> minter list option" where
  "parseMinters print now d =
     (case d ''minters'' of
        Some (JArr vs) \<Rightarrow>
          dec_all (\<lambda>v. case v of JObj kvs \<Rightarrow> parseMinter print now kvs | _ \<Rightarrow> None) vs
      | _ \<Rightarrow> None)"

definition authFailThreshold :: duration where "authFailThreshold = 30 * second"
definition healthCheckInterval :: duration where "healthCheckInterval = 5 * minute"

definition loadMinterSet :: "backend \<Rightarrow> minter_set \<Rightarrow> backend" where
  "loadMinterSet b s =
     (let previous = (case map_of (bSets b) (Name s) of None \<Rightarrow> [] | Some states \<Rightarrow> states);
          fresh = NewStateMachine \<lparr> AuthFailThreshold = authFailThreshold,
                                    HealthCheckInterval = healthCheckInterval \<rparr>;
          states = fold (\<lambda>m. AList.update (ID m)
            \<lparr> msMinter = m,
              msSM = (case map_of previous (ID m) of Some old \<Rightarrow> msSM old | None \<Rightarrow> fresh) \<rparr>) (Minters s) []
      in b \<lparr> bSets := AList.update (Name s) states (bSets b) \<rparr>)"

definition pathMinterSetWrite ::
  "'w env \<Rightarrow> (json \<Rightarrow> string) \<Rightarrow> 'w st \<Rightarrow> string \<Rightarrow> request_fields \<Rightarrow> 'w st \<times> response" where
  "pathMinterSetWrite env print bw name d =
     (if \<not> ValidateSetName name then (bw, RespErr ErrConfigInvalid)
      else case parseMinters print (eNow env (snd bw)) d of
        None \<Rightarrow> (bw, RespErr ErrConfigInvalid)
      | Some minters \<Rightarrow>
          if \<not> ValidateMinterIDs minters then (bw, RespErr ErrConfigInvalid)
          else case LoadMinterSet (eKV env) (snd bw) name of
            Inl e \<Rightarrow> (bw, RespErr ErrInternal)
          | Inr stored \<Rightarrow>
              (let minters = PreserveLifecycle minters stored (eNow env (snd bw))
               in if ValidateMinterSet minters \<noteq> None then (bw, RespErr ErrConfigInvalid)
                  else
                    let s = \<lparr> Schema = SchemaVersion, Name = name, Minters = minters \<rparr>
                    in case verifySetCapability env bw s of
                         (bw, Some c) \<Rightarrow> (bw, RespErr c)
                       | ((b, w), None) \<Rightarrow>
                           (case kput (eKV env) w (minterSetPrefix @ name) (enc_minter_set s) of
                              (w', Some e) \<Rightarrow> ((b, w'), RespErr ErrInternal)
                            | (w', None) \<Rightarrow> ((loadMinterSet b s, w'), RespNil))))"

definition pathMinterSetDelete :: "'w env \<Rightarrow> 'w st \<Rightarrow> string \<Rightarrow> 'w st \<times> response" where
  "pathMinterSetDelete env bw name =
     (case bw of
        (b, w) \<Rightarrow>
          (case kdel (eKV env) w (minterSetPrefix @ name) of
             (w', Some e) \<Rightarrow> ((b, w'), RespErr ErrInternal)
           | (w', None) \<Rightarrow> ((b \<lparr> bSets := AList.delete name (bSets b) \<rparr>, w'), RespNil)))"

fun load_sets :: "'w env \<Rightarrow> 'w \<Rightarrow> backend \<Rightarrow> string list \<Rightarrow> backend" where
  "load_sets env w b [] = b"
| "load_sets env w b (name # names) =
     (case kget (eKV env) w (minterSetPrefix @ name) of
        Inr (Some v) \<Rightarrow>
          (case dec_minter_set v of
             None \<Rightarrow> load_sets env w b names
           | Some s \<Rightarrow>
               if \<not> CheckSchema (Schema s) then load_sets env w b names
               else if ValidateMinterSet (Minters s) \<noteq> None then load_sets env w b names
               else load_sets env w (loadMinterSet b s) names)
      | _ \<Rightarrow> load_sets env w b names)"

definition loadAllMinterSets :: "'w env \<Rightarrow> 'w st \<Rightarrow> 'w st \<times> err option" where
  "loadAllMinterSets env bw =
     (case bw of
        (b, w) \<Rightarrow>
          (case klist (eKV env) w minterSetPrefix of
             Inl e \<Rightarrow> (bw, Some e)
           | Inr names \<Rightarrow> ((load_sets env w b names, w), None)))"

section \<open>Roles\<close>

definition minterSetExists :: "'w env \<Rightarrow> 'w \<Rightarrow> string \<Rightarrow> err + bool" where
  "minterSetExists env w name =
     (case kget (eKV env) w (minterSetPrefix @ name) of Inl e \<Rightarrow> Inl e | Inr r \<Rightarrow> Inr (r \<noteq> None))"

definition role_schema :: "string set" where
  "role_schema =
     {''name'', ''default_ttl'', ''max_ttl'', ''credential_type'', ''scopes'', ''minter_set'', ''disabled'',
      ''require_caller_identity'', ''require_caller_lineage'', ''grants'', ''region'', ''endpoint'',
      ''rotation_period'', ''rotation_jitter'', ''overlap_ttl''}"

text \<open>The part of the handler after the minter set is known to exist: validation, and the role built.\<close>

definition build_role :: "string \<Rightarrow> request_fields \<Rightarrow> type_fields \<Rightarrow> do_role option" where
  "build_role name d typed =
     (let defaultTTL = of_seconds (get_int d ''default_ttl'' 900);
          maxTTL = of_seconds (get_int d ''max_ttl'' 3600);
          identity = get_str d ''require_caller_identity'' [];
          lineage = get_str d ''require_caller_lineage'' []
      in if \<not> ValidateRole \<lparr> roleName = name, roleCloud = ''do'', DefaultTTL = defaultTTL, MaxTTL = maxTTL \<rparr>
         then None
         else if ParseIdentityRequirement identity = None then None
         else if ParseLineageRequirement lineage = None then None
         else Some
           \<lparr> drName = name, drDefaultTTL = defaultTTL, drMaxTTL = maxTTL, drScopes = get_strs d ''scopes'',
             drMinterSet = get_str d ''minter_set'' [], drDisabled = get_bool d ''disabled'',
             RequireCallerIdentity = identity, RequireCallerLineage = lineage,
             CredentialType = tfType typed, Grants = tfGrants typed, Region = tfRegion typed,
             Endpoint = tfEndpoint typed, RotationPeriod = tfPeriod typed, RotationJitter = tfJitter typed,
             OverlapTTL = tfOverlap typed \<rparr>)"

definition pathRoleWrite ::
  "'w env \<Rightarrow> 'w st \<Rightarrow> string \<Rightarrow> request_fields \<Rightarrow> 'w st \<times> response" where
  "pathRoleWrite env bw name raw =
     (case PrefillRoleWrite (eKV env) (snd bw) (rolesPrefix @ name) role_schema storedRoleData
             (eValidate env) raw of
        (d, Some e) \<Rightarrow> (bw, RespErr ErrInternal)
      | (d, None) \<Rightarrow>
          (case parseCredentialTypeFields d (get_strs d ''scopes'')
                  (of_seconds (get_int d ''max_ttl'' 3600)) of
             None \<Rightarrow> (bw, RespErr ErrConfigInvalid)
           | Some typed \<Rightarrow>
               (let minterSet = get_str d ''minter_set'' []
                in if minterSet = [] then (bw, RespErr ErrConfigInvalid)
                   else case minterSetExists env (snd bw) minterSet of
                     Inl e \<Rightarrow> (bw, RespErr ErrInternal)
                   | Inr False \<Rightarrow> (bw, RespErr ErrConfigInvalid)
                   | Inr True \<Rightarrow>
                       (case build_role name d typed of
                          None \<Rightarrow> (bw, RespErr ErrConfigInvalid)
                        | Some r \<Rightarrow>
                            (case verifyRoleCapability env bw r of
                               (bw, Some c) \<Rightarrow> (bw, RespErr c)
                             | ((b, w), None) \<Rightarrow>
                                 (case kput (eKV env) w (rolesPrefix @ name) (enc_role r) of
                                    (w', Some e) \<Rightarrow> ((b, w'), RespErr ErrInternal)
                                  | (w', None) \<Rightarrow> ((b, w'), RespNil)))))))"

definition pathRoleRead :: "'w env \<Rightarrow> 'w st \<Rightarrow> string \<Rightarrow> response" where
  "pathRoleRead env bw name =
     (case kget (eKV env) (snd bw) (rolesPrefix @ name) of
        Inl e \<Rightarrow> RespErr ErrInternal
      | Inr None \<Rightarrow> RespNil
      | Inr (Some v) \<Rightarrow>
          (case dec_role v of None \<Rightarrow> RespErr ErrInternal | Some r \<Rightarrow> RespData (roleData r)))"

definition pathRoleDelete :: "'w env \<Rightarrow> 'w st \<Rightarrow> string \<Rightarrow> 'w st \<times> response" where
  "pathRoleDelete env bw name =
     (case kdel (eKV env) (snd bw) (rolesPrefix @ name) of
        (w', Some e) \<Rightarrow> ((fst bw, w'), RespErr ErrInternal)
      | (w', None) \<Rightarrow> ((fst bw, w'), RespNil))"

definition loadRole :: "'w env \<Rightarrow> 'w \<Rightarrow> string \<Rightarrow> code + do_role" where
  "loadRole env w rName =
     (case kget (eKV env) w (rolesPrefix @ rName) of
        Inl e \<Rightarrow> Inl ErrInternal
      | Inr None \<Rightarrow> Inl ErrRoleNotFound
      | Inr (Some v) \<Rightarrow>
          (case dec_role v of
             None \<Rightarrow> Inl ErrInternal
           | Some r \<Rightarrow> if drDisabled r then Inl ErrRoleDisabled else Inr r))"

section \<open>Which minter issues\<close>

definition offers :: "capacity \<Rightarrow> time \<Rightarrow> set_states \<Rightarrow> string \<Rightarrow> bool" where
  "offers cap now states i \<longleftrightarrow>
     (\<exists>ms. map_of states i = Some ms \<and> HasRoom cap i \<and> \<not> Retired (msMinter ms)
           \<and> fst (TryAcquire now (msSM ms)))"

lemma select_loop_offer:
  assumes "offers cap now states j"
  obtains ms sm where "map_of states j = Some ms" and "HasRoom cap j" and "\<not> Retired (msMinter ms)"
    and "TryAcquire now (msSM ms) = (True, sm)"
    and "select_loop cap now states full (j # ids) = (Some (j, msMinter ms, sm), full)"
proof -
  obtain ms where ms: "map_of states j = Some ms" "HasRoom cap j" "\<not> Retired (msMinter ms)"
    "fst (TryAcquire now (msSM ms))" using assms by (auto simp: offers_def)
  obtain sm where "TryAcquire now (msSM ms) = (True, sm)"
    using ms(4) by (cases "TryAcquire now (msSM ms)") simp
  then show thesis using that [OF ms(1-3)] ms by simp
qed

lemma select_loop_skip:
  assumes "\<not> offers cap now states j"
  shows "select_loop cap now states full (j # ids) =
     select_loop cap now states (full \<or> map_of states j \<noteq> None \<and> \<not> HasRoom cap j) ids"
proof (cases "map_of states j")
  case None
  then show ?thesis by simp
next
  case (Some ms)
  obtain g sm where g: "TryAcquire now (msSM ms) = (g, sm)" by force
  then have "HasRoom cap j \<Longrightarrow> \<not> Retired (msMinter ms) \<Longrightarrow> \<not> g"
    using assms Some by (auto simp: offers_def)
  then show ?thesis using Some g by auto
qed

lemma select_loop_Some:
  assumes "select_loop cap now states full ids = (Some (i, m, sm), f)"
  shows "\<exists>xs ys ms. ids = xs @ i # ys \<and> (\<forall>j \<in> set xs. \<not> offers cap now states j)
     \<and> map_of states i = Some ms \<and> m = msMinter ms \<and> HasRoom cap i \<and> \<not> Retired m
     \<and> TryAcquire now (msSM ms) = (True, sm)"
  using assms
proof (induction ids arbitrary: full)
  case Nil
  then show ?case by simp
next
  case (Cons j ids)
  show ?case
  proof (cases "offers cap now states j")
    case True
    then obtain ms sm' where j: "map_of states j = Some ms" "HasRoom cap j" "\<not> Retired (msMinter ms)"
      "TryAcquire now (msSM ms) = (True, sm')"
      "select_loop cap now states full (j # ids) = (Some (j, msMinter ms, sm'), full)"
      by (rule select_loop_offer)
    then have "i = j" "m = msMinter ms" "sm = sm'" using Cons.prems by simp_all
    then show ?thesis using j by (intro exI [of _ "[]"] exI [of _ ids] exI [of _ ms]) simp
  next
    case False
    then obtain xs ys ms where "ids = xs @ i # ys" "\<forall>j \<in> set xs. \<not> offers cap now states j"
      "map_of states i = Some ms \<and> m = msMinter ms \<and> HasRoom cap i \<and> \<not> Retired m
        \<and> TryAcquire now (msSM ms) = (True, sm)"
      using Cons.IH [OF Cons.prems [unfolded select_loop_skip [OF False]]] by blast
    then show ?thesis using False
      by (intro exI [of _ "j # xs"] exI [of _ ys] exI [of _ ms]) auto
  qed
qed

lemma select_loop_None:
  "fst (select_loop cap now states full ids) = None \<longleftrightarrow> (\<forall>i \<in> set ids. \<not> offers cap now states i)"
proof (induction ids arbitrary: full)
  case (Cons j ids)
  show ?case
  proof (cases "offers cap now states j")
    case True
    then show ?thesis by (rule select_loop_offer [of _ _ _ _ full ids]) (simp add: True)
  next
    case False
    then show ?thesis using Cons.IH unfolding select_loop_skip [OF False] by simp
  qed
qed simp

lemma select_loop_full:
  "fst (select_loop cap now states full ids) = None \<Longrightarrow>
     snd (select_loop cap now states full ids) \<longleftrightarrow>
       full \<or> (\<exists>i \<in> set ids. map_of states i \<noteq> None \<and> \<not> HasRoom cap i)"
proof (induction ids arbitrary: full)
  case (Cons j ids)
  have j: "\<not> offers cap now states j"
    using Cons.prems unfolding select_loop_None by simp
  show ?case using Cons.IH Cons.prems unfolding select_loop_skip [OF j] by auto
qed simp

text \<open>
  C36. The minter that issues is the caller's most preferred one that can: the selected minter is in
  the set, not retired, has room and is admitted by its machine, its token is the one that signs, the
  claim it made is recorded, and every minter the caller prefers to it is full, retired or refused.
\<close>
theorem select_most_preferred:
  assumes "selectMinter env (b, w) setName key cap now = ((b', w'), Inr sel)"
  shows "\<exists>states xs ys ms sm.
     map_of (bSets b) setName = Some states
     \<and> OrderKeys (eSha256 env) (eDraw env w) key states = xs @ selMinter sel # ys
     \<and> (\<forall>j \<in> set xs. \<not> offers cap now states j)
     \<and> map_of states (selMinter sel) = Some ms \<and> \<not> Retired (msMinter ms) \<and> HasRoom cap (selMinter sel)
     \<and> TryAcquire now (msSM ms) = (True, sm)
     \<and> b' = update_machine b setName (selMinter sel) (\<lambda>_. sm) \<and> w' = w
     \<and> selSet sel = setName \<and> clToken (selClient sel) = Token (msMinter ms)"
proof -
  obtain states where st: "map_of (bSets b) setName = Some states"
    using assms by (cases "map_of (bSets b) setName") (auto simp: selectMinter_def)
  let ?ids = "OrderKeys (eSha256 env) (eDraw env w) key states"
  obtain i m sm f where l: "select_loop cap now states False ?ids = (Some (i, m, sm), f)"
    using assms st
    by (cases "select_loop cap now states False ?ids")
      (auto simp: selectMinter_def split: option.splits bool.splits)
  then have r: "b' = update_machine b setName i (\<lambda>_. sm)" "w' = w"
    "sel = \<lparr> selSet = setName, selMinter = i, selClient = newDOClient (doAPIURL b) (Token m) \<rparr>"
    using assms st by (auto simp: selectMinter_def)
  show ?thesis
    using select_loop_Some [OF l] st r by (fastforce simp: newDOClient_def)
qed

text \<open>
  What a caller is told when no minter can issue: a set that is not loaded is a configuration
  error; otherwise the answer is that the pool is exhausted exactly when some minter of the set, even
  a retired one, is at its limit, whatever keeps the others from issuing.
\<close>
theorem exhausted_hides_health:
  assumes "map_of (bSets b) setName = Some states" and "draws (eDraw env w)"
    and "\<forall>i \<in> fst ` set states. \<not> offers cap now states i"
  shows "snd (selectMinter env (b, w) setName key cap now) =
     Inl (if \<exists>i \<in> fst ` set states. \<not> HasRoom cap i then ErrPoolExhausted
          else fst (UnavailableError (machinesOf states) now))"
proof -
  let ?ids = "OrderKeys (eSha256 env) (eDraw env w) key states"
  have ids: "set ?ids = fst ` set states"
    using Order_set [OF assms(2)] by (simp add: OrderKeys_def)
  have none: "fst (select_loop cap now states False ?ids) = None"
    using assms(3) ids by (simp add: select_loop_None)
  have "snd (select_loop cap now states False ?ids) \<longleftrightarrow> (\<exists>i \<in> fst ` set states. \<not> HasRoom cap i)"
    using select_loop_full [OF none] ids by (auto simp: map_of_eq_None_iff)
  with none assms(1) show ?thesis
    by (cases "select_loop cap now states False ?ids") (auto simp: selectMinter_def)
qed

text \<open>
  A mount over an in-memory store and a cloud that grants everything and keeps what it issued, for
  concrete runs: an entry is a credential class and an id.
\<close>

type_synonym fake_world = "(string \<times> string) list mem"

definition delete_path :: "string \<Rightarrow> string \<Rightarrow> string" where
  "delete_path cl i =
     (if cl = credentialTypeToken then ''/v2/tokens/'' else ''/v2/spaces/keys/'') @ PathSegment i"

text \<open>What a delete names is struck off: its id stays, so that no later credential gets it.\<close>

definition strike :: "string \<Rightarrow> (string \<times> string) list \<Rightarrow> (string \<times> string) list" where
  "strike url = List.map (\<lambda>(cl, i).
     if cl \<in> {credentialTypeToken, credentialTypeSpacesKey} \<and> HasSuffix url (delete_path cl i)
     then (''gone-'' @ cl, i) else (cl, i))"

text \<open>An id longer than every id that was ever issued, so never one of them.\<close>

definition fresh_id :: "(string \<times> string) list \<Rightarrow> string" where
  "fresh_id u = replicate (Suc (sum_list (map (length \<circ> snd) u))) (CHR ''K'')"

definition fake_http :: "fake_world http" where
  "fake_http =
     \<lparr> hSend = (\<lambda>(es, u) v url tok body.
          case v of
            POST \<Rightarrow>
              (let i = fresh_id u;
                   cl = (if HasSuffix url ''/v2/tokens'' then credentialTypeToken else credentialTypeSpacesKey)
               in ((es, u @ [(cl, i)]), Inr (201, Json (JObj
                    [(''token'', JObj [(''id'', JStr i), (''access_token'', JStr ''t'')]),
                     (''key'', JObj [(''access_key'', JStr i), (''secret_key'', JStr ''x'')])]))))
          | DELETE \<Rightarrow> ((es, strike url u), Inr (204, Raw []))),
       hGet = (\<lambda>w url tok. Inr (200, Json (JObj []))) \<rparr>"

definition fake_env :: "time \<Rightarrow> fake_world env" where
  "fake_env t =
     \<lparr> eKV = mem_kv, eHttp = fake_http, eNow = (\<lambda>_. t), eJitter = (\<lambda>_. 0), eSha256 = map of_char,
       eDigest = id, eDraw = (\<lambda>_ i. Some i), eMarshal = (\<lambda>_. ''x''), eRandomID = (\<lambda>_. Some ''abcd''),
       eSuffix = (\<lambda>_. ''1''), eValidate = (\<lambda>_. None) \<rparr>"

definition fake_backend :: "(string \<times> bool \<times> machine) list \<Rightarrow> backend" where
  "fake_backend ms =
     \<lparr> bInstanceID = ''abcd'', bConfig = None,
       bSets = [(''s'', map (\<lambda>(i, r, sm). (i, \<lparr> msMinter = sample_minter i r, msSM = sm \<rparr>)) ms)],
       bApiURL = [] \<rparr>"

definition roomy :: capacity where
  "roomy = \<lparr> Limit = 0, Used = (\<lambda>_. 0), WarnAt = 0 \<rparr>"

theorem select_most_preferred_witness:
  "\<exists>bw sel. selectMinter (fake_env epoch) (fake_backend [(''m1'', False, locked_machine), (''m2'', False, sample_machine)],
        ([], [])) ''s'' [] roomy epoch = (bw, Inr sel)
     \<and> selMinter sel = ''m2'' \<and> clToken (selClient sel) = ''tok''"
proof -
  let ?b = "fake_backend [(''m1'', False, locked_machine), (''m2'', False, sample_machine)]"
  let ?r = "selectMinter (fake_env epoch) (?b, ([], [])) ''s'' [] roomy epoch"
  have e: "\<exists>sel. snd ?r = Inr sel \<and> selMinter sel = ''m2''"
  proof -
    have "(case snd ?r of Inl _ \<Rightarrow> False | Inr sel \<Rightarrow> selMinter sel = ''m2'')" by code_simp
    then show ?thesis by (cases "snd ?r") auto
  qed
  then obtain sel where sel: "snd ?r = Inr sel" "selMinter sel = ''m2''" by blast
  obtain b' w' where r: "?r = ((b', w'), Inr sel)" using sel(1) by (metis prod.collapse)
  from select_most_preferred [OF r] sel(2) obtain states ms where
    "map_of (bSets ?b) ''s'' = Some states" "map_of states ''m2'' = Some ms"
    "clToken (selClient sel) = Token (msMinter ms)" by auto
  then have "clToken (selClient sel) = ''tok''"
    by (auto simp: fake_backend_def sample_minter_def split: if_splits)
  with r sel(2) show ?thesis by blast
qed

definition one_full :: capacity where
  "one_full = \<lparr> Limit = 1, Used = (\<lambda>i. if i = ''m1'' then 1 else 0), WarnAt = 1 \<rparr>"

theorem exhausted_hides_health_witness:
  "snd (selectMinter (fake_env epoch)
      (fake_backend [(''m1'', True, sample_machine), (''m2'', False, locked_machine)], ([], []))
      ''s'' [] one_full epoch) = Inl ErrPoolExhausted"
proof -
  let ?b = "fake_backend [(''m1'', True, sample_machine), (''m2'', False, locked_machine)]"
  let ?s = "map (\<lambda>(i, r, sm). (i, \<lparr> msMinter = sample_minter i r, msSM = sm \<rparr>))
      [(''m1'', True, sample_machine), (''m2'', False, locked_machine)]"
  have m: "map_of (bSets ?b) ''s'' = Some ?s" by (simp add: fake_backend_def)
  have d: "draws (eDraw (fake_env epoch) ([], []))" by (simp add: fake_env_def draws_def)
  have n: "\<forall>i \<in> fst ` set ?s. \<not> offers one_full epoch ?s i"
    by (simp add: offers_def one_full_def HasRoom_def Enforced_def TryAcquire_def serviceable_def
        locked_machine_facts)
  show ?thesis
    using exhausted_hides_health [OF m d n, of "[]"]
    by (simp add: one_full_def HasRoom_def Enforced_def)
qed

section \<open>Disabling a role\<close>

text \<open>A role as a write with these fields stores it, with durations in whole seconds.\<close>

definition whole :: "duration \<Rightarrow> bool" where
  "whole d \<longleftrightarrow> d mod second = 0 \<and> 0 \<le> d \<and> d < 2 ^ 63"

definition complete_role :: "do_role \<Rightarrow> bool" where
  "complete_role r \<longleftrightarrow>
     ValidateRole \<lparr> roleName = drName r, roleCloud = ''do'', DefaultTTL = drDefaultTTL r, MaxTTL = drMaxTTL r \<rparr>
     \<and> ParseIdentityRequirement (RequireCallerIdentity r) \<noteq> None
     \<and> ParseLineageRequirement (RequireCallerLineage r) \<noteq> None
     \<and> drMinterSet r \<noteq> [] \<and> whole (drDefaultTTL r) \<and> whole (drMaxTTL r)
     \<and> (if CredentialType r = credentialTypeToken then
           drScopes r \<noteq> [] \<and> Grants r = [] \<and> Region r = [] \<and> Endpoint r = []
           \<and> RotationPeriod r = 0 \<and> RotationJitter r = 0 \<and> OverlapTTL r = 0
         else
           drScopes r = [] \<and> parseGrants (renderGrants (Grants r)) = Some (Grants r)
           \<and> Region r \<noteq> [] \<and> Endpoint r \<noteq> []
           \<and> (if CredentialType r = credentialTypeSpacesKey
              then RotationPeriod r = 0 \<and> RotationJitter r = 0 \<and> OverlapTTL r = 0
              else CredentialType r = credentialTypeSpacesKeyRotated
                \<and> whole (RotationPeriod r) \<and> whole (RotationJitter r) \<and> whole (OverlapTTL r)
                \<and> lifecycle_ok (RotationPeriod r) (RotationJitter r) (OverlapTTL r) (drMaxTTL r)))"

lemma of_seconds_whole: "whole d \<Longrightarrow> of_seconds (seconds_of d) = d"
proof -
  assume d: "whole d"
  then have "d div second * second = d"
    using div_mult_mod_eq [of d second] by (simp add: whole_def)
  then show ?thesis using d
    by (simp add: of_seconds_def seconds_of_def whole_def wrap64_id second_def)
qed

definition patched :: "do_role \<Rightarrow> request_fields" where
  "patched r = prefill role_schema (map_of (roleData r)) [''disabled'' \<mapsto> JBool True]"

lemma patched_fields:
  "patched r ''default_ttl'' = Some (JInt (seconds_of (drDefaultTTL r)))"
  "patched r ''max_ttl'' = Some (JInt (seconds_of (drMaxTTL r)))"
  "patched r ''minter_set'' = Some (JStr (drMinterSet r))"
  "patched r ''disabled'' = Some (JBool True)"
  "patched r ''require_caller_identity'' = Some (JStr (RequireCallerIdentity r))"
  "patched r ''require_caller_lineage'' = Some (JStr (RequireCallerLineage r))"
  "patched r ''credential_type'' = Some (JStr (credentialType r))"
  by (simp_all add: patched_def prefill_def role_schema_def roleData_def)

lemma patched_type_fields:
  "patched r ''scopes'' = (if issuesSpacesKey r then None else Some (JArr (map JStr (drScopes r))))"
  "patched r ''grants'' =
     (if issuesSpacesKey r then Some (JArr (map JStr (renderGrants (Grants r)))) else None)"
  "patched r ''region'' = (if issuesSpacesKey r then Some (JStr (Region r)) else None)"
  "patched r ''endpoint'' = (if issuesSpacesKey r then Some (JStr (Endpoint r)) else None)"
  "patched r ''rotation_period'' =
     (if rotatesSharedKey r then Some (JInt (seconds_of (RotationPeriod r))) else None)"
  "patched r ''rotation_jitter'' =
     (if rotatesSharedKey r then Some (JInt (seconds_of (RotationJitter r))) else None)"
  "patched r ''overlap_ttl'' =
     (if rotatesSharedKey r then Some (JInt (seconds_of (OverlapTTL r))) else None)"
  by (simp_all add: patched_def prefill_def role_schema_def roleData_def)

lemma get_strs_JStr: "d k = Some (JArr (map JStr ss)) \<Longrightarrow> get_strs d k = ss"
  by (simp add: get_strs_def dec_list_map)

lemma read_duration_JInt: "d k = Some (JInt s) \<Longrightarrow> read_duration d k = Some (of_seconds s)"
  by (simp add: read_duration_def)

definition typed_of :: "do_role \<Rightarrow> type_fields" where
  "typed_of r =
     \<lparr> tfType = CredentialType r, tfGrants = Grants r, tfRegion = Region r, tfEndpoint = Endpoint r,
       tfPeriod = RotationPeriod r, tfJitter = RotationJitter r, tfOverlap = OverlapTTL r \<rparr>"

lemma patched_parse:
  assumes "complete_role r"
  shows "parseCredentialTypeFields (patched r) (get_strs (patched r) ''scopes'')
      (of_seconds (get_int (patched r) ''max_ttl'' 3600)) = Some (typed_of r)"
proof -
  note c = assms [unfolded complete_role_def]
  let ?d = "patched r"
  have max: "of_seconds (get_int ?d ''max_ttl'' 3600) = drMaxTTL r"
    using c by (simp add: get_int_def patched_fields of_seconds_whole)
  consider "CredentialType r = credentialTypeToken" | "CredentialType r = credentialTypeSpacesKey"
    | "CredentialType r = credentialTypeSpacesKeyRotated" using c by (auto split: if_splits)
  then show ?thesis
  proof cases
    case 1
    then have k: "credentialType r = credentialTypeToken" "\<not> issuesSpacesKey r" "\<not> rotatesSharedKey r"
      by (simp_all add: credentialType_def issuesSpacesKey_def rotatesSharedKey_def credential_type_defs)
    have "get_strs ?d ''scopes'' = drScopes r"
      using k by (intro get_strs_JStr) (simp add: patched_type_fields)
    moreover have "get_strs ?d ''grants'' = []" "get_str ?d ''region'' [] = []" "get_str ?d ''endpoint'' [] = []"
      "readLifecycleFields ?d = \<lparr> lfPeriod = None, lfJitter = None, lfOverlap = None \<rparr>"
      "get_str ?d ''credential_type'' credentialTypeToken = credentialTypeToken"
      using k by (simp_all add: get_strs_def get_str_def readLifecycleFields_def read_duration_def
          patched_type_fields patched_fields)
    ultimately show ?thesis using c 1
      by (simp add: parseCredentialTypeFields_def Let_def parseToken_def refuseForeignFields_def
          spacesOwned_def lifecycleOwned_def no_type_fields_def typed_of_def credential_type_defs)
  next
    case 2
    then have k: "credentialType r = credentialTypeSpacesKey" "issuesSpacesKey r" "\<not> rotatesSharedKey r"
      by (simp_all add: credentialType_def issuesSpacesKey_def rotatesSharedKey_def credential_type_defs)
    have "get_strs ?d ''grants'' = renderGrants (Grants r)"
      using k by (intro get_strs_JStr) (simp add: patched_type_fields)
    moreover have "get_strs ?d ''scopes'' = []" "get_str ?d ''region'' [] = Region r"
      "get_str ?d ''endpoint'' [] = Endpoint r"
      "readLifecycleFields ?d = \<lparr> lfPeriod = None, lfJitter = None, lfOverlap = None \<rparr>"
      "get_str ?d ''credential_type'' credentialTypeToken = credentialTypeSpacesKey"
      using k by (simp_all add: get_strs_def get_str_def readLifecycleFields_def read_duration_def
          patched_type_fields patched_fields)
    ultimately show ?thesis using c 2
      by (simp add: parseCredentialTypeFields_def Let_def parseSpaces_def refuseForeignFields_def
          lifecycleOwned_def no_type_fields_def typed_of_def credential_type_defs)
  next
    case 3
    then have k: "credentialType r = credentialTypeSpacesKeyRotated" "issuesSpacesKey r" "rotatesSharedKey r"
      by (simp_all add: credentialType_def issuesSpacesKey_def rotatesSharedKey_def credential_type_defs)
    have w: "whole (RotationPeriod r)" "whole (RotationJitter r)" "whole (OverlapTTL r)"
      "lifecycle_ok (RotationPeriod r) (RotationJitter r) (OverlapTTL r) (drMaxTTL r)"
      using c 3 by (auto simp: credential_type_defs)
    have "get_strs ?d ''grants'' = renderGrants (Grants r)"
      using k by (intro get_strs_JStr) (simp add: patched_type_fields)
    moreover have "get_strs ?d ''scopes'' = []" "get_str ?d ''region'' [] = Region r"
      "get_str ?d ''endpoint'' [] = Endpoint r"
      "readLifecycleFields ?d = \<lparr> lfPeriod = Some (RotationPeriod r), lfJitter = Some (RotationJitter r),
         lfOverlap = Some (OverlapTTL r) \<rparr>"
      "get_str ?d ''credential_type'' credentialTypeToken = credentialTypeSpacesKeyRotated"
      using k w by (simp_all add: get_strs_def get_str_def readLifecycleFields_def read_duration_def
          patched_type_fields patched_fields of_seconds_whole)
    moreover have "apply_lifecycle \<lparr> lfPeriod = Some (RotationPeriod r), lfJitter = Some (RotationJitter r),
         lfOverlap = Some (OverlapTTL r) \<rparr> (drMaxTTL r)
         (no_type_fields \<lparr> tfType := credentialTypeSpacesKeyRotated, tfGrants := Grants r,
            tfRegion := Region r, tfEndpoint := Endpoint r \<rparr>) = Some (typed_of r)"
      unfolding apply_lifecycle_ok using w(4) 3 by (simp add: typed_of_def no_type_fields_def)
    ultimately show ?thesis using c 3 max
      by (simp add: parseCredentialTypeFields_def Let_def parseSpaces_def credential_type_defs)
  qed
qed

lemma patched_build:
  assumes "complete_role r"
  shows "build_role (drName r) (patched r) (typed_of r) = Some (r \<lparr> drDisabled := True \<rparr>)"
proof -
  note c = assms [unfolded complete_role_def]
  have sc: "get_strs (patched r) ''scopes'' = drScopes r"
  proof (cases "issuesSpacesKey r")
    case True
    then have "drScopes r = []"
      using c by (auto simp: issuesSpacesKey_def credentialType_def credential_type_defs split: if_splits)
    then show ?thesis using True by (simp add: get_strs_def patched_type_fields)
  next
    case False
    then show ?thesis by (intro get_strs_JStr) (simp add: patched_type_fields)
  qed
  then show ?thesis using c
    by (cases r) (simp add: build_role_def Let_def get_int_def get_str_def get_bool_def patched_fields
        of_seconds_whole typed_of_def)
qed

lemma dec_bound_enc_role:
  "dec_bound (enc_role r) = Some (drName r, drMinterSet r, drDisabled r)"
proof -
  note f = field_members [OF distinct_role_members]
  have "opt_field [] dec_str (members (role_members r)) ''name'' = Some (drName r)"
    "opt_field [] dec_str (members (role_members r)) ''minter_set'' = Some (drMinterSet r)"
    "opt_field False dec_bool (members (role_members r)) ''disabled'' = Some (drDisabled r)"
    unfolding opt_field_cases f by (simp_all add: role_members_def)
  then show ?thesis by (simp add: dec_bound_def enc_role_def)
qed

text \<open>
  Disabling a role is a complete request and asks nothing of the cloud: writing \<open>disabled=true\<close> alone
  on a stored role whose minter set exists stores the same role, disabled, with every other field as
  it was, and the only effect on the world is that one storage write; no probe runs, so it works
  while the cloud refuses everything.
\<close>
theorem disable_is_complete_request:
  assumes "complete_role r" and "bInstanceID b \<noteq> []"
    and "kget (eKV env) w (''roles/'' @ drName r) = Inr (Some (enc_role r))"
    and "kget (eKV env) w (''minter-sets/'' @ drMinterSet r) = Inr (Some s)"
    and "eValidate env (patched r) = None"
    and "kput (eKV env) w (''roles/'' @ drName r) (enc_role (r \<lparr> drDisabled := True \<rparr>)) = (w', None)"
  shows "\<exists>b'. pathRoleWrite env (b, w) (drName r) [''disabled'' \<mapsto> JBool True] = ((b', w'), RespNil)"
proof -
  let ?r = "r \<lparr> drDisabled := True \<rparr>"
  have pre: "PrefillRoleWrite (eKV env) w (rolesPrefix @ drName r) role_schema storedRoleData
      (eValidate env) [''disabled'' \<mapsto> JBool True] = (patched r, None)"
    using assms(3,5)
    by (simp add: PrefillRoleWrite_def rolesPrefix_def storedRoleData_def dec_enc_role patched_def Let_def)
  have ms: "get_str (patched r) ''minter_set'' [] = drMinterSet r" "drMinterSet r \<noteq> []"
    using assms(1) by (simp_all add: get_str_def patched_fields complete_role_def)
  have ex: "minterSetExists env w (drMinterSet r) = Inr True"
    using assms(4) by (simp add: minterSetExists_def minterSetPrefix_def)
  have "disabledRole (enc_role ?r)" by (simp add: disabledRole_def dec_bound_enc_role)
  then obtain b' where v: "verifyRoleCapability env (b, w) ?r = ((b', w), None)"
    using assms(2) by (simp add: verifyRoleCapability_def ownerInstanceID_def VerifyRole_def)
  show ?thesis
    using patched_parse [OF assms(1)] patched_build [OF assms(1)] pre ms ex v assms(6)
    by (simp add: pathRoleWrite_def rolesPrefix_def Let_def)
qed

theorem disable_is_complete_request_witness:
  "\<exists>b'. pathRoleWrite (fake_env epoch)
      (fake_backend [(''m1'', False, locked_machine)],
       ([(''roles/r'', enc_role rotated_role), (''minter-sets/s'', enc_minter_set sample_set)], []))
      ''r'' [''disabled'' \<mapsto> JBool True]
    = ((b', ([(''roles/r'', enc_role (rotated_role \<lparr> drDisabled := True \<rparr>)),
             (''minter-sets/s'', enc_minter_set sample_set)], [])), RespNil)"
proof -
  let ?w = "([(''roles/r'', enc_role rotated_role), (''minter-sets/s'', enc_minter_set sample_set)], [])"
  have c: "complete_role rotated_role" by code_simp
  have n: "drName rotated_role = ''r''" "drMinterSet rotated_role = ''s''"
    by (simp_all add: rotated_role_def)
  show ?thesis
    using disable_is_complete_request [OF c, of "fake_backend [(''m1'', False, locked_machine)]"
        "fake_env epoch" ?w "enc_minter_set sample_set"]
    by (simp add: n fake_env_def fake_backend_def mem_kv_def)
qed

end
