(* ===== verification/DOWorld.thy ===== *)
theory DOWorld
  imports DOBackend
begin

text \<open>
  What the DigitalOcean plugin relies on from the outside, as one interface: the storage contract, a
  transport that leaves storage alone, storage that leaves the cloud alone, and a cloud in which a
  create adds the credential it returns, with an id of its own, and a delete removes nothing but what it
  names. \<open>alive\<close> is
  the set of upstream credentials, each a class and an id. The in-memory world provides it.
\<close>

locale do_world = kv_store "eKV env" view
  for env :: "'w env" and view :: "'w \<Rightarrow> string \<Rightarrow> blob option" +
  fixes alive :: "'w \<Rightarrow> (string \<times> string) set"
  assumes send_view: "hSend (eHttp env) w v url tok body = (w', r) \<Longrightarrow> view w' = view w"
    and put_alive: "kput (eKV env) w k b = (w', e) \<Longrightarrow> alive w' = alive w"
    and kdel_alive: "kdel (eKV env) w k = (w', e) \<Longrightarrow> alive w' = alive w"
    and create_token: "CreateToken (eHttp env) c name sc w = (w', st, rt) \<Longrightarrow>
      alive w \<subseteq> alive w' \<and> (\<forall>t. rt = Inr t \<longrightarrow> (credentialTypeToken, tokID t) \<notin> alive w
        \<and> alive w' = insert (credentialTypeToken, tokID t) (alive w))"
    and create_key: "CreateSpacesKey (eHttp env) c name gs w = (w', st, rk) \<Longrightarrow>
      alive w \<subseteq> alive w'
      \<and> (\<forall>k. rk = Inr k \<longrightarrow> (credentialTypeSpacesKey, skAccessKey k) \<notin> alive w
        \<and> alive w' = insert (credentialTypeSpacesKey, skAccessKey k) (alive w))"
    and delete_token: "DeleteToken (eHttp env) c i w = (w', st, e) \<Longrightarrow>
      alive w - {(credentialTypeToken, i)} \<subseteq> alive w' \<and> alive w' \<subseteq> alive w"
    and delete_key: "DeleteSpacesKey (eHttp env) c i w = (w', st, e) \<Longrightarrow>
      alive w - {(credentialTypeSpacesKey, i)} \<subseteq> alive w' \<and> alive w' \<subseteq> alive w"
begin

lemma CreateToken_view: "CreateToken (eHttp env) c name sc w = (w', st, r) \<Longrightarrow> view w' = view w"
  using send_view by (fastforce simp: CreateToken_def split: prod.splits sum.splits if_splits option.splits)

lemma CreateSpacesKey_view: "CreateSpacesKey (eHttp env) c name gs w = (w', st, r) \<Longrightarrow> view w' = view w"
  using send_view by (fastforce simp: CreateSpacesKey_def split: prod.splits sum.splits if_splits option.splits)

lemma DeleteToken_view: "DeleteToken (eHttp env) c i w = (w', st, r) \<Longrightarrow> view w' = view w"
  using send_view by (fastforce simp: DeleteToken_def split: prod.splits sum.splits if_splits)

lemma DeleteSpacesKey_view: "DeleteSpacesKey (eHttp env) c i w = (w', st, r) \<Longrightarrow> view w' = view w"
  using send_view by (fastforce simp: DeleteSpacesKey_def split: prod.splits sum.splits if_splits)

lemma ownerInstanceID_frame:
  assumes "ownerInstanceID env (b, w) = ((b', w'), r)"
  shows "alive w' = alive w" and "k \<noteq> storageKey \<Longrightarrow> view w' k = view w k"
  using ownerInstanceID_world [OF assms] put_alive put_frame by blast+

lemma credentialName_frame:
  assumes "credentialName env (b, w) rn suf = ((b', w'), r)"
  shows "alive w' = alive w" and "k \<noteq> storageKey \<Longrightarrow> view w' k = view w k"
proof -
  obtain b1 w1 r1 where o: "ownerInstanceID env (b, w) = ((b1, w1), r1)" by (metis surj_pair)
  then have "w' = w1" using assms by (cases r1) (auto simp: credentialName_def)
  then show "alive w' = alive w" and "k \<noteq> storageKey \<Longrightarrow> view w' k = view w k"
    using ownerInstanceID_frame [OF o] by auto
qed

end

section \<open>The in-memory world provides it\<close>

lemma suffix_segment:
  assumes "CHR ''/'' \<notin> set a" and "CHR ''/'' \<notin> set b" and "suffix (p @ ''/'' @ a) (q @ ''/'' @ b)"
  shows "a = b \<and> suffix p q"
proof -
  have last: "rev (takeWhile (\<lambda>c. c \<noteq> CHR ''/'') (rev (x @ ''/'' @ y))) = y"
    if "CHR ''/'' \<notin> set y" for x y
  proof -
    have "takeWhile (\<lambda>c. c \<noteq> CHR ''/'') (rev y @ CHR ''/'' # rev x) = rev y"
      using that by (subst takeWhile_append2) auto
    then show ?thesis by simp
  qed
  obtain z where z: "q @ ''/'' @ b = (z @ p) @ ''/'' @ a" using assms(3) by (auto simp: suffix_def)
  then have ab: "b = a" using last [OF assms(2), of q] last [OF assms(1), of "z @ p"] by metis
  with z have "q = z @ p" by simp
  then show ?thesis using ab by (simp add: suffix_def)
qed

lemma delete_path_names:
  assumes "cl \<in> {credentialTypeToken, credentialTypeSpacesKey}"
    and "suffix (delete_path cl' i') (u @ delete_path cl i)"
  shows "i' = i" and "cl' = credentialTypeToken \<longleftrightarrow> cl = credentialTypeToken"
proof -
  let ?p = "\<lambda>cl. if cl = credentialTypeToken then ''/v2/tokens'' else ''/v2/spaces/keys''"
  have d: "delete_path c x = ?p c @ ''/'' @ PathSegment x" for c x
    by (simp add: delete_path_def)
  have ns: "CHR ''/'' \<notin> set (PathSegment x)" for x
    using PathEscape_facts by (simp add: PathSegment_def)
  have s: "PathSegment i' = PathSegment i \<and> suffix (?p cl') (u @ ?p cl)"
    using suffix_segment [OF ns ns, of "?p cl'" i' "u @ ?p cl" i] assms(2) by (simp add: d)
  then show "i' = i" using PathEscape_facts by (simp add: PathSegment_def)
  show "cl' = credentialTypeToken \<longleftrightarrow> cl = credentialTypeToken"
  proof (rule ccontr)
    assume "(cl' = credentialTypeToken) \<noteq> (cl = credentialTypeToken)"
    then have "suffix ''/v2/tokens'' (u @ ''/v2/spaces/keys'') \<or> suffix ''/v2/spaces/keys'' (u @ ''/v2/tokens'')"
      using s by (auto split: if_splits)
    then show False
      by (auto simp: suffix_to_prefix simp del: append_assoc)
  qed
qed

lemma fake_send:
  "hSend (eHttp (fake_env t)) w POST url tok body =
     (let i = fresh_id (snd w);
          cl = (if HasSuffix url ''/v2/tokens'' then credentialTypeToken else credentialTypeSpacesKey)
      in ((fst w, snd w @ [(cl, i)]), Inr (201, Json (JObj
                    [(''token'', JObj [(''id'', JStr i), (''access_token'', JStr ''t'')]),
                     (''key'', JObj [(''access_key'', JStr i), (''secret_key'', JStr ''x'')])]))))"
  "hSend (eHttp (fake_env t)) w DELETE url tok body =
     ((fst w, strike url (snd w)), Inr (204, Raw []))"
  by (cases w; simp add: fake_env_def fake_http_def Let_def)+

lemma fake_CreateToken:
  "CreateToken (eHttp (fake_env t)) c name sc w =
     (let i = fresh_id (snd w)
      in ((fst w, snd w @ [(credentialTypeToken, i)]), 201,
          Inr \<lparr> tokID = i, tokName = [], tokAccess = ''t'', tokScopes = [] \<rparr>))"
proof -
  have "suffix ''/v2/tokens'' (u @ ''/v2/tokens'')" for u by (simp add: suffix_def)
  then show ?thesis
    by (simp add: CreateToken_def fake_send HasSuffix_def Let_def dec_body_def dec_object_def
        is_object_def dec_token_response_def opt_field_def dec_token_def)
qed

lemma fake_CreateSpacesKey:
  "CreateSpacesKey (eHttp (fake_env t)) c name gs w =
     (let i = fresh_id (snd w)
      in ((fst w, snd w @ [(credentialTypeSpacesKey, i)]), 201,
          Inr \<lparr> skName = [], skAccessKey = i, skSecretKey = ''x'', skGrants = [], skCreatedAt = JStr [] \<rparr>))"
proof -
  have "\<not> suffix ''/v2/tokens'' (u @ ''/v2/spaces/keys'')" for u
    by (simp add: suffix_to_prefix)
  then show ?thesis
    by (simp add: CreateSpacesKey_def fake_send HasSuffix_def Let_def dec_body_def dec_object_def
        is_object_def opt_field_def dec_key_def)
qed

lemma fake_DeleteToken:
  "DeleteToken (eHttp (fake_env t)) c i w =
     ((fst w, strike (baseURL c @ delete_path credentialTypeToken i) (snd w)), 204, None)"
  by (simp add: DeleteToken_def fake_send HasSuffix_def delete_path_def)

lemma fake_DeleteSpacesKey:
  "DeleteSpacesKey (eHttp (fake_env t)) c i w =
     ((fst w, strike (baseURL c @ delete_path credentialTypeSpacesKey i) (snd w)), 204, None)"
  by (simp add: DeleteSpacesKey_def fake_send HasSuffix_def delete_path_def credential_type_defs)

text \<open>The credentials of the in-memory cloud: every entry of one of the two classes, the others being struck off.\<close>

definition known_classes :: "fake_world \<Rightarrow> (string \<times> string) set" where
  "known_classes w = {(cl, i) \<in> set (snd w). cl \<in> {credentialTypeToken, credentialTypeSpacesKey}}"

lemma fresh_id_new: "(c, fresh_id u) \<notin> set u"
proof
  assume "(c, fresh_id u) \<in> set u"
  then have "length (fresh_id u) \<le> sum_list (map (length \<circ> snd) u)"
    using member_le_sum_list [of "length (fresh_id u)" "map (length \<circ> snd) u"] by force
  then show False by (simp add: fresh_id_def)
qed

lemma named_iff:
  assumes "c \<in> {credentialTypeToken, credentialTypeSpacesKey}"
    and "cl \<in> {credentialTypeToken, credentialTypeSpacesKey}"
  shows "suffix (delete_path c j) (u @ delete_path cl i) \<longleftrightarrow> c = cl \<and> j = i"
proof
  assume s: "suffix (delete_path c j) (u @ delete_path cl i)"
  have "j = i" "c = credentialTypeToken \<longleftrightarrow> cl = credentialTypeToken"
    using delete_path_names [OF assms(2) s] by auto
  then show "c = cl \<and> j = i" using assms by auto
qed (simp add: suffix_def)

lemma strike_mem:
  "(c, j) \<in> set (strike url u) \<longleftrightarrow>
     (\<exists>p \<in> set u. (c, j) = (if fst p \<in> {credentialTypeToken, credentialTypeSpacesKey}
        \<and> suffix (delete_path (fst p) (snd p)) url then (''gone-'' @ fst p, snd p) else p))"
  unfolding strike_def HasSuffix_def split_def set_map image_iff prod.collapse by (rule refl)

lemma gone_class: "''gone-'' @ x \<noteq> credentialTypeToken" "''gone-'' @ x \<noteq> credentialTypeSpacesKey"
  by (simp_all add: credential_type_defs)

lemma strike_known:
  assumes "c \<in> {credentialTypeToken, credentialTypeSpacesKey}"
  shows "(c, j) \<in> set (strike url u) \<longleftrightarrow> (c, j) \<in> set u \<and> \<not> suffix (delete_path c j) url"
proof -
  have "c \<noteq> ''gone-'' @ x" for x using assms gone_class by auto
  then show ?thesis using assms unfolding strike_mem by (metis fst_conv snd_conv)
qed

lemma strike_ever:
  assumes "c \<in> {credentialTypeToken, credentialTypeSpacesKey}"
  shows "(c, i) \<in> set (strike url u) \<or> (''gone-'' @ c, i) \<in> set (strike url u)
     \<longleftrightarrow> (c, i) \<in> set u \<or> (''gone-'' @ c, i) \<in> set u"
proof -
  have n: "''gone-'' @ c \<notin> {credentialTypeToken, credentialTypeSpacesKey}" using gone_class by auto
  have "(''gone-'' @ c, i) \<in> set (strike url u) \<longleftrightarrow>
      (''gone-'' @ c, i) \<in> set u \<or> (c, i) \<in> set u \<and> suffix (delete_path c i) url"
    (is "?l \<longleftrightarrow> ?r")
  proof
    assume ?l
    then obtain p where p: "p \<in> set u" "(''gone-'' @ c, i) = (if fst p \<in> {credentialTypeToken, credentialTypeSpacesKey}
        \<and> suffix (delete_path (fst p) (snd p)) url then (''gone-'' @ fst p, snd p) else p)"
      unfolding strike_mem by blast
    then show ?r by (cases p) (auto split: if_splits)
  next
    assume ?r
    then show ?l
    proof (elim disjE conjE)
      assume "(''gone-'' @ c, i) \<in> set u"
      then show ?l unfolding strike_mem using n by (intro bexI [of _ "(''gone-'' @ c, i)"]) simp_all
    next
      assume "(c, i) \<in> set u" "suffix (delete_path c i) url"
      then show ?l unfolding strike_mem using assms by (intro bexI [of _ "(c, i)"]) simp_all
    qed
  qed
  then show ?thesis using strike_known [OF assms] by blast
qed

lemma known_classes_delete:
  assumes "cl \<in> {credentialTypeToken, credentialTypeSpacesKey}"
    and "w' = (es, strike (u @ delete_path cl i) (snd w))"
  shows "known_classes w' = known_classes w - {(cl, i)}"
proof (rule set_eqI)
  fix x :: "string \<times> string"
  obtain c j where x: "x = (c, j)" by force
  show "x \<in> known_classes w' \<longleftrightarrow> x \<in> known_classes w - {(cl, i)}"
    using named_iff [OF _ assms(1), of c j u i] strike_known [of c j "u @ delete_path cl i" "snd w"]
    unfolding x known_classes_def assms(2)
    by (cases "c \<in> {credentialTypeToken, credentialTypeSpacesKey}") (simp, blast?)+
qed

interpretation fake: do_world "fake_env t" mem_view known_classes for t
proof (intro do_world.intro do_world_axioms.intro)
  show "kv_store (eKV (fake_env t)) mem_view"
    by (simp add: fake_env_def mem.kv_store_axioms)
next
  fix w w' :: fake_world and v url tok body r
  assume "hSend (eHttp (fake_env t)) w v url tok body = (w', r)"
  then show "mem_view w' = mem_view w"
    by (cases v) (auto simp: fake_send Let_def mem_view_def)
next
  fix w w' :: fake_world and k b e
  assume "kput (eKV (fake_env t)) w k b = (w', e)"
  then show "known_classes w' = known_classes w"
    by (cases w) (auto simp: fake_env_def mem_kv_def known_classes_def)
next
  fix w w' :: fake_world and k e
  assume "kdel (eKV (fake_env t)) w k = (w', e)"
  then show "known_classes w' = known_classes w"
    by (cases w) (auto simp: fake_env_def mem_kv_def known_classes_def)
next
  fix w w' :: fake_world and c name sc st rt
  assume "CreateToken (eHttp (fake_env t)) c name sc w = (w', st, rt)"
  then show "known_classes w \<subseteq> known_classes w'
      \<and> (\<forall>tk. rt = Inr tk \<longrightarrow> (credentialTypeToken, tokID tk) \<notin> known_classes w
        \<and> known_classes w' = insert (credentialTypeToken, tokID tk) (known_classes w))"
    by (auto simp: fake_CreateToken Let_def known_classes_def fresh_id_new)
next
  fix w w' :: fake_world and c name gs st rk
  assume "CreateSpacesKey (eHttp (fake_env t)) c name gs w = (w', st, rk)"
  then show "known_classes w \<subseteq> known_classes w'
      \<and> (\<forall>k. rk = Inr k \<longrightarrow> (credentialTypeSpacesKey, skAccessKey k) \<notin> known_classes w
        \<and> known_classes w' = insert (credentialTypeSpacesKey, skAccessKey k) (known_classes w))"
    by (auto simp: fake_CreateSpacesKey Let_def known_classes_def fresh_id_new)
next
  fix w w' :: fake_world and c i st e
  assume "DeleteToken (eHttp (fake_env t)) c i w = (w', st, e)"
  then have "known_classes w' = known_classes w - {(credentialTypeToken, i)}"
    by (intro known_classes_delete [where es = "fst w" and u = "baseURL c"])
      (simp_all add: fake_DeleteToken)
  then show "known_classes w - {(credentialTypeToken, i)} \<subseteq> known_classes w' \<and> known_classes w' \<subseteq> known_classes w"
    by blast
next
  fix w w' :: fake_world and c i st e
  assume "DeleteSpacesKey (eHttp (fake_env t)) c i w = (w', st, e)"
  then have "known_classes w' = known_classes w - {(credentialTypeSpacesKey, i)}"
    by (intro known_classes_delete [where es = "fst w" and u = "baseURL c"])
      (simp_all add: fake_DeleteSpacesKey)
  then show "known_classes w - {(credentialTypeSpacesKey, i)} \<subseteq> known_classes w' \<and> known_classes w' \<subseteq> known_classes w"
    by blast
qed

section \<open>A cloud that never reuses an id\<close>

text \<open>
  An id once issued names that credential for good: \<open>used\<close> are all that ever were, and obeys the same
  laws, so that what is new is new among all of them. What spans several requests, such as a record that
  still names a deleted key, needs this on top.
\<close>

locale do_history = do_world env view alive + ever: do_world env view used
  for env :: "'w env" and view :: "'w \<Rightarrow> string \<Rightarrow> blob option" and alive :: "'w \<Rightarrow> (string \<times> string) set"
    and used :: "'w \<Rightarrow> (string \<times> string) set" +
  assumes alive_used: "alive w \<subseteq> used w"
    and send_used: "hSend (eHttp env) w v url tok body = (w', r) \<Longrightarrow> used w \<subseteq> used w'"

definition known_ever :: "fake_world \<Rightarrow> (string \<times> string) set" where
  "known_ever w =
     {(c, i). c \<in> {credentialTypeToken, credentialTypeSpacesKey}
        \<and> ((c, i) \<in> set (snd w) \<or> (''gone-'' @ c, i) \<in> set (snd w))}"

lemma known_ever_strike: "known_ever (es, strike url (snd w)) = known_ever w"
proof (rule set_eqI)
  fix x :: "string \<times> string"
  obtain c i where x: "x = (c, i)" by force
  show "x \<in> known_ever (es, strike url (snd w)) \<longleftrightarrow> x \<in> known_ever w"
    unfolding x known_ever_def mem_Collect_eq prod.case snd_conv using strike_ever by blast
qed

interpretation ever: do_world "fake_env t" mem_view known_ever for t
proof (intro do_world.intro do_world_axioms.intro)
  show "kv_store (eKV (fake_env t)) mem_view" by (rule fake.kv_store_axioms)
next
  fix w w' :: fake_world and v url tok body r
  assume "hSend (eHttp (fake_env t)) w v url tok body = (w', r)"
  then show "mem_view w' = mem_view w" by (rule fake.send_view)
next
  fix w w' :: fake_world and k b e
  assume "kput (eKV (fake_env t)) w k b = (w', e)"
  then show "known_ever w' = known_ever w"
    by (cases w) (auto simp: fake_env_def mem_kv_def known_ever_def)
next
  fix w w' :: fake_world and k e
  assume "kdel (eKV (fake_env t)) w k = (w', e)"
  then show "known_ever w' = known_ever w"
    by (cases w) (auto simp: fake_env_def mem_kv_def known_ever_def)
next
  fix w w' :: fake_world and c name sc st rt
  assume "CreateToken (eHttp (fake_env t)) c name sc w = (w', st, rt)"
  then show "known_ever w \<subseteq> known_ever w'
      \<and> (\<forall>tk. rt = Inr tk \<longrightarrow> (credentialTypeToken, tokID tk) \<notin> known_ever w
        \<and> known_ever w' = insert (credentialTypeToken, tokID tk) (known_ever w))"
    using gone_class by (auto simp: fake_CreateToken Let_def known_ever_def fresh_id_new)
next
  fix w w' :: fake_world and c name gs st rk
  assume "CreateSpacesKey (eHttp (fake_env t)) c name gs w = (w', st, rk)"
  then show "known_ever w \<subseteq> known_ever w'
      \<and> (\<forall>k. rk = Inr k \<longrightarrow> (credentialTypeSpacesKey, skAccessKey k) \<notin> known_ever w
        \<and> known_ever w' = insert (credentialTypeSpacesKey, skAccessKey k) (known_ever w))"
    using gone_class by (auto simp: fake_CreateSpacesKey Let_def known_ever_def fresh_id_new)
next
  fix w w' :: fake_world and c i st e
  assume "DeleteToken (eHttp (fake_env t)) c i w = (w', st, e)"
  then have "known_ever w' = known_ever w"
    by (auto simp: fake_DeleteToken known_ever_strike)
  then show "known_ever w - {(credentialTypeToken, i)} \<subseteq> known_ever w' \<and> known_ever w' \<subseteq> known_ever w" by blast
next
  fix w w' :: fake_world and c i st e
  assume "DeleteSpacesKey (eHttp (fake_env t)) c i w = (w', st, e)"
  then have "known_ever w' = known_ever w"
    by (auto simp: fake_DeleteSpacesKey known_ever_strike)
  then show "known_ever w - {(credentialTypeSpacesKey, i)} \<subseteq> known_ever w' \<and> known_ever w' \<subseteq> known_ever w" by blast
qed

lemma known_ever_send:
  assumes "hSend (eHttp (fake_env t)) w v url tok body = (w', r)"
  shows "known_ever w \<subseteq> known_ever w'"
proof (cases v)
  case DELETE
  then have "w' = (fst w, strike url (snd w))" using assms by (simp add: fake_send)
  then show ?thesis by (simp add: known_ever_strike)
qed (use assms in \<open>auto simp: fake_send Let_def known_ever_def\<close>)

interpretation fake: do_history "fake_env t" mem_view known_classes known_ever for t
proof (intro do_history.intro do_history_axioms.intro fake.do_world_axioms ever.do_world_axioms)
  show "known_classes w \<subseteq> known_ever w" for w by (auto simp: known_classes_def known_ever_def)
qed (rule known_ever_send)

end
