(* ===== verification/DOSpaces.thy ===== *)
theory DOSpaces
  imports DOWorld
begin

text \<open>
  \<open>plugins/credential-do\<close>, the rotated Spaces type (\<open>spaces_shared.go\<close>, \<open>spaces_shared_creds.go\<close>,
  \<open>path_rotate_shared.go\<close>): one key per role, served to every reader, replaced on a schedule, and
  deleted when its overlap has elapsed. A role's lock makes decide-then-mint one step, so what several
  goroutines do to one role is a sequence of the functions below. The text of the log is not modelled.
\<close>

section \<open>The record of a role\<close>

record shared_key =
  shAccess :: string
  shSecret :: string
  shGrants :: "grant list"
  shMintedAt :: time
  shRotateAt :: time
  shSet :: string
  shMinter :: string

record retiring_key =
  rkAccess :: string
  rkSet :: string
  rkMinter :: string
  rkRetiredAt :: time
  rkDeleteAt :: time

record shared_state =
  Current :: "shared_key option"
  Retiring :: "retiring_key list"

definition no_state :: shared_state where
  "no_state = \<lparr> Current = None, Retiring = [] \<rparr>"

definition state_empty :: "shared_state \<Rightarrow> bool" where
  "state_empty s \<longleftrightarrow> Current s = None \<and> Retiring s = []"

definition forget :: "string \<Rightarrow> shared_state \<Rightarrow> bool \<times> shared_state" where
  "forget accessKey s =
     (let hit = (case Current s of None \<Rightarrow> False | Some k \<Rightarrow> shAccess k = accessKey);
          s = (if hit then s \<lparr> Current := None \<rparr> else s);
          kept = filter (\<lambda>r. rkAccess r \<noteq> accessKey) (Retiring s)
      in (hit \<or> length kept \<noteq> length (Retiring s), s \<lparr> Retiring := kept \<rparr>))"

definition sharedSpacesPrefix :: string where "sharedSpacesPrefix = ''shared-spaces-keys/''"
definition spacesTrackingPrefix :: string where "spacesTrackingPrefix = ''active-spaces-keys/''"

definition enc_shared_key :: "shared_key \<Rightarrow> json" where
  "enc_shared_key k =
     JObj [(''access_key'', JStr (shAccess k)), (''secret_key'', JStr (shSecret k)),
           (''grants'', JArr (map enc_grant (shGrants k))), (''minted_at'', JTime (shMintedAt k)),
           (''rotate_at'', JTime (shRotateAt k)), (''minter_set'', JStr (shSet k)),
           (''minter_id'', JStr (shMinter k))]"

definition dec_shared_key :: "json \<Rightarrow> shared_key option" where
  "dec_shared_key d =
     (if \<not> is_object d then None
      else case (opt_field [] dec_str d ''access_key'', opt_field [] dec_str d ''secret_key'',
                 opt_field [] (dec_list dec_grant) d ''grants'', opt_field 0 dec_time d ''minted_at'',
                 opt_field 0 dec_time d ''rotate_at'', opt_field [] dec_str d ''minter_set'',
                 opt_field [] dec_str d ''minter_id'') of
        (Some a, Some s, Some g, Some m, Some r, Some st, Some i) \<Rightarrow>
          Some \<lparr> shAccess = a, shSecret = s, shGrants = g, shMintedAt = m, shRotateAt = r, shSet = st,
                 shMinter = i \<rparr>
      | _ \<Rightarrow> None)"

definition enc_retiring :: "retiring_key \<Rightarrow> json" where
  "enc_retiring r =
     JObj [(''access_key'', JStr (rkAccess r)), (''minter_set'', JStr (rkSet r)),
           (''minter_id'', JStr (rkMinter r)), (''retired_at'', JTime (rkRetiredAt r)),
           (''delete_at'', JTime (rkDeleteAt r))]"

definition dec_retiring :: "json \<Rightarrow> retiring_key option" where
  "dec_retiring d =
     (if \<not> is_object d then None
      else case (opt_field [] dec_str d ''access_key'', opt_field [] dec_str d ''minter_set'',
                 opt_field [] dec_str d ''minter_id'', opt_field 0 dec_time d ''retired_at'',
                 opt_field 0 dec_time d ''delete_at'') of
        (Some a, Some s, Some i, Some t, Some x) \<Rightarrow>
          Some \<lparr> rkAccess = a, rkSet = s, rkMinter = i, rkRetiredAt = t, rkDeleteAt = x \<rparr>
      | _ \<Rightarrow> None)"

text \<open>A save stamps the schema version; an empty list and an absent key are left out.\<close>

definition enc_shared_state :: "shared_state \<Rightarrow> blob" where
  "enc_shared_state s =
     Json (JObj ([(''schema_version'', JInt SchemaVersion)]
       @ (case Current s of None \<Rightarrow> [] | Some k \<Rightarrow> [(''current'', enc_shared_key k)])
       @ (if Retiring s = [] then [] else [(''retiring'', JArr (map enc_retiring (Retiring s)))])))"

definition dec_shared_state :: "blob \<Rightarrow> (int \<times> shared_state) option" where
  "dec_shared_state b =
     dec_body (\<lambda>d.
       case (opt_field 0 dec_int d ''schema_version'',
             opt_field None (\<lambda>v. map_option Some (dec_shared_key v)) d ''current'',
             opt_field [] (dec_list dec_retiring) d ''retiring'') of
         (Some v, Some c, Some r) \<Rightarrow> Some (v, \<lparr> Current = c, Retiring = r \<rparr>)
       | _ \<Rightarrow> None) b"

definition loadSharedSpacesState :: "'w kv \<Rightarrow> 'w \<Rightarrow> string \<Rightarrow> err + shared_state" where
  "loadSharedSpacesState kv w rName =
     (case kget kv w (sharedSpacesPrefix @ rName) of
        Inl e \<Rightarrow> Inl e
      | Inr None \<Rightarrow> Inr no_state
      | Inr (Some v) \<Rightarrow>
          (case dec_shared_state v of
             None \<Rightarrow> Inl (Opaque ''parsing the shared key record'')
           | Some (schema, s) \<Rightarrow>
               if \<not> CheckSchema schema then Inl (Opaque ''newer schema'') else Inr s))"

definition saveSharedSpacesState :: "'w kv \<Rightarrow> 'w \<Rightarrow> string \<Rightarrow> shared_state \<Rightarrow> 'w \<times> err option" where
  "saveSharedSpacesState kv w rName s =
     (if state_empty s then kdel kv w (sharedSpacesPrefix @ rName)
      else kput kv w (sharedSpacesPrefix @ rName) (enc_shared_state s))"

definition forgetSharedSpacesKey :: "'w kv \<Rightarrow> 'w \<Rightarrow> string \<Rightarrow> string \<Rightarrow> 'w \<times> err option" where
  "forgetSharedSpacesKey kv w rName accessKey =
     (case loadSharedSpacesState kv w rName of
        Inl e \<Rightarrow> (w, Some (Wrap ''loading the shared key record: '' e))
      | Inr s \<Rightarrow>
          (case forget accessKey s of
             (False, _) \<Rightarrow> (w, None)
           | (True, s) \<Rightarrow> saveSharedSpacesState kv w rName s))"

section \<open>The schedule\<close>

definition scheduleRotation :: "rat \<Rightarrow> do_role \<Rightarrow> time \<Rightarrow> time" where
  "scheduleRotation j r now =
     (let period = RotationPeriod r;
          period = (if RotationJitter r > 0 then period - jitter j (RotationJitter r) else period)
      in now + period)"

definition dueAt :: "do_role \<Rightarrow> shared_key \<Rightarrow> time" where
  "dueAt r k =
     (let ceiling = shMintedAt k + RotationPeriod r
      in if shRotateAt k > ceiling then ceiling else shRotateAt k)"

definition deadline :: "do_role \<Rightarrow> shared_key \<Rightarrow> time" where
  "deadline r k = dueAt r k + OverlapTTL r"

definition servableUntil :: "do_role \<Rightarrow> shared_key \<Rightarrow> time" where
  "servableUntil r k =
     (let ceiling = shMintedAt k + RotationPeriod r
      in if deadline r k < ceiling then deadline r k else ceiling)"

datatype cause = causeNone | causeUnminted | causeGrants | causeAge | rotationReasonOperator

definition grantsMatch :: "grant list \<Rightarrow> grant list \<Rightarrow> bool" where
  "grantsMatch a b \<longleftrightarrow> sort (renderGrants a) = sort (renderGrants b)"

definition rotationReason :: "shared_state \<Rightarrow> do_role \<Rightarrow> time \<Rightarrow> cause" where
  "rotationReason s r now =
     (case Current s of
        None \<Rightarrow> causeUnminted
      | Some k \<Rightarrow>
          if \<not> grantsMatch (shGrants k) (Grants r) then causeGrants
          else if \<not> dueAt r k > now then causeAge
          else causeNone)"

section \<open>Rotation\<close>

text \<open>The record of one issued key under the tracking prefix.\<close>

definition trackSpacesKey ::
  "'w kv \<Rightarrow> 'w \<Rightarrow> caller option \<Rightarrow> string \<Rightarrow> string \<Rightarrow> string \<Rightarrow> time \<Rightarrow> lineage \<Rightarrow> 'w \<times> err option" where
  "trackSpacesKey kv w req rName minterID accessKey createdAt lin =
     kput kv w (spacesTrackingPrefix @ accessKey)
       (Json (JObj (StampLineage (StampIdentity
          [(''role'', JStr rName), (''minter'', JStr minterID), (''created'', JTimestamp createdAt)] req) lin)))"

definition retire :: "do_role \<Rightarrow> time \<Rightarrow> shared_key \<Rightarrow> retiring_key" where
  "retire r now k =
     \<lparr> rkAccess = shAccess k, rkSet = shSet k, rkMinter = shMinter k, rkRetiredAt = now,
       rkDeleteAt = now + OverlapTTL r \<rparr>"

definition next_state :: "rat \<Rightarrow> do_role \<Rightarrow> time \<Rightarrow> selected \<Rightarrow> spaces_key_info \<Rightarrow> shared_state \<Rightarrow> shared_state" where
  "next_state j r now sel key s =
     \<lparr> Current = Some
         \<lparr> shAccess = skAccessKey key, shSecret = skSecretKey key, shGrants = Grants r, shMintedAt = now,
           shRotateAt = scheduleRotation j r now, shSet = selSet sel, shMinter = selMinter sel \<rparr>,
       Retiring = Retiring s @ (case Current s of None \<Rightarrow> [] | Some k \<Rightarrow> [retire r now k]) \<rparr>"

definition rotateSharedSpacesKey ::
  "'w env \<Rightarrow> 'w st \<Rightarrow> do_role \<Rightarrow> string \<Rightarrow> shared_state \<Rightarrow> time \<Rightarrow> 'w st \<times> (code + shared_state)" where
  "rotateSharedSpacesKey env bw r rName s now =
     (case Capacity.Snapshot (eKV env) (snd bw) spacesTrackingPrefix (credentialLimitPerMinter (fst bw)) of
        Inl e \<Rightarrow> (bw, Inl ErrInternal)
      | Inr cap \<Rightarrow>
          (case selectMinter env bw (drMinterSet r) rName cap now of
             (bw, Inl c) \<Rightarrow> (bw, Inl c)
           | (bw, Inr sel) \<Rightarrow>
               (case credentialName env bw rName (''rot-'' @ eSuffix env (snd bw)) of
                  (bw, Inl c) \<Rightarrow> (bw, Inl c)
                | ((b, w), Inr keyName) \<Rightarrow>
                    (case CreateSpacesKey (eHttp env) (selClient sel) keyName (Grants r) w of
                       (w, status, Inl e) \<Rightarrow>
                         ((recordMinterError (eJitter env w) b (selSet sel) (selMinter sel) status e now, w),
                          Inl (Classify status (Some e)))
                     | (w, status, Inr key) \<Rightarrow>
                         (let b = recordMinterSuccess b (selSet sel) (selMinter sel) now;
                              undo = (\<lambda>w. fst (DeleteSpacesKey (eHttp env) (selClient sel) (skAccessKey key) w))
                          in case trackSpacesKey (eKV env) w None rName (selMinter sel) (skAccessKey key) now no_lineage of
                               (w, Some e) \<Rightarrow> ((b, undo w), Inl ErrInternal)
                             | (w, None) \<Rightarrow>
                                 (let s' = next_state (eJitter env w) r now sel key s
                                  in case saveSharedSpacesState (eKV env) w rName s' of
                                       (w, Some e) \<Rightarrow>
                                         ((b, undo (fst (kdel (eKV env) w (spacesTrackingPrefix @ skAccessKey key)))),
                                          Inl ErrInternal)
                                     | (w, None) \<Rightarrow> ((b, w), Inr s')))))))"

section \<open>Serving\<close>

definition buildSharedSpacesResponse :: "do_role \<Rightarrow> string \<Rightarrow> shared_key \<Rightarrow> time \<Rightarrow> lease" where
  "buildSharedSpacesResponse r rName k now =
     (let remaining = deadline r k - now;
          ttl = (if remaining < drDefaultTTL r then remaining else drDefaultTTL r)
      in \<lparr> lsEnvelope = ToMap (NewEnvelope
             \<lparr> pCloud = ''do'', pRole = rName,
               pCredential = [(''access_key_id'', JStr (shAccess k)), (''secret_access_key'', JStr (shSecret k)),
                              (''endpoint'', JStr (Endpoint r)), (''region'', JStr (Region r))],
               pExpiresAt = now + ttl, pTTLSeconds = seconds_of ttl, pRenewable = False,
               pCredentialID = shAccess k, pScope = join '','' (renderGrants (Grants r)),
               pScopeKind = ScopeKindGrants, pCredentialKind = KindS3Credentials,
               pIssuedBy = ''cloud-creds-do/v0.1'', pMinterSet = shSet k, pMinterID = shMinter k \<rparr>),
           lsInternal = [(''upstream_access_key'', shAccess k), (''role'', rName),
                         (''minter_set'', shSet k), (''minter_id'', shMinter k)],
           lsType = ''do_spaces_key_rotated'', lsTTL = ttl, lsMaxTTL = drMaxTTL r \<rparr>)"

definition serveOverdueKey :: "cause \<Rightarrow> shared_state \<Rightarrow> do_role \<Rightarrow> string \<Rightarrow> time \<Rightarrow> lease option" where
  "serveOverdueKey reason s r rName now =
     (if reason \<noteq> causeAge then None
      else case Current s of
        None \<Rightarrow> None
      | Some k \<Rightarrow>
          if \<not> now < servableUntil r k then None else Some (buildSharedSpacesResponse r rName k now))"

definition serve_current :: "do_role \<Rightarrow> string \<Rightarrow> shared_state \<Rightarrow> time \<Rightarrow> response" where
  "serve_current r rName s now =
     (case Current s of
        None \<Rightarrow> RespErr ErrInternal
      | Some k \<Rightarrow> RespLease (buildSharedSpacesResponse r rName k now))"

text \<open>The record is read without the lock, and again with it: \<open>between\<close> is what others do in the meantime.\<close>

definition serveSharedSpacesKey ::
  "'w env \<Rightarrow> ('w st \<Rightarrow> 'w st) \<Rightarrow> 'w st \<Rightarrow> do_role \<Rightarrow> string \<Rightarrow> 'w st \<times> response" where
  "serveSharedSpacesKey env between bw r rName =
     (let now = eNow env (snd bw)
      in case loadSharedSpacesState (eKV env) (snd bw) rName of
           Inl e \<Rightarrow> (bw, RespErr ErrInternal)
         | Inr s \<Rightarrow>
             if rotationReason s r now = causeNone then (bw, serve_current r rName s now)
             else
               let bw = between bw; now = eNow env (snd bw)
               in case loadSharedSpacesState (eKV env) (snd bw) rName of
                    Inl e \<Rightarrow> (bw, RespErr ErrInternal)
                  | Inr s \<Rightarrow>
                      (let reason = rotationReason s r now
                       in if reason = causeNone then (bw, serve_current r rName s now)
                          else case rotateSharedSpacesKey env bw r rName s now of
                            (bw, Inl c) \<Rightarrow>
                              (case serveOverdueKey reason s r rName now of
                                 Some l \<Rightarrow> (bw, RespLease l)
                               | None \<Rightarrow> (bw, RespErr c))
                          | (bw, Inr s') \<Rightarrow> (bw, serve_current r rName s' now)))"

definition pathSharedSpacesKeyRevoke :: "'w st \<Rightarrow> 'w st \<times> response" where
  "pathSharedSpacesKeyRevoke bw = (bw, RespNil)"

definition pathSharedSpacesRotate :: "'w env \<Rightarrow> 'w st \<Rightarrow> string \<Rightarrow> 'w st \<times> response" where
  "pathSharedSpacesRotate env bw rName =
     (case loadRole env (snd bw) rName of
        Inl c \<Rightarrow> (bw, RespErr c)
      | Inr r \<Rightarrow>
          if \<not> rotatesSharedKey r then (bw, RespErr ErrUnsupported)
          else
            let now = eNow env (snd bw)
            in case loadSharedSpacesState (eKV env) (snd bw) rName of
                 Inl e \<Rightarrow> (bw, RespErr ErrInternal)
               | Inr s \<Rightarrow>
                   (case rotateSharedSpacesKey env bw r rName s now of
                      (bw, Inl c) \<Rightarrow> (bw, RespErr c)
                    | (bw, Inr s') \<Rightarrow>
                        (bw,
                         case Current s' of
                           None \<Rightarrow> RespErr ErrInternal
                         | Some k \<Rightarrow>
                             RespData
                               [(''role'', JStr rName), (''access_key'', JStr (shAccess k)),
                                (''replaced_access_key'',
                                  JStr (case Current s of None \<Rightarrow> [] | Some old \<Rightarrow> shAccess old)),
                                (''replaced_deleted_at'',
                                  case Current s of None \<Rightarrow> JStr [] | Some _ \<Rightarrow> JTimestamp (now + OverlapTTL r)),
                                (''rotate_at'', JTimestamp (dueAt r k))])))"

section \<open>The sweep\<close>

definition deleteRetiredSpacesKey :: "'w env \<Rightarrow> 'w st \<Rightarrow> retiring_key \<Rightarrow> 'w st \<times> err option" where
  "deleteRetiredSpacesKey env bw rk =
     (case bw of
        (b, w) \<Rightarrow>
          (case (case getMinter b (rkSet rk) (rkMinter rk) of
                   Some c \<Rightarrow> Some c
                 | None \<Rightarrow> anyHealthyMinterInSet b (eNow env w) (rkSet rk)) of
             None \<Rightarrow> (bw, Some (Opaque ''no minter can delete the retired Spaces key''))
           | Some client \<Rightarrow>
               (case DeleteSpacesKey (eHttp env) client (rkAccess rk) w of
                  (w, status, e) \<Rightarrow>
                    if e \<noteq> None \<and> status \<noteq> 404 then
                      ((recordMinterError (eJitter env w) b (rkSet rk) (rkMinter rk) status (the e) (eNow env w), w),
                       Some (Wrap ''deleting the retired Spaces key: '' (the e)))
                    else
                      let b = recordMinterSuccess b (rkSet rk) (rkMinter rk) (eNow env w)
                      in case kdel (eKV env) w (spacesTrackingPrefix @ rkAccess rk) of
                           (w, Some e) \<Rightarrow> ((b, w), Some (Wrap ''removing the tracking record: '' e))
                         | (w, None) \<Rightarrow> ((b, w), None))))"

text \<open>The predicate \<open>slices.DeleteFunc\<close> runs over the retiring keys: those that stay, and how many failed.\<close>

fun sweep_retiring ::
  "'w env \<Rightarrow> time \<Rightarrow> 'w st \<Rightarrow> retiring_key list \<Rightarrow> 'w st \<times> retiring_key list \<times> err list" where
  "sweep_retiring env now bw [] = (bw, [], [])"
| "sweep_retiring env now bw (rk # rks) =
     (if rkDeleteAt rk > now then
        (case sweep_retiring env now bw rks of (bw, kept, errs) \<Rightarrow> (bw, rk # kept, errs))
      else case deleteRetiredSpacesKey env bw rk of
        (bw, Some e) \<Rightarrow>
          (case sweep_retiring env now bw rks of (bw, kept, errs) \<Rightarrow> (bw, rk # kept, e # errs))
      | (bw, None) \<Rightarrow> sweep_retiring env now bw rks)"

definition sweepOneRoleRetiredKeys :: "'w env \<Rightarrow> time \<Rightarrow> 'w st \<Rightarrow> string \<Rightarrow> 'w st \<times> err list" where
  "sweepOneRoleRetiredKeys env now bw rName =
     (case loadSharedSpacesState (eKV env) (snd bw) rName of
        Inl e \<Rightarrow> (bw, [Wrap ''loading the shared key record: '' e])
      | Inr s \<Rightarrow>
          (case sweep_retiring env now bw (Retiring s) of
             ((b, w), kept, errs) \<Rightarrow>
               if length kept \<noteq> length (Retiring s) then
                 (case saveSharedSpacesState (eKV env) w rName (s \<lparr> Retiring := kept \<rparr>) of
                    (w, Some e) \<Rightarrow> ((b, w), errs @ [Wrap ''saving the shared key record: '' e])
                  | (w, None) \<Rightarrow> ((b, w), errs))
               else ((b, w), errs)))"

fun sweep_roles :: "('w st \<Rightarrow> string \<Rightarrow> 'w st \<times> err list) \<Rightarrow> 'w st \<Rightarrow> string list \<Rightarrow> 'w st \<times> err list" where
  "sweep_roles f bw [] = (bw, [])"
| "sweep_roles f bw (n # ns) =
     (case f bw n of (bw, es) \<Rightarrow> (case sweep_roles f bw ns of (bw, es') \<Rightarrow> (bw, es @ es')))"

definition sweepRetiredSpacesKeys :: "'w env \<Rightarrow> time \<Rightarrow> 'w st \<Rightarrow> 'w st \<times> err list" where
  "sweepRetiredSpacesKeys env now bw =
     (case klist (eKV env) (snd bw) sharedSpacesPrefix of
        Inl e \<Rightarrow> (bw, [Wrap ''listing shared Spaces key records: '' e])
      | Inr names \<Rightarrow> sweep_roles (sweepOneRoleRetiredKeys env now) bw names)"

definition rotateRoleIfOverdue :: "'w env \<Rightarrow> time \<Rightarrow> 'w st \<Rightarrow> string \<Rightarrow> 'w st \<times> err list" where
  "rotateRoleIfOverdue env now bw rName =
     (case kget (eKV env) (snd bw) (rolesPrefix @ rName) of
        Inl e \<Rightarrow> (bw, [Wrap ''loading role: '' e])
      | Inr None \<Rightarrow> (bw, [])
      | Inr (Some v) \<Rightarrow>
          (case dec_role v of
             None \<Rightarrow> (bw, [Opaque ''parsing role''])
           | Some r \<Rightarrow>
               if \<not> rotatesSharedKey r \<or> drDisabled r then (bw, [])
               else case loadSharedSpacesState (eKV env) (snd bw) rName of
                 Inl e \<Rightarrow> (bw, [Wrap ''loading the shared key record: '' e])
               | Inr s \<Rightarrow>
                   if Current s = None then (bw, [])
                   else if rotationReason s r now = causeNone then (bw, [])
                   else case rotateSharedSpacesKey env bw r rName s now of
                     (bw, Inl c) \<Rightarrow> (bw, [Opaque (code_str c)])
                   | (bw, Inr _) \<Rightarrow> (bw, [])))"

definition rotateOverdueSpacesRoles :: "'w env \<Rightarrow> time \<Rightarrow> 'w st \<Rightarrow> 'w st \<times> err list" where
  "rotateOverdueSpacesRoles env now bw =
     (case klist (eKV env) (snd bw) rolesPrefix of
        Inl e \<Rightarrow> (bw, [Wrap ''listing roles: '' e])
      | Inr names \<Rightarrow>
          sweep_roles (\<lambda>bw n. if HasSuffix n ''/'' then (bw, []) else rotateRoleIfOverdue env now bw n) bw names)"

definition sweepSharedSpacesKeys :: "'w env \<Rightarrow> 'w st \<Rightarrow> 'w st \<times> err list" where
  "sweepSharedSpacesKeys env bw =
     (let now = eNow env (snd bw)
      in case sweepRetiredSpacesKeys env now bw of
           (bw, es) \<Rightarrow> (case rotateOverdueSpacesRoles env now bw of (bw, es') \<Rightarrow> (bw, es @ es')))"

section \<open>The stored record\<close>

lemma dec_enc_shared_key: "dec_shared_key (enc_shared_key k) = Some k"
  by (simp add: dec_shared_key_def enc_shared_key_def is_object_def opt_field_def dec_time_def
      dec_list_map)

lemma dec_enc_retiring: "dec_retiring (enc_retiring k) = Some k"
  by (simp add: dec_retiring_def enc_retiring_def is_object_def opt_field_def dec_time_def)

lemma dec_enc_shared_state: "dec_shared_state (enc_shared_state s) = Some (SchemaVersion, s)"
proof -
  obtain d where d: "enc_shared_state s = Json d" by (simp add: enc_shared_state_def)
  have f: "field d ''schema_version'' = Some (JInt SchemaVersion)"
    "field d ''current'' = map_option enc_shared_key (Current s)"
    "field d ''retiring'' =
       (if Retiring s = [] then None else Some (JArr (map enc_retiring (Retiring s))))"
    using d [symmetric] by (auto simp: enc_shared_state_def map_add_def split: option.split)
  have o: "is_object d" using d by (auto simp: enc_shared_state_def is_object_def)
  have "enc_shared_key k \<noteq> JNull" for k by (simp add: enc_shared_key_def)
  then have "opt_field None (\<lambda>v. map_option Some (dec_shared_key v)) d ''current'' = Some (Current s)"
    unfolding opt_field_cases f by (cases "Current s") (simp_all add: dec_enc_shared_key)
  moreover have "opt_field [] (dec_list dec_retiring) d ''retiring'' = Some (Retiring s)"
    unfolding opt_field_cases f by (simp add: dec_list_map dec_enc_retiring)
  moreover have "opt_field 0 dec_int d ''schema_version'' = Some SchemaVersion"
    unfolding opt_field_cases f by simp
  ultimately show ?thesis
    by (simp add: dec_shared_state_def d dec_body_def dec_object_def o)
qed

lemma load_saved:
  assumes "kget kv w (sharedSpacesPrefix @ rName) = Inr (Some (enc_shared_state s))"
  shows "loadSharedSpacesState kv w rName = Inr s"
  using assms by (simp add: loadSharedSpacesState_def dec_enc_shared_state CheckSchema_def)

section \<open>What a rotation does\<close>

lemma selectMinter_world: "selectMinter env (b, w) st key cap now = ((b', w'), r) \<Longrightarrow> w' = w"
  by (auto simp: selectMinter_def split: option.splits prod.splits bool.splits)

lemma rotate_minted [consumes 1, case_names refused untracked unsaved rotated]:
  assumes "rotateSharedSpacesKey env (b, w) r rName s now = ((b', w'), res)"
  obtains c where "res = Inl c"
      "w' = w \<or> (\<exists>bw b1 nr suf. credentialName env (b1, w) rName suf = (bw, nr) \<and> w' = snd bw)
       \<or> (\<exists>b1 b2 w1 nr suf cl nm st e. credentialName env (b1, w) rName suf = ((b2, w1), nr)
            \<and> CreateSpacesKey (eHttp env) cl nm (Grants r) w1 = (w', st, Inl e))"
  | b1 b2 w1 nr suf cl nm w2 st key mid w3 e where "res = Inl ErrInternal"
      "credentialName env (b1, w) rName suf = ((b2, w1), nr)"
      "CreateSpacesKey (eHttp env) cl nm (Grants r) w1 = (w2, st, Inr key)"
      "trackSpacesKey (eKV env) w2 None rName mid (skAccessKey key) now no_lineage = (w3, Some e)"
      "w' = fst (DeleteSpacesKey (eHttp env) cl (skAccessKey key) w3)"
  | b1 b2 w1 nr suf cl nm w2 st key mid w3 s' w4 e where "res = Inl ErrInternal"
      "credentialName env (b1, w) rName suf = ((b2, w1), nr)"
      "CreateSpacesKey (eHttp env) cl nm (Grants r) w1 = (w2, st, Inr key)"
      "trackSpacesKey (eKV env) w2 None rName mid (skAccessKey key) now no_lineage = (w3, None)"
      "saveSharedSpacesState (eKV env) w3 rName s' = (w4, Some e)"
      "w' = fst (DeleteSpacesKey (eHttp env) cl (skAccessKey key)
              (fst (kdel (eKV env) w4 (spacesTrackingPrefix @ skAccessKey key))))"
      "\<exists>j sel. s' = next_state j r now sel key s"
  | b1 b2 w1 nr suf cl nm w2 st key sel w3 where
      "credentialName env (b1, w) rName suf = ((b2, w1), nr)"
      "CreateSpacesKey (eHttp env) cl nm (Grants r) w1 = (w2, st, Inr key)"
      "trackSpacesKey (eKV env) w2 None rName (selMinter sel) (skAccessKey key) now no_lineage = (w3, None)"
      "res = Inr (next_state (eJitter env w3) r now sel key s)"
      "saveSharedSpacesState (eKV env) w3 rName (next_state (eJitter env w3) r now sel key s) = (w', None)"
proof -
  note rot = assms [unfolded rotateSharedSpacesKey_def]
  show thesis
  proof (cases "Capacity.Snapshot (eKV env) w spacesTrackingPrefix (credentialLimitPerMinter b)")
    case (Inl e)
    then show thesis using rot that(1) by auto
  next
    case cap: (Inr cap)
    obtain b1 w0 sr where sel: "selectMinter env (b, w) (drMinterSet r) rName cap now = ((b1, w0), sr)"
      by (metis surj_pair)
    then have w0: "w0 = w" by (rule selectMinter_world)
    show thesis
    proof (cases sr)
      case (Inl c)
      then show thesis using rot cap sel w0 that(1) by auto
    next
      case (Inr sl)
      let ?suf = "''rot-'' @ eSuffix env w"
      obtain b2 w1 nr where nm: "credentialName env (b1, w) rName ?suf = ((b2, w1), nr)"
        by (metis surj_pair)
      show thesis
      proof (cases nr)
        case (Inl c)
        then have "res = Inl c" "w' = w1" using rot cap sel w0 \<open>sr = Inr sl\<close> nm by auto
        moreover have "w1 = snd (b2, w1)" by simp
        ultimately show thesis using nm that(1) by blast
      next
        case name: (Inr keyName)
        obtain w2 st kr where cr:
          "CreateSpacesKey (eHttp env) (selClient sl) keyName (Grants r) w1 = (w2, st, kr)"
          by (metis surj_pair)
        show thesis
        proof (cases kr)
          case (Inl e)
          then have "res = Inl (Classify st (Some e))" "w' = w2"
            using rot cap sel w0 \<open>sr = Inr sl\<close> nm name cr by auto
          then show thesis using nm name cr Inl that(1) by blast
        next
          case key: (Inr key)
          obtain w3 te where tr:
            "trackSpacesKey (eKV env) w2 None rName (selMinter sl) (skAccessKey key) now no_lineage = (w3, te)"
            by (metis surj_pair)
          show thesis
          proof (cases te)
            case (Some e)
            then show thesis using rot cap sel w0 \<open>sr = Inr sl\<close> nm name cr key tr
              by (intro that(2) [OF _ nm cr [unfolded key]]) auto
          next
            case None
            let ?s' = "next_state (eJitter env w3) r now sl key s"
            obtain w4 se where sv: "saveSharedSpacesState (eKV env) w3 rName ?s' = (w4, se)"
              by (metis surj_pair)
            show thesis
            proof (cases se)
              case (Some e)
              then show thesis using rot cap sel w0 \<open>sr = Inr sl\<close> nm name cr key tr None sv
                by (intro that(3) [OF _ nm cr [unfolded key] tr [unfolded None] sv [unfolded Some]]) (auto simp: Let_def)
            next
              case saved: None
              then show thesis using rot cap sel w0 \<open>sr = Inr sl\<close> nm name cr key tr None sv
                by (intro that(4) [OF nm cr [unfolded key] tr [unfolded None]]) (auto simp: Let_def)
            qed
          qed
        qed
      qed
    qed
  qed
qed


section \<open>What a sweep does\<close>

text \<open>The upstream credentials a sweep at \<open>now\<close> may delete, and their tracking records.\<close>

definition elapsed :: "time \<Rightarrow> retiring_key list \<Rightarrow> string set" where
  "elapsed now rks = {rkAccess rk | rk. rk \<in> set rks \<and> rkDeleteAt rk \<le> now}"

lemma elapsed_Cons:
  "elapsed now (rk # rks) = (if rkDeleteAt rk \<le> now then insert (rkAccess rk) (elapsed now rks) else elapsed now rks)"
  by (auto simp: elapsed_def)

lemma sweep_retiring_kept:
  assumes "sweep_retiring env now bw rks = (bw', kept, errs)"
  shows "set kept \<subseteq> set rks" (is ?sub)
    and "filter (\<lambda>rk. now < rkDeleteAt rk) kept = filter (\<lambda>rk. now < rkDeleteAt rk) rks" (is ?due)
    and "errs = [] \<longrightarrow> kept = filter (\<lambda>rk. now < rkDeleteAt rk) rks" (is ?all)
proof -
  have "?sub \<and> ?due \<and> ?all"
    using assms
  proof (induction rks arbitrary: bw bw' kept errs)
    case Nil
    then show ?case by simp
  next
    case (Cons rk rks)
    obtain bw1 e where d: "(if now < rkDeleteAt rk then (bw, None) else deleteRetiredSpacesKey env bw rk) = (bw1, e)"
      by (metis surj_pair)
    obtain bw2 k2 e2 where r: "sweep_retiring env now bw1 rks = (bw2, k2, e2)" by (metis surj_pair)
    have "kept = (if now < rkDeleteAt rk \<or> e \<noteq> None then rk # k2 else k2)"
      "errs = (case e of None \<Rightarrow> e2 | Some x \<Rightarrow> x # e2)"
      using Cons.prems d r by (auto split: if_splits option.splits)
    then show ?case using Cons.IH [OF r] d by (auto split: if_splits option.splits)
  qed
  then show ?sub ?due ?all by blast+
qed

context do_world begin

lemma deleteRetired_frame:
  assumes "deleteRetiredSpacesKey env (b, w) rk = ((b', w'), e)"
  shows "alive w - {(credentialTypeSpacesKey, rkAccess rk)} \<subseteq> alive w' \<and> alive w' \<subseteq> alive w"
    and "k \<noteq> spacesTrackingPrefix @ rkAccess rk \<Longrightarrow> view w' k = view w k"
    and "e = None \<Longrightarrow> view w' (spacesTrackingPrefix @ rkAccess rk) = None"
    and "view w' k = Some v \<Longrightarrow> view w k = Some v"
proof -
  define cl where "cl = (case getMinter b (rkSet rk) (rkMinter rk) of Some c \<Rightarrow> Some c
      | None \<Rightarrow> anyHealthyMinterInSet b (eNow env w) (rkSet rk))"
  consider (none) "w' = w" "e \<noteq> None"
    | (sent) c w1 st r where "DeleteSpacesKey (eHttp env) c (rkAccess rk) w = (w1, st, r)"
        "w' = w1 \<and> e \<noteq> None \<or> kdel (eKV env) w1 (spacesTrackingPrefix @ rkAccess rk) = (w', None)
         \<or> e \<noteq> None \<and> (\<exists>x. kdel (eKV env) w1 (spacesTrackingPrefix @ rkAccess rk) = (w', x))"
  proof (cases cl)
    case None
    then have "w' = w" "e \<noteq> None" using assms
      by (auto simp: deleteRetiredSpacesKey_def cl_def [symmetric])
    then show thesis by (rule that(1))
  next
    case (Some c)
    obtain w1 st r where d: "DeleteSpacesKey (eHttp env) c (rkAccess rk) w = (w1, st, r)"
      by (metis surj_pair)
    show thesis
      by (rule that(2) [OF d], insert assms Some d)
         (auto simp: deleteRetiredSpacesKey_def cl_def [symmetric] Let_def split: if_splits prod.splits option.splits)
  qed
  note cs = this
  show "alive w - {(credentialTypeSpacesKey, rkAccess rk)} \<subseteq> alive w' \<and> alive w' \<subseteq> alive w"
    using cs by cases (simp, metis delete_key kdel_alive)
  show "k \<noteq> spacesTrackingPrefix @ rkAccess rk \<Longrightarrow> view w' k = view w k"
    using cs by cases (simp, metis DeleteSpacesKey_view del_frame)
  show "e = None \<Longrightarrow> view w' (spacesTrackingPrefix @ rkAccess rk) = None"
    using cs by cases (simp, metis del_ok fun_upd_same)
  show "view w' k = Some v \<Longrightarrow> view w k = Some v"
    using cs by cases (simp, metis DeleteSpacesKey_view del_sub)
qed

lemma sweep_retiring_frame:
  assumes "sweep_retiring env now (b, w) rks = ((b', w'), kept, errs)"
  shows "alive w - Pair credentialTypeSpacesKey ` elapsed now rks \<subseteq> alive w'" (is ?alive)
    and "alive w' \<subseteq> alive w" (is ?sub)
    and "\<forall>k. k \<notin> append spacesTrackingPrefix ` elapsed now rks \<longrightarrow> view w' k = view w k" (is ?frame)
    and "\<forall>k v. view w' k = Some v \<longrightarrow> view w k = Some v" (is ?old)
    and "errs = [] \<longrightarrow> (\<forall>i \<in> elapsed now rks. view w' (spacesTrackingPrefix @ i) = None)" (is ?gone)
proof -
  have "?alive \<and> ?sub \<and> ?frame \<and> ?old \<and> ?gone"
    using assms
  proof (induction rks arbitrary: b w b' w' kept errs)
    case Nil
    then show ?case by (simp add: elapsed_def)
  next
    case (Cons rk rks)
    show ?case
    proof (cases "now < rkDeleteAt rk")
      case True
      obtain b2 w2 k2 e2 where r: "sweep_retiring env now (b, w) rks = ((b2, w2), k2, e2)"
        by (metis surj_pair)
      have q: "w' = w2" "errs = e2" using Cons.prems True r by auto
      have el: "elapsed now (rk # rks) = elapsed now rks" using True by (simp add: elapsed_Cons)
      show ?thesis unfolding q el by (rule Cons.IH [OF r])
    next
      case False
      obtain b1 w1 e where d: "deleteRetiredSpacesKey env (b, w) rk = ((b1, w1), e)"
        by (metis surj_pair)
      obtain b2 w2 k2 e2 where r: "sweep_retiring env now (b1, w1) rks = ((b2, w2), k2, e2)"
        by (metis surj_pair)
      have q: "w' = w2" "errs = (case e of None \<Rightarrow> e2 | Some x \<Rightarrow> x # e2)"
        using Cons.prems False d r by (auto split: option.splits)
      note f = deleteRetired_frame [OF d] and ih = Cons.IH [OF r]
      have el: "elapsed now (rk # rks) = insert (rkAccess rk) (elapsed now rks)"
        using False by (simp add: elapsed_Cons)
      have "e = None \<and> e2 = []" if "errs = []" using that q(2) by (cases e) simp_all
      moreover have "view w2 (spacesTrackingPrefix @ rkAccess rk) = None" if "e = None"
        using f(3) [OF that] ih by (metis not_None_eq)
      ultimately have "errs = [] \<longrightarrow> (\<forall>i \<in> elapsed now (rk # rks). view w' (spacesTrackingPrefix @ i) = None)"
        unfolding el q(1) using ih by (metis insertE)
      moreover have "alive w - Pair credentialTypeSpacesKey ` elapsed now (rk # rks) \<subseteq> alive w' \<and> alive w' \<subseteq> alive w"
        unfolding el q(1) using f(1) ih by blast
      moreover have "view w' k = view w k" if "k \<notin> append spacesTrackingPrefix ` elapsed now (rk # rks)" for k
        unfolding q(1) using f(2) [of k] ih that unfolding el by (metis image_insert insertCI)
      moreover have "\<forall>k v. view w' k = Some v \<longrightarrow> view w k = Some v"
        unfolding q(1) using f(4) ih by blast
      ultimately show ?thesis by blast
    qed
  qed
  then show ?alive ?sub ?frame ?old ?gone by blast+
qed

lemma state_key_apart: "sharedSpacesPrefix @ n \<noteq> spacesTrackingPrefix @ i"
  by (simp add: sharedSpacesPrefix_def spacesTrackingPrefix_def)

lemma save_effect:
  assumes "saveSharedSpacesState (eKV env) w rName s = (w', e)"
  shows "alive w' = alive w" and "k \<noteq> sharedSpacesPrefix @ rName \<Longrightarrow> view w' k = view w k"
    and "e = None \<Longrightarrow> view w' (sharedSpacesPrefix @ rName) = (if state_empty s then None else Some (enc_shared_state s))"
  using assms put_alive kdel_alive put_frame del_frame put_ok del_ok
  unfolding saveSharedSpacesState_def by (metis fun_upd_same)+

lemma load_view:
  assumes "loadSharedSpacesState (eKV env) w rName = Inr s"
  shows "case view w (sharedSpacesPrefix @ rName) of
      None \<Rightarrow> s = no_state | Some v \<Rightarrow> \<exists>n. dec_shared_state v = Some (n, s)"
proof (cases "kget (eKV env) w (sharedSpacesPrefix @ rName)")
  case (Inr r)
  then show ?thesis using assms get_view [OF Inr]
    by (auto simp: loadSharedSpacesState_def split: option.splits if_splits)
qed (use assms in \<open>simp add: loadSharedSpacesState_def\<close>)

lemma load_same:
  assumes "loadSharedSpacesState (eKV env) w rName = Inr s" and "loadSharedSpacesState (eKV env) w' rName = Inr s'"
    and "view w' (sharedSpacesPrefix @ rName) = view w (sharedSpacesPrefix @ rName)"
  shows "s' = s"
  using load_view [OF assms(1)] load_view [OF assms(2)] assms(3) by (auto split: option.splits)

lemma load_after_save:
  assumes "saveSharedSpacesState (eKV env) w rName s = (w', None)"
    and "loadSharedSpacesState (eKV env) w' rName = Inr s'"
  shows "s' = s"
proof (cases "state_empty s")
  case True
  then show ?thesis using load_view [OF assms(2)] save_effect(3) [OF assms(1)]
    by (simp add: no_state_def state_empty_def)
next
  case False
  then show ?thesis using load_view [OF assms(2)] save_effect(3) [OF assms(1)]
    by (simp add: dec_enc_shared_state)
qed

lemma sweepOne_effect:
  assumes load: "loadSharedSpacesState (eKV env) w rName = Inr s"
    and sweep: "sweepOneRoleRetiredKeys env now (b, w) rName = ((b', w'), errs)"
  shows "alive w - Pair credentialTypeSpacesKey ` elapsed now (Retiring s) \<subseteq> alive w'"
    and "k \<noteq> sharedSpacesPrefix @ rName \<Longrightarrow> k \<notin> append spacesTrackingPrefix ` elapsed now (Retiring s)
         \<Longrightarrow> view w' k = view w k"
    and "errs = [] \<Longrightarrow> i \<in> elapsed now (Retiring s) \<Longrightarrow> view w' (spacesTrackingPrefix @ i) = None"
    and "errs = [] \<Longrightarrow> loadSharedSpacesState (eKV env) w' rName = Inr s' \<Longrightarrow>
         s' = s \<lparr> Retiring := filter (\<lambda>rk. now < rkDeleteAt rk) (Retiring s) \<rparr>"
proof -
  obtain b1 w1 kept es where sw: "sweep_retiring env now (b, w) (Retiring s) = ((b1, w1), kept, es)"
    by (metis surj_pair)
  obtain w2 e where sv: "saveSharedSpacesState (eKV env) w1 rName (s \<lparr> Retiring := kept \<rparr>) = (w2, e)"
    by (metis surj_pair)
  have cs: "if length kept = length (Retiring s) then w' = w1 \<and> errs = es
      else w' = w2 \<and> (errs = [] \<longrightarrow> e = None \<and> es = [])"
    using sweep load sw sv by (auto simp: sweepOneRoleRetiredKeys_def split: if_splits option.splits)
  note f = sweep_retiring_frame [OF sw] and sf = save_effect [OF sv]
  have al: "alive w' = alive w1" using cs sf(1) by (auto split: if_splits)
  then show "alive w - Pair credentialTypeSpacesKey ` elapsed now (Retiring s) \<subseteq> alive w'"
    using f(1) by simp
  have fr: "view w' k = view w1 k" if "k \<noteq> sharedSpacesPrefix @ rName" for k
    using cs sf(2) [OF that] by (auto split: if_splits)
  then show "k \<noteq> sharedSpacesPrefix @ rName \<Longrightarrow> k \<notin> append spacesTrackingPrefix ` elapsed now (Retiring s)
         \<Longrightarrow> view w' k = view w k"
    using f(3) by metis
  show "errs = [] \<Longrightarrow> i \<in> elapsed now (Retiring s) \<Longrightarrow> view w' (spacesTrackingPrefix @ i) = None"
    using f(5) fr [OF state_key_apart [symmetric], of i] cs by (auto split: if_splits)
  assume e: "errs = []" and l: "loadSharedSpacesState (eKV env) w' rName = Inr s'"
  have "es = []" using cs e by (simp split: if_splits)
  then have k: "kept = filter (\<lambda>rk. now < rkDeleteAt rk) (Retiring s)"
    using sweep_retiring_kept(3) [OF sw] by blast
  show "s' = s \<lparr> Retiring := filter (\<lambda>rk. now < rkDeleteAt rk) (Retiring s) \<rparr>"
  proof (cases "length kept = length (Retiring s)")
    case True
    have "sharedSpacesPrefix @ rName \<notin> append spacesTrackingPrefix ` elapsed now (Retiring s)"
      using state_key_apart by auto
    then have "s' = s" using load_same [OF load l] f(3) cs True by auto
    moreover have "kept = Retiring s"
      using True unfolding k by (metis filter_True length_filter_less less_irrefl)
    ultimately show ?thesis using k by simp
  next
    case False
    then show ?thesis using load_after_save [of w1 rName "s \<lparr> Retiring := kept \<rparr>" w' s'] sv l cs e k by simp
  qed
qed

end

text \<open>
  A sweep deletes what is due and loses track of nothing: of the upstream credentials, only Spaces
  keys the role's record lists as retiring with their deletion time reached can go; of the stored
  entries, only their tracking records and the role's own record can change; and if no error is
  reported, every key that was due is untracked, and the record lists exactly the keys not yet due.
\<close>
theorem sweep_only_elapsed:
  assumes "do_world env view alive" and "loadSharedSpacesState (eKV env) w rName = Inr s"
    and "sweepOneRoleRetiredKeys env now (b, w) rName = ((b', w'), errs)"
  shows "(\<forall>c \<in> alive w - alive w'. \<exists>rk \<in> set (Retiring s). rkDeleteAt rk \<le> now \<and> c = (''spaces_key'', rkAccess rk))
    \<and> (\<forall>k. view w' k \<noteq> view w k \<longrightarrow> k = ''shared-spaces-keys/'' @ rName
         \<or> (\<exists>rk \<in> set (Retiring s). rkDeleteAt rk \<le> now \<and> k = ''active-spaces-keys/'' @ rkAccess rk))
    \<and> (errs = [] \<longrightarrow> (\<forall>rk \<in> set (Retiring s). rkDeleteAt rk \<le> now \<longrightarrow> view w' (''active-spaces-keys/'' @ rkAccess rk) = None)
         \<and> (\<forall>s'. loadSharedSpacesState (eKV env) w' rName = Inr s' \<longrightarrow>
              s' = s \<lparr> Retiring := filter (\<lambda>rk. now < rkDeleteAt rk) (Retiring s) \<rparr>))"
proof -
  note e = do_world.sweepOne_effect [OF assms]
  have "(i \<in> elapsed now (Retiring s)) = (\<exists>rk \<in> set (Retiring s). rkDeleteAt rk \<le> now \<and> i = rkAccess rk)" for i
    by (auto simp: elapsed_def)
  note el = this and names = sharedSpacesPrefix_def spacesTrackingPrefix_def credentialTypeSpacesKey_def
  have 1: "\<exists>rk \<in> set (Retiring s). rkDeleteAt rk \<le> now \<and> c = (''spaces_key'', rkAccess rk)"
    if "c \<in> alive w - alive w'" for c
    using e(1) that el unfolding names by blast
  have 2: "k = ''shared-spaces-keys/'' @ rName
         \<or> (\<exists>rk \<in> set (Retiring s). rkDeleteAt rk \<le> now \<and> k = ''active-spaces-keys/'' @ rkAccess rk)"
    if "view w' k \<noteq> view w k" for k
    using e(2) [of k] that el unfolding names by blast
  have 3: "view w' (''active-spaces-keys/'' @ rkAccess rk) = None"
    if "errs = []" "rk \<in> set (Retiring s)" "rkDeleteAt rk \<le> now" for rk
    using e(3) [OF that(1), of "rkAccess rk"] that(2,3) el unfolding names by blast
  from 1 2 3 e(4) show ?thesis by blast
qed

definition two_retiring :: shared_state where
  "two_retiring =
     \<lparr> Current = Some \<lparr> shAccess = ''C'', shSecret = ''x'', shGrants = [\<lparr> Bucket = ''b'', Permission = ''read'' \<rparr>],
         shMintedAt = 8 * hour, shRotateAt = 16 * hour, shSet = ''s'', shMinter = ''m1'' \<rparr>,
       Retiring = [\<lparr> rkAccess = ''A'', rkSet = ''s'', rkMinter = ''m1'', rkRetiredAt = 1, rkDeleteAt = 9 * hour \<rparr>,
                   \<lparr> rkAccess = ''B'', rkSet = ''s'', rkMinter = ''m1'', rkRetiredAt = 2, rkDeleteAt = 11 * hour \<rparr>] \<rparr>"

definition retiring_world :: fake_world where
  "retiring_world =
     ([(''shared-spaces-keys/r'', enc_shared_state two_retiring), (''active-spaces-keys/A'', Raw []),
       (''active-spaces-keys/B'', Raw []), (''active-spaces-keys/C'', Raw [])],
      [(''spaces_key'', ''A''), (''spaces_key'', ''B''), (''spaces_key'', ''C'')])"

definition one_minter :: backend where
  "one_minter = fake_backend [(''m1'', False, sample_machine)]"

lemma retiring_load: "loadSharedSpacesState (eKV (fake_env t)) retiring_world ''r'' = Inr two_retiring"
  by (rule load_saved)
     (simp add: fake_env_def mem_kv_def retiring_world_def sharedSpacesPrefix_def)

theorem sweep_only_elapsed_witness:
  "\<exists>bw errs. sweepOneRoleRetiredKeys (fake_env (10 * hour)) (10 * hour) (one_minter, retiring_world) ''r'' = (bw, errs)
     \<and> errs = [] \<and> snd (snd bw) = [(''gone-spaces_key'', ''A''), (''spaces_key'', ''B''), (''spaces_key'', ''C'')]
     \<and> mem_view (snd bw) ''active-spaces-keys/A'' = None \<and> mem_view (snd bw) ''active-spaces-keys/B'' \<noteq> None"
proof -
  let ?e = "fake_env (10 * hour)"
  let ?r = "sweepOneRoleRetiredKeys ?e (10 * hour) (one_minter, retiring_world) ''r''"
  have v: "snd ?r = []" "snd (snd (fst ?r)) = [(''gone-spaces_key'', ''A''), (''spaces_key'', ''B''), (''spaces_key'', ''C'')]"
    by code_simp+
  obtain b' w' where r: "?r = ((b', w'), [])" using v(1) by (metis prod.collapse)
  note p = sweep_only_elapsed [OF fake.do_world_axioms retiring_load r]
  have "mem_view w' ''active-spaces-keys/A'' = None"
    using p by (simp add: two_retiring_def duration_defs)
  moreover have "mem_view w' ''active-spaces-keys/B'' = mem_view retiring_world ''active-spaces-keys/B''"
    using p by (auto simp: two_retiring_def duration_defs)
  moreover have "mem_view retiring_world ''active-spaces-keys/B'' = Some (Raw [])"
    by (simp add: mem_view_def retiring_world_def)
  ultimately show ?thesis using r v(2) by auto
qed

section \<open>Rotation keeps every key\<close>

context do_world begin

lemma track_effect:
  assumes "trackSpacesKey (eKV env) w req rName mid i now lin = (w', e)"
  shows "alive w' = alive w" and "k \<noteq> spacesTrackingPrefix @ i \<Longrightarrow> view w' k = view w k"
    and "e = None \<Longrightarrow> view w' (spacesTrackingPrefix @ i) \<noteq> None"
proof -
  note p = assms [unfolded trackSpacesKey_def]
  show "alive w' = alive w" by (rule put_alive [OF p])
  show "k \<noteq> spacesTrackingPrefix @ i \<Longrightarrow> view w' k = view w k" by (rule put_frame [OF p])
  show "view w' (spacesTrackingPrefix @ i) \<noteq> None" if "e = None"
    using put_ok [OF p [unfolded that]] by simp
qed

text \<open>
  Minted, then deleted again, with only storage operations in between: the key is gone, or the delete that
  undoes it was made and failed.
\<close>

lemma minted_undone:
  assumes "credentialName env (b, w) rName suf = (bw, nr)" and "snd bw = w1"
    and "CreateSpacesKey (eHttp env) cl nm gs w1 = (w2, st, Inr key)"
    and "alive w3 = alive w2" and "\<And>k. k \<notin> K \<Longrightarrow> view w3 k = view w2 k"
    and "w' = fst (DeleteSpacesKey (eHttp env) cl' (skAccessKey key) w3)"
  shows "alive w \<subseteq> alive w'"
    and "k \<noteq> storageKey \<Longrightarrow> k \<notin> K \<Longrightarrow> view w' k = view w k"
    and "\<exists>st e. DeleteSpacesKey (eHttp env) cl' (skAccessKey key) w3 = (w', st, e)
           \<and> alive w3 = insert (credentialTypeSpacesKey, skAccessKey key) (alive w)
           \<and> ((credentialTypeSpacesKey, skAccessKey key) \<notin> alive w' \<longrightarrow> alive w' = alive w)"
proof -
  have n: "credentialName env (b, w) rName suf = ((fst bw, w1), nr)" using assms(1,2) by auto
  obtain st' x where d: "DeleteSpacesKey (eHttp env) cl' (skAccessKey key) w3 = (w', st', x)"
    using assms(6) by (metis prod.collapse)
  have new: "(credentialTypeSpacesKey, skAccessKey key) \<notin> alive w1" using create_key [OF assms(3)] by simp
  note aw = credentialName_frame(1) [OF n]
  have w3: "alive w3 = insert (credentialTypeSpacesKey, skAccessKey key) (alive w)"
    using create_key [OF assms(3)] assms(4) aw by simp
  show sub: "alive w \<subseteq> alive w'" using w3 new aw delete_key [OF d] by blast
  have "alive w' = alive w" if "(credentialTypeSpacesKey, skAccessKey key) \<notin> alive w'"
    using that sub delete_key [OF d] unfolding w3 by blast
  then show "\<exists>st e. DeleteSpacesKey (eHttp env) cl' (skAccessKey key) w3 = (w', st, e)
           \<and> alive w3 = insert (credentialTypeSpacesKey, skAccessKey key) (alive w)
           \<and> ((credentialTypeSpacesKey, skAccessKey key) \<notin> alive w' \<longrightarrow> alive w' = alive w)"
    using d w3 by blast
  show "k \<noteq> storageKey \<Longrightarrow> k \<notin> K \<Longrightarrow> view w' k = view w k"
    using credentialName_frame(2) [OF n] CreateSpacesKey_view [OF assms(3)] assms(5) [of k]
      DeleteSpacesKey_view [OF d] by metis
qed

lemma rotate_effect:
  assumes rot: "rotateSharedSpacesKey env (b, w) r rName s now = ((b', w'), res)"
  shows "alive w \<subseteq> alive w' \<and> (\<exists>i.
     (\<forall>k. k \<notin> {storageKey, spacesTrackingPrefix @ i, sharedSpacesPrefix @ rName} \<longrightarrow> view w' k = view w k)
     \<and> (\<forall>s'. res = Inr s' \<longrightarrow> (\<exists>j sel key w0. s' = next_state j r now sel key s \<and> j = eJitter env w0
            \<and> skAccessKey key = i
            \<and> view w' (sharedSpacesPrefix @ rName) = Some (enc_shared_state s')
            \<and> view w' (spacesTrackingPrefix @ i) \<noteq> None))
     \<and> (\<forall>c. res = Inl c \<longrightarrow>
          (view w' (sharedSpacesPrefix @ rName) = view w (sharedSpacesPrefix @ rName)
           \<or> (\<exists>j sel key. skAccessKey key = i
                \<and> view w' (sharedSpacesPrefix @ rName) = Some (enc_shared_state (next_state j r now sel key s))))
          \<and> (alive w' = alive w
             \<or> (\<exists>cl nm v st e. CreateSpacesKey (eHttp env) cl nm (Grants r) v = (w', st, Inl e) \<and> alive v = alive w)
             \<or> (\<exists>cl v st e. DeleteSpacesKey (eHttp env) cl i v = (w', st, e)
                  \<and> alive v = insert (credentialTypeSpacesKey, i) (alive w)
                  \<and> ((credentialTypeSpacesKey, i) \<notin> alive w' \<longrightarrow> alive w' = alive w)))))"
  using rot
proof (cases rule: rotate_minted)
  case (refused c)
  have apart: "sharedSpacesPrefix @ rName \<noteq> storageKey" by (simp add: sharedSpacesPrefix_def storageKey_def)
  have "alive w \<subseteq> alive w' \<and> (\<forall>k. k \<noteq> storageKey \<longrightarrow> view w' k = view w k)
      \<and> (alive w' = alive w
         \<or> (\<exists>cl nm v st e. CreateSpacesKey (eHttp env) cl nm (Grants r) v = (w', st, Inl e) \<and> alive v = alive w))"
    using refused(2)
  proof (elim disjE exE conjE)
    fix bw b1 nr suf
    assume "credentialName env (b1, w) rName suf = (bw, nr)" "w' = snd bw"
    then have "credentialName env (b1, w) rName suf = ((fst bw, w'), nr)" by simp
    from credentialName_frame [OF this] show ?thesis by simp
  next
    fix b1 b2 w1 nr suf cl nm st e
    assume n: "credentialName env (b1, w) rName suf = ((b2, w1), nr)"
      and c: "CreateSpacesKey (eHttp env) cl nm (Grants r) w1 = (w', st, Inl e)"
    have "\<exists>cl nm v st e. CreateSpacesKey (eHttp env) cl nm (Grants r) v = (w', st, Inl e) \<and> alive v = alive w"
      using c credentialName_frame(1) [OF n] by (intro exI conjI)
    then show ?thesis using credentialName_frame [OF n] create_key [OF c] CreateSpacesKey_view [OF c] by simp
  qed simp
  then show ?thesis using refused(1) apart by auto
next
  case (untracked b1 b2 w1 nr suf cl nm w2 st key mid w3 e)
  let ?i = "skAccessKey key"
  note u = minted_undone [OF untracked(2) _ untracked(3), of w3 "{spacesTrackingPrefix @ ?i}" w' cl]
  note u = u [OF _ track_effect(1) [OF untracked(4)] track_effect(2) [OF untracked(4)] untracked(5)]
  have "alive w \<subseteq> alive w'"
    "\<And>k. k \<noteq> storageKey \<Longrightarrow> k \<noteq> spacesTrackingPrefix @ ?i \<Longrightarrow> view w' k = view w k"
    using u(1,2) by simp_all
  moreover have "view w' (sharedSpacesPrefix @ rName) = view w (sharedSpacesPrefix @ rName)"
    by (rule u(2)) (simp_all add: sharedSpacesPrefix_def spacesTrackingPrefix_def storageKey_def)
  moreover have "\<exists>cl v st e. DeleteSpacesKey (eHttp env) cl ?i v = (w', st, e)
      \<and> alive v = insert (credentialTypeSpacesKey, ?i) (alive w)
      \<and> ((credentialTypeSpacesKey, ?i) \<notin> alive w' \<longrightarrow> alive w' = alive w)"
    using u(3) by (intro exI [of _ cl] exI [of _ w3]) simp
  ultimately show ?thesis using untracked(1) by (intro conjI exI [of _ ?i]) simp_all
next
  case (unsaved b1 b2 w1 nr suf cl nm w2 st key mid w3 s' w4 e)
  let ?i = "skAccessKey key"
  let ?K = "{spacesTrackingPrefix @ ?i, sharedSpacesPrefix @ rName}"
  obtain w5 y where k: "kdel (eKV env) w4 (spacesTrackingPrefix @ ?i) = (w5, y)" by (metis surj_pair)
  have al: "alive w5 = alive w2" using kdel_alive [OF k] save_effect(1) [OF unsaved(5)] track_effect(1) [OF unsaved(4)]
    by simp
  have fr: "view w5 k = view w2 k" if "k \<notin> ?K" for k
    using that del_frame [OF k] save_effect(2) [OF unsaved(5)] track_effect(2) [OF unsaved(4)] by simp
  have w': "w' = fst (DeleteSpacesKey (eHttp env) cl ?i w5)" using unsaved(6) k by simp
  note u = minted_undone [OF unsaved(2) _ unsaved(3) al _ w', where K = ?K, simplified snd_conv, OF refl fr]
  have n: "credentialName env (b1, w) rName suf = ((b2, w1), nr)" by (rule unsaved(2))
  have sh: "view w' (sharedSpacesPrefix @ rName) = view w4 (sharedSpacesPrefix @ rName)"
    using DeleteSpacesKey_view w' del_frame [OF k state_key_apart] by (metis fst_conv surj_pair)
  have "view w3 (sharedSpacesPrefix @ rName) = view w (sharedSpacesPrefix @ rName)"
    using track_effect(2) [OF unsaved(4) state_key_apart] CreateSpacesKey_view [OF unsaved(3)]
      credentialName_frame(2) [OF n, of "sharedSpacesPrefix @ rName"]
    by (simp add: sharedSpacesPrefix_def storageKey_def)
  moreover have "\<not> state_empty s'" using unsaved(7) by (auto simp: state_empty_def next_state_def)
  then have "kput (eKV env) w3 (sharedSpacesPrefix @ rName) (enc_shared_state s') = (w4, Some e)
      \<or> (\<exists>x. kput (eKV env) w3 (sharedSpacesPrefix @ rName) (enc_shared_state s') = (w4, Some x))"
    using unsaved(5) by (auto simp: saveSharedSpacesState_def split: prod.splits option.splits)
  then have "view w4 = view w3 \<or> view w4 = (view w3)(sharedSpacesPrefix @ rName \<mapsto> enc_shared_state s')"
    using put_err by blast
  ultimately have "view w' (sharedSpacesPrefix @ rName) = view w (sharedSpacesPrefix @ rName)
      \<or> view w' (sharedSpacesPrefix @ rName) = Some (enc_shared_state s')"
    using sh by auto
  then have "view w' (sharedSpacesPrefix @ rName) = view w (sharedSpacesPrefix @ rName)
      \<or> (\<exists>j sel key'. skAccessKey key' = ?i
           \<and> view w' (sharedSpacesPrefix @ rName) = Some (enc_shared_state (next_state j r now sel key' s)))"
    using unsaved(7) by blast
  moreover have "\<exists>cl v st e. DeleteSpacesKey (eHttp env) cl ?i v = (w', st, e)
      \<and> alive v = insert (credentialTypeSpacesKey, ?i) (alive w)
      \<and> ((credentialTypeSpacesKey, ?i) \<notin> alive w' \<longrightarrow> alive w' = alive w)"
    using u(3) by (intro exI [of _ cl] exI [of _ w5]) simp
  moreover have "\<forall>k. k \<notin> {storageKey, spacesTrackingPrefix @ ?i, sharedSpacesPrefix @ rName} \<longrightarrow> view w' k = view w k"
    using u(2) by simp
  ultimately show ?thesis using unsaved(1) u(1) by (intro conjI exI [of _ ?i]) simp_all
next
  case (rotated b1 b2 w1 nr suf cl nm w2 st key sel w3)
  let ?i = "skAccessKey key"
  let ?s' = "next_state (eJitter env w3) r now sel key s"
  note n = credentialName_frame [OF rotated(1)]
  note t = track_effect(1,2) [OF rotated(3)]
  have tr: "view w3 (spacesTrackingPrefix @ ?i) \<noteq> None" using track_effect(3) [OF rotated(3)] by simp
  note sv = save_effect [OF rotated(5)]
  have ne: "\<not> state_empty ?s'" by (simp add: state_empty_def next_state_def)
  have v: "view w' (sharedSpacesPrefix @ rName) = Some (enc_shared_state ?s')" using sv(3) ne by simp
  have al: "alive w \<subseteq> alive w'"
    using n(1) t(1) sv(1) create_key [OF rotated(2)] by auto
  have fr: "view w' k = view w k"
    if "k \<notin> {storageKey, spacesTrackingPrefix @ ?i, sharedSpacesPrefix @ rName}" for k
    using that n(2) t(2) sv(2) CreateSpacesKey_view [OF rotated(2)] by simp
  have "view w' (spacesTrackingPrefix @ ?i) \<noteq> None"
    using sv(2) [OF state_key_apart [symmetric]] tr by simp
  then show ?thesis using al fr v rotated(4)
    by (intro conjI exI [of _ ?i]) auto
qed

end

text \<open>The state after a rotation to the key \<open>i\<close>: it is current, and the replaced key has joined the retiring ones.\<close>

definition rotated_to :: "do_role \<Rightarrow> time \<Rightarrow> shared_state \<Rightarrow> string \<Rightarrow> shared_state \<Rightarrow> bool" where
  "rotated_to r now s i s' \<longleftrightarrow>
     map_option shAccess (Current s') = Some i \<and> map_option shGrants (Current s') = Some (Grants r)
     \<and> Retiring s' = Retiring s @ (case Current s of None \<Rightarrow> []
          | Some k \<Rightarrow> [\<lparr> rkAccess = shAccess k, rkSet = shSet k, rkMinter = shMinter k, rkRetiredAt = now,
                        rkDeleteAt = now + OverlapTTL r \<rparr>])"

lemma rotated_to_next: "skAccessKey key = i \<Longrightarrow> rotated_to r now s i (next_state j r now sel key s)"
  by (simp add: rotated_to_def next_state_def retire_def split: option.splits)


lemma hours_nonneg: "0 \<le> 20 * hour"
  by (simp add: duration_defs)

lemma fake_capacity: "Capacity.Snapshot kv w pre (credentialLimitPerMinter one_minter) = Inr roomy"
  by (simp add: Capacity.Snapshot_def credentialLimitPerMinter_def one_minter_def fake_backend_def
      CredentialLimitPerMinter_def roomy_def)

lemma fake_select:
  assumes "0 \<le> now"
  obtains b' sel where "selectMinter (fake_env t) (one_minter, w) ''s'' key roomy now = ((b', w), Inr sel)"
    "bInstanceID b' = ''abcd''"
proof -
  have o: "OrderKeys (eSha256 (fake_env t)) (eDraw (fake_env t) w) key [(''m1'', x)] = [''m1'']" for x :: minter_state
    by (simp add: OrderKeys_def Order_def fake_env_def shuffle_ids_def)
  have acq: "TryAcquire now sample_machine = (True, sample_machine)"
    using assms by (simp add: TryAcquire_def sample_machine_def serviceable_def NewStateMachine_def)
  show thesis
    by (rule that)
       (simp add: acq selectMinter_def one_minter_def fake_backend_def o HasRoom_def Enforced_def roomy_def
         sample_minter_def update_machine_def)+
qed

lemma fake_rotate:
  assumes "0 \<le> now"
  shows "\<exists>bw s'. rotateSharedSpacesKey (fake_env t) (one_minter, w) rotated_role rName s now = (bw, Inr s')"
proof -
  obtain b' sel where sel: "selectMinter (fake_env t) (one_minter, w) ''s'' rName roomy now = ((b', w), Inr sel)"
    "bInstanceID b' = ''abcd''" using assms by (rule fake_select)
  have kv: "eKV (fake_env t) = mem_kv" by (simp add: fake_env_def)
  obtain es u where w: "w = (es, u)" by force
  show ?thesis
    using sel unfolding w
    by (simp add: rotateSharedSpacesKey_def fake_capacity rotated_role_def credentialName_def ownerInstanceID_def
        fake_CreateSpacesKey Let_def trackSpacesKey_def saveSharedSpacesState_def state_empty_def next_state_def
        kv mem_kv_def)
qed

lemma fake_delete_key_gone:
  assumes "DeleteSpacesKey (eHttp (fake_env t)) cl x v = (v', st, e)"
  shows "(''spaces_key'', x) \<notin> known_classes v'"
proof -
  have "known_classes v' = known_classes v - {(credentialTypeSpacesKey, x)}"
    by (rule known_classes_delete [where es = "fst v" and u = "baseURL cl"])
      (use assms in \<open>simp_all add: fake_DeleteSpacesKey\<close>)
  then show ?thesis by (simp add: credentialTypeSpacesKey_def)
qed


text \<open>
  A write that was made although the storage reports it as failed: the rotation deletes the key it has just
  minted, and the record of the role names that key as current, so readers are served a key that is gone.
\<close>

definition landing_env :: "fake_world env" where
  "landing_env = (fake_env 5) \<lparr> eKV := mem_kv \<lparr> kput := (\<lambda>w k v. case kput mem_kv w k v of
     (w', e) \<Rightarrow> (w', if prefix sharedSpacesPrefix k then Some (Opaque ''timeout'') else e)) \<rparr> \<rparr>"

lemma struck: "(credentialTypeSpacesKey, i) \<notin> set (strike (u @ delete_path credentialTypeSpacesKey i) es)"
  using strike_known [of credentialTypeSpacesKey i "u @ delete_path credentialTypeSpacesKey i" es] by (simp add: suffix_def)

theorem unsaved_rotation_names_deleted_key:
  "\<exists>bw s i. rotateSharedSpacesKey landing_env (one_minter, ([], [])) rotated_role ''r'' no_state 5 = (bw, Inl ErrInternal)
     \<and> loadSharedSpacesState (eKV landing_env) (snd bw) ''r'' = Inr s \<and> map_option shAccess (Current s) = Some i
     \<and> (credentialTypeSpacesKey, i) \<notin> set (snd (snd bw))"
proof -
  have fields: "eHttp landing_env = eHttp (fake_env 5)" "eSuffix landing_env = eSuffix (fake_env 5)"
    "eJitter landing_env = eJitter (fake_env 5)" "eNow landing_env = eNow (fake_env 5)"
    "eSha256 landing_env = eSha256 (fake_env 5)" "eDraw landing_env = eDraw (fake_env 5)"
    "kput (eKV landing_env) = (\<lambda>w k v. case kput mem_kv w k v of
     (w', e) \<Rightarrow> (w', if prefix sharedSpacesPrefix k then Some (Opaque ''timeout'') else e))"
    "kdel (eKV landing_env) = kdel mem_kv" "kget (eKV landing_env) = kget mem_kv"
    by (simp_all add: landing_env_def fake_env_def)
  have "selectMinter landing_env = selectMinter (fake_env 5)"
    unfolding fun_eq_iff selectMinter_def fields by simp
  moreover obtain b' sel where "selectMinter (fake_env 5) (one_minter, ([], [])) ''s'' ''r'' roomy 5 = ((b', ([], [])), Inr sel)"
    "bInstanceID b' = ''abcd''" using zero_le_numeral by (rule fake_select)
  ultimately show ?thesis
    by (simp add: fields rotateSharedSpacesKey_def fake_capacity rotated_role_def credentialName_def ownerInstanceID_def
        fake_CreateSpacesKey fake_DeleteSpacesKey Let_def trackSpacesKey_def saveSharedSpacesState_def state_empty_def next_state_def
        mem_kv_def sharedSpacesPrefix_def spacesTrackingPrefix_def loadSharedSpacesState_def dec_enc_shared_state CheckSchema_def struck)
qed

section \<open>A served key outlives its lease\<close>

lemma scheduled_within:
  assumes "lifecycle_ok (RotationPeriod r) (RotationJitter r) (OverlapTTL r) (drMaxTTL r)"
    and "0 \<le> j" and "j < 1"
  shows "now < scheduleRotation j r now" and "scheduleRotation j r now \<le> now + RotationPeriod r"
  using assms jitter_bounds [OF assms(2,3), of "RotationJitter r"]
  by (auto simp: scheduleRotation_def lifecycle_ok_def Let_def duration_defs)

lemma lease_ttl:
  "lsTTL (buildSharedSpacesResponse r rName k t) = min (deadline r k - t) (drDefaultTTL r)"
  by (simp add: buildSharedSpacesResponse_def Let_def min_def)

lemma rotated_state:
  assumes "rotateSharedSpacesKey env (b, w) r rName s now = (bw', Inr s')"
  obtains w0 sel key where "s' = next_state (eJitter env w0) r now sel key s"
proof -
  obtain b' w' where r: "rotateSharedSpacesKey env (b, w) r rName s now = ((b', w'), Inr s')"
    using assms by (metis surj_pair)
  then show thesis by (cases rule: rotate_minted) (auto intro: that)
qed

text \<open>What a read can answer with: the current key before it is due, one just minted, or an overdue one.\<close>

lemma served_cases:
  assumes "serveSharedSpacesKey env between (b, w) r rName = (bw', RespLease l)"
  obtains k t w0 where "l = buildSharedSpacesResponse r rName k t" "t \<in> {eNow env w, eNow env (snd (between (b, w)))}"
    "grantsMatch (shGrants k) (Grants r)"
    "t < dueAt r k \<or> shMintedAt k = t \<and> shRotateAt k = scheduleRotation (eJitter env w0) r t \<or> t < servableUntil r k"
proof -
  note result = that
  obtain b2 w2 where bt: "between (b, w) = (b2, w2)" by force
  define t where "t = eNow env w"
  define t2 where "t2 = eNow env w2"
  obtain s where s: "loadSharedSpacesState (eKV env) w rName = Inr s"
    using assms by (auto simp: serveSharedSpacesKey_def Let_def split: sum.splits)
  have current: thesis if none: "rotationReason s' r t' = causeNone"
      and served: "serve_current r rName s' t' = RespLease l" and clock: "t' \<in> {eNow env w, eNow env w2}" for s' t'
  proof -
    obtain k where k: "Current s' = Some k" "l = buildSharedSpacesResponse r rName k t'"
      using served by (auto simp: serve_current_def split: option.splits)
    then show thesis using none clock bt k
      by (intro result [of k t' w]) (auto simp: rotationReason_def split: if_splits)
  qed
  show thesis
  proof (cases "rotationReason s r t = causeNone")
    case True
    then show thesis using current [of s t] assms s
      by (auto simp: serveSharedSpacesKey_def Let_def t_def)
  next
    case False
    obtain s2 where s2: "loadSharedSpacesState (eKV env) w2 rName = Inr s2"
      using assms False s bt by (auto simp: serveSharedSpacesKey_def Let_def t_def split: sum.splits)
    show thesis
    proof (cases "rotationReason s2 r t2 = causeNone")
      case True
      then show thesis using current [of s2 t2] assms s s2 False bt
        by (auto simp: serveSharedSpacesKey_def Let_def t_def t2_def)
    next
      case due: False
      obtain bw3 x where rot: "rotateSharedSpacesKey env (b2, w2) r rName s2 t2 = (bw3, x)" by (metis surj_pair)
      show thesis
      proof (cases x)
        case (Inl c)
        then have "serveOverdueKey (rotationReason s2 r t2) s2 r rName t2 = Some l"
          using assms s s2 False due bt rot
          by (auto simp: serveSharedSpacesKey_def Let_def t_def t2_def split: option.splits)
        then obtain k where "Current s2 = Some k" "rotationReason s2 r t2 = causeAge" "t2 < servableUntil r k"
          "l = buildSharedSpacesResponse r rName k t2"
          by (auto simp: serveOverdueKey_def split: if_splits option.splits)
        then show thesis using bt t2_def
          by (intro result [of k t2 w]) (auto simp: rotationReason_def split: if_splits)
      next
        case (Inr s')
        have sc: "serve_current r rName s' t2 = RespLease l"
          using assms s s2 False due bt rot Inr
          by (auto simp: serveSharedSpacesKey_def Let_def t_def t2_def)
        obtain w0 sel key where "s' = next_state (eJitter env w0) r t2 sel key s2"
          using rot unfolding Inr by (rule rotated_state)
        then show thesis using sc bt t2_def
          by (intro result [of "the (Current s')" t2 w0]) (auto simp: next_state_def serve_current_def grantsMatch_def)
      qed
    qed
  qed
qed

text \<open>
  C24. No lease of a shared key outlives the key: whatever path a read takes (a key not yet due, one just
  minted, one that is overdue while the rotation fails), the lease is for a key with the role's grants,
  has a positive duration of at most the role's default, and, while the role keeps the overlap it has at
  the read, ends no later than the time a rotation from then on, by age, by changed grants or by an
  operator, schedules for the key's deletion. A role rewritten with a shorter overlap is outside the
  claim: \<open>shortened_overlap_outlived\<close> has a lease that outlives its key.
\<close>
theorem lease_within_key_life:
  assumes "serveSharedSpacesKey env between (b, w) r rName = (bw', RespLease l)"
    and "lifecycle_ok (RotationPeriod r) (RotationJitter r) (OverlapTTL r) (drMaxTTL r)"
    and "0 < drDefaultTTL r" and "drDefaultTTL r \<le> drMaxTTL r"
    and "\<forall>w. 0 \<le> eJitter env w \<and> eJitter env w < 1"
  shows "\<exists>k t. l = buildSharedSpacesResponse r rName k t \<and> t \<in> {eNow env w, eNow env (snd (between (b, w)))}
     \<and> grantsMatch (shGrants k) (Grants r) \<and> 0 < lsTTL l \<and> lsTTL l \<le> drDefaultTTL r
     \<and> (\<forall>t' \<ge> t. t + lsTTL l \<le> rkDeleteAt (retire r t' k))"
  using assms(1)
proof (cases rule: served_cases)
  case (1 k t w0)
  note life = assms(2) [unfolded lifecycle_ok_def]
  have "t < deadline r k"
    using 1(4)
  proof (elim disjE conjE)
    assume "t < dueAt r k"
    then show ?thesis using life by (simp add: deadline_def)
  next
    assume "shMintedAt k = t" "shRotateAt k = scheduleRotation (eJitter env w0) r t"
    then have "shMintedAt k < shRotateAt k" "t = shMintedAt k" using scheduled_within [OF assms(2)] assms(5) by auto
    then show ?thesis using life by (simp add: deadline_def dueAt_def Let_def)
  next
    assume "t < servableUntil r k"
    then show ?thesis by (simp add: servableUntil_def Let_def split: if_splits)
  qed
  then have ttl: "0 < lsTTL l" "lsTTL l \<le> drDefaultTTL r" using assms(3) by (simp_all add: 1(1) lease_ttl)
  have "t + lsTTL l \<le> rkDeleteAt (retire r t' k)" if "t \<le> t'" for t'
    using that life assms(4) ttl(2) by (simp add: retire_def)
  then show ?thesis using ttl 1(1-3) by blast
qed

definition served_role :: do_role where
  "served_role = rotated_role \<lparr> Grants := [\<lparr> Bucket = ''b'', Permission = ''read'' \<rparr>], RotationPeriod := 10 * hour,
     RotationJitter := hour \<rparr>"

lemma served_at_ten:
  "serveSharedSpacesKey (fake_env (10 * hour)) id (one_minter, retiring_world) served_role ''r''
     = ((one_minter, retiring_world), serve_current served_role ''r'' two_retiring (10 * hour))"
proof -
  have "rotationReason two_retiring served_role (10 * hour) = causeNone"
    by (simp add: rotationReason_def two_retiring_def grantsMatch_def dueAt_def served_role_def rotated_role_def
        duration_defs)
  then show ?thesis by (simp add: serveSharedSpacesKey_def retiring_load Let_def) (simp add: fake_env_def)
qed

theorem lease_within_key_life_witness:
  "\<exists>bw l. serveSharedSpacesKey (fake_env (10 * hour)) id (one_minter, retiring_world) served_role ''r'' = (bw, RespLease l)
     \<and> 0 < lsTTL l \<and> lsTTL l \<le> hour"
proof -
  let ?e = "fake_env (10 * hour)"
  obtain l where l: "serve_current served_role ''r'' two_retiring (10 * hour) = RespLease l"
    by (simp add: serve_current_def two_retiring_def)
  have life: "lifecycle_ok (RotationPeriod served_role) (RotationJitter served_role) (OverlapTTL served_role)
      (drMaxTTL served_role)" "0 < drDefaultTTL served_role" "drDefaultTTL served_role \<le> drMaxTTL served_role"
    and j: "\<forall>w. 0 \<le> eJitter ?e w \<and> eJitter ?e w < 1"
    by (simp_all add: lifecycle_ok_def served_role_def rotated_role_def duration_defs fake_env_def)
  have "0 < lsTTL l \<and> lsTTL l \<le> drDefaultTTL served_role"
    using lease_within_key_life [OF served_at_ten [unfolded l] life j] by blast
  then show ?thesis using served_at_ten l by (simp add: served_role_def rotated_role_def)
qed

text \<open>
  The bound is the role's at the time: a role rewritten with a shorter overlap, valid in itself, has a
  key deleted that an earlier lease still names.
\<close>

lemma shortened_overlap_outlived:
  "let long = served_role \<lparr> OverlapTTL := 2 * hour \<rparr>;
       short = served_role \<lparr> OverlapTTL := 30 * minute, drMaxTTL := 30 * minute, drDefaultTTL := 15 * minute \<rparr>;
       k = the (Current two_retiring);
       l = buildSharedSpacesResponse long ''r'' k (10 * hour)
   in lifecycle_ok (RotationPeriod short) (RotationJitter short) (OverlapTTL short) (drMaxTTL short)
      \<and> rkDeleteAt (retire short (10 * hour + minute) k) < 10 * hour + lsTTL l"
  by (simp add: Let_def lease_ttl lifecycle_ok_def served_role_def rotated_role_def retire_def deadline_def
      dueAt_def two_retiring_def duration_defs)

end
