(* ===== verification/DOIssue.thy ===== *)
theory DOIssue
  imports DOSpaces
begin

text \<open>
  \<open>plugins/credential-do\<close>, the credential read and the lease callbacks (\<open>path_creds.go\<close>,
  \<open>spaces_creds.go\<close>), and the health check (\<open>health_check.go\<close>). A read checks the caller before
  anything else, then serves one of three credential types. The identity store a request sees is
  part of the request. Metrics and the text of the log are not modelled.
\<close>

section \<open>Requests\<close>

record request =
  rqID :: string
  rqCaller :: "caller option"
  rqView :: "entity_store option"
  rqCredentialKind :: string
  rqShardKey :: "json option"

definition affinityKey :: "request \<Rightarrow> string" where
  "affinityKey req =
     KeyFromRequest
       (map_option (\<lambda>c. \<lparr> identity.ClientTokenAccessor = caller.ClientTokenAccessor c,
                         EntityID = caller.EntityID c \<rparr>) (rqCaller req))
       (rqShardKey req)"

definition activeTrackingPrefix :: string where "activeTrackingPrefix = ''active-tokens/''"

section \<open>Issuing a token\<close>

definition absentFrom :: "string list \<Rightarrow> string list \<Rightarrow> string list" where
  "absentFrom subject reference = filter (\<lambda>v. v \<notin> set reference) subject"

text \<open>What is reported about a grant that is not the request: what was not asked for, and what was withheld.\<close>

definition logGrantDifference :: "string list \<Rightarrow> string list \<Rightarrow> string list \<times> string list" where
  "logGrantDifference requested granted = (absentFrom granted requested, absentFrom requested granted)"

definition publishedScopes :: "string list \<Rightarrow> token \<Rightarrow> string list" where
  "publishedScopes requested tk = (if tokScopes tk = [] then requested else tokScopes tk)"

definition token_record :: "request \<Rightarrow> string \<Rightarrow> string \<Rightarrow> time \<Rightarrow> lineage \<Rightarrow> blob" where
  "token_record req rName minterID now lin =
     Json (JObj (StampLineage (StampIdentity
       [(''role'', JStr rName), (''minter'', JStr minterID), (''created'', JTimestamp now)] (rqCaller req)) lin))"

definition buildCredsResponse ::
  "'w env \<Rightarrow> 'w st \<Rightarrow> request \<Rightarrow> do_role \<Rightarrow> string \<Rightarrow> selected \<Rightarrow> token \<Rightarrow> time \<Rightarrow> lineage \<Rightarrow> 'w st \<times> response" where
  "buildCredsResponse env bw req r rName sel tk now lin =
     (let scopes = publishedScopes (drScopes r) tk;
          envl = NewEnvelope
             \<lparr> pCloud = ''do'', pRole = rName,
               pCredential = [(''token'', JStr (tokAccess tk)), (''scopes'', JArr (map JStr scopes))],
               pExpiresAt = now + drDefaultTTL r, pTTLSeconds = seconds_of (drDefaultTTL r), pRenewable = True,
               pCredentialID = tokID tk, pScope = join '','' scopes, pScopeKind = ScopeKindScopes,
               pCredentialKind = credentialKindFor (credentialType r), pIssuedBy = ''cloud-creds-do/v0.1'',
               pMinterSet = selSet sel, pMinterID = selMinter sel \<rparr>
      in case bw of
           (b, w) \<Rightarrow>
             (case kput (eKV env) w (activeTrackingPrefix @ tokID tk)
                     (token_record req rName (selMinter sel) now lin) of
                (w, Some e) \<Rightarrow>
                  ((b, fst (DeleteToken (eHttp env) (selClient sel) (tokID tk) w)), RespErr ErrInternal)
              | (w, None) \<Rightarrow>
                  ((b, w),
                   RespLease
                     \<lparr> lsEnvelope = ToMap envl,
                       lsInternal = [(''upstream_token_id'', tokID tk), (''role'', rName),
                                     (''minter_set'', selSet sel), (''minter_id'', selMinter sel)],
                       lsType = ''do_token'', lsTTL = drDefaultTTL r, lsMaxTTL = drMaxTTL r \<rparr>)))"

text \<open>The rest of the read for a role that issues tokens.\<close>

definition issueToken ::
  "'w env \<Rightarrow> 'w st \<Rightarrow> request \<Rightarrow> do_role \<Rightarrow> string \<Rightarrow> lineage \<Rightarrow> 'w st \<times> response" where
  "issueToken env bw req r rName lin =
     (let now = eNow env (snd bw)
      in case Capacity.Snapshot (eKV env) (snd bw) activeTrackingPrefix (credentialLimitPerMinter (fst bw)) of
           Inl e \<Rightarrow> (bw, RespErr ErrInternal)
         | Inr cap \<Rightarrow>
             (case selectMinter env bw (drMinterSet r) (affinityKey req) cap now of
                (bw, Inl c) \<Rightarrow> (bw, RespErr c)
              | (bw, Inr sel) \<Rightarrow>
                  (case credentialName env bw rName (rqID req) of
                     (bw, Inl c) \<Rightarrow> (bw, RespErr c)
                   | ((b, w), Inr name) \<Rightarrow>
                       (case CreateToken (eHttp env) (selClient sel) name (drScopes r) w of
                          (w, status, Inl e) \<Rightarrow>
                            ((recordMinterError (eJitter env w) b (selSet sel) (selMinter sel) status e now, w),
                             RespErr (Classify status (Some e)))
                        | (w, status, Inr tk) \<Rightarrow>
                            buildCredsResponse env
                              (recordMinterSuccess b (selSet sel) (selMinter sel) now, w)
                              req r rName sel tk now lin))))"

section \<open>Issuing a Spaces key\<close>

definition buildSpacesResponse ::
  "'w env \<Rightarrow> 'w st \<Rightarrow> request \<Rightarrow> do_role \<Rightarrow> string \<Rightarrow> selected \<Rightarrow> spaces_key_info \<Rightarrow> time \<Rightarrow> lineage \<Rightarrow> 'w st \<times> response" where
  "buildSpacesResponse env bw req r rName sel key now lin =
     (let envl = NewEnvelope
             \<lparr> pCloud = ''do'', pRole = rName,
               pCredential = [(''access_key_id'', JStr (skAccessKey key)), (''secret_access_key'', JStr (skSecretKey key)),
                              (''endpoint'', JStr (Endpoint r)), (''region'', JStr (Region r))],
               pExpiresAt = now + drDefaultTTL r, pTTLSeconds = seconds_of (drDefaultTTL r), pRenewable = True,
               pCredentialID = skAccessKey key, pScope = join '','' (renderGrants (Grants r)),
               pScopeKind = ScopeKindGrants, pCredentialKind = KindS3Credentials, pIssuedBy = ''cloud-creds-do/v0.1'',
               pMinterSet = selSet sel, pMinterID = selMinter sel \<rparr>
      in case bw of
           (b, w) \<Rightarrow>
             (case trackSpacesKey (eKV env) w (rqCaller req) rName (selMinter sel) (skAccessKey key) now lin of
                (w, Some e) \<Rightarrow>
                  ((b, fst (DeleteSpacesKey (eHttp env) (selClient sel) (skAccessKey key) w)), RespErr ErrInternal)
              | (w, None) \<Rightarrow>
                  ((b, w),
                   RespLease
                     \<lparr> lsEnvelope = ToMap envl,
                       lsInternal = [(''upstream_access_key'', skAccessKey key), (''role'', rName),
                                     (''minter_set'', selSet sel), (''minter_id'', selMinter sel)],
                       lsType = ''do_spaces_key'', lsTTL = drDefaultTTL r, lsMaxTTL = drMaxTTL r \<rparr>)))"

definition issueSpacesKey ::
  "'w env \<Rightarrow> 'w st \<Rightarrow> request \<Rightarrow> do_role \<Rightarrow> string \<Rightarrow> lineage \<Rightarrow> 'w st \<times> response" where
  "issueSpacesKey env bw req r rName lin =
     (let now = eNow env (snd bw)
      in case Capacity.Snapshot (eKV env) (snd bw) spacesTrackingPrefix (credentialLimitPerMinter (fst bw)) of
           Inl e \<Rightarrow> (bw, RespErr ErrInternal)
         | Inr cap \<Rightarrow>
             (case selectMinter env bw (drMinterSet r) (affinityKey req) cap now of
                (bw, Inl c) \<Rightarrow> (bw, RespErr c)
              | (bw, Inr sel) \<Rightarrow>
                  (case credentialName env bw rName (rqID req) of
                     (bw, Inl c) \<Rightarrow> (bw, RespErr c)
                   | ((b, w), Inr name) \<Rightarrow>
                       (case CreateSpacesKey (eHttp env) (selClient sel) name (Grants r) w of
                          (w, status, Inl e) \<Rightarrow>
                            ((recordMinterError (eJitter env w) b (selSet sel) (selMinter sel) status e now, w),
                             RespErr (Classify status (Some e)))
                        | (w, status, Inr key) \<Rightarrow>
                            buildSpacesResponse env
                              (recordMinterSuccess b (selSet sel) (selMinter sel) now, w)
                              req r rName sel key now lin))))"

section \<open>The read\<close>

text \<open>\<open>between\<close> is what others do to the mount while a read of a rotated role waits for the role's lock.\<close>

definition pathCredsRead ::
  "'w env \<Rightarrow> ('w st \<Rightarrow> 'w st) \<Rightarrow> 'w st \<Rightarrow> request \<Rightarrow> string \<Rightarrow> 'w st \<times> response" where
  "pathCredsRead env between bw req rName =
     (case loadRole env (snd bw) rName of
        Inl c \<Rightarrow> (bw, RespErr c)
      | Inr r \<Rightarrow>
          (case EnforceIdentity (rqCaller req) (RequireCallerIdentity r) of
             Some c \<Rightarrow> (bw, RespErr c)
           | None \<Rightarrow>
               (case EnforceLineage (rqCaller req) (rqView req) (RequireCallerLineage r) of
                  (_, Some c) \<Rightarrow> (bw, RespErr c)
                | (lin, None) \<Rightarrow>
                    (case RequireCredentialKind (rqCredentialKind req) (credentialKindFor (credentialType r)) of
                       Some c \<Rightarrow> (bw, RespErr c)
                     | None \<Rightarrow>
                         if rotatesSharedKey r then serveSharedSpacesKey env between bw r rName
                         else if issuesSpacesKey r then issueSpacesKey env bw req r rName lin
                         else issueToken env bw req r rName lin))))"

section \<open>Revoking and renewing a lease\<close>

text \<open>The internal data of a lease, as the core stored it; a field that is absent or no string reads as empty.\<close>

definition internal_str :: "(string \<times> json) list \<Rightarrow> string \<Rightarrow> string" where
  "internal_str d k = (case map_of d k of Some (JStr s) \<Rightarrow> s | _ \<Rightarrow> [])"

text \<open>Both revocations have one shape: the client that may delete, the delete, then the tracking record.\<close>

definition revoke_client :: "'w env \<Rightarrow> 'w st \<Rightarrow> string \<Rightarrow> string \<Rightarrow> do_client option" where
  "revoke_client env bw minterSet minterID =
     (case getMinter (fst bw) minterSet minterID of
        Some c \<Rightarrow> Some c
      | None \<Rightarrow> anyHealthyMinterInSet (fst bw) (eNow env (snd bw)) minterSet)"

definition pathCredsRevoke :: "'w env \<Rightarrow> 'w st \<Rightarrow> (string \<times> json) list \<Rightarrow> 'w st \<times> code option" where
  "pathCredsRevoke env bw internal =
     (let tokenID = internal_str internal ''upstream_token_id'';
          minterSet = internal_str internal ''minter_set'';
          minterID = internal_str internal ''minter_id''
      in if tokenID = [] then (bw, None)
         else case revoke_client env bw minterSet minterID of
           None \<Rightarrow> ((fst bw, fst (kdel (eKV env) (snd bw) (activeTrackingPrefix @ tokenID))), None)
         | Some client \<Rightarrow>
             (let now = eNow env (snd bw)
              in case DeleteToken (eHttp env) client tokenID (snd bw) of
                   (w, status, e) \<Rightarrow>
                     if e \<noteq> None \<and> status \<noteq> 404 then
                       ((recordMinterError (eJitter env w) (fst bw) minterSet minterID status (the e) now, w),
                        Some ErrLeaseRevokeFailed)
                     else
                       ((recordMinterSuccess (fst bw) minterSet minterID now,
                         fst (kdel (eKV env) w (activeTrackingPrefix @ tokenID))), None)))"

definition pathSpacesKeyRevoke :: "'w env \<Rightarrow> 'w st \<Rightarrow> (string \<times> json) list \<Rightarrow> 'w st \<times> code option" where
  "pathSpacesKeyRevoke env bw internal =
     (let accessKey = internal_str internal ''upstream_access_key'';
          minterSet = internal_str internal ''minter_set'';
          minterID = internal_str internal ''minter_id''
      in if accessKey = [] then (bw, None)
         else case revoke_client env bw minterSet minterID of
           None \<Rightarrow> ((fst bw, fst (kdel (eKV env) (snd bw) (spacesTrackingPrefix @ accessKey))), None)
         | Some client \<Rightarrow>
             (let now = eNow env (snd bw)
              in case DeleteSpacesKey (eHttp env) client accessKey (snd bw) of
                   (w, status, e) \<Rightarrow>
                     if e \<noteq> None \<and> status \<noteq> 404 then
                       ((recordMinterError (eJitter env w) (fst bw) minterSet minterID status (the e) now, w),
                        Some ErrLeaseRevokeFailed)
                     else
                       ((recordMinterSuccess (fst bw) minterSet minterID now,
                         fst (kdel (eKV env) w (spacesTrackingPrefix @ accessKey))), None)))"

text \<open>A lease is revoked by the callback of its secret type; a shared key's lease owns nothing upstream.\<close>

definition revoke_lease :: "'w env \<Rightarrow> 'w st \<Rightarrow> string \<Rightarrow> (string \<times> json) list \<Rightarrow> 'w st \<times> code option" where
  "revoke_lease env bw ty internal =
     (if ty = ''do_token'' then pathCredsRevoke env bw internal
      else if ty = ''do_spaces_key'' then pathSpacesKeyRevoke env bw internal
      else (fst (pathSharedSpacesKeyRevoke bw), None))"

definition pathCredsRenew :: "lease \<Rightarrow> response" where
  "pathCredsRenew l = RespLease l"

section \<open>The health check\<close>

definition health_probes :: "backend \<Rightarrow> time \<Rightarrow> (string \<times> string \<times> string) list" where
  "health_probes b now =
     concat (map (\<lambda>(s, states).
       map (\<lambda>(i, ms). (s, i, Token (msMinter ms))) (filter (\<lambda>(i, ms). NeedsHealthCheck now (msSM ms)) states)) (bSets b))"

definition health_step :: "'w env \<Rightarrow> time \<Rightarrow> 'w \<Rightarrow> string \<times> string \<times> string \<Rightarrow> backend \<Rightarrow> backend" where
  "health_step env now w p b =
     (case p of
        (s, i, tok) \<Rightarrow>
          (case CheckHealth (eHttp env) (newDOClient (doAPIURL b) tok) w of
             (status, Some e) \<Rightarrow> b
           | (status, None) \<Rightarrow>
               update_machine b s i
                 (if status = 200 then RecordSuccess now else RecordUpstream (eJitter env w) status None now)))"

definition healthCheckWorker :: "'w env \<Rightarrow> 'w st \<Rightarrow> 'w st" where
  "healthCheckWorker env bw =
     (let now = eNow env (snd bw)
      in (fold (health_step env now (snd bw)) (health_probes (fst bw) now) (fst bw), snd bw))"

section \<open>What a read leaves behind\<close>

text \<open>
  The contract of one issuance, for the class \<open>c\<close>, the tracking prefix \<open>pre\<close> and the field of the
  lease that names the credential: nothing that existed is deleted, no other entry changes, and a lease
  is for a credential that is new, recorded, and named by the lease.
\<close>

definition field_is :: "blob option \<Rightarrow> string \<Rightarrow> json \<Rightarrow> bool" where
  "field_is b k v \<longleftrightarrow> (case b of Some (Json d) \<Rightarrow> field d k = Some v | _ \<Rightarrow> False)"

definition lease_id :: "lease \<Rightarrow> string \<Rightarrow> string" where
  "lease_id l k = internal_str (map (\<lambda>(k, v). (k, JStr v)) (lsInternal l)) k"

definition issues ::
  "('w \<Rightarrow> string \<Rightarrow> blob option) \<Rightarrow> ('w \<Rightarrow> (string \<times> string) set) \<Rightarrow> string \<Rightarrow> string \<Rightarrow> string \<Rightarrow> string
     \<Rightarrow> 'w \<Rightarrow> 'w \<Rightarrow> response \<Rightarrow> bool" where
  "issues view alive c pre idField rName w w' resp \<longleftrightarrow>
     alive w \<subseteq> alive w'
     \<and> (\<exists>i. (\<forall>k. view w' k \<noteq> view w k \<longrightarrow> k = storageKey \<or> k = pre @ i \<and> view w' k \<noteq> None)
          \<and> (\<forall>l. resp = RespLease l \<longrightarrow> lease_id l idField = i \<and> (c, i) \<notin> alive w
               \<and> alive w' = insert (c, i) (alive w) \<and> field_is (view w' (pre @ i)) ''role'' (JStr rName)))"

lemma issues_nothing:
  assumes "\<forall>l. resp \<noteq> RespLease l" and "alive w \<subseteq> alive w'" and "\<And>k. k \<noteq> storageKey \<Longrightarrow> view w' k = view w k"
  shows "issues view alive c pre idField rName w w' resp"
  using assms unfolding issues_def by blast

lemma role_field:
  "field (JObj (StampLineage (StampIdentity [(''role'', v), (''minter'', m), (''created'', t)] req) lin)) ''role'' = Some v"
proof -
  have app: "k \<notin> fst ` set ys \<Longrightarrow> field (JObj (xs @ ys)) k = field (JObj xs) k" for xs ys k
    by (simp add: map_add_def map_of_eq_None_iff [THEN iffD2] split: option.split)
  have "''role'' \<notin> fst ` set (Identity req)"
    by (cases req) (auto simp: Identity_def)
  then show ?thesis by (simp add: StampLineage_def StampIdentity_def app del: append.simps field.simps) simp
qed

context do_world begin

lemma buildCreds_issues:
  assumes "buildCredsResponse env (b, w2) req r rName sel tk now lin = ((b', w'), resp)"
    and "alive w = alive w1" and "\<And>k. k \<noteq> storageKey \<Longrightarrow> view w1 k = view w k"
    and c: "CreateToken (eHttp env) cl nm sc w1 = (w2, st, Inr tk)"
  shows "issues view alive credentialTypeToken activeTrackingPrefix ''upstream_token_id'' rName w w' resp"
proof -
  let ?k = "activeTrackingPrefix @ tokID tk"
  let ?x = "(credentialTypeToken, tokID tk)"
  note new = create_token [OF c] and vw = CreateToken_view [OF c]
  obtain w3 e where p: "kput (eKV env) w2 ?k (token_record req rName (selMinter sel) now lin) = (w3, e)"
    by (metis surj_pair)
  have chg: "k = storageKey \<or> k = ?k \<and> view w3 k \<noteq> None" if "view w3 k \<noteq> view w k" for k
    using put_frame [OF p] put_adds [OF p] vw assms(3) [of k] that by metis
  show ?thesis
  proof (cases e)
    case (Some x)
    obtain st' y where d: "DeleteToken (eHttp env) (selClient sel) (tokID tk) w3 = (w', st', y)" "resp = RespErr ErrInternal"
      using assms(1) p Some by (auto simp: buildCredsResponse_def Let_def) (metis prod.collapse)
    have "alive w \<subseteq> alive w'" using delete_token [OF d(1)] put_alive [OF p] new assms(2) by blast
    moreover have "k = storageKey \<or> k = ?k \<and> view w' k \<noteq> None" if "view w' k \<noteq> view w k" for k
      using chg DeleteToken_view [OF d(1)] that by simp
    ultimately show ?thesis unfolding issues_def using d(2) by blast
  next
    case None
    have q: "w' = w3" using assms(1) p None by (auto simp: buildCredsResponse_def Let_def)
    have "lease_id l ''upstream_token_id'' = tokID tk" if "resp = RespLease l" for l
      using assms(1) p None that by (auto simp: buildCredsResponse_def Let_def lease_id_def internal_str_def)
    moreover have "field_is (view w' ?k) ''role'' (JStr rName)"
      using put_ok [OF p [unfolded None]] unfolding q
      by (simp add: field_is_def token_record_def role_field del: field.simps)
    moreover have "alive w \<subseteq> alive w'" "?x \<notin> alive w" "alive w' = insert ?x (alive w)"
      using put_alive [OF p] new assms(2) q by auto
    ultimately show ?thesis unfolding issues_def using chg q by blast
  qed
qed

lemma buildSpaces_issues:
  assumes "buildSpacesResponse env (b, w2) req r rName sel key now lin = ((b', w'), resp)"
    and "alive w = alive w1" and "\<And>k. k \<noteq> storageKey \<Longrightarrow> view w1 k = view w k"
    and c: "CreateSpacesKey (eHttp env) cl nm gs w1 = (w2, st, Inr key)"
  shows "issues view alive credentialTypeSpacesKey spacesTrackingPrefix ''upstream_access_key'' rName w w' resp"
proof -
  let ?k = "spacesTrackingPrefix @ skAccessKey key"
  let ?x = "(credentialTypeSpacesKey, skAccessKey key)"
  note new = create_key [OF c] and vw = CreateSpacesKey_view [OF c]
  obtain w3 e where p: "trackSpacesKey (eKV env) w2 (rqCaller req) rName (selMinter sel) (skAccessKey key) now lin = (w3, e)"
    by (metis surj_pair)
  note t = track_effect [OF p]
  have chg: "k = storageKey \<or> k = ?k \<and> view w3 k \<noteq> None" if "view w3 k \<noteq> view w k" for k
    using t(2) put_adds [OF p [unfolded trackSpacesKey_def]] vw assms(3) [of k] that by metis
  show ?thesis
  proof (cases e)
    case (Some x)
    obtain st' y where d: "DeleteSpacesKey (eHttp env) (selClient sel) (skAccessKey key) w3 = (w', st', y)"
      "resp = RespErr ErrInternal"
      using assms(1) p Some by (auto simp: buildSpacesResponse_def Let_def) (metis prod.collapse)
    have "alive w \<subseteq> alive w'" using delete_key [OF d(1)] t(1) new assms(2) by blast
    moreover have "k = storageKey \<or> k = ?k \<and> view w' k \<noteq> None" if "view w' k \<noteq> view w k" for k
      using chg DeleteSpacesKey_view [OF d(1)] that by simp
    ultimately show ?thesis unfolding issues_def using d(2) by blast
  next
    case None
    have q: "w' = w3" using assms(1) p None by (auto simp: buildSpacesResponse_def Let_def)
    have "lease_id l ''upstream_access_key'' = skAccessKey key" if "resp = RespLease l" for l
      using assms(1) p None that by (auto simp: buildSpacesResponse_def Let_def lease_id_def internal_str_def)
    moreover have "field_is (view w' ?k) ''role'' (JStr rName)"
      using put_ok [OF p [unfolded None trackSpacesKey_def]] unfolding q
      by (simp add: field_is_def role_field del: field.simps)
    moreover have "alive w \<subseteq> alive w'" "?x \<notin> alive w" "alive w' = insert ?x (alive w)"
      using t(1) new assms(2) q by auto
    ultimately show ?thesis unfolding issues_def using chg q by blast
  qed
qed

end

text \<open>Both issuances run one sequence, with their own create and their own answer.\<close>

definition issue_by ::
  "'w env \<Rightarrow> string \<Rightarrow> (do_client \<Rightarrow> string \<Rightarrow> 'w \<Rightarrow> 'w \<times> int \<times> (err + 'k))
     \<Rightarrow> ('w st \<Rightarrow> selected \<Rightarrow> 'k \<Rightarrow> time \<Rightarrow> 'w st \<times> response) \<Rightarrow> 'w st \<Rightarrow> request \<Rightarrow> do_role \<Rightarrow> string \<Rightarrow> 'w st \<times> response" where
  "issue_by env pre create build bw req r rName =
     (let now = eNow env (snd bw)
      in case Capacity.Snapshot (eKV env) (snd bw) pre (credentialLimitPerMinter (fst bw)) of
           Inl e \<Rightarrow> (bw, RespErr ErrInternal)
         | Inr cap \<Rightarrow>
             (case selectMinter env bw (drMinterSet r) (affinityKey req) cap now of
                (bw, Inl c) \<Rightarrow> (bw, RespErr c)
              | (bw, Inr sel) \<Rightarrow>
                  (case credentialName env bw rName (rqID req) of
                     (bw, Inl c) \<Rightarrow> (bw, RespErr c)
                   | ((b, w), Inr name) \<Rightarrow>
                       (case create (selClient sel) name w of
                          (w, status, Inl e) \<Rightarrow>
                            ((recordMinterError (eJitter env w) b (selSet sel) (selMinter sel) status e now, w),
                             RespErr (Classify status (Some e)))
                        | (w, status, Inr k) \<Rightarrow>
                            build (recordMinterSuccess b (selSet sel) (selMinter sel) now, w) sel k now))))"

lemma issue_shapes:
  "issueToken env bw req r rName lin =
     issue_by env activeTrackingPrefix (\<lambda>cl name. CreateToken (eHttp env) cl name (drScopes r))
       (\<lambda>bw sel tk now. buildCredsResponse env bw req r rName sel tk now lin) bw req r rName"
  "issueSpacesKey env bw req r rName lin =
     issue_by env spacesTrackingPrefix (\<lambda>cl name. CreateSpacesKey (eHttp env) cl name (Grants r))
       (\<lambda>bw sel key now. buildSpacesResponse env bw req r rName sel key now lin) bw req r rName"
  by (simp_all add: issueToken_def issueSpacesKey_def issue_by_def)

context do_world begin

lemma issue_by_issues:
  assumes run: "issue_by env pre create build (b, w) req r rName = ((b', w'), resp)"
    and fails: "\<And>cl nm v v' st e. create cl nm v = (v', st, Inl e) \<Longrightarrow> alive v \<subseteq> alive v' \<and> view v' = view v"
    and builds: "\<And>cl nm w1 w2 st x b sel now. build (b, w2) sel x now = ((b', w'), resp) \<Longrightarrow> alive w = alive w1
        \<Longrightarrow> (\<And>k. k \<noteq> storageKey \<Longrightarrow> view w1 k = view w k) \<Longrightarrow> create cl nm w1 = (w2, st, Inr x)
        \<Longrightarrow> issues view alive c pre idField rName w w' resp"
  shows "issues view alive c pre idField rName w w' resp"
proof -
  let ?G = "issues view alive c pre idField rName w w' resp"
  note run = run [unfolded issue_by_def Let_def]
  show ?G
  proof (cases "Capacity.Snapshot (eKV env) w pre (credentialLimitPerMinter b)")
    case (Inl e)
    then have "w' = w" "resp = RespErr ErrInternal" using run by auto
    then show ?G by (intro issues_nothing) simp_all
  next
    case cap: (Inr cap)
    obtain b1 w0 sr where sel: "selectMinter env (b, w) (drMinterSet r) (affinityKey req) cap (eNow env w) = ((b1, w0), sr)"
      by (metis surj_pair)
    then have w0: "w0 = w" by (rule selectMinter_world)
    show ?G
    proof (cases sr)
      case (Inl c)
      then have "w' = w" "resp = RespErr c" using run cap sel w0 by auto
      then show ?G by (intro issues_nothing) simp_all
    next
      case sl: (Inr sl)
      obtain b2 w1 nr where nm: "credentialName env (b1, w) rName (rqID req) = ((b2, w1), nr)" by (metis surj_pair)
      note n = credentialName_frame [OF nm]
      show ?G
      proof (cases nr)
        case (Inl c)
        then have "w' = w1" "resp = RespErr c" using run cap sel w0 sl nm by auto
        then show ?G using n by (intro issues_nothing) simp_all
      next
        case name: (Inr name)
        obtain w2 st kr where cr: "create (selClient sl) name w1 = (w2, st, kr)" by (metis surj_pair)
        show ?G
        proof (cases kr)
          case (Inl e)
          then have "w' = w2" "resp = RespErr (Classify st (Some e))" using run cap sel w0 sl nm name cr by auto
          then show ?G using n fails [OF cr [unfolded Inl]] by (intro issues_nothing) simp_all
        next
          case (Inr x)
          then have "build (recordMinterSuccess b2 (selSet sl) (selMinter sl) (eNow env w), w2) sl x (eNow env w)
              = ((b', w'), resp)"
            using run cap sel w0 sl nm name cr by simp
          then show ?G using n cr [unfolded Inr] by (intro builds) simp_all
        qed
      qed
    qed
  qed
qed

lemma issueToken_issues:
  assumes "issueToken env (b, w) req r rName lin = ((b', w'), resp)"
  shows "issues view alive credentialTypeToken activeTrackingPrefix ''upstream_token_id'' rName w w' resp"
proof (rule issue_by_issues [OF assms [unfolded issue_shapes]])
  show "alive v \<subseteq> alive v' \<and> view v' = view v"
    if "CreateToken (eHttp env) cl nm (drScopes r) v = (v', st, Inl e)" for cl nm v v' st e
    using create_token [OF that] CreateToken_view [OF that] by simp
qed (rule buildCreds_issues)

lemma issueSpacesKey_issues:
  assumes "issueSpacesKey env (b, w) req r rName lin = ((b', w'), resp)"
  shows "issues view alive credentialTypeSpacesKey spacesTrackingPrefix ''upstream_access_key'' rName w w' resp"
proof (rule issue_by_issues [OF assms [unfolded issue_shapes]])
  show "alive v \<subseteq> alive v' \<and> view v' = view v"
    if "CreateSpacesKey (eHttp env) cl nm (Grants r) v = (v', st, Inl e)" for cl nm v v' st e
    using create_key [OF that] CreateSpacesKey_view [OF that] by simp
qed (rule buildSpaces_issues)

end

text \<open>
  C20. No credential is handed out that the mount cannot find again, and no failure loses one that
  exists: a read of a role that mints deletes nothing that was there, changes no stored entry but the
  new credential's and the owner id, and when it answers with a lease, the credential the lease names
  is new upstream, the only new one, and recorded under the role.
\<close>
theorem read_issues_tracked:
  assumes "do_world env view alive" and "loadRole env w rName = Inr r" and "\<not> rotatesSharedKey r"
    and "pathCredsRead env between (b, w) req rName = ((b', w'), resp)"
  shows "if issuesSpacesKey r
     then issues view alive ''spaces_key'' ''active-spaces-keys/'' ''upstream_access_key'' rName w w' resp
     else issues view alive ''token'' ''active-tokens/'' ''upstream_token_id'' rName w w' resp"
proof -
  note names = credential_type_defs activeTrackingPrefix_def spacesTrackingPrefix_def
  obtain lin le where l: "EnforceLineage (rqCaller req) (rqView req) (RequireCallerLineage r) = (lin, le)" by force
  consider (refused) c where "w' = w" "resp = RespErr c"
    | (key) "issuesSpacesKey r" "issueSpacesKey env (b, w) req r rName lin = ((b', w'), resp)"
    | (token) "\<not> issuesSpacesKey r" "issueToken env (b, w) req r rName lin = ((b', w'), resp)"
    using assms(4) by (auto simp: pathCredsRead_def assms(2,3) l split: option.splits if_splits)
  then show ?thesis
  proof cases
    case refused
    then have "issues view alive c pre f rName w w' resp" for c pre f by (intro issues_nothing) simp_all
    then show ?thesis by simp
  next
    case key
    then show ?thesis using do_world.issueSpacesKey_issues [OF assms(1) key(2)] by (simp add: names)
  next
    case token
    then show ?thesis using do_world.issueToken_issues [OF assms(1) token(2)] by (simp add: names)
  qed
qed

definition token_role :: do_role where
  "token_role =
     rotated_role \<lparr> drName := ''t'', CredentialType := ''token'', Grants := [], drScopes := [''droplet:read''] \<rparr>"

definition token_world :: fake_world where
  "token_world = ([(''roles/t'', enc_role token_role)], [(''token'', ''old'')])"

definition plain_request :: request where
  "plain_request = \<lparr> rqID = ''req1'', rqCaller = None, rqView = None, rqCredentialKind = [], rqShardKey = None \<rparr>"

lemma token_load: "loadRole (fake_env t) token_world ''t'' = Inr token_role"
proof -
  have "kget (eKV (fake_env t)) token_world (rolesPrefix @ ''t'') = Inr (Some (enc_role token_role))"
    by (simp add: fake_env_def mem_kv_def token_world_def rolesPrefix_def)
  then show ?thesis
    by (simp add: loadRole_def dec_enc_role) (simp add: token_role_def rotated_role_def)
qed

lemma token_read:
  assumes "0 \<le> t"
  obtains b' w' l where "pathCredsRead (fake_env t) id (one_minter, token_world) plain_request ''t'' = ((b', w'), RespLease l)"
proof -
  have ty: "credentialType token_role = ''token''"
    by (simp add: token_role_def credentialType_def)
  have gates: "EnforceIdentity None (RequireCallerIdentity token_role) = None"
    "EnforceLineage None None (RequireCallerLineage token_role) = (no_lineage, None)"
    by (simp_all add: token_role_def rotated_role_def EnforceIdentity_def EnforceLineage_def
        ParseIdentityRequirement_def ParseLineageRequirement_def resolveCaller_def)
  obtain b' sel where sel: "selectMinter (fake_env t) (one_minter, token_world) ''s'' (affinityKey plain_request) roomy t
      = ((b', token_world), Inr sel)" "bInstanceID b' = ''abcd''" using assms by (rule fake_select)
  have set: "drMinterSet token_role = ''s''" by (simp add: token_role_def rotated_role_def)
  have now: "eNow (fake_env t) w = t" "eKV (fake_env t) = mem_kv" for w by (simp_all add: fake_env_def)
  obtain es u where w: "token_world = (es, u)" by force
  have "\<exists>bw l. issueToken (fake_env t) (one_minter, token_world) plain_request token_role ''t'' no_lineage = (bw, RespLease l)"
    using sel unfolding w
    by (simp add: issueToken_def fake_capacity set now credentialName_def ownerInstanceID_def fake_CreateToken Let_def
        buildCredsResponse_def mem_kv_def)
  moreover have "\<not> rotatesSharedKey token_role" "\<not> issuesSpacesKey token_role"
    by (simp_all add: ty rotatesSharedKey_def issuesSpacesKey_def credential_type_defs)
  moreover have "rqCaller plain_request = None" "rqView plain_request = None" "rqCredentialKind plain_request = []"
    by (simp_all add: plain_request_def)
  ultimately have "\<exists>bw l. pathCredsRead (fake_env t) id (one_minter, token_world) plain_request ''t'' = (bw, RespLease l)"
    by (simp add: pathCredsRead_def token_load gates RequireCredentialKind_def)
  then show thesis using that by (metis surj_pair)
qed

theorem read_issues_tracked_witness:
  "\<exists>w' b' l. pathCredsRead (fake_env 5) id (one_minter, token_world) plain_request ''t'' = ((b', w'), RespLease l)
     \<and> known_classes token_world \<subseteq> known_classes w'
     \<and> field_is (mem_view w' (''active-tokens/'' @ lease_id l ''upstream_token_id'')) ''role'' (JStr ''t'')"
proof -
  obtain b' w' l where r: "pathCredsRead (fake_env 5) id (one_minter, token_world) plain_request ''t'' = ((b', w'), RespLease l)"
    by (rule token_read [of 5]) (simp, blast)
  have ty: "\<not> rotatesSharedKey token_role" "\<not> issuesSpacesKey token_role"
    by (simp_all add: token_role_def credentialType_def rotatesSharedKey_def issuesSpacesKey_def credential_type_defs)
  have "issues mem_view known_classes ''token'' ''active-tokens/'' ''upstream_token_id'' ''t'' token_world w' (RespLease l)"
    using read_issues_tracked [OF fake.do_world_axioms token_load ty(1) r] ty(2) by simp
  then have "known_classes token_world \<subseteq> known_classes w'"
    "field_is (mem_view w' (''active-tokens/'' @ lease_id l ''upstream_token_id'')) ''role'' (JStr ''t'')"
    unfolding issues_def by blast+
  with r show ?thesis by blast
qed

section \<open>Who is served, and what\<close>

lemma issue_by_lease:
  assumes "issue_by env pre create build (b, w) req r rName = (bw', RespLease l)"
  obtains b2 w2 b3 w3 sel x now where "build (b2, w2) sel x now = ((b3, w3), RespLease l)"
  using assms unfolding issue_by_def Let_def
  by (auto split: sum.splits prod.splits) (metis surj_pair)+

text \<open>
  C26. Every gate is in front of the cloud: a lease is served only to a caller that satisfies both of the
  role's demands and asked for no credential kind or for the one the role serves, and the envelope
  names that kind; a read that any of the gates refuses leaves the mount, the storage and the cloud
  exactly as they were.
\<close>
theorem read_gates:
  assumes "loadRole env w rName = Inr r" and "pathCredsRead env between (b, w) req rName = (bw', resp)"
  shows "if EnforceIdentity (rqCaller req) (RequireCallerIdentity r) = None
        \<and> snd (EnforceLineage (rqCaller req) (rqView req) (RequireCallerLineage r)) = None
        \<and> rqCredentialKind req \<in> {[], kind_str (credentialKindFor (credentialType r))}
     then \<forall>l. resp = RespLease l \<longrightarrow> read_kind (lsEnvelope l) = Some (JStr (kind_str (credentialKindFor (credentialType r))))
     else bw' = (b, w) \<and> (\<exists>c. resp = RespErr c)"
proof -
  let ?k = "credentialKindFor (credentialType r)"
  obtain lin le where l: "EnforceLineage (rqCaller req) (rqView req) (RequireCallerLineage r) = (lin, le)" by force
  show ?thesis
  proof (cases "EnforceIdentity (rqCaller req) (RequireCallerIdentity r) = None \<and> le = None
      \<and> RequireCredentialKind (rqCredentialKind req) ?k = None")
    case False
    then have "bw' = (b, w) \<and> (\<exists>c. resp = RespErr c)"
      using assms by (auto simp: pathCredsRead_def l split: option.splits)
    then show ?thesis using False l by (auto simp: RequireCredentialKind_None)
  next
    case True
    have kinds: "?k = (if rotatesSharedKey r \<or> issuesSpacesKey r then KindS3Credentials else KindScopedToken)"
      by (auto simp: credentialKindFor_def rotatesSharedKey_def issuesSpacesKey_def)
    have "read_kind (lsEnvelope l) = Some (JStr (kind_str ?k))" if lease: "resp = RespLease l" for l
    proof -
      consider "rotatesSharedKey r" "serveSharedSpacesKey env between (b, w) r rName = (bw', RespLease l)"
        | "\<not> rotatesSharedKey r" "issuesSpacesKey r" "issueSpacesKey env (b, w) req r rName lin = (bw', RespLease l)"
        | "\<not> rotatesSharedKey r" "\<not> issuesSpacesKey r" "issueToken env (b, w) req r rName lin = (bw', RespLease l)"
        using assms True lease by (auto simp: pathCredsRead_def l split: if_splits)
      then show ?thesis
      proof cases
        case 1
        from 1(2) obtain k t where "l = buildSharedSpacesResponse r rName k t" by (rule served_cases)
        then show ?thesis using 1(1) kinds by (simp add: buildSharedSpacesResponse_def Let_def ToMap_kind)
      next
        case 2
        from 2(3) obtain b2 w2 b3 w3 sel key now where
          "buildSpacesResponse env (b2, w2) req r rName sel key now lin = ((b3, w3), RespLease l)"
          unfolding issue_shapes by (rule issue_by_lease)
        then show ?thesis using 2 kinds
          by (auto simp: buildSpacesResponse_def Let_def ToMap_kind split: prod.splits option.splits)
      next
        case 3
        from 3(3) obtain b2 w2 b3 w3 sel tk now where
          "buildCredsResponse env (b2, w2) req r rName sel tk now lin = ((b3, w3), RespLease l)"
          unfolding issue_shapes by (rule issue_by_lease)
        then show ?thesis using 3 kinds
          by (auto simp: buildCredsResponse_def Let_def ToMap_kind split: prod.splits option.splits)
      qed
    qed
    then show ?thesis using True l by (simp add: RequireCredentialKind_None)
  qed
qed

theorem read_gates_witness:
  "pathCredsRead (fake_env 5) id (one_minter, token_world) (plain_request \<lparr> rqCredentialKind := ''s3_credentials'' \<rparr>) ''t''
     = ((one_minter, token_world), RespErr ErrCredentialKindUnsupported)"
proof -
  let ?q = "plain_request \<lparr> rqCredentialKind := ''s3_credentials'' \<rparr>"
  obtain bw' resp where r: "pathCredsRead (fake_env 5) id (one_minter, token_world) ?q ''t'' = (bw', resp)"
    by (metis surj_pair)
  have k: "kind_str (credentialKindFor (credentialType token_role)) = ''scoped_token''"
    by (simp add: token_role_def credentialType_def credentialKindFor_def credential_type_defs)
  from read_gates [OF token_load r] have "bw' = (one_minter, token_world) \<and> (\<exists>c. resp = RespErr c)"
    by (simp add: k plain_request_def)
  moreover have "snd (pathCredsRead (fake_env 5) id (one_minter, token_world) ?q ''t'') = RespErr ErrCredentialKindUnsupported"
    by (simp add: pathCredsRead_def token_load) (simp add: token_role_def rotated_role_def plain_request_def
        EnforceIdentity_def EnforceLineage_def ParseIdentityRequirement_def ParseLineageRequirement_def
        resolveCaller_def RequireCredentialKind_def credentialKindFor_def credentialType_def credential_type_defs)
  ultimately show ?thesis using r by simp
qed

section \<open>Revocation\<close>

text \<open>Both revocations run one sequence, with their own delete.\<close>

definition revoke_by ::
  "'w env \<Rightarrow> string \<Rightarrow> (do_client \<Rightarrow> string \<Rightarrow> 'w \<Rightarrow> 'w \<times> int \<times> err option) \<Rightarrow> string \<Rightarrow> 'w st \<Rightarrow> (string \<times> json) list
     \<Rightarrow> 'w st \<times> code option" where
  "revoke_by env pre delete i bw internal =
     (let minterSet = internal_str internal ''minter_set''; minterID = internal_str internal ''minter_id''
      in if i = [] then (bw, None)
         else case revoke_client env bw minterSet minterID of
           None \<Rightarrow> ((fst bw, fst (kdel (eKV env) (snd bw) (pre @ i))), None)
         | Some client \<Rightarrow>
             (case delete client i (snd bw) of
                (w, status, e) \<Rightarrow>
                  if e \<noteq> None \<and> status \<noteq> 404 then
                    ((recordMinterError (eJitter env w) (fst bw) minterSet minterID status (the e) (eNow env (snd bw)), w),
                     Some ErrLeaseRevokeFailed)
                  else
                    ((recordMinterSuccess (fst bw) minterSet minterID (eNow env (snd bw)),
                      fst (kdel (eKV env) w (pre @ i))), None)))"

lemma revoke_shapes:
  "pathCredsRevoke env bw internal =
     revoke_by env activeTrackingPrefix (DeleteToken (eHttp env)) (internal_str internal ''upstream_token_id'') bw internal"
  "pathSpacesKeyRevoke env bw internal =
     revoke_by env spacesTrackingPrefix (DeleteSpacesKey (eHttp env)) (internal_str internal ''upstream_access_key'') bw internal"
  unfolding pathCredsRevoke_def pathSpacesKeyRevoke_def revoke_by_def Let_def by (rule refl)+

context do_world begin

lemma revoke_by_frame:
  assumes run: "revoke_by env pre delete i (b, w) internal = ((b', w'), res)"
    and del: "\<And>c v v' st e. delete c i v = (v', st, e) \<Longrightarrow>
        alive v - {(cl, i)} \<subseteq> alive v' \<and> alive v' \<subseteq> alive v \<and> view v' = view v"
  shows "alive w - {(cl, i)} \<subseteq> alive w' \<and> alive w' \<subseteq> alive w
     \<and> (\<forall>k. k \<noteq> pre @ i \<longrightarrow> view w' k = view w k) \<and> (res \<noteq> None \<longrightarrow> view w' = view w)"
    (is "?ok w' res")
proof -
  let ?rc = "revoke_client env (b, w) (internal_str internal ''minter_set'') (internal_str internal ''minter_id'')"
  note run = run [unfolded revoke_by_def Let_def]
  have forget: "?ok (fst (kdel (eKV env) w1 (pre @ i))) None"
    if "alive w - {(cl, i)} \<subseteq> alive w1 \<and> alive w1 \<subseteq> alive w \<and> view w1 = view w" for w1
  proof -
    obtain w2 x where d: "kdel (eKV env) w1 (pre @ i) = (w2, x)" by (metis surj_pair)
    show ?thesis using that del_frame [OF d] unfolding d fst_conv kdel_alive [OF d] by simp
  qed
  show ?thesis
  proof (cases "i = []")
    case True
    then show ?thesis using run by auto
  next
    case i: False
    show ?thesis
    proof (cases ?rc)
      case None
      then have "w' = fst (kdel (eKV env) w (pre @ i))" "res = None" using run i by auto
      then show ?thesis using forget [of w] by simp
    next
      case (Some c)
      obtain w1 st e where d: "delete c i w = (w1, st, e)" by (metis surj_pair)
      show ?thesis
      proof (cases "e \<noteq> None \<and> st \<noteq> 404")
        case True
        then have "w' = w1" using run i Some d by auto
        then show ?thesis using del [OF d] by simp
      next
        case False
        then have "w' = fst (kdel (eKV env) w1 (pre @ i))" "res = None" using run i Some d by auto
        then show ?thesis using forget del [OF d] by blast
      qed
    qed
  qed
qed

lemma pathCredsRevoke_frame:
  assumes "pathCredsRevoke env (b, w) internal = ((b', w'), res)"
    and "i = internal_str internal ''upstream_token_id''"
  shows "alive w - {(credentialTypeToken, i)} \<subseteq> alive w' \<and> alive w' \<subseteq> alive w
     \<and> (\<forall>k. k \<noteq> activeTrackingPrefix @ i \<longrightarrow> view w' k = view w k) \<and> (res \<noteq> None \<longrightarrow> view w' = view w)"
  using assms(1) unfolding revoke_shapes assms(2) [symmetric]
  by (rule revoke_by_frame) (simp add: delete_token DeleteToken_view)

lemma pathSpacesKeyRevoke_frame:
  assumes "pathSpacesKeyRevoke env (b, w) internal = ((b', w'), res)"
    and "i = internal_str internal ''upstream_access_key''"
  shows "alive w - {(credentialTypeSpacesKey, i)} \<subseteq> alive w' \<and> alive w' \<subseteq> alive w
     \<and> (\<forall>k. k \<noteq> spacesTrackingPrefix @ i \<longrightarrow> view w' k = view w k) \<and> (res \<noteq> None \<longrightarrow> view w' = view w)"
  using assms(1) unfolding revoke_shapes assms(2) [symmetric]
  by (rule revoke_by_frame) (simp add: delete_key DeleteSpacesKey_view)

end

text \<open>The upstream credential a lease of a type may delete, and the entry that tracks it.\<close>

definition lease_owns :: "string \<Rightarrow> (string \<times> json) list \<Rightarrow> ((string \<times> string) \<times> string) option" where
  "lease_owns ty internal =
     (if ty = ''do_token'' then
        (let i = internal_str internal ''upstream_token_id'' in Some ((''token'', i), ''active-tokens/'' @ i))
      else if ty = ''do_spaces_key'' then
        (let i = internal_str internal ''upstream_access_key'' in Some ((''spaces_key'', i), ''active-spaces-keys/'' @ i))
      else None)"

lemma owns_only:
  assumes "alive w - {x} \<subseteq> alive w' \<and> alive w' \<subseteq> alive w
     \<and> (\<forall>k. k \<noteq> y \<longrightarrow> view w' k = view w k) \<and> (res \<noteq> None \<longrightarrow> view w' = view w)"
    and "lease_owns ty internal = Some (x, y)"
  shows "alive w' \<subseteq> alive w
     \<and> (\<forall>c \<in> alive w - alive w'. \<exists>k. lease_owns ty internal = Some (c, k))
     \<and> (\<forall>k. view w' k \<noteq> view w k \<longrightarrow> (\<exists>c. lease_owns ty internal = Some (c, k)))
     \<and> (res \<noteq> None \<longrightarrow> view w' = view w)"
proof (intro conjI ballI allI)
  show "\<exists>k. lease_owns ty internal = Some (c, k)" if "c \<in> alive w - alive w'" for c
    using assms that by (intro exI [of _ y]) auto
  show "view w' k \<noteq> view w k \<longrightarrow> (\<exists>c. lease_owns ty internal = Some (c, k))" for k
    using assms by (cases "k = y") auto
qed (use assms(1) in simp_all)

text \<open>
  C25. Revoking a lease can destroy nothing but what that lease was for: upstream, at most the credential
  its internal data names goes, in storage, at most that credential's tracking record; a lease of a
  shared key touches nothing; and a revocation that reports an error has changed no stored entry, so
  the credential is still tracked when the core retries.
\<close>
theorem revoke_only_its_own:
  assumes "do_world env view alive" and "revoke_lease env (b, w) ty internal = ((b', w'), res)"
  shows "alive w' \<subseteq> alive w
     \<and> (\<forall>c \<in> alive w - alive w'. \<exists>k. lease_owns ty internal = Some (c, k))
     \<and> (\<forall>k. view w' k \<noteq> view w k \<longrightarrow> (\<exists>c. lease_owns ty internal = Some (c, k)))
     \<and> (res \<noteq> None \<longrightarrow> view w' = view w)"
proof -
  note names = credential_type_defs activeTrackingPrefix_def spacesTrackingPrefix_def
  consider (token) "ty = ''do_token''" | (key) "ty = ''do_spaces_key''"
    | (shared) "ty \<noteq> ''do_token''" "ty \<noteq> ''do_spaces_key''" by blast
  then show ?thesis
  proof cases
    case token
    then have "pathCredsRevoke env (b, w) internal = ((b', w'), res)" using assms(2) by (simp add: revoke_lease_def)
    note f = do_world.pathCredsRevoke_frame [OF assms(1) this refl, unfolded names]
    have o: "lease_owns ty internal = Some ((''token'', internal_str internal ''upstream_token_id''),
        ''active-tokens/'' @ internal_str internal ''upstream_token_id'')" by (simp add: lease_owns_def token Let_def)
    show ?thesis by (rule owns_only [OF f o])
  next
    case key
    then have "pathSpacesKeyRevoke env (b, w) internal = ((b', w'), res)" using assms(2) by (simp add: revoke_lease_def)
    note f = do_world.pathSpacesKeyRevoke_frame [OF assms(1) this refl, unfolded names]
    have o: "lease_owns ty internal = Some ((''spaces_key'', internal_str internal ''upstream_access_key''),
        ''active-spaces-keys/'' @ internal_str internal ''upstream_access_key'')" by (simp add: lease_owns_def key Let_def)
    show ?thesis by (rule owns_only [OF f o])
  next
    case shared
    then have "w' = w" using assms(2) by (simp add: revoke_lease_def pathSharedSpacesKeyRevoke_def)
    then show ?thesis by simp
  qed
qed

theorem revoke_only_its_own_witness:
  "\<exists>b' w'. revoke_lease (fake_env 5) (one_minter, ([(''active-tokens/old'', Raw [])], [(''token'', ''old''), (''token'', ''new'')]))
       ''do_token'' [(''upstream_token_id'', JStr ''old''), (''minter_set'', JStr ''s''), (''minter_id'', JStr ''m1'')]
     = ((b', w'), None) \<and> known_classes w' = {(''token'', ''new'')}"
proof -
  let ?w = "([(''active-tokens/old'', Raw [])], [(''token'', ''old''), (''token'', ''new'')]) :: fake_world"
  let ?d = "[(''upstream_token_id'', JStr ''old''), (''minter_set'', JStr ''s''), (''minter_id'', JStr ''m1'')]"
  let ?r = "revoke_lease (fake_env 5) (one_minter, ?w) ''do_token'' ?d"
  have v: "snd ?r = None" "snd (snd (fst ?r)) = [(''gone-token'', ''old''), (''token'', ''new'')]" by code_simp+
  obtain b' w' where r: "?r = ((b', w'), None)" using v(1) by (metis prod.collapse)
  have "known_classes w' \<subseteq> known_classes ?w"
    using revoke_only_its_own [OF fake.do_world_axioms r] by blast
  moreover have "known_classes w' = {(''token'', ''new'')}"
    using v(2) r by (auto simp: known_classes_def credential_type_defs)
  ultimately show ?thesis using r by blast
qed

section \<open>Health\<close>

lemma map_of_upd: "map_of (map (\<lambda>(k, v). (k, if k = i then f v else v)) xs) j =
    (if j = i then map_option f (map_of xs i) else map_of xs j)"
  by (induction xs) auto

lemma find_update_machine:
  "find_minter (update_machine b s i f) t j =
     (if t = s \<and> j = i then map_option (\<lambda>ms. ms \<lparr> msSM := f (msSM ms) \<rparr>) (find_minter b s i) else find_minter b t j)"
  by (simp add: find_minter_def update_machine_def map_of_upd split: option.split)

text \<open>What the check does to one machine, given what the account endpoint answered for its token.\<close>

definition checked :: "rat \<Rightarrow> time \<Rightarrow> int \<times> err option \<Rightarrow> machine \<Rightarrow> machine" where
  "checked j now answer sm =
     (case answer of
        (status, Some e) \<Rightarrow> sm
      | (status, None) \<Rightarrow> if status = 200 then RecordSuccess now sm else RecordUpstream j status None now sm)"

lemma find_health_step:
  "find_minter (health_step env now w (s, i, tok) b) t j =
     (if t = s \<and> j = i
      then map_option (\<lambda>ms. ms \<lparr> msSM := checked (eJitter env w) now
             (CheckHealth (eHttp env) (newDOClient (doAPIURL b) tok) w) (msSM ms) \<rparr>) (find_minter b s i)
      else find_minter b t j)"
proof -
  obtain status e where a: "CheckHealth (eHttp env) (newDOClient (doAPIURL b) tok) w = (status, e)" by force
  show ?thesis
  proof (cases e)
    case None
    then show ?thesis by (simp add: health_step_def a checked_def find_update_machine)
  next
    case (Some x)
    have "map_option (\<lambda>ms. ms \<lparr> msSM := msSM ms \<rparr>) m = m" for m :: "minter_state option" by (cases m) simp_all
    then show ?thesis by (simp add: health_step_def a checked_def Some)
  qed
qed

lemma health_step_url [simp]: "doAPIURL (health_step env now w p b) = doAPIURL b"
  by (cases p) (simp add: health_step_def doAPIURL_def update_machine_def split: prod.split option.split)

lemma fold_health_other:
  "(\<forall>tok. (t, j, tok) \<notin> set ps) \<Longrightarrow> find_minter (fold (health_step env now w) ps b) t j = find_minter b t j"
proof (induction ps arbitrary: b)
  case (Cons p ps)
  obtain s i tok where p: "p = (s, i, tok)" by (cases p) auto
  then have "\<not> (t = s \<and> j = i)" using Cons.prems by auto
  then show ?case using Cons p by (auto simp: find_health_step)
qed simp

lemma fold_health:
  assumes "distinct (map (\<lambda>p. (fst p, fst (snd p))) ps)" and "(t, j, tok) \<in> set ps"
  shows "find_minter (fold (health_step env now w) ps b) t j =
     map_option (\<lambda>ms. ms \<lparr> msSM := checked (eJitter env w) now
        (CheckHealth (eHttp env) (newDOClient (doAPIURL b) tok) w) (msSM ms) \<rparr>) (find_minter b t j)"
  using assms
proof (induction ps arbitrary: b)
  case (Cons p ps)
  obtain s i tk where p: "p = (s, i, tk)" by (cases p) auto
  show ?case
  proof (cases "s = t \<and> i = j")
    case True
    then have other: "\<forall>tok. (t, j, tok) \<notin> set ps" using Cons.prems(1) p by force
    then have "tk = tok" using Cons.prems(2) p by auto
    then have q: "p = (t, j, tok)" using True p by simp
    show ?thesis
      using fold_health_other [OF other, of env now w "health_step env now w p b"]
        find_health_step [of env now w t j tok b t j] q by simp
  next
    case False
    then have "(t, j, tok) \<in> set ps" using Cons.prems(2) p by auto
    then show ?thesis using Cons.IH [of "health_step env now w p b"] Cons.prems(1) False p
      by (auto simp: find_health_step)
  qed
qed simp

text \<open>A Go map has each key once.\<close>

definition keys_once :: "backend \<Rightarrow> bool" where
  "keys_once b \<longleftrightarrow> distinct (map fst (bSets b)) \<and> (\<forall>(s, states) \<in> set (bSets b). distinct (map fst states))"

lemma health_probes_iff:
  assumes "keys_once b"
  shows "(t, j, tok) \<in> set (health_probes b now) \<longleftrightarrow>
     (\<exists>ms. find_minter b t j = Some ms \<and> NeedsHealthCheck now (msSM ms) \<and> tok = Token (msMinter ms))"
proof -
  have "(t, j, tok) \<in> set (health_probes b now) \<longleftrightarrow>
      (\<exists>states ms. (t, states) \<in> set (bSets b) \<and> (j, ms) \<in> set states \<and> NeedsHealthCheck now (msSM ms)
         \<and> tok = Token (msMinter ms))"
    by (fastforce simp: health_probes_def)
  moreover have "find_minter b t j = Some ms \<longleftrightarrow>
      (\<exists>states. map_of (bSets b) t = Some states \<and> map_of states j = Some ms)" for ms
    by (auto simp: find_minter_def split: option.splits)
  moreover have "map_of (bSets b) t = Some states \<longleftrightarrow> (t, states) \<in> set (bSets b)" for states
    using assms by (simp add: keys_once_def map_of_eq_Some_iff)
  moreover have "map_of states j = Some ms \<longleftrightarrow> (j, ms) \<in> set states" if "(t, states) \<in> set (bSets b)" for states ms
    using assms that by (auto simp: keys_once_def intro!: map_of_eq_Some_iff)
  ultimately show ?thesis by blast
qed

lemma health_probes_distinct:
  assumes "keys_once b"
  shows "distinct (map (\<lambda>p. (fst p, fst (snd p))) (health_probes b now))"
proof -
  have once: "distinct (map (\<lambda>p. (fst p, fst (snd p))) (concat (map (\<lambda>(s, states).
       map (\<lambda>(i, ms). (s, i, Token (msMinter ms))) (filter (\<lambda>(i, ms). NeedsHealthCheck now (msSM ms)) states)) ss)))"
    if "distinct (map fst ss)" "\<forall>(s, states) \<in> set ss. distinct (map fst states)" for ss
    using that
  proof (induction ss)
    case (Cons x ss)
    obtain s states where x: "x = (s, states)" by force
    have "distinct (map (\<lambda>p. (fst p, fst (snd p))) (map (\<lambda>(i, ms). (s, i, Token (msMinter ms)))
        (filter (\<lambda>(i, ms). NeedsHealthCheck now (msSM ms)) states)))"
      (is "distinct ?l")
    proof -
      have "?l = map (Pair s) (map fst (filter (\<lambda>(i, ms). NeedsHealthCheck now (msSM ms)) states))"
        by (simp add: split_def)
      moreover have "distinct (map fst (filter (\<lambda>(i, ms). NeedsHealthCheck now (msSM ms)) states))"
        using Cons.prems(2) x by (intro distinct_map_filter) auto
      ultimately show ?thesis by (simp only: distinct_map [of "Pair s"]) (simp add: inj_on_def)
    qed
    then show ?case using Cons x by (fastforce simp: image_iff)
  qed simp
  show ?thesis unfolding health_probes_def
    using assms by (intro once) (simp_all add: keys_once_def)
qed

text \<open>
  C27. The health check heals and never harms a serving minter: it changes neither storage nor cloud; a
  machine that is not failing authentication, or was checked within its interval, is left as it is; and
  a failing one that is due and whose token the account endpoint accepts can be selected again at once.
\<close>
theorem health_check_heals:
  assumes "keys_once b" and "healthCheckWorker env (b, w) = (b', w')" and "find_minter b s i = Some ms"
  shows "w' = w
     \<and> (\<not> NeedsHealthCheck (eNow env w) (msSM ms) \<longrightarrow> find_minter b' s i = Some ms)
     \<and> (NeedsHealthCheck (eNow env w) (msSM ms)
          \<and> CheckHealth (eHttp env) (newDOClient (doAPIURL b) (Token (msMinter ms))) w = (200, None)
        \<longrightarrow> (\<exists>ms'. find_minter b' s i = Some ms' \<and> msMinter ms' = msMinter ms \<and> mstate (msSM ms') = Healthy
               \<and> (\<forall>now \<ge> 0. Selectable now (msSM ms'))))"
proof -
  let ?now = "eNow env w"
  let ?ps = "health_probes b ?now"
  have b': "b' = fold (health_step env ?now w) ?ps b" and w': "w' = w"
    using assms(2) by (auto simp: healthCheckWorker_def Let_def)
  have "find_minter b' s i = Some ms" if "\<not> NeedsHealthCheck ?now (msSM ms)"
    using fold_health_other [where t = s and j = i and ps = ?ps and env = env and now = ?now and w = w and b = b] that assms(3) b' by (simp add: health_probes_iff [OF assms(1)])
  moreover have "find_minter b' s i = Some (ms \<lparr> msSM := RecordSuccess ?now (msSM ms) \<rparr>)"
    if "NeedsHealthCheck ?now (msSM ms)"
      "CheckHealth (eHttp env) (newDOClient (doAPIURL b) (Token (msMinter ms))) w = (200, None)"
  proof -
    have "(s, i, Token (msMinter ms)) \<in> set ?ps" using that(1) assms(3) by (simp add: health_probes_iff [OF assms(1)])
    from fold_health [OF health_probes_distinct [OF assms(1)] this, where env = env and w = w and b = b
        and now = ?now] show ?thesis
      using that(2) assms(3) b' by (simp add: checked_def)
  qed
  ultimately show ?thesis using w'
    by (auto simp: RecordSuccess_def Selectable_def serviceable_def)
qed

theorem health_check_heals_witness:
  "let b = fake_backend [(''m1'', False, sample_machine \<lparr> mstate := AuthFailing \<rparr>)];
       b' = fst (healthCheckWorker (fake_env (48 * hour)) (b, ([], [])))
   in \<exists>ms. find_minter b' ''s'' ''m1'' = Some ms \<and> mstate (msSM ms) = Healthy"
proof -
  let ?b = "fake_backend [(''m1'', False, sample_machine \<lparr> mstate := AuthFailing \<rparr>)]"
  let ?w = "([], []) :: fake_world"
  let ?ms = "\<lparr> msMinter = sample_minter ''m1'' False, msSM = sample_machine \<lparr> mstate := AuthFailing \<rparr> \<rparr>"
  have k: "keys_once ?b" by (simp add: keys_once_def fake_backend_def)
  have f: "find_minter ?b ''s'' ''m1'' = Some ?ms" by (simp add: find_minter_def fake_backend_def)
  have n: "NeedsHealthCheck (eNow (fake_env (48 * hour)) ?w) (msSM ?ms)" by code_simp
  have h: "CheckHealth (eHttp (fake_env (48 * hour))) (newDOClient (doAPIURL ?b) (Token (msMinter ?ms))) ?w = (200, None)"
    by (simp add: CheckHealth_def fake_env_def fake_http_def)
  obtain b' w' where r: "healthCheckWorker (fake_env (48 * hour)) (?b, ?w) = (b', w')" by (metis surj_pair)
  from health_check_heals [OF k r f] n h obtain ms where
    "find_minter b' ''s'' ''m1'' = Some ms" "mstate (msSM ms) = Healthy" by auto
  then show ?thesis using r by (simp add: Let_def)
qed

end
