(* ===== verification/DOReconcile.thy ===== *)
theory DOReconcile
  imports DOIssue Reconciler Capability
begin

text \<open>
  \<open>plugins/credential-do\<close>, orphan reclamation (\<open>reconciler_integration.go\<close>, \<open>path_reconcile.go\<close>,
  \<open>workers.go\<close>): the cloud's side and the mount's side of a reconcile pass over two credential
  classes, whose ids travel with their class, the operator endpoint and the background pass.
\<close>

section \<open>Ids that carry their class\<close>

definition reconcileClassSeparator :: string where "reconcileClassSeparator = '':''"

definition classedID :: "string \<Rightarrow> string \<Rightarrow> string" where
  "classedID class i = class @ reconcileClassSeparator @ i"

definition splitClassedID :: "string \<Rightarrow> (string \<times> string) option" where
  "splitClassedID classed =
     (case Cut classed reconcileClassSeparator of
        None \<Rightarrow> None
      | Some (class, i) \<Rightarrow> if class = [] \<or> i = [] then None else Some (class, i))"

section \<open>The cloud's side\<close>

record lister =
  llInstance :: string
  llClient :: do_client

record upstream_credential =
  ucID :: string
  ucName :: string
  ucCreatedAt :: json

definition ownedEntities :: "string \<Rightarrow> string \<Rightarrow> 'a list \<Rightarrow> ('a \<Rightarrow> upstream_credential) \<Rightarrow> entity list" where
  "ownedEntities instanceID class records of_record =
     map (\<lambda>record. let credential = of_record record in
            \<lparr> eID = classedID class (ucID credential), eName = ucName credential,
              eCreatedAt = ParseCreatedAt (ucCreatedAt credential), eExpiresAt = zero_time \<rparr>)
       (filter (\<lambda>record. Owns instanceID (ucName (of_record record))) records)"

definition lister_tokens :: "'w env \<Rightarrow> lister \<Rightarrow> 'w \<Rightarrow> err + entity list" where
  "lister_tokens env l w =
     (case ListTokens (eHttp env) (llClient l) w of
        Inl e \<Rightarrow> Inl e
      | Inr tokens \<Rightarrow> Inr (ownedEntities (llInstance l) credentialTypeToken tokens
          (\<lambda>t. \<lparr> ucID = tiID t, ucName = tiName t, ucCreatedAt = tiCreatedAt t \<rparr>)))"

definition lister_keys :: "'w env \<Rightarrow> lister \<Rightarrow> 'w \<Rightarrow> err + entity list" where
  "lister_keys env l w =
     (case ListSpacesKeys (eHttp env) (llClient l) w of
        Inl e \<Rightarrow> Inl e
      | Inr keys \<Rightarrow> Inr (ownedEntities (llInstance l) credentialTypeSpacesKey keys
          (\<lambda>k. \<lparr> ucID = skAccessKey k, ucName = skName k, ucCreatedAt = skCreatedAt k \<rparr>)))"

definition classListings :: "'w env \<Rightarrow> lister \<Rightarrow> (string \<times> ('w \<Rightarrow> err + entity list)) list" where
  "classListings env l =
     [(credentialTypeToken, lister_tokens env l), (credentialTypeSpacesKey, lister_keys env l)]"

text \<open>
  \<open>errors.Join\<close>, as far as the classification of a failure can see it: the member whose kind it looks
  for first.
\<close>

definition err_rank :: "err \<Rightarrow> nat" where
  "err_rank e =
     (case leaf e of
        PluginError (Some c) _ _ \<Rightarrow> 0 | DeadlineExceeded \<Rightarrow> 1 | Net _ _ \<Rightarrow> 2 | Canceled \<Rightarrow> 3 | _ \<Rightarrow> 4)"

definition Join :: "err list \<Rightarrow> err" where
  "Join failures = hd (sort_key err_rank failures)"

fun list_classes ::
  "(string \<times> ('w \<Rightarrow> err + entity list)) list \<Rightarrow> 'w \<Rightarrow> entity list \<Rightarrow> err list \<Rightarrow> entity list \<times> err list" where
  "list_classes [] w entities failures = (entities, failures)"
| "list_classes ((class, list) # ls) w entities failures =
     (case list w of
        Inl e \<Rightarrow> list_classes ls w entities (failures @ [Wrap ''listing credentials: '' e])
      | Inr found \<Rightarrow> list_classes ls w (entities @ found) failures)"

definition listTaggedEntities :: "'w env \<Rightarrow> lister \<Rightarrow> 'w \<Rightarrow> err + entity list" where
  "listTaggedEntities env l w =
     (let listings = classListings env l
      in case list_classes listings w [] [] of
           (entities, failures) \<Rightarrow>
             if length failures = length listings then Inl (Join failures) else Inr entities)"

definition deleteEntity :: "'w env \<Rightarrow> lister \<Rightarrow> 'w \<Rightarrow> string \<Rightarrow> 'w \<times> err option" where
  "deleteEntity env l w i =
     (case splitClassedID i of
        None \<Rightarrow> (w, Some (Opaque ''cannot delete: it names no credential class''))
      | Some (class, upstreamID) \<Rightarrow>
          if class = credentialTypeToken then
            (case DeleteToken (eHttp env) (llClient l) upstreamID w of
               (w, status, e) \<Rightarrow> (w, if e \<noteq> None \<and> status \<noteq> 404 then e else None))
          else if class = credentialTypeSpacesKey then
            (case DeleteSpacesKey (eHttp env) (llClient l) upstreamID w of
               (w, status, e) \<Rightarrow> (w, if e \<noteq> None \<and> status \<noteq> 404 then e else None))
          else (w, Some (Opaque ''cannot delete: unknown credential class'')))"

definition doCloudLister :: "'w env \<Rightarrow> lister \<Rightarrow> 'w cloud_lister" where
  "doCloudLister env l =
     \<lparr> ListTaggedEntities = listTaggedEntities env l, DeleteEntity = deleteEntity env l \<rparr>"

section \<open>The mount's side\<close>

definition OwnedIDs :: "'w kv \<Rightarrow> 'w \<Rightarrow> err + string set" where
  "OwnedIDs kv w =
     (case klist kv w activeTrackingPrefix of
        Inl e \<Rightarrow> Inl (Wrap ''listing tracking records: '' e)
      | Inr tokens \<Rightarrow>
          (case klist kv w spacesTrackingPrefix of
             Inl e \<Rightarrow> Inl (Wrap ''listing tracking records: '' e)
           | Inr keys \<Rightarrow>
               Inr (set (map (classedID credentialTypeToken) tokens)
                    \<union> set (map (classedID credentialTypeSpacesKey) keys))))"

section \<open>The passes\<close>

definition maxDeletesPerPass :: "backend \<Rightarrow> int" where
  "maxDeletesPerPass b = (case bConfig b of None \<Rightarrow> 10 | Some c \<Rightarrow> MaxDeletesPerPass c)"

text \<open>One pass of either kind: a minter that can reach the cloud, the owner id, then the pass.\<close>

definition reconcile_pass ::
  "'w env \<Rightarrow> duration \<Rightarrow> bool \<Rightarrow> 'w st \<Rightarrow> 'w st \<times> (code + rresult)" where
  "reconcile_pass env hold dryRun bw =
     (case anyHealthyMinter (fst bw) (eNow env (snd bw)) of
        None \<Rightarrow> (bw, Inl ErrUpstreamAuthFailed)
      | Some client \<Rightarrow>
          (case ownerInstanceID env bw of
             (bw, Inl e) \<Rightarrow> (bw, Inl ErrInternal)
           | ((b, w), Inr instanceID) \<Rightarrow>
               (case Run \<lparr> rcMaxDeletesPerPass = maxDeletesPerPass b, rcConfirmationHold = hold, rcDryRun = dryRun \<rparr>
                      (doCloudLister env \<lparr> llInstance = instanceID, llClient = client \<rparr>)
                      (OwnedIDs (eKV env)) (eNow env w) w of
                  (w, Inl e) \<Rightarrow> ((b, w), Inl (Classify StatusNone (Some e)))
                | (w, Inr res) \<Rightarrow> ((b, w), Inr res))))"

text \<open>The hold of the request is in seconds; the product is Go's, on 64 bits.\<close>

definition effectiveHold :: "int \<Rightarrow> duration" where
  "effectiveHold secs =
     (let requestedHold = wrap64 (secs * second)
      in if requestedHold < MinConfirmationHold then MinConfirmationHold else requestedHold)"

text \<open>What both kinds of plugin answer with; the hold, a text in the code, is its nanoseconds here.\<close>

definition response_data :: "string \<Rightarrow> bool \<Rightarrow> duration \<Rightarrow> rresult \<Rightarrow> (string \<times> json) list" where
  "response_data mode dryRun hold res =
     [(''mode'', JStr mode), (''dry_run'', JBool dryRun), (''target'', JStr ''upstream_orphans''),
      (''scanned'', JInt (int (Scanned res))), (''found'', JInt (int (length (OrphansFound res)))),
      (''deleted'', JInt (int (Deleted res))),
      (''remaining'', JInt (int (Scanned res) - int (Deleted res))),
      (''delete_errors'', JInt (int (length (Errors res)))), (''expired'', JInt (int (Expired res))),
      (''hit_limit'', JBool (HitLimit res)), (''confirmation_hold'', JInt hold)]"

definition pathReconcile :: "'w env \<Rightarrow> string \<Rightarrow> int \<Rightarrow> 'w st \<Rightarrow> 'w st \<times> response" where
  "pathReconcile env mode confirmation_hold bw =
     (if mode \<noteq> ''normal'' \<and> mode \<noteq> ''dry_run'' then (bw, RespErr ErrConfigInvalid)
      else
        let dryRun = (mode = ''dry_run''); hold = effectiveHold confirmation_hold
        in case reconcile_pass env hold dryRun bw of
             (bw, Inl c) \<Rightarrow> (bw, RespErr c)
           | (bw, Inr res) \<Rightarrow> (bw, RespData (response_data mode dryRun hold res)))"

definition reconcileWorker :: "'w env \<Rightarrow> 'w st \<Rightarrow> 'w st \<times> code option" where
  "reconcileWorker env bw =
     (case PruneCache (Some (eKV env)) (eNow env (snd bw)) (gCacheTTL (gate env (fst bw))) (snd bw) of
        (w, _) \<Rightarrow>
          (case reconcile_pass env WorkerConfirmationHold False (fst bw, w) of
             (bw, Inl c) \<Rightarrow> (bw, Some c)
           | (bw, Inr res) \<Rightarrow> (bw, None)))"

section \<open>Ids\<close>

lemma Cut_colon: "CHR '':'' \<notin> set c \<Longrightarrow> Cut (c @ '':'' @ i) '':'' = Some (c, i)"
  by (rule Cut_append) simp_all

lemma joined_split:
  assumes "c \<in> {credentialTypeToken, credentialTypeSpacesKey}"
  shows "splitClassedID (classedID c i) = (if i = [] then None else Some (c, i))"
proof -
  have "CHR '':'' \<notin> set c" "c \<noteq> []" using assms by (auto simp: credential_type_defs)
  then show ?thesis
    using Cut_colon [of c i] by (simp add: splitClassedID_def classedID_def reconcileClassSeparator_def)
qed

lemma split_joined:
  assumes "c \<in> {credentialTypeToken, credentialTypeSpacesKey}"
  shows "splitClassedID x = Some (c, i) \<longleftrightarrow> i \<noteq> [] \<and> x = classedID c i"
proof
  assume x: "splitClassedID x = Some (c, i)"
  obtain p q where cut: "Cut x '':'' = Some (p, q)" and "p = c" "q = i" "i \<noteq> []"
    using x by (auto simp: splitClassedID_def reconcileClassSeparator_def split: option.splits if_splits)
  then show "i \<noteq> [] \<and> x = classedID c i"
    using Cut_decompose [OF cut] by (simp add: classedID_def reconcileClassSeparator_def)
qed (simp add: joined_split [OF assms])

text \<open>
  Ids keep their class on the way through the reconciler: for either class and a non-empty id,
  splitting what was joined gives both back, whatever characters the id has, and what splits into them is
  the joined form and nothing else; so no id of one class is ever taken for one of the other.
\<close>
theorem classed_id_roundtrip:
  assumes "c \<in> {credentialTypeToken, credentialTypeSpacesKey}"
  shows "splitClassedID (classedID c i) = (if i = [] then None else Some (c, i))
     \<and> (\<forall>x. splitClassedID x = Some (c, i) \<longleftrightarrow> i \<noteq> [] \<and> x = classedID c i)"
  using joined_split [OF assms] split_joined [OF assms] by blast

theorem classed_id_roundtrip_witness:
  "splitClassedID ''spaces_key:DO:1'' = Some (''spaces_key'', ''DO:1'')"
  using classed_id_roundtrip [of "''spaces_key''" "''DO:1''"]
  by (simp add: credential_type_defs classedID_def reconcileClassSeparator_def)

section \<open>What a pass reclaims\<close>

definition tracking_prefix :: "string \<Rightarrow> string" where
  "tracking_prefix c = (if c = credentialTypeToken then activeTrackingPrefix else spacesTrackingPrefix)"

text \<open>What a client sees of one credential in the listing of its class.\<close>

definition listed :: "'w env \<Rightarrow> do_client \<Rightarrow> 'w \<Rightarrow> string \<Rightarrow> string \<Rightarrow> string \<Rightarrow> time \<Rightarrow> bool" where
  "listed env client w c i name created \<longleftrightarrow>
     (if c = credentialTypeToken then
        \<exists>ts t. ListTokens (eHttp env) client w = Inr ts \<and> t \<in> set ts \<and> tiID t = i \<and> tiName t = name
           \<and> ParseCreatedAt (tiCreatedAt t) = created
      else
        \<exists>ks k. ListSpacesKeys (eHttp env) client w = Inr ks \<and> k \<in> set ks \<and> skAccessKey k = i \<and> skName k = name
           \<and> ParseCreatedAt (skCreatedAt k) = created)"

abbreviation classes :: "string set" where
  "classes \<equiv> {credentialTypeToken, credentialTypeSpacesKey}"

lemma list_classes_entities:
  "list_classes ls w entities failures = (es, fs) \<Longrightarrow>
     set es \<subseteq> set entities \<union> {e. \<exists>c f found. (c, f) \<in> set ls \<and> f w = Inr found \<and> e \<in> set found}"
proof (induction ls w entities failures rule: list_classes.induct)
  case (2 c f ls w entities failures)
  show ?case
  proof (cases "f w")
    case (Inl e)
    then have "list_classes ls w entities (failures @ [Wrap ''listing credentials: '' e]) = (es, fs)"
      using 2(3) by simp
    from 2(1) [OF Inl this] show ?thesis by (rule order_trans) auto
  next
    case (Inr found)
    then have "list_classes ls w (entities @ found) failures = (es, fs)" using 2(3) by simp
    from 2(2) [OF Inr this] show ?thesis by (rule order_trans) (use Inr in auto)
  qed
qed simp

lemma owned_entity:
  assumes "e \<in> set (ownedEntities inst c records f)"
  obtains r where "r \<in> set records" "eID e = classedID c (ucID (f r))" "Owns inst (ucName (f r))"
    "eName e = ucName (f r)" "eCreatedAt e = ParseCreatedAt (ucCreatedAt (f r))"
proof -
  have "e \<in> (\<lambda>r. \<lparr> eID = classedID c (ucID (f r)), eName = ucName (f r),
      eCreatedAt = ParseCreatedAt (ucCreatedAt (f r)), eExpiresAt = zero_time \<rparr>)
      ` {r \<in> set records. Owns inst (ucName (f r))}"
    using assms unfolding ownedEntities_def Let_def set_map set_filter .
  then obtain r where r: "r \<in> set records" "Owns inst (ucName (f r))" and
    e: "e = \<lparr> eID = classedID c (ucID (f r)), eName = ucName (f r),
      eCreatedAt = ParseCreatedAt (ucCreatedAt (f r)), eExpiresAt = zero_time \<rparr>" by blast
  show thesis by (rule that [OF r(1) _ r(2)]) (simp_all add: e)
qed

lemma listed_entity:
  assumes "listTaggedEntities env l w = Inr es" and "e \<in> set es"
  shows "\<exists>c i. c \<in> classes \<and> eID e = classedID c i \<and> Owns (llInstance l) (eName e)
     \<and> listed env (llClient l) w c i (eName e) (eCreatedAt e)"
proof -
  have "e \<in> {e. \<exists>c f found. (c, f) \<in> set (classListings env l) \<and> f w = Inr found \<and> e \<in> set found}"
    using assms list_classes_entities [of "classListings env l" w "[]" "[]"]
    by (auto simp: listTaggedEntities_def Let_def split: prod.splits if_splits)
  then obtain found where "lister_tokens env l w = Inr found \<and> e \<in> set found
      \<or> lister_keys env l w = Inr found \<and> e \<in> set found"
    by (auto simp: classListings_def)
  then show ?thesis
  proof (elim disjE conjE)
    assume "lister_tokens env l w = Inr found" and e: "e \<in> set found"
    then obtain ts where ts: "ListTokens (eHttp env) (llClient l) w = Inr ts"
      and "found = ownedEntities (llInstance l) credentialTypeToken ts
          (\<lambda>t. \<lparr> ucID = tiID t, ucName = tiName t, ucCreatedAt = tiCreatedAt t \<rparr>)"
      by (auto simp: lister_tokens_def split: sum.splits)
    with e obtain t where "t \<in> set ts" "eID e = classedID credentialTypeToken (tiID t)"
      "Owns (llInstance l) (tiName t)" "eName e = tiName t" "eCreatedAt e = ParseCreatedAt (tiCreatedAt t)"
      by (auto elim: owned_entity)
    then show ?thesis using ts
      by (intro exI [of _ credentialTypeToken] exI [of _ "tiID t"]) (auto simp: listed_def)
  next
    assume "lister_keys env l w = Inr found" and e: "e \<in> set found"
    then obtain ks where ks: "ListSpacesKeys (eHttp env) (llClient l) w = Inr ks"
      and "found = ownedEntities (llInstance l) credentialTypeSpacesKey ks
          (\<lambda>k. \<lparr> ucID = skAccessKey k, ucName = skName k, ucCreatedAt = skCreatedAt k \<rparr>)"
      by (auto simp: lister_keys_def split: sum.splits)
    with e obtain k where "k \<in> set ks" "eID e = classedID credentialTypeSpacesKey (skAccessKey k)"
      "Owns (llInstance l) (skName k)" "eName e = skName k" "eCreatedAt e = ParseCreatedAt (skCreatedAt k)"
      by (auto elim: owned_entity)
    then show ?thesis using ks
      by (intro exI [of _ credentialTypeSpacesKey] exI [of _ "skAccessKey k"])
        (auto simp: listed_def credential_type_defs)
  qed
qed

context do_world begin

lemma deleteEntity_effect:
  assumes "deleteEntity env l w x = (w', e)"
  shows "view w' = view w" and "alive w' \<subseteq> alive w"
    and "y \<in> alive w - alive w' \<Longrightarrow> splitClassedID x = Some y \<and> fst y \<in> classes"
proof -
  have "view w' = view w \<and> alive w' \<subseteq> alive w
      \<and> (\<forall>y \<in> alive w - alive w'. splitClassedID x = Some y \<and> fst y \<in> classes)"
  proof (cases "splitClassedID x")
    case None
    then show ?thesis using assms by (simp add: deleteEntity_def)
  next
    case (Some p)
    obtain c i where p: "p = (c, i)" by force
    consider "c = credentialTypeToken" | "c = credentialTypeSpacesKey" "c \<noteq> credentialTypeToken" | "c \<notin> classes"
      by blast
    then show ?thesis
    proof cases
      case 1
      obtain w1 st r where d: "DeleteToken (eHttp env) (llClient l) i w = (w1, st, r)" by (metis surj_pair)
      have "w' = w1" using assms d by (simp add: deleteEntity_def Some p 1)
      then show ?thesis using DeleteToken_view [OF d] delete_token [OF d] Some p 1 by auto
    next
      case 2
      obtain w1 st r where d: "DeleteSpacesKey (eHttp env) (llClient l) i w = (w1, st, r)" by (metis surj_pair)
      have "w' = w1" using assms d 2(2) by (simp add: deleteEntity_def Some p 2(1))
      then show ?thesis using DeleteSpacesKey_view [OF d] delete_key [OF d] Some p 2 by auto
    next
      case 3
      then have "w' = w" using assms by (simp add: deleteEntity_def Some p)
      then show ?thesis by simp
    qed
  qed
  then show "view w' = view w" and "alive w' \<subseteq> alive w"
    and "y \<in> alive w - alive w' \<Longrightarrow> splitClassedID x = Some y \<and> fst y \<in> classes" by blast+
qed

lemma delete_all_effect:
  assumes "delete_all (deleteEntity env l) w xs = (w', n)"
  shows "view w' = view w" and "alive w' \<subseteq> alive w"
    and "y \<in> alive w - alive w' \<Longrightarrow> \<exists>x \<in> set xs. splitClassedID x = Some y \<and> fst y \<in> classes"
proof -
  have "view w' = view w \<and> alive w' \<subseteq> alive w
      \<and> (\<forall>y \<in> alive w - alive w'. \<exists>x \<in> set xs. splitClassedID x = Some y \<and> fst y \<in> classes)"
    using assms
  proof (induction xs arbitrary: w n)
    case (Cons x xs)
    obtain w1 r m where d: "deleteEntity env l w x = (w1, r)" "delete_all (deleteEntity env l) w1 xs = (w', m)"
      using Cons.prems by (auto split: prod.splits)
    note f = deleteEntity_effect [OF d(1)] and ih = Cons.IH [OF d(2)]
    have "\<exists>x' \<in> set (x # xs). splitClassedID x' = Some y \<and> fst y \<in> classes" if "y \<in> alive w - alive w'" for y
      using f(3) [of y] ih that by (cases "y \<in> alive w1") (fastforce, simp)
    then show ?case using f(1,2) ih by auto
  qed simp
  then show "view w' = view w" and "alive w' \<subseteq> alive w"
    and "y \<in> alive w - alive w' \<Longrightarrow> \<exists>x \<in> set xs. splitClassedID x = Some y \<and> fst y \<in> classes" by blast+
qed

lemma owned_tracked:
  assumes "OwnedIDs (eKV env) w = Inr owned" and "c \<in> classes" and "i \<noteq> []" and "segment i = i"
    and "view w (tracking_prefix c @ i) \<noteq> None"
  shows "classedID c i \<in> owned"
proof -
  obtain ts ks where l: "klist (eKV env) w activeTrackingPrefix = Inr ts" "klist (eKV env) w spacesTrackingPrefix = Inr ks"
    and owned: "owned = set (map (classedID credentialTypeToken) ts) \<union> set (map (classedID credentialTypeSpacesKey) ks)"
    using assms(1) by (auto simp: OwnedIDs_def split: sum.splits)
  have "i \<in> children (view w) (tracking_prefix c)"
    using assms(3-5) by (force simp: children_def)
  moreover have "set ts = children (view w) activeTrackingPrefix" "set ks = children (view w) spacesTrackingPrefix"
    using list_view [OF l(1)] list_view [OF l(2)] by (simp_all add: lists_def)
  ultimately show ?thesis
    using assms(2) owned by (auto simp: tracking_prefix_def credential_type_defs)
qed

lemma tracking_apart: "tracking_prefix c @ i \<noteq> storageKey"
  by (simp add: tracking_prefix_def activeTrackingPrefix_def spacesTrackingPrefix_def storageKey_def)

lemma reconcile_pass_effect:
  assumes "reconcile_pass env hold dryRun (b, w) = ((b', w'), res)" and "0 < hold"
  shows "alive w' \<subseteq> alive w" (is ?sub)
    and "\<forall>k. k \<noteq> storageKey \<longrightarrow> view w' k = view w k" (is ?frame)
    and "\<forall>c i. (c, i) \<in> alive w - alive w' \<longrightarrow> \<not> dryRun \<and> c \<in> classes
       \<and> (segment i = i \<longrightarrow> view w (tracking_prefix c @ i) = None)
       \<and> (\<exists>inst client w1 name created. snd (ownerInstanceID env (b, w)) = Inr inst
            \<and> listed env client w1 c i name created \<and> Owns inst name
            \<and> created \<noteq> 0 \<and> hold \<le> eNow env w1 - created)" (is ?gone)
proof -
  have "?sub \<and> ?frame \<and> ?gone"
  proof (cases "anyHealthyMinter b (eNow env w)")
    case None
    then have "w' = w" using assms(1) by (simp add: reconcile_pass_def)
    then show ?thesis by simp
  next
    case (Some client)
    obtain b1 w1 o1 where o: "ownerInstanceID env (b, w) = ((b1, w1), o1)" by (metis surj_pair)
    note fr = ownerInstanceID_frame [OF o]
    show ?thesis
    proof (cases o1)
      case (Inl e)
      then have "w' = w1" using assms(1) o by (simp add: reconcile_pass_def Some)
      then show ?thesis using fr by simp
    next
      case (Inr inst)
      let ?l = "\<lparr> llInstance = inst, llClient = client \<rparr>"
      let ?cfg = "\<lparr> rcMaxDeletesPerPass = maxDeletesPerPass b1, rcConfirmationHold = hold, rcDryRun = dryRun \<rparr>"
      obtain w2 rr where run: "Run ?cfg (doCloudLister env ?l) (OwnedIDs (eKV env)) (eNow env w1) w1 = (w2, rr)"
        by (metis surj_pair)
      have w': "w' = w2" using assms(1) o Some Inr run by (auto simp: reconcile_pass_def split: sum.splits)
      from run show ?thesis
      proof (cases rule: run_deletes)
        case untouched
        then show ?thesis using fr w' by simp
      next
        case (deleted es owned chosen n)
        note d = deleted [unfolded doCloudLister_def, simplified]
        note eff = delete_all_effect [OF d(4)]
        have "\<not> dryRun \<and> c \<in> classes \<and> (segment i = i \<longrightarrow> view w (tracking_prefix c @ i) = None)
            \<and> (\<exists>name created. listed env client w1 c i name created \<and> Owns inst name
                 \<and> created \<noteq> 0 \<and> hold \<le> eNow env w1 - created)"
          if gone: "(c, i) \<in> alive w - alive w'" for c i
        proof -
          have "(c, i) \<in> alive w1 - alive w2" using gone fr(1) w' by simp
          from eff(3) [OF this] obtain e where e: "e \<in> set chosen" and sp: "splitClassedID (eID e) = Some (c, i)"
            and cl: "c \<in> classes" by auto
          have ch: "e \<in> set es" "eID e \<notin> owned" "eCreatedAt e \<noteq> 0" "hold \<le> eNow env w1 - eCreatedAt e"
            using d(6) e assms(2) by auto
          obtain c' i' where l: "c' \<in> classes" "eID e = classedID c' i'" "Owns inst (eName e)"
            "listed env client w1 c' i' (eName e) (eCreatedAt e)"
            using listed_entity [OF d(1) ch(1)] by auto
          have "i \<noteq> []" "eID e = classedID c i" using split_joined [OF cl] sp by auto
          moreover have "c' = c \<and> i' = i" using split_joined [OF l(1), where i = i' and x = "eID e"] l(2) sp
            by (cases "i' = []") (auto simp: joined_split [OF l(1)])
          moreover have "view w (tracking_prefix c @ i) = None" if s: "segment i = i"
          proof (rule ccontr)
            assume "view w (tracking_prefix c @ i) \<noteq> None"
            then have "view w1 (tracking_prefix c @ i) \<noteq> None" using fr(2) [OF tracking_apart] by simp
            from owned_tracked [OF d(2) cl \<open>i \<noteq> []\<close> s this] show False using ch(2) calculation(2) by simp
          qed
          ultimately show ?thesis using d(3) cl l ch by blast
        qed
        moreover have "alive w' \<subseteq> alive w" using eff(2) fr(1) w' by simp
        moreover have "view w' k = view w k" if "k \<noteq> storageKey" for k using eff(1) fr(2) [OF that] w' by simp
        ultimately show ?thesis using o Inr by (simp, blast)
      qed
    qed
  qed
  then show ?sub ?frame ?gone by blast+
qed

end

lemma effectiveHold_min: "5 * minute \<le> effectiveHold secs"
  by (simp add: effectiveHold_def MinConfirmationHold_def Let_def)

lemma effectiveHold_asked: "wrap64 (secs * second) \<le> effectiveHold secs"
  by (simp add: effectiveHold_def Let_def)

text \<open>
  C21. An operator's reconcile can only reclaim this mount's orphans. Whatever the cloud lists and however
  its calls fare: nothing stored changes but the owner id, and a credential that is gone afterwards went in
  a normal run, had no tracking record (for an id that is one storage segment), was listed by its own
  class under a name that carries this mount's owner id, and has a known age of at least the hold the
  request asks for (in seconds, multiplied on 64 bits) and of at least five minutes whatever was asked for.
\<close>
theorem reclaim_only_orphans:
  assumes "do_world env view alive" and "pathReconcile env mode secs (b, w) = ((b', w'), resp)"
  shows "(\<forall>k. k \<noteq> ''owner-instance-id'' \<longrightarrow> view w' k = view w k) \<and> alive w' \<subseteq> alive w
     \<and> (\<forall>c i. (c, i) \<in> alive w - alive w' \<longrightarrow> mode = ''normal'' \<and> c \<in> {''token'', ''spaces_key''}
          \<and> (segment i = i \<longrightarrow> view w ((if c = ''token'' then ''active-tokens/'' else ''active-spaces-keys/'') @ i) = None)
          \<and> (\<exists>inst client w1 name created. snd (ownerInstanceID env (b, w)) = Inr inst
               \<and> listed env client w1 c i name created \<and> prefix (''cloud-creds-'' @ inst @ ''-'') name
               \<and> created \<noteq> 0 \<and> wrap64 (secs * second) \<le> eNow env w1 - created
               \<and> 5 * minute \<le> eNow env w1 - created))"
proof (cases "mode = ''normal'' \<or> mode = ''dry_run''")
  case True
  let ?dry = "mode = ''dry_run''" and ?hold = "effectiveHold secs"
  obtain b2 w2 res where p: "reconcile_pass env ?hold ?dry (b, w) = ((b2, w2), res)" by (metis surj_pair)
  have w': "w' = w2" using assms(2) True p by (auto simp: pathReconcile_def Let_def split: sum.splits)
  have "(0::int) < 5 * minute" by (simp add: duration_defs)
  then have pos: "0 < ?hold" using effectiveHold_min [of secs] by (rule less_le_trans)
  note eff = do_world.reconcile_pass_effect [OF assms(1) p pos]
  have "mode = ''normal'' \<and> c \<in> {''token'', ''spaces_key''}
          \<and> (segment i = i \<longrightarrow> view w ((if c = ''token'' then ''active-tokens/'' else ''active-spaces-keys/'') @ i) = None)
          \<and> (\<exists>inst client w1 name created. snd (ownerInstanceID env (b, w)) = Inr inst
               \<and> listed env client w1 c i name created \<and> prefix (''cloud-creds-'' @ inst @ ''-'') name
               \<and> created \<noteq> 0 \<and> wrap64 (secs * second) \<le> eNow env w1 - created
               \<and> 5 * minute \<le> eNow env w1 - created)"
    if gone: "(c, i) \<in> alive w - alive w'" for c i
  proof -
    have e: "\<not> ?dry" "c \<in> classes" "segment i = i \<longrightarrow> view w (tracking_prefix c @ i) = None"
      "\<exists>inst client w1 name created. snd (ownerInstanceID env (b, w)) = Inr inst
         \<and> listed env client w1 c i name created \<and> Owns inst name \<and> created \<noteq> 0 \<and> ?hold \<le> eNow env w1 - created"
      using eff(3) gone w' by blast+
    then obtain inst client w1 name created where l: "snd (ownerInstanceID env (b, w)) = Inr inst"
      "listed env client w1 c i name created" "Owns inst name" "created \<noteq> 0" "?hold \<le> eNow env w1 - created"
      by blast
    have "prefix (''cloud-creds-'' @ inst @ ''-'') name" using l(3) by (simp add: Owns_def Prefix_def Base_def)
    moreover have "5 * minute \<le> eNow env w1 - created" using effectiveHold_min l(5) by (rule order_trans)
    moreover have "wrap64 (secs * second) \<le> eNow env w1 - created" using effectiveHold_asked l(5) by (rule order_trans)
    moreover have "tracking_prefix c = (if c = ''token'' then ''active-tokens/'' else ''active-spaces-keys/'')"
      by (simp add: tracking_prefix_def activeTrackingPrefix_def spacesTrackingPrefix_def credential_type_defs)
    ultimately show ?thesis using e(1-3) l(1,2,4) True by (simp add: credential_type_defs) blast
  qed
  moreover have "storageKey = ''owner-instance-id''" by (rule storageKey_def)
  ultimately show ?thesis using eff(1,2) w' by simp
next
  case False
  then have "w' = w" using assms(2) by (auto simp: pathReconcile_def)
  then show ?thesis by simp
qed

text \<open>The laws of the world do not speak of listings, so any listing may be put beside the in-memory cloud.\<close>

lemma requests_not_listing:
  "CreateToken (h \<lparr> hGet := g \<rparr>) = CreateToken h" "CreateSpacesKey (h \<lparr> hGet := g \<rparr>) = CreateSpacesKey h"
  "DeleteToken (h \<lparr> hGet := g \<rparr>) = DeleteToken h" "DeleteSpacesKey (h \<lparr> hGet := g \<rparr>) = DeleteSpacesKey h"
  by (intro ext; simp add: CreateToken_def CreateSpacesKey_def DeleteToken_def DeleteSpacesKey_def)+

lemma do_world_listing:
  assumes "do_world env view alive"
  shows "do_world (env \<lparr> eHttp := (eHttp env) \<lparr> hGet := g \<rparr> \<rparr>) view alive"
  using assms unfolding do_world_def do_world_axioms_def by (simp add: requests_not_listing)

definition listed_tokens :: "fake_world \<Rightarrow> string \<Rightarrow> string \<Rightarrow> err + (int \<times> blob)" where
  "listed_tokens w url tok =
     Inr (200, Json (JObj (if HasSuffix url ''/v2/tokens'' then
       [(''tokens'', JArr (map (\<lambda>(i, n). JObj [(''id'', JStr i), (''name'', JStr n), (''created_at'', JTime 1)])
          [(''lost'', ''cloud-creds-abcd-r-1''), (''kept'', ''cloud-creds-abcd-r-2''), (''other'', ''cloud-creds-ef-r-3'')]))]
       else [])))"

definition listing_env :: "fake_world env" where
  "listing_env = (fake_env (2 * hour)) \<lparr> eHttp := (eHttp (fake_env (2 * hour))) \<lparr> hGet := listed_tokens \<rparr> \<rparr>"

theorem reclaim_only_orphans_witness:
  "\<exists>bw resp. pathReconcile listing_env ''normal'' 3600 (one_minter, ([(''active-tokens/kept'', Raw [])],
       [(''token'', ''lost''), (''token'', ''kept''), (''token'', ''other'')])) = (bw, resp)
     \<and> known_classes (snd bw) = {(''token'', ''kept''), (''token'', ''other'')}
     \<and> mem_view (snd bw) ''active-tokens/kept'' = Some (Raw [])"
proof -
  let ?w = "([(''active-tokens/kept'', Raw [])], [(''token'', ''lost''), (''token'', ''kept''), (''token'', ''other'')]) :: fake_world"
  let ?r = "pathReconcile listing_env ''normal'' 3600 (one_minter, ?w)"
  have v: "snd (snd (fst ?r)) = [(''gone-token'', ''lost''), (''token'', ''kept''), (''token'', ''other'')]" by code_simp
  obtain b' w' resp where r: "?r = ((b', w'), resp)" by (metis surj_pair)
  have "do_world listing_env mem_view known_classes"
    unfolding listing_env_def by (rule do_world_listing [OF fake.do_world_axioms])
  note p = reclaim_only_orphans [OF this r]
  have "mem_view w' ''active-tokens/kept'' = mem_view ?w ''active-tokens/kept''" using p by simp
  moreover have "known_classes w' = {(''token'', ''kept''), (''token'', ''other'')}"
    using v r by (auto simp: known_classes_def credential_type_defs)
  ultimately show ?thesis using r by (simp add: mem_view_def)
qed

end
