(* ===== verification/DOPurge.thy ===== *)
theory DOPurge
  imports DOReconcile Purge
begin

text \<open>
  \<open>plugins/credential-do/path_purge.go\<close>: the purge of what a role has issued, wired to this plugin's
  records and its two delete calls. The shared engine runs over one world, so here it runs over the
  mount's state and the world as a pair.
\<close>

section \<open>What a role's purge deletes, and how\<close>

text \<open>The prefix its credentials are tracked under; a role's type says which.\<close>

definition purge_prefix :: "do_role \<Rightarrow> string" where
  "purge_prefix r = (if issuesSpacesKey r then spacesTrackingPrefix else activeTrackingPrefix)"

definition purgeDeleter :: "'w env \<Rightarrow> do_role \<Rightarrow> 'w st deleter" where
  "purgeDeleter env r bw rec =
     (case (case getMinter (fst bw) (drMinterSet r) (tMinter rec) of
              Some c \<Rightarrow> Some c
            | None \<Rightarrow> anyHealthyMinterInSet (fst bw) (eNow env (snd bw)) (drMinterSet r)) of
        None \<Rightarrow> (bw, Some (Opaque ''no healthy minter in set''))
      | Some client \<Rightarrow>
          (let now = eNow env (snd bw)
           in case (if issuesSpacesKey r then DeleteSpacesKey (eHttp env) client (tID rec) (snd bw)
                    else DeleteToken (eHttp env) client (tID rec) (snd bw)) of
                (w, status, e) \<Rightarrow>
                  (case Outcome status e of
                     Some outcome \<Rightarrow>
                       ((recordMinterError (eJitter env w) (fst bw) (drMinterSet r) (tMinter rec) status (the e) now, w),
                        Some outcome)
                   | None \<Rightarrow>
                       (let b = recordMinterSuccess (fst bw) (drMinterSet r) (tMinter rec) now
                        in if rotatesSharedKey r then
                             (case forgetSharedSpacesKey (eKV env) w (tRole rec) (tID rec) of (w, e) \<Rightarrow> ((b, w), e))
                           else ((b, w), None)))))"

text \<open>A disabled role can be purged: the stored role is read, not loaded for issuance.\<close>

definition resolvePurgeTarget :: "'w env \<Rightarrow> 'w st \<Rightarrow> string \<Rightarrow> code + string \<times> 'w st deleter" where
  "resolvePurgeTarget env bw rName =
     (case kget (eKV env) (snd bw) (''roles/'' @ rName) of
        Inl e \<Rightarrow> Inl ErrInternal
      | Inr None \<Rightarrow> Inl ErrRoleNotFound
      | Inr (Some v) \<Rightarrow>
          (case dec_role v of
             None \<Rightarrow> Inl ErrInternal
           | Some r \<Rightarrow> Inr (purge_prefix r, purgeDeleter env r)))"

definition purgeEndpoint :: "'w env \<Rightarrow> 'w st endpoint" where
  "purgeEndpoint env = \<lparr> MaxDeletes = 0, Resolve = resolvePurgeTarget env \<rparr>"

definition pathPurge :: "'w env \<Rightarrow> string \<Rightarrow> string \<Rightarrow> 'w st \<Rightarrow> 'w st \<times> (code + report)" where
  "pathPurge env rName mode bw =
     purge_write (beside (eKV env)) (purgeEndpoint env) rName mode (eNow env (snd bw)) bw"

definition purgeWorker :: "'w env \<Rightarrow> 'w st \<Rightarrow> 'w st \<times> err option" where
  "purgeWorker env bw = PurgeSweep (beside (eKV env)) (purgeEndpoint env) bw"

section \<open>What holds from step to step\<close>

text \<open>
  A relation between the world before and after that holds of each delete of a record in scope, of each
  removal of such a record and of each save of the intent holds of a whole pass.
\<close>

lemma pass_records_rel:
  assumes "\<And>w. R w w" and "\<And>u v w. R u v \<Longrightarrow> R v w \<Longrightarrow> R u w"
    and "\<And>r w w' x. r \<in> set rs \<Longrightarrow> del w r = (w', x) \<Longrightarrow> R w w'"
    and "\<And>r w w' x. r \<in> set rs \<Longrightarrow> kdel kv w (pre @ tID r) = (w', x) \<Longrightarrow> R w w'"
    and "pass_records kv pre budget del w res rs = (w', res', e)"
  shows "R w w'"
  using assms(3-5)
proof (induction rs arbitrary: w res)
  case Nil
  then show ?case using assms(1) by simp
next
  case (Cons r rs)
  have IH: "R v w'" if "pass_records kv pre budget del v res2 rs = (w', res', e)" for v res2
    using Cons.IH [OF _ _ that] Cons.prems(1,2) by (meson list.set_intros(2))
  obtain w1 x where d: "del w r = (w1, x)" by force
  have r1: "R w w1" using Cons.prems(1) d by (meson list.set_intros(1))
  show ?case
  proof (cases "PurgeDeleted res + Failed res \<ge> budget")
    case True
    then show ?thesis using Cons.prems(3) assms(1) by simp
  next
    case False
    show ?thesis
    proof (cases x)
      case (Some y)
      then show ?thesis using Cons.prems(3) d False r1 IH assms(2) by (fastforce split: if_splits)
    next
      case None
      obtain w2 y where k: "kdel kv w1 (pre @ tID r) = (w2, y)" by force
      then have "R w1 w2" using Cons.prems(2) by (meson list.set_intros(1))
      then have r2: "R w w2" using r1 assms(2) by blast
      show ?thesis
      proof (cases y)
        case (Some z)
        then show ?thesis using Cons.prems(3) d None k False r2 by simp
      next
        case y: None
        then show ?thesis using Cons.prems(3) d None k False r2 IH assms(2) by fastforce
      qed
    qed
  qed
qed

section \<open>What the shared records name\<close>

definition state_keys :: "shared_state \<Rightarrow> string set" where
  "state_keys s = set_option (map_option shAccess (Current s)) \<union> rkAccess ` set (Retiring s)"

definition shared_names :: "(string \<Rightarrow> blob option) \<Rightarrow> string set" where
  "shared_names m =
     {a. \<exists>n v d s. m (sharedSpacesPrefix @ n) = Some v \<and> dec_shared_state v = Some (d, s) \<and> a \<in> state_keys s}"

lemma shared_names_mono:
  assumes "\<And>n. m' (sharedSpacesPrefix @ n) = m (sharedSpacesPrefix @ n) \<or> m' (sharedSpacesPrefix @ n) = None
     \<or> (\<exists>s. m' (sharedSpacesPrefix @ n) = Some (enc_shared_state s) \<and> state_keys s \<subseteq> A)"
  shows "shared_names m' \<subseteq> shared_names m \<union> A"
proof
  fix a
  assume "a \<in> shared_names m'"
  then obtain n v d s where a: "m' (sharedSpacesPrefix @ n) = Some v" "dec_shared_state v = Some (d, s)"
    "a \<in> state_keys s" by (auto simp: shared_names_def)
  from assms [of n] show "a \<in> shared_names m \<union> A"
  proof (elim disjE exE conjE)
    assume "m' (sharedSpacesPrefix @ n) = m (sharedSpacesPrefix @ n)"
    then have "m (sharedSpacesPrefix @ n) = Some v" using a(1) by simp
    then show ?thesis using a(2,3) unfolding shared_names_def by blast
  next
    fix t
    assume "m' (sharedSpacesPrefix @ n) = Some (enc_shared_state t)" "state_keys t \<subseteq> A"
    then show ?thesis using a by (auto simp: dec_enc_shared_state)
  qed (use a in simp)
qed

lemma forget_keys: "forget a s = (hit, s') \<Longrightarrow> state_keys s' = state_keys s - {a}"
  by (auto simp: forget_def state_keys_def Let_def split: option.splits if_splits)

lemma forget_hit:
  "fst (forget a s) \<longleftrightarrow> (\<exists>k. Current s = Some k \<and> shAccess k = a)
     \<or> length (filter (\<lambda>r. rkAccess r \<noteq> a) (Retiring s)) \<noteq> length (Retiring s)"
  by (cases "Current s") (simp_all add: forget_def Let_def)

lemma forget_miss: "\<not> fst (forget a s) \<Longrightarrow> a \<notin> state_keys s"
proof -
  assume f: "\<not> fst (forget a s)"
  then have "length (filter (\<lambda>r. rkAccess r \<noteq> a) (Retiring s)) = length (Retiring s)"
    unfolding forget_hit by blast
  then have "rkAccess r \<noteq> a" if "r \<in> set (Retiring s)" for r
    using length_filter_less [OF that, of "\<lambda>r. rkAccess r \<noteq> a"] by force
  moreover have "\<nexists>k. Current s = Some k \<and> shAccess k = a" using f unfolding forget_hit by blast
  ultimately show ?thesis by (cases "Current s") (auto simp: state_keys_def)
qed

context do_world begin

lemma load_names:
  assumes "loadSharedSpacesState (eKV env) w n = Inr s"
  shows "state_keys s \<subseteq> shared_names (view w)"
  using load_view [OF assms] by (force simp: shared_names_def no_state_def state_keys_def split: option.splits)

lemma save_names:
  assumes "saveSharedSpacesState (eKV env) w n s = (w', e)"
  shows "shared_names (view w') \<subseteq> shared_names (view w) \<union> state_keys s"
proof (rule shared_names_mono)
  fix m
  show "view w' (sharedSpacesPrefix @ m) = view w (sharedSpacesPrefix @ m) \<or> view w' (sharedSpacesPrefix @ m) = None
     \<or> (\<exists>t. view w' (sharedSpacesPrefix @ m) = Some (enc_shared_state t) \<and> state_keys t \<subseteq> state_keys s)"
  proof (cases "m = n")
    case False
    then show ?thesis using save_effect(2) [OF assms] by simp
  next
    case True
    have "view w' = view w \<or> view w' = (view w)(sharedSpacesPrefix @ n := None)
        \<or> view w' = (view w)(sharedSpacesPrefix @ n \<mapsto> enc_shared_state s)"
      using assms put_ok put_err del_ok del_err
      unfolding saveSharedSpacesState_def by (cases e) (simp_all split: if_splits, metis+)
    then show ?thesis using True by auto
  qed
qed

lemma forget_effect:
  assumes "forgetSharedSpacesKey (eKV env) w n a = (w', e)"
  shows "alive w' = alive w" and "k \<noteq> sharedSpacesPrefix @ n \<Longrightarrow> view w' k = view w k"
    and "shared_names (view w') \<subseteq> shared_names (view w)"
    and "e = None \<Longrightarrow> loadSharedSpacesState (eKV env) w' n = Inr s' \<Longrightarrow> a \<notin> state_keys s'"
proof -
  have "alive w' = alive w \<and> (\<forall>k. k \<noteq> sharedSpacesPrefix @ n \<longrightarrow> view w' k = view w k)
      \<and> shared_names (view w') \<subseteq> shared_names (view w)
      \<and> (e = None \<longrightarrow> (\<forall>s'. loadSharedSpacesState (eKV env) w' n = Inr s' \<longrightarrow> a \<notin> state_keys s'))"
  proof (cases "loadSharedSpacesState (eKV env) w n")
    case (Inl x)
    then show ?thesis using assms by (simp add: forgetSharedSpacesKey_def)
  next
    case (Inr s)
    obtain hit t where f: "forget a s = (hit, t)" by force
    note keys = forget_keys [OF f] and ld = load_names [OF Inr]
    show ?thesis
    proof (cases hit)
      case False
      then have "w' = w" using assms Inr f by (simp add: forgetSharedSpacesKey_def)
      moreover have "a \<notin> state_keys s" using forget_miss [of a s] f False by simp
      ultimately show ?thesis using Inr by simp
    next
      case True
      then have sv: "saveSharedSpacesState (eKV env) w n t = (w', e)"
        using assms Inr f by (simp add: forgetSharedSpacesKey_def)
      have "s' = t" if "e = None" "loadSharedSpacesState (eKV env) w' n = Inr s'" for s'
        using load_after_save sv that by simp
      moreover have "shared_names (view w') \<subseteq> shared_names (view w)" "a \<notin> state_keys t"
        using save_names [OF sv] keys ld by blast+
      ultimately show ?thesis using save_effect(1,2) [OF sv] by blast
    qed
  qed
  then show "alive w' = alive w" and "k \<noteq> sharedSpacesPrefix @ n \<Longrightarrow> view w' k = view w k"
    and "shared_names (view w') \<subseteq> shared_names (view w)"
    and "e = None \<Longrightarrow> loadSharedSpacesState (eKV env) w' n = Inr s' \<Longrightarrow> a \<notin> state_keys s'" by blast+
qed

end

section \<open>What a purge can touch\<close>

text \<open>From one world to the next: only credentials in \<open>gone\<close> went and only the entries in \<open>keys\<close> changed.\<close>

definition reclaims ::
  "('w \<Rightarrow> string \<Rightarrow> blob option) \<Rightarrow> ('w \<Rightarrow> (string \<times> string) set) \<Rightarrow> (string \<times> string) set \<Rightarrow> string set
     \<Rightarrow> 'w \<Rightarrow> 'w \<Rightarrow> bool" where
  "reclaims view alive gone keys w w' \<longleftrightarrow>
     alive w' \<subseteq> alive w \<and> alive w - gone \<subseteq> alive w' \<and> (\<forall>k. k \<notin> keys \<longrightarrow> view w' k = view w k)
     \<and> shared_names (view w') \<subseteq> shared_names (view w)"

lemma reclaims_refl: "reclaims view alive gone keys w w"
  by (simp add: reclaims_def)

lemma reclaimsI:
  assumes "alive w' \<subseteq> alive w" and "alive w - gone \<subseteq> alive w'" and "\<And>k. k \<notin> keys \<Longrightarrow> view w' k = view w k"
    and "shared_names (view w') \<subseteq> shared_names (view w)"
  shows "reclaims view alive gone keys w w'"
  using assms unfolding reclaims_def by blast

lemma reclaims_trans:
  assumes "reclaims view alive gone keys u v" and "reclaims view alive gone keys v w"
  shows "reclaims view alive gone keys u w"
proof (rule reclaimsI)
  note uv = assms(1) [unfolded reclaims_def] and vw = assms(2) [unfolded reclaims_def]
  have a: "alive v \<subseteq> alive u" "alive w \<subseteq> alive v" "alive u - gone \<subseteq> alive v" "alive v - gone \<subseteq> alive w"
    using uv vw by blast+
  show "alive w \<subseteq> alive u" using a(2,1) by (rule subset_trans)
  show "alive u - gone \<subseteq> alive w" using a(3,4) by blast
  show "view w k = view u k" if "k \<notin> keys" for k using uv vw that by simp
  have "shared_names (view v) \<subseteq> shared_names (view u)" "shared_names (view w) \<subseteq> shared_names (view v)"
    using uv vw by blast+
  then show "shared_names (view w) \<subseteq> shared_names (view u)" by (rule subset_trans [rotated])
qed

definition purge_class :: "do_role \<Rightarrow> string" where
  "purge_class r = (if issuesSpacesKey r then credentialTypeSpacesKey else credentialTypeToken)"

text \<open>The entries a purge of a role may write: its intent, its shared record, the tracking records in scope.\<close>

definition purge_keys :: "string \<Rightarrow> do_role \<Rightarrow> string set \<Rightarrow> string set" where
  "purge_keys rName r X =
     {PurgePrefix @ rName, sharedSpacesPrefix @ rName} \<union> append (purge_prefix r) ` X"

lemma shared_names_same:
  "(\<And>n. m' (sharedSpacesPrefix @ n) = m (sharedSpacesPrefix @ n)) \<Longrightarrow> shared_names m' = shared_names m"
  by (simp add: shared_names_def)

lemmas purge_prefixes = PurgePrefix_def sharedSpacesPrefix_def spacesTrackingPrefix_def activeTrackingPrefix_def

lemma purge_prefix_apart:
  "purge_prefix r @ x \<noteq> sharedSpacesPrefix @ n" "purge_prefix r @ x \<noteq> PurgePrefix @ n"
  "PurgePrefix @ m \<noteq> sharedSpacesPrefix @ n"
  by (simp_all add: purge_prefix_def purge_prefixes)

context do_world begin

lemma writes_one_key:
  assumes "alive w' = alive w" and "\<And>k. k \<noteq> key \<Longrightarrow> view w' k = view w k" and "key \<in> keys"
    and "\<And>n. key \<noteq> sharedSpacesPrefix @ n"
  shows "reclaims view alive gone keys w w'"
proof -
  have "shared_names (view w') = shared_names (view w)"
    using assms(2,4) by (intro shared_names_same) metis
  moreover have "view w' k = view w k" if "k \<notin> keys" for k using assms(2) [of k] assms(3) that by blast
  ultimately show ?thesis using assms(1) by (intro reclaimsI) simp_all
qed

lemma purgeDeleter_reclaims:
  assumes "purgeDeleter env r bw rec = (bw', e)" and "tID rec \<in> X" and "tRole rec = n"
  shows "reclaims view alive (Pair (purge_class r) ` X) (purge_keys n r X) (snd bw) (snd bw')"
proof -
  define cl where "cl = (case getMinter (fst bw) (drMinterSet r) (tMinter rec) of Some c \<Rightarrow> Some c
      | None \<Rightarrow> anyHealthyMinterInSet (fst bw) (eNow env (snd bw)) (drMinterSet r))"
  show ?thesis
  proof (cases cl)
    case None
    then have "bw' = bw" using assms(1) by (simp add: purgeDeleter_def cl_def [symmetric])
    then show ?thesis by (simp add: reclaims_refl)
  next
    case (Some c)
    obtain w1 st x where d: "(if issuesSpacesKey r then DeleteSpacesKey (eHttp env) c (tID rec) (snd bw)
        else DeleteToken (eHttp env) c (tID rec) (snd bw)) = (w1, st, x)" by (metis surj_pair)
    have "view w1 = view (snd bw)
        \<and> alive (snd bw) - {(purge_class r, tID rec)} \<subseteq> alive w1 \<and> alive w1 \<subseteq> alive (snd bw)"
    proof (cases "issuesSpacesKey r")
      case True
      then have "DeleteSpacesKey (eHttp env) c (tID rec) (snd bw) = (w1, st, x)" using d by simp
      from DeleteSpacesKey_view [OF this] delete_key [OF this] True show ?thesis by (simp add: purge_class_def)
    next
      case False
      then have "DeleteToken (eHttp env) c (tID rec) (snd bw) = (w1, st, x)" using d by simp
      from DeleteToken_view [OF this] delete_token [OF this] False show ?thesis by (simp add: purge_class_def)
    qed
    then have r1: "reclaims view alive (Pair (purge_class r) ` X) (purge_keys n r X) (snd bw) w1"
      using assms(2) by (intro reclaimsI) (simp_all add: subset_iff, blast+)
    have "snd bw' = w1 \<or> (\<exists>f. forgetSharedSpacesKey (eKV env) w1 n (tID rec) = (snd bw', f))"
      using assms(1,3) d by (auto simp: purgeDeleter_def cl_def [symmetric] Some Let_def
        split: option.splits prod.splits if_splits)
    then show ?thesis
    proof (elim disjE exE)
      fix f
      assume f: "forgetSharedSpacesKey (eKV env) w1 n (tID rec) = (snd bw', f)"
      have "reclaims view alive (Pair (purge_class r) ` X) (purge_keys n r X) w1 (snd bw')"
        using forget_effect(1-3) [OF f] by (intro reclaimsI) (simp_all add: purge_keys_def)
      with r1 show ?thesis by (rule reclaims_trans)
    qed (use r1 in simp)
  qed
qed


lemma beside_kdel: "kdel (beside (eKV env)) (b, w) k = ((b', w'), x) \<Longrightarrow> kdel (eKV env) w k = (w', x)"
  by (auto simp: beside_def split: prod.splits)

lemma beside_kput: "kput (beside (eKV env)) (b, w) k v = ((b', w'), x) \<Longrightarrow> kput (eKV env) w k v = (w', x)"
  by (auto simp: beside_def split: prod.splits)

lemma Pass_reclaims:
  assumes "Pass (beside (eKV env)) cfg (purgeDeleter env r) bw = (bw', res, e)"
    and "pcPrefix cfg = purge_prefix r"
    and "X = {i. in_scope (pcRole cfg) (pcCutoff cfg) (view (snd bw)) (purge_prefix r) i}"
  shows "reclaims view alive (Pair (purge_class r) ` X) (purge_keys (pcRole cfg) r X) (snd bw) (snd bw')"
proof (cases "Scan (beside (eKV env)) bw (purge_prefix r) (pcRole cfg) (pcCutoff cfg)")
  case (Inl x)
  then show ?thesis using assms(1,2) by (simp add: Pass_def reclaims_refl)
next
  case (Inr rs)
  let ?R = "\<lambda>u v. reclaims view alive (Pair (purge_class r) ` X) (purge_keys (pcRole cfg) r X) (snd u) (snd v)"
  note spec = kv_store.Scan_spec [OF beside_store [OF kv_store_axioms] Inr]
  have X: "set (map tID rs) = X" using spec(3) assms(3) by simp
  have rec: "tID x \<in> X" "tRole x = pcRole cfg" if x: "x \<in> set rs" for x
  proof -
    show "tID x \<in> X" using X x by auto
    from spec(4) [THEN bspec, OF x] obtain b where
      "scan_entry (pcRole cfg) (pcCutoff cfg) (tID x) b = Some x" by blast
    then show "tRole x = pcRole cfg" using scan_entry_fields by blast
  qed
  let ?budget = "if pcMaxDeletes cfg \<le> 0 then DefaultMaxDeletes else pcMaxDeletes cfg"
  obtain bw1 res1 e1 where p: "pass_records (beside (eKV env)) (purge_prefix r) ?budget (purgeDeleter env r) bw
      (zero_result \<lparr> Tracked := int (length rs) \<rparr>) rs = (bw1, res1, e1)" by (metis surj_pair)
  then have "bw' = bw1" using assms(1,2) Inr by (cases e1) (auto simp: Pass_def Let_def)
  moreover have "?R bw bw1"
  proof (rule pass_records_rel [where R = ?R, OF _ _ _ _ p])
    fix x u v y
    assume x: "x \<in> set rs" and "purgeDeleter env r u x = (v, y)"
    from purgeDeleter_reclaims [OF this(2) rec [OF x]] show "?R u v" .
  next
    fix x u v y
    assume x: "x \<in> set rs" and k: "kdel (beside (eKV env)) u (purge_prefix r @ tID x) = (v, y)"
    obtain b w b2 w2 where "u = (b, w)" "v = (b2, w2)" by (metis surj_pair)
    with k have k: "kdel (eKV env) w (purge_prefix r @ tID x) = (w2, y)" by (auto dest: beside_kdel)
    have "reclaims view alive (Pair (purge_class r) ` X) (purge_keys (pcRole cfg) r X) w w2"
      by (rule writes_one_key [OF kdel_alive [OF k] del_frame [OF k]])
        (use rec(1) [OF x] purge_prefix_apart in \<open>auto simp: purge_keys_def\<close>)
    then show "?R u v" using \<open>u = (b, w)\<close> \<open>v = (b2, w2)\<close> by simp
  qed (rule reclaims_refl, erule (1) reclaims_trans)
  ultimately show ?thesis by simp
qed

lemma SaveIntent_reclaims:
  assumes "SaveIntent (beside (eKV env)) i bw = (bw', e)"
  shows "reclaims view alive gone (purge_keys (iRole i) r X) (snd bw) (snd bw')"
    and "k \<noteq> PurgePrefix @ iRole i \<Longrightarrow> view (snd bw') k = view (snd bw) k"
proof -
  obtain b w b2 w2 where bw: "bw = (b, w)" "bw' = (b2, w2)" by (metis surj_pair)
  obtain x where "kput (beside (eKV env)) (b, w) (PurgePrefix @ iRole i) (enc_intent i) = ((b2, w2), x)"
    using assms bw by (auto simp: SaveIntent_def split: prod.splits option.splits)
  then have k: "kput (eKV env) w (PurgePrefix @ iRole i) (enc_intent i) = (w2, x)" by (rule beside_kput)
  show "reclaims view alive gone (purge_keys (iRole i) r X) (snd bw) (snd bw')"
    unfolding bw snd_conv
    by (rule writes_one_key [OF put_alive [OF k] put_frame [OF k]])
      (use purge_prefix_apart in \<open>auto simp: purge_keys_def\<close>)
  show "k \<noteq> PurgePrefix @ iRole i \<Longrightarrow> view (snd bw') k = view (snd bw) k"
    using put_frame [OF k] bw by simp
qed

lemma Advance_reclaims:
  assumes "Advance (beside (eKV env)) (purge_prefix r) n (purgeDeleter env r) i bw = (bw', i', res, e)"
    and "X = {x. in_scope (iRole i) (iCutoff i) (view (snd bw)) (purge_prefix r) x}"
  shows "reclaims view alive (Pair (purge_class r) ` X) (purge_keys (iRole i) r X) (snd bw) (snd bw')"
proof (cases "iComplete i")
  case True
  then show ?thesis using assms(1) by (simp add: Advance_def reclaims_refl)
next
  case False
  let ?cfg = "\<lparr> pcPrefix = purge_prefix r, pcRole = iRole i, pcCutoff = iCutoff i, pcMaxDeletes = n \<rparr>"
  obtain bw1 res1 e1 where p: "Pass (beside (eKV env)) ?cfg (purgeDeleter env r) bw = (bw1, res1, e1)"
    by (metis surj_pair)
  have r1: "reclaims view alive (Pair (purge_class r) ` X) (purge_keys (iRole i) r X) (snd bw) (snd bw1)"
    using Pass_reclaims [OF p] assms(2) by simp
  show ?thesis
  proof (cases e1)
    case (Some x)
    then have "bw' = bw1" using assms(1) p False by (simp add: Advance_def)
    then show ?thesis using r1 by simp
  next
    case None
    let ?i = "i \<lparr> iDeleted := iDeleted i + PurgeDeleted res1, iFailed := Failed res1, iComplete := Complete res1 \<rparr>"
    obtain bw2 y where sv: "SaveIntent (beside (eKV env)) ?i bw1 = (bw2, y)" by (metis surj_pair)
    have "bw' = bw2" using assms(1) p None False sv by (auto simp: Advance_def Let_def split: option.splits)
    moreover have "reclaims view alive (Pair (purge_class r) ` X) (purge_keys (iRole i) r X) (snd bw1) (snd bw2)"
      using SaveIntent_reclaims(1) [OF sv, of _ r X] by simp
    ultimately show ?thesis using reclaims_trans [OF r1] by simp
  qed
qed


text \<open>What the stored role says a purge of it may delete at \<open>cutoff\<close>.\<close>

lemma resolve_role:
  assumes "resolvePurgeTarget env bw rName = Inr (pre, del)"
  obtains v r where "view (snd bw) (''roles/'' @ rName) = Some v" "dec_role v = Some r" "pre = purge_prefix r"
    "del = purgeDeleter env r"
proof -
  obtain v where g: "kget (eKV env) (snd bw) (''roles/'' @ rName) = Inr (Some v)"
    using assms by (auto simp: resolvePurgeTarget_def split: sum.splits option.splits)
  then obtain r where "dec_role v = Some r" "pre = purge_prefix r" "del = purgeDeleter env r"
    using assms by (auto simp: resolvePurgeTarget_def split: option.splits)
  moreover have "view (snd bw) (''roles/'' @ rName) = Some v" using get_view [OF g] by (rule sym)
  ultimately show thesis using that by blast
qed

lemma pathPurge_reclaims:
  assumes "pathPurge env rName mode (b, w) = ((b', w'), res)"
  shows "w' = w \<or> mode = ''normal'' \<and> (\<exists>v r X. view w (''roles/'' @ rName) = Some v \<and> dec_role v = Some r
     \<and> X = {x. in_scope rName (eNow env w) (view w) (purge_prefix r) x}
     \<and> reclaims view alive (Pair (purge_class r) ` X) (purge_keys rName r X) w w')"
proof (cases "mode = ''normal''")
  case False
  then have "(b', w') = (b, w)" using assms
    by (cases "mode = ''dry_run''")
      (auto simp: pathPurge_def purge_write_def purgeEndpoint_def split: sum.splits)
  then show ?thesis by simp
next
  case normal: True
  let ?now = "eNow env w" and ?kv = "beside (eKV env) :: (backend \<times> 'w) kv"
  show ?thesis
  proof (cases "resolvePurgeTarget env (b, w) rName")
    case (Inl c)
    then show ?thesis using assms normal
      by (simp add: pathPurge_def purge_write_def purgeEndpoint_def)
  next
    case (Inr t)
    obtain pre del where t: "t = (pre, del)" by force
    obtain v r where r: "view w (''roles/'' @ rName) = Some v" "dec_role v = Some r" "pre = purge_prefix r"
      "del = purgeDeleter env r" using resolve_role [OF Inr [unfolded t]] by auto
    define X where "X = {x. in_scope rName ?now (view w) (purge_prefix r) x}"
    obtain bw1 a where arm: "Arm ?kv pre rName ?now (b, w) = (bw1, a)" by (metis surj_pair)
    have ok: ?thesis if "reclaims view alive (Pair (purge_class r) ` X) (purge_keys rName r X) w w'"
      using r(1,2) normal that X_def by blast
    show ?thesis
    proof (cases "Scan ?kv (b, w) pre rName ?now")
      case (Inl x)
      then have "w' = w" using assms normal \<open>resolvePurgeTarget env (b, w) rName = Inr t\<close> t
        by (simp add: pathPurge_def purge_write_def purgeEndpoint_def Arm_def)
      then show ?thesis by simp
    next
      case scan: (Inr records)
      let ?i = "\<lparr> iRole = rName, iArmedAt = ?now, iCutoff = ?now, iTracked = int (length records), iDeleted = 0,
                 iFailed = 0, iComplete = (length records = 0) \<rparr>"
      obtain bw2 y where sv: "SaveIntent ?kv ?i (b, w) = (bw2, y)" by (metis surj_pair)
      note s1 = SaveIntent_reclaims(1) [OF sv, of "Pair (purge_class r) ` X" r X, simplified]
      have same: "in_scope rName ?now (view (snd bw2)) (purge_prefix r) x \<longleftrightarrow> in_scope rName ?now (view w) (purge_prefix r) x" for x
        using SaveIntent_reclaims(2) [OF sv, of "purge_prefix r @ x"] purge_prefix_apart(2) [of r x rName]
        by (simp add: in_scope_def)
      show ?thesis
      proof (cases y)
        case (Some e)
        then have "w' = snd bw2" using assms normal \<open>resolvePurgeTarget env (b, w) rName = Inr t\<close> t scan sv
          by (auto simp: pathPurge_def purge_write_def purgeEndpoint_def Arm_def Let_def)
        then show ?thesis using ok s1 by simp
      next
        case None
        obtain bw3 i3 res3 e3 where ad: "Advance ?kv pre 0 del ?i bw2 = (bw3, i3, res3, e3)" by (metis surj_pair)
        have "(b', w') = bw3" using assms normal \<open>resolvePurgeTarget env (b, w) rName = Inr t\<close> t scan sv None ad
          by (auto simp: pathPurge_def purge_write_def purgeEndpoint_def Arm_def Let_def split: option.splits)
        then have "w' = snd bw3" by (metis snd_conv)
        moreover have "X = {x. in_scope (iRole ?i) (iCutoff ?i) (view (snd bw2)) (purge_prefix r) x}"
          by (simp add: X_def same)
        ultimately have "reclaims view alive (Pair (purge_class r) ` X) (purge_keys rName r X) (snd bw2) w'"
          using Advance_reclaims [OF ad [unfolded r(3,4)]] by simp
        then show ?thesis by (intro ok reclaims_trans [OF s1])
      qed
    qed
  qed
qed

text \<open>One role of the background worker; the intent says whose records it is about.\<close>

lemma sweep_role_reclaims:
  assumes "sweep_role (beside (eKV env)) (purgeEndpoint env) rName (b, w) = (b', w')"
  shows "w' = w
    \<or> (\<exists>i v r X. LoadIntent (beside (eKV env)) (b, w) rName = Inr (Some i)
         \<and> view w (''roles/'' @ rName) = Some v \<and> dec_role v = Some r
         \<and> X = {x. in_scope (iRole i) (iCutoff i) (view w) (purge_prefix r) x}
         \<and> reclaims view alive (Pair (purge_class r) ` X) (purge_keys (iRole i) r X) w w')"
proof (cases "\<exists>i. LoadIntent (beside (eKV env)) (b, w) rName = Inr (Some i) \<and> \<not> iComplete i")
  case False
  then have "(b', w') = (b, w)" using assms
    by (auto simp: sweep_role_def split: sum.splits option.splits if_splits)
  then show ?thesis by simp
next
  case True
  then obtain i where i: "LoadIntent (beside (eKV env)) (b, w) rName = Inr (Some i)" "\<not> iComplete i" by blast
  show ?thesis
  proof (cases "resolvePurgeTarget env (b, w) rName")
    case (Inl c)
    then have "(b', w') = (b, w)" using assms i by (simp add: sweep_role_def purgeEndpoint_def)
    then show ?thesis by simp
  next
    case (Inr t)
    obtain pre del where t: "t = (pre, del)" by force
    obtain v r where r: "view w (''roles/'' @ rName) = Some v" "dec_role v = Some r" "pre = purge_prefix r"
      "del = purgeDeleter env r" using resolve_role [OF Inr [unfolded t]] by auto
    obtain bw1 i1 res e where ad: "Advance (beside (eKV env)) pre 0 del i (b, w) = (bw1, i1, res, e)"
      by (metis surj_pair)
    then have "(b', w') = bw1" using assms i Inr t by (simp add: sweep_role_def purgeEndpoint_def)
    then have "w' = snd bw1" by (metis snd_conv)
    moreover have "reclaims view alive (Pair (purge_class r) ` {x. in_scope (iRole i) (iCutoff i) (view w) (purge_prefix r) x})
        (purge_keys (iRole i) r {x. in_scope (iRole i) (iCutoff i) (view w) (purge_prefix r) x}) w (snd bw1)"
      using Advance_reclaims [OF ad [unfolded r(3,4)] refl] by simp
    ultimately show ?thesis using i(1) r(1,2) by blast
  qed
qed

end

section \<open>A purge deletes what its role issued, and nothing else\<close>

text \<open>
  C22. A purge takes only what its role has issued: a credential that is gone afterwards went in a normal
  run, is of the class the stored role issues, and has a tracking record that names the role and either a
  time no later than the request or no readable time at all (as in C5); of the storage only the role's
  intent, its shared-key record and the tracking records of that scope can change.
\<close>
theorem purge_only_what_it_names:
  assumes "do_world env view alive" and "pathPurge env rName mode (b, w) = ((b', w'), res)"
  shows "alive w' \<subseteq> alive w
     \<and> (\<forall>c i. (c, i) \<in> alive w - alive w' \<longrightarrow> mode = ''normal''
          \<and> (\<exists>v r. view w (''roles/'' @ rName) = Some v \<and> dec_role v = Some r
               \<and> c = (if issuesSpacesKey r then ''spaces_key'' else ''token'')
               \<and> in_scope rName (eNow env w) (view w)
                   (if issuesSpacesKey r then ''active-spaces-keys/'' else ''active-tokens/'') i))
     \<and> (\<forall>k. view w' k \<noteq> view w k \<longrightarrow> k \<in> {''purge/'' @ rName, ''shared-spaces-keys/'' @ rName}
          \<or> (\<exists>pre i. k = pre @ i \<and> pre \<in> {''active-spaces-keys/'', ''active-tokens/''}
               \<and> in_scope rName (eNow env w) (view w) pre i))"
  using do_world.pathPurge_reclaims [OF assms]
proof (elim disjE exE conjE)
  fix v r X
  assume normal: "mode = ''normal''" and v: "view w (''roles/'' @ rName) = Some v" "dec_role v = Some r"
    and X: "X = {x. in_scope rName (eNow env w) (view w) (purge_prefix r) x}"
    and rc: "reclaims view alive (Pair (purge_class r) ` X) (purge_keys rName r X) w w'"
  have pre: "purge_prefix r = (if issuesSpacesKey r then ''active-spaces-keys/'' else ''active-tokens/'')"
    by (simp add: purge_prefix_def spacesTrackingPrefix_def activeTrackingPrefix_def)
  have cls: "purge_class r = (if issuesSpacesKey r then ''spaces_key'' else ''token'')"
    by (simp add: purge_class_def credential_type_defs)
  note rc = rc [unfolded reclaims_def]
  have gone: "mode = ''normal'' \<and> (\<exists>v r. view w (''roles/'' @ rName) = Some v \<and> dec_role v = Some r
               \<and> c = (if issuesSpacesKey r then ''spaces_key'' else ''token'')
               \<and> in_scope rName (eNow env w) (view w)
                   (if issuesSpacesKey r then ''active-spaces-keys/'' else ''active-tokens/'') i)"
    if "(c, i) \<in> alive w - alive w'" for c i
  proof -
    have "(c, i) \<in> Pair (purge_class r) ` X" using rc that by blast
    then have "c = purge_class r \<and> in_scope rName (eNow env w) (view w) (purge_prefix r) i" by (auto simp: X)
    then show ?thesis using normal v unfolding cls pre by (intro conjI exI [of _ v] exI [of _ r]) simp_all
  qed
  have wrote: "k \<in> {''purge/'' @ rName, ''shared-spaces-keys/'' @ rName}
          \<or> (\<exists>pre i. k = pre @ i \<and> pre \<in> {''active-spaces-keys/'', ''active-tokens/''}
               \<and> in_scope rName (eNow env w) (view w) pre i)" if "view w' k \<noteq> view w k" for k
  proof -
    have "k \<in> purge_keys rName r X" using rc that by blast
    then have "k = ''purge/'' @ rName \<or> k = ''shared-spaces-keys/'' @ rName \<or> (\<exists>i \<in> X. k = purge_prefix r @ i)"
      by (auto simp: purge_keys_def PurgePrefix_def sharedSpacesPrefix_def)
    moreover have "purge_prefix r \<in> {''active-spaces-keys/'', ''active-tokens/''}" by (simp add: pre)
    ultimately show ?thesis unfolding X by blast
  qed
  have sub: "alive w' \<subseteq> alive w" using rc by blast
  show ?thesis by (rule conjI [OF sub conjI], (rule allI)+, rule impI, erule gone, rule allI, rule impI, erule wrote)
qed simp

definition issued_world :: fake_world where
  "issued_world =
     ([(''roles/t'', enc_role (token_role \<lparr> drDisabled := True \<rparr>)),
       (''active-tokens/A'', Json (JObj [(''role'', JStr ''t''), (''minter'', JStr ''m1''), (''created'', JTime 1)])),
       (''active-tokens/B'', Json (JObj [(''role'', JStr ''u''), (''minter'', JStr ''m1''), (''created'', JTime 1)]))],
      [(''token'', ''A''), (''token'', ''B'')])"

theorem purge_only_what_it_names_witness:
  "\<exists>bw res. pathPurge (fake_env 5) ''t'' ''normal'' (one_minter, issued_world) = (bw, res)
     \<and> known_classes (snd bw) = {(''token'', ''B'')} \<and> mem_view (snd bw) ''active-tokens/B'' \<noteq> None"
proof -
  let ?r = "pathPurge (fake_env 5) ''t'' ''normal'' (one_minter, issued_world)"
  have v: "snd (snd (fst ?r)) = [(''gone-token'', ''A''), (''token'', ''B'')]" by code_simp
  obtain b' w' res where r: "?r = ((b', w'), res)" by (metis surj_pair)
  note p = purge_only_what_it_names [OF fake.do_world_axioms r]
  have "mem_view w' ''active-tokens/B'' = mem_view issued_world ''active-tokens/B''"
  proof (rule ccontr)
    assume "mem_view w' ''active-tokens/B'' \<noteq> mem_view issued_world ''active-tokens/B''"
    from p [THEN conjunct2, THEN conjunct2, THEN spec, THEN mp, OF this] obtain pre i where
      "''active-tokens/B'' = pre @ i" "pre \<in> {''active-spaces-keys/'', ''active-tokens/''}"
      "in_scope ''t'' (eNow (fake_env 5) issued_world) (mem_view issued_world) pre i" by auto
    then show False
      by (auto simp: in_scope_def issued_world_def mem_view_def scan_entry_def str_field_def is_object_def)
  qed
  moreover have "mem_view issued_world ''active-tokens/B'' \<noteq> None" by (simp add: issued_world_def mem_view_def)
  moreover have "known_classes w' = {(''token'', ''B'')}"
    using v r by (auto simp: known_classes_def credential_type_defs)
  ultimately show ?thesis using r by auto
qed

text \<open>
  A purged shared key is not served again: when the purge counts a key of a rotated role as deleted,
  the role's record names it no longer, neither as the key it serves nor as one it is retiring.
\<close>
theorem purged_key_not_served:
  assumes "do_world env view alive" and "purgeDeleter env r (b, w) rec = ((b', w'), None)" and "rotatesSharedKey r"
    and "loadSharedSpacesState (eKV env) w' (tRole rec) = Inr s"
  shows "map_option shAccess (Current s) \<noteq> Some (tID rec) \<and> tID rec \<notin> rkAccess ` set (Retiring s)"
proof -
  have "issuesSpacesKey r" using assms(3) by (simp add: rotatesSharedKey_def issuesSpacesKey_def)
  then obtain w1 where "forgetSharedSpacesKey (eKV env) w1 (tRole rec) (tID rec) = (w', None)"
    using assms(2,3)
    by (auto simp: purgeDeleter_def Let_def split: option.splits prod.splits if_splits)
  from do_world.forget_effect(4) [OF assms(1) this refl assms(4)] show ?thesis
    by (auto simp: state_keys_def)
qed

definition purged_key :: tracked where
  "purged_key = \<lparr> tID = ''C'', tRole = ''r'', tMinter = ''m1'', tCreated = 1, tFields = JNull \<rparr>"

theorem purged_key_not_served_witness:
  "\<exists>bw s. purgeDeleter (fake_env 5) rotated_role (one_minter, retiring_world) purged_key = (bw, None)
     \<and> loadSharedSpacesState mem_kv (snd bw) ''r'' = Inr s \<and> Current s = None \<and> length (Retiring s) = 2"
proof -
  let ?r = "purgeDeleter (fake_env 5) rotated_role (one_minter, retiring_world) purged_key"
  have v: "snd ?r = None" by code_simp
  have ld: "(case loadSharedSpacesState mem_kv (snd (fst ?r)) ''r'' of Inl e \<Rightarrow> False
      | Inr s \<Rightarrow> Current s = None \<and> length (Retiring s) = 2)" by code_simp
  obtain b' w' where r: "?r = ((b', w'), None)" using v by (metis prod.collapse)
  obtain s where s: "loadSharedSpacesState mem_kv w' ''r'' = Inr s" "Current s = None" "length (Retiring s) = 2"
    using ld r by (auto split: sum.splits)
  have "rotatesSharedKey rotated_role" by (simp add: rotatesSharedKey_def rotated_role_def credentialType_def credential_type_defs)
  moreover have "loadSharedSpacesState (eKV (fake_env 5)) w' (tRole purged_key) = Inr s"
    using s(1) by (simp add: fake_env_def purged_key_def)
  ultimately have "map_option shAccess (Current s) \<noteq> Some (tID purged_key)"
    using purged_key_not_served [OF fake.do_world_axioms r] by blast
  then show ?thesis using r s by (intro exI [of _ "(b', w')"] exI [of _ s]) simp
qed

end
