(* ===== verification/DOTouch.thy ===== *)
theory DOTouch
  imports DOPurge
begin

text \<open>
  Every operation of the DigitalOcean mount reaches the world through requests to the cloud and through
  writes and deletes of stored entries, and through nothing else; so what no request and no write can
  undo, no operation can.
\<close>

section \<open>Every operation reaches the world through its requests and its writes\<close>

inductive touches :: "'w env \<Rightarrow> 'w \<Rightarrow> 'w \<Rightarrow> bool" for env :: "'w env" where
  nothing: "touches env w w"
| request: "touches env u v \<Longrightarrow> hSend (eHttp env) v verb url tok body = (w, r) \<Longrightarrow> touches env u w"
| put: "touches env u v \<Longrightarrow> kput (eKV env) v k x = (w, e) \<Longrightarrow> touches env u w"
| del: "touches env u v \<Longrightarrow> kdel (eKV env) v k = (w, e) \<Longrightarrow> touches env u w"

lemma touches_trans: "touches env v w \<Longrightarrow> touches env u v \<Longrightarrow> touches env u w"
  by (induction rule: touches.induct) (auto intro: touches.intros)

lemmas touches_step [intro] = touches.request [OF touches.nothing] touches.put [OF touches.nothing]
  touches.del [OF touches.nothing] touches.nothing

lemma touches_requests:
  "CreateToken (eHttp env) c name sc w = (w', st, rt) \<Longrightarrow> touches env w w'"
  "CreateSpacesKey (eHttp env) c name gs w = (w', st, rk) \<Longrightarrow> touches env w w'"
  "DeleteToken (eHttp env) c i w = (w', st, e) \<Longrightarrow> touches env w w'"
  "DeleteSpacesKey (eHttp env) c i w = (w', st, e) \<Longrightarrow> touches env w w'"
  by (auto simp: CreateToken_def CreateSpacesKey_def DeleteToken_def DeleteSpacesKey_def
      split: prod.splits sum.splits if_splits option.splits)

lemmas touches_then = touches_requests [THEN touches_trans] touches_step(2,3) [THEN touches_trans]

lemma touches_delete_fst:
  "touches env w (fst (DeleteToken (eHttp env) c i w))" "touches env w (fst (DeleteSpacesKey (eHttp env) c i w))"
  "touches env w (fst (kdel (eKV env) w k))"
  using touches_requests(3,4) touches_step(3) by (metis prod.collapse)+

lemma touches_owner:
  assumes "ownerInstanceID env (b, w) = ((b', w'), r)"
  shows "touches env w w'"
  using ownerInstanceID_world [OF assms] by auto

lemma touches_name:
  assumes "credentialName env (b, w) rn suf = (bw, r)"
  shows "touches env w (snd bw)"
proof -
  obtain b1 w1 r1 where o: "ownerInstanceID env (b, w) = ((b1, w1), r1)" by (metis surj_pair)
  then have "snd bw = w1" using assms by (cases r1) (auto simp: credentialName_def)
  then show ?thesis using touches_owner [OF o] by simp
qed

lemma touches_save: "saveSharedSpacesState (eKV env) w n s = (w', e) \<Longrightarrow> touches env w w'"
  by (auto simp: saveSharedSpacesState_def split: if_splits)

lemma touches_track: "trackSpacesKey (eKV env) w req n m a t lin = (w', e) \<Longrightarrow> touches env w w'"
  by (auto simp: trackSpacesKey_def)

lemma touches_rotate:
  assumes "rotateSharedSpacesKey env (b, w) r rName s now = ((b', w'), res)"
  shows "touches env w w'"
  using assms
proof (cases rule: rotate_minted)
  case (refused c)
  then show ?thesis
  proof (elim disjE exE conjE)
    fix b1 b2 w1 nr suf cl nm st e
    assume n: "credentialName env (b1, w) rName suf = ((b2, w1), nr)"
      and c: "CreateSpacesKey (eHttp env) cl nm (Grants r) w1 = (w', st, Inl e)"
    show ?thesis by (rule touches_trans [OF touches_requests(2) [OF c]]) (use touches_name [OF n] in simp)
  qed (use touches_name in auto)
next
  case (untracked b1 b2 w1 nr suf cl nm w2 st key mid w3 e)
  have "touches env w w1" using touches_name [OF untracked(2)] by simp
  note t = touches_trans [OF touches_requests(2) [OF untracked(3)] this]
  note t = touches_trans [OF touches_track [OF untracked(4)] t]
  show ?thesis unfolding untracked(5) by (rule touches_trans [OF touches_delete_fst(2) t])
next
  case (unsaved b1 b2 w1 nr suf cl nm w2 st key mid w3 s' w4 e)
  have "touches env w w1" using touches_name [OF unsaved(2)] by simp
  note t = touches_trans [OF touches_requests(2) [OF unsaved(3)] this]
  note t = touches_trans [OF touches_track [OF unsaved(4)] t]
  note t = touches_trans [OF touches_save [OF unsaved(5)] t]
  show ?thesis unfolding unsaved(6)
    by (rule touches_trans [OF touches_delete_fst(2) touches_trans [OF touches_delete_fst(3) t]])
next
  case (rotated b1 b2 w1 nr suf cl nm w2 st key sel w3)
  have "touches env w w1" using touches_name [OF rotated(1)] by simp
  note t = touches_trans [OF touches_requests(2) [OF rotated(2)] this]
  note t = touches_trans [OF touches_track [OF rotated(3)] t]
  show ?thesis by (rule touches_trans [OF touches_save [OF rotated(5)] t])
qed

lemma touches_retired:
  assumes "deleteRetiredSpacesKey env bw rk = (bw', e)"
  shows "touches env (snd bw) (snd bw')"
proof -
  obtain b w where bw: "bw = (b, w)" by force
  show ?thesis
    using assms unfolding bw
    by (auto simp: deleteRetiredSpacesKey_def Let_def split: option.splits prod.splits if_splits)
      (meson touches_then touches.nothing)+
qed

lemma touches_sweep_retiring:
  "sweep_retiring env now bw rks = (bw', kept, errs) \<Longrightarrow> touches env (snd bw) (snd bw')"
proof (induction rks arbitrary: bw kept errs)
  case (Cons rk rks)
  obtain bw1 e where d: "deleteRetiredSpacesKey env bw rk = (bw1, e)" by (metis surj_pair)
  show ?case
  proof (cases "now < rkDeleteAt rk")
    case True
    then show ?thesis using Cons by (auto split: prod.splits)
  next
    case False
    then obtain k2 e2 where "sweep_retiring env now bw1 rks = (bw', k2, e2)"
      using Cons.prems d by (auto split: option.splits prod.splits)
    from touches_trans [OF Cons.IH [OF this] touches_retired [OF d]] show ?thesis .
  qed
qed auto

lemma touches_sweepOne:
  assumes "sweepOneRoleRetiredKeys env now bw n = (bw', errs)"
  shows "touches env (snd bw) (snd bw')"
proof (cases "loadSharedSpacesState (eKV env) (snd bw) n")
  case (Inl e)
  then show ?thesis using assms by (auto simp: sweepOneRoleRetiredKeys_def)
next
  case (Inr s)
  obtain b1 w1 kept es where sw: "sweep_retiring env now bw (Retiring s) = ((b1, w1), kept, es)"
    by (metis surj_pair)
  obtain w2 e where sv: "saveSharedSpacesState (eKV env) w1 n (s \<lparr> Retiring := kept \<rparr>) = (w2, e)"
    by (metis surj_pair)
  have t: "touches env (snd bw) w1" using touches_sweep_retiring [OF sw] by simp
  have "snd bw' = w1 \<or> snd bw' = w2"
    using assms Inr sw sv by (auto simp: sweepOneRoleRetiredKeys_def split: if_splits option.splits)
  then show ?thesis using t touches_trans [OF touches_save [OF sv] t] by auto
qed

lemma sweep_roles_rel:
  assumes "\<And>bw. R bw bw" and "\<And>u v w. R u v \<Longrightarrow> R v w \<Longrightarrow> R u w"
    and "\<And>bw n bw' es. f bw n = (bw', es) \<Longrightarrow> R bw bw'" and "sweep_roles f bw ns = (bw', errs)"
  shows "R bw bw'"
  using assms(4)
proof (induction ns arbitrary: bw errs)
  case (Cons n ns)
  obtain bw1 es where f: "f bw n = (bw1, es)" by (metis surj_pair)
  obtain es' where "sweep_roles f bw1 ns = (bw', es')" using Cons.prems f by (auto split: prod.splits)
  from assms(2) [OF assms(3) [OF f] Cons.IH [OF this]] show ?case .
qed (simp add: assms(1))

text \<open>A sweep of the mount, as any relation sees it that holds of each role's sweep and each rotation.\<close>

lemma sweep_shared_rel:
  assumes "\<And>bw. R bw bw" and "\<And>u v w. R u v \<Longrightarrow> R v w \<Longrightarrow> R u w"
    and sweeps: "\<And>bw now n bw' es. sweepOneRoleRetiredKeys env now bw n = (bw', es) \<Longrightarrow> R bw bw'"
    and rotates: "\<And>bw r n s now bw' res. loadSharedSpacesState (eKV env) (snd bw) n = Inr s
        \<Longrightarrow> rotateSharedSpacesKey env bw r n s now = (bw', res) \<Longrightarrow> R bw bw'"
    and "sweepSharedSpacesKeys env bw = (bw', errs)"
  shows "R bw bw'"
proof -
  have role: "R bw bw'" if "rotateRoleIfOverdue env now bw n = (bw', es)" for now bw n bw' es
    using that rotates assms(1)
    by (auto simp: rotateRoleIfOverdue_def split: sum.splits option.splits if_splits prod.splits)
  let ?now = "eNow env (snd bw)"
  obtain bw1 es1 where r: "sweepRetiredSpacesKeys env ?now bw = (bw1, es1)" by (metis surj_pair)
  obtain es2 where o: "rotateOverdueSpacesRoles env ?now bw1 = (bw', es2)"
    using assms(5) r by (auto simp: sweepSharedSpacesKeys_def Let_def split: prod.splits)
  have "R bw bw1"
    using r assms(1) sweep_roles_rel [where R = R and f = "sweepOneRoleRetiredKeys env ?now", OF assms(1,2) sweeps]
    by (auto simp: sweepRetiredSpacesKeys_def split: sum.splits)
  moreover have "R bw1 bw'"
  proof (cases "klist (eKV env) (snd bw1) rolesPrefix")
    case (Inl e)
    then show ?thesis using o assms(1) by (simp add: rotateOverdueSpacesRoles_def)
  next
    case (Inr names)
    let ?f = "\<lambda>bw n. if HasSuffix n ''/'' then (bw, []) else rotateRoleIfOverdue env ?now bw n"
    have s: "sweep_roles ?f bw1 names = (bw', es2)" using o Inr by (simp add: rotateOverdueSpacesRoles_def)
    show ?thesis
      by (rule sweep_roles_rel [where R = R and f = ?f, OF assms(1,2) _ s])
        (use role assms(1) in \<open>auto split: if_splits\<close>)
  qed
  ultimately show ?thesis by (rule assms(2))
qed

lemma touches_sweep:
  assumes "sweepSharedSpacesKeys env bw = (bw', errs)"
  shows "touches env (snd bw) (snd bw')"
proof (rule sweep_shared_rel [where R = "\<lambda>u v. touches env (snd u) (snd v)", OF _ _ _ _ assms])
  show "touches env (snd u) (snd w)" if "touches env (snd u) (snd v)" "touches env (snd v) (snd w)"
    for u v w :: "'a st" by (rule touches_trans [OF that(2,1)])
  show "touches env (snd bw) (snd bw')" if "rotateSharedSpacesKey env bw r n s now = (bw', res)" for bw r n s now bw' res
    using that touches_rotate by (metis prod.collapse)
qed (auto intro: touches_sweepOne)

lemma touches_serve:
  assumes "serveSharedSpacesKey env id bw r n = (bw', resp)"
  shows "touches env (snd bw) (snd bw')"
proof -
  have "bw' = bw \<or> (\<exists>s now res. rotateSharedSpacesKey env bw r n s now = (bw', res))"
    using assms by (auto simp: serveSharedSpacesKey_def Let_def split: sum.splits if_splits prod.splits option.splits)
  then show ?thesis using touches_rotate by (metis prod.collapse touches.nothing)
qed

lemma touches_operator_rotate:
  assumes "pathSharedSpacesRotate env bw n = (bw', resp)"
  shows "touches env (snd bw) (snd bw')"
proof -
  have "bw' = bw \<or> (\<exists>r s now res. rotateSharedSpacesKey env bw r n s now = (bw', res))"
    using assms by (auto simp: pathSharedSpacesRotate_def Let_def split: sum.splits if_splits prod.splits)
  then show ?thesis using touches_rotate by (metis prod.collapse touches.nothing)
qed


lemma touches_issue_by:
  assumes run: "issue_by env pre create build (b, w) req r rName = ((b', w'), resp)"
    and creates: "\<And>cl nm v v' st x. create cl nm v = (v', st, x) \<Longrightarrow> touches env v v'"
    and builds: "\<And>bw sel x now bw' resp. build bw sel x now = (bw', resp) \<Longrightarrow> touches env (snd bw) (snd bw')"
  shows "touches env w w'"
proof -
  obtain cap b1 sr where sel: "selectMinter env (b, w) (drMinterSet r) (affinityKey req) cap (eNow env w) = ((b1, w), sr)"
    and "w' = w \<or> (\<exists>sl. sr = Inr sl)
       \<and> Capacity.Snapshot (eKV env) w pre (credentialLimitPerMinter b) = Inr cap"
  proof (cases "Capacity.Snapshot (eKV env) w pre (credentialLimitPerMinter b)")
    case (Inl e)
    then have "w' = w" using run by (auto simp: issue_by_def Let_def)
    then show thesis using that selectMinter_world by (metis surj_pair)
  next
    case (Inr cap)
    obtain b1 w0 sr where sel: "selectMinter env (b, w) (drMinterSet r) (affinityKey req) cap (eNow env w) = ((b1, w0), sr)"
      by (metis surj_pair)
    have w0: "w0 = w" using sel by (rule selectMinter_world)
    show thesis
      by (rule that [of cap b1 sr])
        (use run sel Inr w0 in \<open>auto simp: issue_by_def Let_def split: sum.splits\<close>)
  qed
  then show ?thesis
  proof (elim disjE exE conjE)
    fix sl
    assume sl: "sr = Inr sl" and cap: "Capacity.Snapshot (eKV env) w pre (credentialLimitPerMinter b) = Inr cap"
    obtain b2 w1 nr where nm: "credentialName env (b1, w) rName (rqID req) = ((b2, w1), nr)" by (metis surj_pair)
    have t: "touches env w w1" using touches_name [OF nm] by simp
    show ?thesis
    proof (cases nr)
      case (Inl c)
      then have "w' = w1" using run cap sel sl nm by (auto simp: issue_by_def Let_def)
      then show ?thesis using t by simp
    next
      case (Inr name)
      obtain w2 st kr where cr: "create (selClient sl) name w1 = (w2, st, kr)" by (metis surj_pair)
      have t: "touches env w w2" by (rule touches_trans [OF creates [OF cr] t])
      show ?thesis
      proof (cases kr)
        case (Inl e)
        then have "w' = w2" using run cap sel sl nm Inr cr by (auto simp: issue_by_def Let_def)
        then show ?thesis using t by simp
      next
        case (Inr x)
        then have "build (recordMinterSuccess b2 (selSet sl) (selMinter sl) (eNow env w), w2) sl x (eNow env w)
            = ((b', w'), resp)"
          using run cap sel sl nm \<open>nr = Inr name\<close> cr by (auto simp: issue_by_def Let_def)
        from touches_trans [OF builds [OF this] ] t show ?thesis by simp
      qed
    qed
  qed (simp add: touches.nothing)
qed

lemma touches_builds:
  "buildCredsResponse env bw req r n sel tk now lin = (bw', resp) \<Longrightarrow> touches env (snd bw) (snd bw')"
  "buildSpacesResponse env bw req r n sel key now lin = (bw', resp) \<Longrightarrow> touches env (snd bw) (snd bw')"
  by (auto simp: buildCredsResponse_def buildSpacesResponse_def trackSpacesKey_def Let_def split: prod.splits option.splits)
    (meson touches_step(2) touches_trans touches_delete_fst)+

lemma touches_read:
  assumes "pathCredsRead env id bw req n = (bw', resp)"
  shows "touches env (snd bw) (snd bw')"
proof -
  obtain lin b w b' w' where bw: "bw = (b, w)" "bw' = (b', w')" by (metis surj_pair)
  consider "bw' = bw" | r where "serveSharedSpacesKey env id bw r n = (bw', resp)"
    | r lin where "issueSpacesKey env bw req r n lin = (bw', resp)"
    | r lin where "issueToken env bw req r n lin = (bw', resp)"
    using assms by (auto simp: pathCredsRead_def split: sum.splits option.splits prod.splits if_splits)
  then show ?thesis
  proof cases
    case 2
    then show ?thesis by (rule touches_serve)
  next
    case 3
    note k = touches_issue_by [OF 3 [unfolded issue_shapes bw]]
    show ?thesis unfolding bw snd_conv by (rule k) (erule touches_requests touches_builds)+
  next
    case 4
    note k = touches_issue_by [OF 4 [unfolded issue_shapes bw]]
    show ?thesis unfolding bw snd_conv by (rule k) (erule touches_requests touches_builds)+
  qed (auto intro: touches.nothing)
qed

lemma touches_revoke_by:
  assumes "revoke_by env pre delete i bw internal = (bw', res)"
    and deletes: "\<And>c v v' st e. delete c i v = (v', st, e) \<Longrightarrow> touches env v v'"
  shows "touches env (snd bw) (snd bw')"
proof -
  have "touches env v (fst (kdel (eKV env) w k))" if "delete c i v = (w, st, e)" for c v w st e k
    by (rule touches_trans [OF touches_delete_fst(3) deletes [OF that]])
  then show ?thesis
    using assms(1) deletes touches_delete_fst(3)
    by (auto simp: revoke_by_def Let_def intro: touches.nothing split: option.splits prod.splits if_splits)
qed

lemma touches_revoke:
  assumes "revoke_lease env bw ty internal = (bw', res)"
  shows "touches env (snd bw) (snd bw')"
proof -
  consider "bw' = bw" | "pathCredsRevoke env bw internal = (bw', res)" | "pathSpacesKeyRevoke env bw internal = (bw', res)"
    using assms by (auto simp: revoke_lease_def pathSharedSpacesKeyRevoke_def split: if_splits)
  then show ?thesis
  proof cases
    case 2
    then show ?thesis unfolding revoke_shapes by (rule touches_revoke_by) (erule touches_requests)
  next
    case 3
    then show ?thesis unfolding revoke_shapes by (rule touches_revoke_by) (erule touches_requests)
  qed (auto intro: touches.nothing)
qed


lemma touches_delete_all:
  "delete_all (deleteEntity env l) w xs = (w', n) \<Longrightarrow> touches env w w'"
proof (induction xs arbitrary: w n)
  case (Cons x xs)
  obtain w1 e where d: "deleteEntity env l w x = (w1, e)" by force
  then have t: "touches env w w1"
    by (auto simp: deleteEntity_def intro: touches.nothing touches_requests split: option.splits prod.splits if_splits)
  obtain m where "delete_all (deleteEntity env l) w1 xs = (w', m)" using Cons.prems d by (auto split: prod.splits)
  from touches_trans [OF Cons.IH [OF this] t] show ?case .
qed (simp add: touches.nothing)

lemma touches_reconcile_pass:
  assumes "reconcile_pass env hold dryRun (b, w) = ((b', w'), res)"
  shows "touches env w w'"
proof (cases "anyHealthyMinter b (eNow env w)")
  case None
  then show ?thesis using assms by (simp add: reconcile_pass_def touches.nothing)
next
  case (Some client)
  obtain b1 w1 o1 where o: "ownerInstanceID env (b, w) = ((b1, w1), o1)" by (metis surj_pair)
  note t = touches_owner [OF o]
  show ?thesis
  proof (cases o1)
    case (Inl e)
    then show ?thesis using assms o t by (simp add: reconcile_pass_def Some)
  next
    case (Inr inst)
    let ?l = "\<lparr> llInstance = inst, llClient = client \<rparr>"
    let ?cfg = "\<lparr> rcMaxDeletesPerPass = maxDeletesPerPass b1, rcConfirmationHold = hold, rcDryRun = dryRun \<rparr>"
    obtain w2 rr where run: "Run ?cfg (doCloudLister env ?l) (OwnedIDs (eKV env)) (eNow env w1) w1 = (w2, rr)"
      by (metis surj_pair)
    have w': "w' = w2" using assms o Some Inr run by (auto simp: reconcile_pass_def split: sum.splits)
    from run have "touches env w1 w2"
      by (cases rule: run_deletes) (auto simp: doCloudLister_def intro: touches.nothing touches_delete_all)
    then show ?thesis unfolding w' using t by (rule touches_trans)
  qed
qed

lemma sweep_keys_rel:
  assumes "\<And>w. R w w" and "\<And>u v w. R u v \<Longrightarrow> R v w \<Longrightarrow> R u w"
    and "\<And>w k w' d. f w k = (w', d) \<Longrightarrow> R w w'" and "sweep f w ks = (w', n)"
  shows "R w w'"
  using assms(4)
proof (induction ks arbitrary: w n)
  case (Cons k ks)
  obtain w1 d where s: "f w k = (w1, d)" by force
  obtain m where "sweep f w1 ks = (w', m)" using Cons.prems s by (auto simp: Let_def split: prod.splits)
  from assms(2) [OF assms(3) [OF s] Cons.IH [OF this]] show ?case .
qed (simp add: assms(1))

text \<open>Pruning the cache, as any relation sees it that holds of each delete of a cached verdict.\<close>

lemma prune_rel:
  assumes "\<And>w. R w w" and "\<And>u v w. R u v \<Longrightarrow> R v w \<Longrightarrow> R u w"
    and "\<And>w k w' e. kdel kv w (cachePrefix @ k) = (w', e) \<Longrightarrow> R w w'" and "PruneCache (Some kv) now ttl w = (w', r)"
  shows "R w w'"
proof (cases "klist kv w cachePrefix")
  case (Inl e)
  then show ?thesis using assms(1,4) by (simp add: PruneCache_def)
next
  case (Inr keys)
  then obtain n where s: "sweep (cache_step kv now ttl) w keys = (w', n)"
    using assms(4) by (auto simp: PruneCache_def Let_def split: prod.splits)
  show ?thesis
    by (rule sweep_keys_rel [where R = R, OF assms(1,2) _ s])
      (use assms(1,3) in \<open>auto simp: cache_step_def split: if_splits prod.splits\<close>)
qed

lemma touches_prune:
  assumes "PruneCache (Some (eKV env)) now ttl w = (w', r)"
  shows "touches env w w'"
  by (rule prune_rel [where R = "touches env", OF _ _ _ assms])
    (rule touches.nothing, erule (1) touches_trans [rotated], erule touches_step(3))

lemma touches_forget: "forgetSharedSpacesKey (eKV env) w n a = (w', e) \<Longrightarrow> touches env w w'"
  by (auto simp: forgetSharedSpacesKey_def intro: touches.nothing touches_save split: sum.splits prod.splits bool.splits)

lemma touches_purgeDeleter:
  assumes "purgeDeleter env r bw rec = (bw', e)"
  shows "touches env (snd bw) (snd bw')"
proof (cases "case getMinter (fst bw) (drMinterSet r) (tMinter rec) of Some c \<Rightarrow> Some c
      | None \<Rightarrow> anyHealthyMinterInSet (fst bw) (eNow env (snd bw)) (drMinterSet r)")
  case None
  then show ?thesis using assms by (simp add: purgeDeleter_def touches.nothing)
next
  case (Some c)
  obtain w1 st x where d: "(if issuesSpacesKey r then DeleteSpacesKey (eHttp env) c (tID rec) (snd bw)
      else DeleteToken (eHttp env) c (tID rec) (snd bw)) = (w1, st, x)" by (metis surj_pair)
  have t: "touches env (snd bw) w1" using d touches_requests(3,4) by (auto split: if_splits)
  have "snd bw' = w1 \<or> (\<exists>f. forgetSharedSpacesKey (eKV env) w1 (tRole rec) (tID rec) = (snd bw', f))"
    using assms d by (auto simp: purgeDeleter_def Some Let_def split: option.splits prod.splits if_splits)
  then show ?thesis using t touches_trans [OF touches_forget t] by auto
qed

lemma touches_beside:
  "kdel (beside (eKV env)) bw k = (bw', x) \<Longrightarrow> touches env (snd bw) (snd bw')"
  "kput (beside (eKV env)) bw k v = (bw', x) \<Longrightarrow> touches env (snd bw) (snd bw')"
  by (auto simp: beside_def split: prod.splits)

lemma touches_save_intent:
  "SaveIntent (beside (eKV env)) i bw = (bw', e) \<Longrightarrow> touches env (snd bw) (snd bw')"
  by (auto simp: SaveIntent_def intro: touches_beside(2) split: prod.splits option.splits)

lemma touches_advance:
  assumes "Advance (beside (eKV env)) pre n (purgeDeleter env r) i bw = (bw', i', res, e)"
  shows "touches env (snd bw) (snd bw')"
proof -
  have pass: "touches env (snd u) (snd v)"
    if run: "Pass (beside (eKV env)) cfg (purgeDeleter env r) u = (v, res, e)" for cfg u v res e
  proof (cases "Scan (beside (eKV env)) u (pcPrefix cfg) (pcRole cfg) (pcCutoff cfg)")
    case (Inl x)
    then show ?thesis using run by (simp add: Pass_def touches.nothing)
  next
    case (Inr rs)
    then obtain budget res0 res1 e1 where p:
      "pass_records (beside (eKV env)) (pcPrefix cfg) budget (purgeDeleter env r) u res0 rs = (v, res1, e1)"
      using run by (auto simp: Pass_def Let_def split: prod.splits option.splits)
    show ?thesis
      by (rule pass_records_rel [where R = "\<lambda>u v. touches env (snd u) (snd v)", OF _ _ _ _ p])
        (erule touches_purgeDeleter touches_beside | rule touches.nothing | erule (1) touches_trans [rotated])+
  qed
  show ?thesis
  proof (cases "iComplete i")
    case True
    then show ?thesis using assms by (simp add: Advance_def touches.nothing)
  next
    case False
    obtain bw1 res1 e1 where p: "Pass (beside (eKV env)) \<lparr> pcPrefix = pre, pcRole = iRole i, pcCutoff = iCutoff i,
        pcMaxDeletes = n \<rparr> (purgeDeleter env r) bw = (bw1, res1, e1)" by (metis surj_pair)
    have "bw' = bw1 \<or> (\<exists>j y. SaveIntent (beside (eKV env)) j bw1 = (bw', y))"
      using assms p False by (auto simp: Advance_def Let_def split: option.splits prod.splits)
    then show ?thesis using pass [OF p] touches_trans [OF touches_save_intent pass [OF p]] by (elim disjE exE) simp_all
  qed
qed

lemma touches_purge:
  assumes "pathPurge env n mode bw = (bw', res)"
  shows "touches env (snd bw) (snd bw')"
proof -
  consider "bw' = bw" | i y where "SaveIntent (beside (eKV env)) i bw = (bw', y)"
    | i bw1 pre r j res e where "SaveIntent (beside (eKV env)) i bw = (bw1, None)"
        "Advance (beside (eKV env)) pre 0 (purgeDeleter env r) i bw1 = (bw', j, res, e)"
    using assms
    by (auto simp: pathPurge_def purge_write_def purgeEndpoint_def resolvePurgeTarget_def Arm_def Let_def
        split: if_splits sum.splits option.splits prod.splits)
  then show ?thesis
  proof cases
    case 3
    show ?thesis by (rule touches_trans [OF touches_advance [OF 3(2)] touches_save_intent [OF 3(1)]])
  qed (auto intro: touches.nothing touches_save_intent)
qed

lemma touches_sweep_role:
  "touches env (snd bw) (snd (sweep_role (beside (eKV env)) (purgeEndpoint env) n bw))"
proof -
  have "snd (fst (Advance (beside (eKV env)) pre m (purgeDeleter env r) i bw)) = w \<Longrightarrow> touches env (snd bw) w"
    for pre m r i w using touches_advance by (metis prod.collapse)
  then show ?thesis
    by (auto simp: sweep_role_def purgeEndpoint_def resolvePurgeTarget_def intro: touches.nothing
        split: sum.splits option.splits)
qed

lemma touches_reconcile:
  assumes "pathReconcile env mode secs bw = (bw', resp)"
  shows "touches env (snd bw) (snd bw')"
proof -
  have "bw' = bw \<or> (\<exists>dry res. reconcile_pass env (effectiveHold secs) dry bw = (bw', res))"
    using assms by (auto simp: pathReconcile_def Let_def split: if_splits prod.splits sum.splits)
  then show ?thesis using touches_reconcile_pass touches.nothing by (metis prod.collapse)
qed

lemma touches_reclaim:
  assumes "reconcileWorker env bw = (bw', e)"
  shows "touches env (snd bw) (snd bw')"
proof -
  obtain w1 r where p: "PruneCache (Some (eKV env)) (eNow env (snd bw)) (gCacheTTL (gate env (fst bw))) (snd bw) = (w1, r)"
    by force
  obtain res where "reconcile_pass env WorkerConfirmationHold False (fst bw, w1) = (bw', res)"
    using assms p by (auto simp: reconcileWorker_def split: prod.splits sum.splits)
  then have "touches env w1 (snd bw')" using touches_reconcile_pass by (metis prod.collapse)
  then show ?thesis by (rule touches_trans [OF _ touches_prune [OF p]])
qed

end
