(* ===== verification/DOMount.thy ===== *)
theory DOMount
  imports DOTouch
begin

text \<open>
  The DigitalOcean mount as a whole: reads, revocations, rotations, sweeps, reconcile passes, purges and
  health checks in any order, over one store and one cloud, with whatever else goes on around them.
  What is followed from step to step are the leases of credentials that belong to one caller: handed
  out, and not yet given back. The shared contract is a machine of its own, which the mount refines.
\<close>

section \<open>What is held, and that it is kept\<close>

text \<open>
  The credentials in \<open>H\<close> exist, each has its tracking record, and no shared record names one of them;
  and every key a shared record names has been issued.
\<close>

definition kept ::
  "('w \<Rightarrow> string \<Rightarrow> blob option) \<Rightarrow> ('w \<Rightarrow> (string \<times> string) set) \<Rightarrow> ('w \<Rightarrow> (string \<times> string) set)
     \<Rightarrow> (string \<times> string) set \<Rightarrow> 'w \<Rightarrow> bool" where
  "kept view alive used H w \<longleftrightarrow>
     H \<subseteq> alive w
     \<and> (\<forall>(c, i) \<in> H. c \<in> classes \<and> i \<noteq> [] \<and> segment i = i \<and> view w (tracking_prefix c @ i) \<noteq> None)
     \<and> (\<forall>a \<in> shared_names (view w). (credentialTypeSpacesKey, a) \<in> used w - H)"

lemma keptI:
  assumes "H \<subseteq> alive w"
    and "\<And>c i. (c, i) \<in> H \<Longrightarrow> c \<in> classes \<and> i \<noteq> [] \<and> segment i = i \<and> view w (tracking_prefix c @ i) \<noteq> None"
    and "\<And>a. a \<in> shared_names (view w) \<Longrightarrow> (credentialTypeSpacesKey, a) \<in> used w - H"
  shows "kept view alive used H w"
  using assms unfolding kept_def by auto

lemma keptD:
  assumes "kept view alive used H w"
  shows "H \<subseteq> alive w"
    and "(c, i) \<in> H \<Longrightarrow> c \<in> classes" and "(c, i) \<in> H \<Longrightarrow> i \<noteq> []" and "(c, i) \<in> H \<Longrightarrow> segment i = i"
    and "(c, i) \<in> H \<Longrightarrow> view w (tracking_prefix c @ i) \<noteq> None"
    and "a \<in> shared_names (view w) \<Longrightarrow> (credentialTypeSpacesKey, a) \<in> used w"
    and "a \<in> shared_names (view w) \<Longrightarrow> (credentialTypeSpacesKey, a) \<notin> H"
  using assms unfolding kept_def by auto

lemma kept_mono:
  assumes k: "kept view alive used H w" and sub: "H' \<subseteq> H"
  shows "kept view alive used H' w"
proof (rule keptI)
  show "H' \<subseteq> alive w" using sub keptD(1) [OF k] by (rule subset_trans)
  show "c \<in> classes \<and> i \<noteq> [] \<and> segment i = i \<and> view w (tracking_prefix c @ i) \<noteq> None" if "(c, i) \<in> H'" for c i
    using keptD(2-5) [OF k subsetD [OF sub that]] by simp
  show "(credentialTypeSpacesKey, a) \<in> used w - H'" if "a \<in> shared_names (view w)" for a
    using keptD(6,7) [OF k that] sub by blast
qed

lemmas tracking_prefixes = tracking_prefix_def activeTrackingPrefix_def spacesTrackingPrefix_def

lemma tracking_key_elsewhere:
  "tracking_prefix c @ i \<noteq> sharedSpacesPrefix @ n" "tracking_prefix c @ i \<noteq> storageKey"
  "tracking_prefix c @ i \<noteq> cachePrefix @ n" "tracking_prefix c @ i \<noteq> PurgePrefix @ n"
  by (simp_all add: tracking_prefixes sharedSpacesPrefix_def storageKey_def cachePrefix_def PurgePrefix_def)

lemma tracking_key_inj:
  assumes "c \<in> classes" and "d \<in> classes"
  shows "tracking_prefix c @ i = tracking_prefix d @ j \<longleftrightarrow> c = d \<and> i = j"
  using assms by (auto simp: tracking_prefixes credential_type_defs)

lemma tracking_prefix_of:
  "spacesTrackingPrefix = tracking_prefix credentialTypeSpacesKey" "activeTrackingPrefix = tracking_prefix credentialTypeToken"
  by (simp_all add: tracking_prefix_def credential_type_defs)

lemma shared_names_upd:
  "\<forall>n. k \<noteq> sharedSpacesPrefix @ n \<Longrightarrow> (\<And>j. j \<noteq> k \<Longrightarrow> m' j = m j) \<Longrightarrow> shared_names m' = shared_names m"
  by (rule shared_names_same) metis

context do_history begin

lemma touches_used: "touches env w w' \<Longrightarrow> used w \<subseteq> used w'"
proof (induction rule: touches.induct)
  case (request u v verb url tok body w r)
  then show ?case using send_used by blast
next
  case (put u v k x w e)
  then show ?case using ever.put_alive by blast
next
  case (del u v k w e)
  then show ?case using ever.kdel_alive by blast
qed simp

text \<open>What is held stays kept when the cloud lets it stand and the storage its records.\<close>

lemma kept_step:
  assumes k: "kept view alive used H w" and sub: "H' \<subseteq> H" and "H' \<subseteq> alive w'" and "touches env w w'"
    and "\<And>c i. (c, i) \<in> H' \<Longrightarrow> view w (tracking_prefix c @ i) \<noteq> None \<Longrightarrow> view w' (tracking_prefix c @ i) \<noteq> None"
    and names: "shared_names (view w') \<subseteq> shared_names (view w) \<union> A"
    and new: "\<And>a. a \<in> A \<Longrightarrow> (credentialTypeSpacesKey, a) \<in> used w' - H"
  shows "kept view alive used H' w'"
proof (rule keptI)
  show "H' \<subseteq> alive w'" by (rule assms(3))
  show "c \<in> classes \<and> i \<noteq> [] \<and> segment i = i \<and> view w' (tracking_prefix c @ i) \<noteq> None" if "(c, i) \<in> H'" for c i
    using keptD(2-5) [OF k subsetD [OF sub that]] assms(5) [OF that] by simp
  show "(credentialTypeSpacesKey, a) \<in> used w' - H'" if "a \<in> shared_names (view w')" for a
    using subsetD [OF names that] keptD(6,7) [OF k, of a] new [of a] touches_used [OF assms(4)] sub by blast
qed

lemma kept_delete_key:
  assumes "kept view alive used H w" and "DeleteSpacesKey (eHttp env) c i w = (w', st, e)"
    and "(credentialTypeSpacesKey, i) \<notin> H"
  shows "kept view alive used H w'"
proof (rule kept_step [where A = "{}", OF assms(1)])
  show "H \<subseteq> alive w'" using keptD(1) [OF assms(1)] delete_key [OF assms(2)] assms(3) by blast
qed (simp_all add: touches_requests(4) [OF assms(2)] DeleteSpacesKey_view [OF assms(2)])

lemma kept_del:
  assumes "kept view alive used H w" and d: "kdel (eKV env) w k = (w', e)"
    and "\<And>c i. (c, i) \<in> H \<Longrightarrow> tracking_prefix c @ i \<noteq> k" and "\<forall>n. k \<noteq> sharedSpacesPrefix @ n"
  shows "kept view alive used H w'"
proof (rule kept_step [where A = "{}", OF assms(1)])
  show "H \<subseteq> alive w'" using keptD(1) [OF assms(1)] kdel_alive [OF d] by simp
  show "view w' (tracking_prefix c @ i) \<noteq> None" if "(c, i) \<in> H" "view w (tracking_prefix c @ i) \<noteq> None" for c i
    using del_frame [OF d assms(3) [OF that(1)]] that(2) by simp
  show "shared_names (view w') \<subseteq> shared_names (view w) \<union> {}"
    using shared_names_upd [OF assms(4) del_frame [OF d]] by simp
qed (use touches_step(3) [OF d] in auto)

lemma kept_untrack_key:
  assumes "kept view alive used H w" and d: "kdel (eKV env) w (spacesTrackingPrefix @ i) = (w', e)"
    and "(credentialTypeSpacesKey, i) \<notin> H"
  shows "kept view alive used H w'"
proof (rule kept_del [OF assms(1,2)])
  show "tracking_prefix c @ j \<noteq> spacesTrackingPrefix @ i" if "(c, j) \<in> H" for c j
    using tracking_key_inj [OF keptD(2) [OF assms(1) that], of credentialTypeSpacesKey j i] that assms(3)
    by (auto simp: tracking_prefix_of)
qed (use tracking_key_elsewhere(1) in \<open>simp add: tracking_prefix_of\<close>)

lemma kept_prune:
  assumes "kept view alive used H w" and "PruneCache (Some (eKV env)) now ttl w = (w', r)"
  shows "kept view alive used H w'"
proof -
  have "kept view alive used H w \<longrightarrow> kept view alive used H w'"
  proof (rule prune_rel [where R = "\<lambda>u v. kept view alive used H u \<longrightarrow> kept view alive used H v", OF _ _ _ assms(2)])
    fix u k v e
    assume d: "kdel (eKV env) u (cachePrefix @ k) = (v, e)"
    have "cachePrefix @ k \<noteq> sharedSpacesPrefix @ n" for n by (simp add: cachePrefix_def sharedSpacesPrefix_def)
    then show "kept view alive used H u \<longrightarrow> kept view alive used H v"
      using kept_del [OF _ d tracking_key_elsewhere(3)] by blast
  qed blast+
  then show ?thesis using assms(1) by blast
qed

lemma kept_put:
  assumes "kept view alive used H w" and p: "kput (eKV env) w k v = (w', e)" and "\<forall>n. k \<noteq> sharedSpacesPrefix @ n"
  shows "kept view alive used H w'"
proof (rule kept_step [where A = "{}", OF assms(1)])
  show "H \<subseteq> alive w'" using keptD(1) [OF assms(1)] put_alive [OF p] by simp
  show "view w' (tracking_prefix c @ i) \<noteq> None" if "view w (tracking_prefix c @ i) \<noteq> None" for c i
    using put_adds [OF p] that by metis
  show "shared_names (view w') \<subseteq> shared_names (view w) \<union> {}"
    using shared_names_upd [OF assms(3) put_frame [OF p]] by simp
qed (use touches_step(2) [OF p] in auto)

lemma kept_track:
  assumes "kept view alive used H w" and "trackSpacesKey (eKV env) w req n mid i t lin = (w', e)"
  shows "kept view alive used H w'"
  using kept_put [OF assms(1) assms(2) [unfolded trackSpacesKey_def]] tracking_key_elsewhere(1)
  by (simp add: tracking_prefix_of)

lemma kept_save:
  assumes "kept view alive used H w" and sv: "saveSharedSpacesState (eKV env) w n s = (w', e)"
    and keys: "\<And>a. a \<in> state_keys s \<Longrightarrow> a \<in> shared_names (view w) \<or> (credentialTypeSpacesKey, a) \<in> used w - H"
  shows "kept view alive used H w'"
proof -
  have "(credentialTypeSpacesKey, a) \<in> used w' - H" if "a \<in> state_keys s" for a
    using keys [OF that] keptD(6,7) [OF assms(1)] touches_used [OF touches_save [OF sv]] by blast
  moreover have "view w' (tracking_prefix c @ i) = view w (tracking_prefix c @ i)" for c i
    by (rule save_effect(2) [OF sv]) (rule tracking_key_elsewhere)
  ultimately show ?thesis
    using save_names [OF sv] save_effect(1) [OF sv] keptD(1) [OF assms(1)]
    by (intro kept_step [where A = "state_keys s", OF assms(1)]) (simp_all add: touches_save [OF sv])
qed

lemma kept_name:
  assumes "kept view alive used H w" and n: "credentialName env (b, w) rn suf = ((b', w'), r)"
  shows "kept view alive used H w'"
proof (rule kept_step [where A = "{}", OF assms(1)])
  show "H \<subseteq> alive w'" using keptD(1) [OF assms(1)] credentialName_frame(1) [OF n] by simp
  show "touches env w w'" using touches_name [OF n] by simp
  show "view w' (tracking_prefix c @ i) \<noteq> None" if "view w (tracking_prefix c @ i) \<noteq> None" for c i
    using credentialName_frame(2) [OF n tracking_key_elsewhere(2)] that by simp
  show "shared_names (view w') \<subseteq> shared_names (view w) \<union> {}"
    using shared_names_upd [of storageKey "view w'" "view w"] credentialName_frame(2) [OF n]
    by (simp add: storageKey_def sharedSpacesPrefix_def)
qed simp_all

lemma kept_create_key:
  assumes "kept view alive used H w" and c: "CreateSpacesKey (eHttp env) cl nm gs w = (w', st, rk)"
  shows "kept view alive used H w'"
    and "rk = Inr key \<Longrightarrow> (credentialTypeSpacesKey, skAccessKey key) \<in> used w' - H"
proof -
  show "kept view alive used H w'"
    using keptD(1) [OF assms(1)] create_key [OF c]
    by (intro kept_step [where A = "{}", OF assms(1)]) (auto simp: CreateSpacesKey_view [OF c] touches_requests(2) [OF c])
  show "(credentialTypeSpacesKey, skAccessKey key) \<in> used w' - H" if "rk = Inr key"
    using ever.create_key [OF c] that keptD(1) [OF assms(1)] alive_used by blast
qed


section \<open>Each operation keeps it\<close>

lemma next_state_keys: "state_keys (next_state j r now sel key s) \<subseteq> insert (skAccessKey key) (state_keys s)"
  by (cases "Current s") (auto simp: state_keys_def next_state_def retire_def)

text \<open>A rotation up to the point where the new key is tracked, and the names its next record may hold.\<close>

lemma kept_minted:
  assumes k: "kept view alive used H w" and ld: "loadSharedSpacesState (eKV env) w n = Inr s"
    and nm: "credentialName env (b1, w) n suf = ((b2, w1), nr)"
    and cr: "CreateSpacesKey (eHttp env) cl kn gs w1 = (w2, st, Inr key)"
    and tr: "trackSpacesKey (eKV env) w2 None n mid (skAccessKey key) now no_lineage = (w3, e)"
  shows "kept view alive used H w3" and "(credentialTypeSpacesKey, skAccessKey key) \<notin> H"
    and "a \<in> state_keys (next_state j r now sel key s) \<Longrightarrow> (credentialTypeSpacesKey, a) \<in> used w3 - H"
proof -
  note k1 = kept_name [OF k nm]
  note new = kept_create_key(2) [OF k1 cr refl]
  show "kept view alive used H w3" by (rule kept_track [OF kept_create_key(1) [OF k1 cr] tr])
  show "(credentialTypeSpacesKey, skAccessKey key) \<notin> H" using new by simp
  have u: "used w \<subseteq> used w1" "used w1 \<subseteq> used w2" "used w2 \<subseteq> used w3"
    using touches_used [OF touches_name [OF nm]] touches_used [OF touches_requests(2) [OF cr]]
      touches_used [OF touches_track [OF tr]] by simp_all
  show "(credentialTypeSpacesKey, a) \<in> used w3 - H" if "a \<in> state_keys (next_state j r now sel key s)"
  proof (cases "a = skAccessKey key")
    case True
    then show ?thesis using new u(3) by blast
  next
    case False
    then have "a \<in> shared_names (view w)" using subsetD [OF next_state_keys that] load_names [OF ld] by blast
    from keptD(6,7) [OF k this] show ?thesis using u by blast
  qed
qed

lemma kept_rotate:
  assumes k: "kept view alive used H w" and ld: "loadSharedSpacesState (eKV env) w n = Inr s"
    and run: "rotateSharedSpacesKey env (b, w) r n s now = ((b', w'), res)"
  shows "kept view alive used H w'"
  using run
proof (cases rule: rotate_minted)
  case (refused c)
  from refused(2) show ?thesis
  proof (elim disjE exE conjE)
    fix bw b1 nr suf
    assume nm: "credentialName env (b1, w) n suf = (bw, nr)" and w': "w' = snd bw"
    obtain b2 where "bw = (b2, w')" using w' by (metis prod.collapse)
    then show ?thesis using kept_name [OF k] nm by simp
  next
    fix b1 b2 w1 nr suf cl nm st e
    assume nm: "credentialName env (b1, w) n suf = ((b2, w1), nr)"
      and c: "CreateSpacesKey (eHttp env) cl nm (Grants r) w1 = (w', st, Inl e)"
    show ?thesis by (rule kept_create_key(1) [OF kept_name [OF k nm] c])
  qed (use k in simp)
next
  case (untracked b1 b2 w1 nr suf cl nm w2 st key mid w3 e)
  note m = kept_minted [OF k ld untracked(2-4)]
  obtain w5 st5 e5 where d: "DeleteSpacesKey (eHttp env) cl (skAccessKey key) w3 = (w5, st5, e5)" by (metis surj_pair)
  show ?thesis using kept_delete_key [OF m(1) d m(2)] untracked(5) d by simp
next
  case (unsaved b1 b2 w1 nr suf cl nm w2 st key mid w3 s' w4 e)
  note m = kept_minted [OF k ld unsaved(2-4)]
  obtain j sel where s': "s' = next_state j r now sel key s" using unsaved(7) by blast
  note k4 = kept_save [OF m(1) unsaved(5) [unfolded s'] disjI2 [OF m(3)]]
  obtain w5 e5 where d5: "kdel (eKV env) w4 (spacesTrackingPrefix @ skAccessKey key) = (w5, e5)" by force
  obtain w6 st6 e6 where d6: "DeleteSpacesKey (eHttp env) cl (skAccessKey key) w5 = (w6, st6, e6)" by (metis surj_pair)
  show ?thesis
    using kept_delete_key [OF kept_untrack_key [OF k4 d5 m(2)] d6 m(2)] unsaved(6) d5 d6 by simp
next
  case (rotated b1 b2 w1 nr suf cl nm w2 st key sel w3)
  note m = kept_minted [OF k ld rotated(1-3)]
  show ?thesis by (rule kept_save [OF m(1) rotated(5) disjI2 [OF m(3)]])
qed

lemma kept_retired:
  assumes "kept view alive used H (snd bw)" and "(credentialTypeSpacesKey, rkAccess rk) \<notin> H"
    and "deleteRetiredSpacesKey env bw rk = (bw', e)"
  shows "kept view alive used H (snd bw')"
proof -
  obtain b w where bw: "bw = (b, w)" by force
  have two: "kept view alive used H v2"
    if "DeleteSpacesKey (eHttp env) c (rkAccess rk) w = (v, st, r)"
      "kdel (eKV env) v (spacesTrackingPrefix @ rkAccess rk) = (v2, x)" for c v st r v2 x
    using kept_untrack_key [OF kept_delete_key [OF _ that(1) assms(2)] that(2) assms(2)] assms(1) bw by simp
  show ?thesis
    using assms(1,3) kept_delete_key [OF _ _ assms(2)] two unfolding bw
    by (auto simp: deleteRetiredSpacesKey_def Let_def split: option.splits prod.splits if_splits)
qed

lemma kept_sweep_retiring:
  assumes "kept view alive used H (snd bw)" and "\<forall>rk \<in> set rks. (credentialTypeSpacesKey, rkAccess rk) \<notin> H"
    and "sweep_retiring env now bw rks = (bw', kept', errs)"
  shows "kept view alive used H (snd bw') \<and> set kept' \<subseteq> set rks"
  using assms
proof (induction rks arbitrary: bw kept' errs)
  case (Cons rk rks)
  obtain bw1 e where d: "deleteRetiredSpacesKey env bw rk = (bw1, e)" by (metis surj_pair)
  show ?case
  proof (cases "now < rkDeleteAt rk")
    case True
    then obtain k2 where "sweep_retiring env now bw rks = (bw', k2, errs)" "kept' = rk # k2"
      using Cons.prems(3) by (auto split: prod.splits)
    then show ?thesis using Cons.IH [OF Cons.prems(1)] Cons.prems(2) by fastforce
  next
    case False
    obtain k2 e2 where s: "sweep_retiring env now bw1 rks = (bw', k2, e2)" and kk: "set kept' \<subseteq> insert rk (set k2)"
      using Cons.prems(3) d False by (auto split: option.splits prod.splits)
    have "kept view alive used H (snd bw1)" using kept_retired [OF Cons.prems(1) _ d] Cons.prems(2) by simp
    from Cons.IH [OF this _ s] Cons.prems(2) kk show ?thesis by auto
  qed
qed auto

lemma kept_sweepOne:
  assumes k: "kept view alive used H (snd bw)" and run: "sweepOneRoleRetiredKeys env now bw n = (bw', errs)"
  shows "kept view alive used H (snd bw')"
proof (cases "loadSharedSpacesState (eKV env) (snd bw) n")
  case (Inl e)
  then show ?thesis using run k by (auto simp: sweepOneRoleRetiredKeys_def)
next
  case (Inr s)
  obtain b1 w1 kept' es where sw: "sweep_retiring env now bw (Retiring s) = ((b1, w1), kept', es)"
    by (metis surj_pair)
  obtain w2 e where sv: "saveSharedSpacesState (eKV env) w1 n (s \<lparr> Retiring := kept' \<rparr>) = (w2, e)"
    by (metis surj_pair)
  have names: "(credentialTypeSpacesKey, a) \<in> used (snd bw) - H" if "a \<in> state_keys s" for a
    using keptD(6,7) [OF k subsetD [OF load_names [OF Inr] that]] by blast
  have "\<forall>rk \<in> set (Retiring s). (credentialTypeSpacesKey, rkAccess rk) \<notin> H"
    using names by (auto simp: state_keys_def)
  note sr = kept_sweep_retiring [OF k this sw]
  have "(credentialTypeSpacesKey, a) \<in> used w1 - H" if "a \<in> state_keys (s \<lparr> Retiring := kept' \<rparr>)" for a
  proof -
    have "a \<in> state_keys s" using that sr by (auto simp: state_keys_def)
    from names [OF this] touches_used [OF touches_sweep_retiring [OF sw]] show ?thesis by auto
  qed
  then have "kept view alive used H w2" using kept_save [OF _ sv] sr by simp
  moreover have "snd bw' = w1 \<or> snd bw' = w2"
    using run Inr sw sv by (auto simp: sweepOneRoleRetiredKeys_def split: if_splits option.splits)
  ultimately show ?thesis using sr by auto
qed

lemma kept_sweep:
  assumes "kept view alive used H (snd bw)" and "sweepSharedSpacesKeys env bw = (bw', errs)"
  shows "kept view alive used H (snd bw')"
proof -
  let ?R = "\<lambda>u v. kept view alive used H (snd u) \<longrightarrow> kept view alive used H (snd v)"
  have "?R bw bw'"
  proof (rule sweep_shared_rel [where R = ?R, OF _ _ _ _ assms(2)])
    show "?R u v" if ld: "loadSharedSpacesState (eKV env) (snd u) n = Inr s"
      and run: "rotateSharedSpacesKey env u r n s now = (v, res)" for u r n s now v res
      using kept_rotate ld run by (metis prod.collapse)
  qed (use kept_sweepOne in blast)+
  then show ?thesis using assms(1) by blast
qed

lemma kept_serve:
  assumes "kept view alive used H (snd bw)" and "serveSharedSpacesKey env id bw r n = (bw', resp)"
  shows "kept view alive used H (snd bw')"
proof -
  have "bw' = bw \<or> (\<exists>s now res. loadSharedSpacesState (eKV env) (snd bw) n = Inr s
      \<and> rotateSharedSpacesKey env bw r n s now = (bw', res))"
    using assms(2)
    by (auto simp: serveSharedSpacesKey_def Let_def split: sum.splits if_splits prod.splits option.splits)
  then show ?thesis using kept_rotate assms(1) by (metis prod.collapse)
qed

lemma kept_operator_rotate:
  assumes "kept view alive used H (snd bw)" and "pathSharedSpacesRotate env bw n = (bw', resp)"
  shows "kept view alive used H (snd bw')"
proof -
  have "bw' = bw \<or> (\<exists>r s now res. loadSharedSpacesState (eKV env) (snd bw) n = Inr s
      \<and> rotateSharedSpacesKey env bw r n s now = (bw', res))"
    using assms(2) by (auto simp: pathSharedSpacesRotate_def Let_def split: sum.splits if_splits prod.splits)
  then show ?thesis using kept_rotate assms(1) by (metis prod.collapse)
qed

lemma kept_reconcile_pass:
  assumes k: "kept view alive used H (snd bw)" and run: "reconcile_pass env hold dry bw = (bw', res)" and "0 < hold"
  shows "kept view alive used H (snd bw')"
proof -
  obtain b w b' w' where bw: "bw = (b, w)" "bw' = (b', w')" by (metis surj_pair)
  note eff = reconcile_pass_effect [OF run [unfolded bw] assms(3)]
  have "kept view alive used H w'"
  proof (rule kept_step [where A = "{}", OF k [unfolded bw snd_conv]])
    show "H \<subseteq> alive w'"
    proof (rule subrelI)
      fix c i
      assume h: "(c, i) \<in> H"
      then have "(c, i) \<in> alive w" "view w (tracking_prefix c @ i) \<noteq> None" "segment i = i"
        using subsetD [OF keptD(1) [OF k] h] keptD(4,5) [OF k h] bw by simp_all
      then show "(c, i) \<in> alive w'" using eff(3) [THEN spec, THEN spec, THEN mp, of c i] by (metis DiffI)
    qed
    show "view w' (tracking_prefix c @ i) \<noteq> None" if "view w (tracking_prefix c @ i) \<noteq> None" for c i
      using eff(2) tracking_key_elsewhere(2) that by metis
    show "shared_names (view w') \<subseteq> shared_names (view w) \<union> {}"
      using shared_names_upd [of storageKey "view w'" "view w"] eff(2)
      by (simp add: storageKey_def sharedSpacesPrefix_def)
  qed (simp_all add: touches_reconcile_pass [OF run [unfolded bw]])
  then show ?thesis using bw by simp
qed

lemma kept_reconcile:
  assumes "kept view alive used H (snd bw)" and "pathReconcile env mode secs bw = (bw', resp)"
  shows "kept view alive used H (snd bw')"
proof -
  have "0 < effectiveHold secs"
    using effectiveHold_min [of secs] by (rule less_le_trans [rotated]) (simp add: duration_defs)
  moreover have "bw' = bw \<or> (\<exists>dry res. reconcile_pass env (effectiveHold secs) dry bw = (bw', res))"
    using assms(2) by (auto simp: pathReconcile_def Let_def split: if_splits prod.splits sum.splits)
  ultimately show ?thesis using assms(1) kept_reconcile_pass by blast
qed

lemma kept_reclaim:
  assumes "kept view alive used H (snd bw)" and "reconcileWorker env bw = (bw', e)"
  shows "kept view alive used H (snd bw')"
proof -
  obtain w1 r where p: "PruneCache (Some (eKV env)) (eNow env (snd bw)) (gCacheTTL (gate env (fst bw))) (snd bw) = (w1, r)"
    by force
  obtain res where run: "reconcile_pass env WorkerConfirmationHold False (fst bw, w1) = (bw', res)"
    using assms(2) p by (auto simp: reconcileWorker_def split: prod.splits sum.splits)
  have "0 < WorkerConfirmationHold" by (simp add: WorkerConfirmationHold_def duration_defs)
  from kept_reconcile_pass [OF _ run this] kept_prune [OF assms(1) p] show ?thesis by simp
qed

end

section \<open>What a caller is given, and gives back\<close>

text \<open>
  The credential of its own a read gives its caller: of a lease of either minting kind, when its id is one
  storage segment. The lease of a rotated key gives none.
\<close>

definition granted :: "response \<Rightarrow> (string \<times> string) set" where
  "granted resp =
     (case resp of
        RespLease l \<Rightarrow>
          (let x = (if lsType l = ''do_token'' then (credentialTypeToken, lease_id l ''upstream_token_id'')
                    else (credentialTypeSpacesKey, lease_id l ''upstream_access_key''))
           in if lsType l \<in> {''do_token'', ''do_spaces_key''} \<and> snd x \<noteq> [] \<and> segment (snd x) = snd x then {x} else {})
      | _ \<Rightarrow> {})"

definition surrendered :: "string \<Rightarrow> (string \<times> json) list \<Rightarrow> (string \<times> string) set" where
  "surrendered ty internal = (case lease_owns ty internal of None \<Rightarrow> {} | Some (x, _) \<Rightarrow> {x})"

text \<open>The credentials whose records name a role, up to a time: what a purge of it withdraws.\<close>

definition named :: "(string \<Rightarrow> blob option) \<Rightarrow> string \<Rightarrow> time \<Rightarrow> (string \<times> string) set" where
  "named m rName cutoff = {(c, i). in_scope rName cutoff m (tracking_prefix c) i}"

definition withdrawn :: "'w env \<Rightarrow> ('w \<Rightarrow> string \<Rightarrow> blob option) \<Rightarrow> 'w st \<Rightarrow> string \<Rightarrow> (string \<times> string) set" where
  "withdrawn env view bw rName =
     (case LoadIntent (beside (eKV env)) bw rName of
        Inr (Some i) \<Rightarrow> named (view (snd bw)) (iRole i) (iCutoff i) | _ \<Rightarrow> {})"

lemma lease_types:
  "issueToken env (b, w) req r n lin = (bw', RespLease l) \<Longrightarrow> lsType l = ''do_token''"
  "issueSpacesKey env (b, w) req r n lin = (bw', RespLease l) \<Longrightarrow> lsType l = ''do_spaces_key''"
proof -
  show "lsType l = ''do_token''" if run: "issueToken env (b, w) req r n lin = (bw', RespLease l)"
  proof -
    from run obtain b2 w2 b3 w3 sel tk now where "buildCredsResponse env (b2, w2) req r n sel tk now lin = ((b3, w3), RespLease l)"
      unfolding issue_shapes by (rule issue_by_lease)
    then show ?thesis by (auto simp: buildCredsResponse_def Let_def split: prod.splits option.splits)
  qed
  show "lsType l = ''do_spaces_key''" if run: "issueSpacesKey env (b, w) req r n lin = (bw', RespLease l)"
  proof -
    from run obtain b2 w2 b3 w3 sel key now where "buildSpacesResponse env (b2, w2) req r n sel key now lin = ((b3, w3), RespLease l)"
      unfolding issue_shapes by (rule issue_by_lease)
    then show ?thesis by (auto simp: buildSpacesResponse_def Let_def split: prod.splits option.splits)
  qed
qed

lemma granted_shared:
  assumes "serveSharedSpacesKey env between bw r n = (bw', resp)"
  shows "granted resp = {}"
proof (cases resp)
  case (RespLease l)
  obtain b w where bw: "bw = (b, w)" by force
  obtain k t where "l = buildSharedSpacesResponse r n k t"
    using assms unfolding bw RespLease by (rule served_cases)
  then show ?thesis by (simp add: RespLease granted_def buildSharedSpacesResponse_def Let_def)
qed (simp_all add: granted_def)

lemma withdraws_held:
  assumes "purge_prefix r = tracking_prefix (purge_class r)" and "c \<in> classes" and "(c, i) \<notin> named m n t"
    and "X = {x. in_scope n t m (purge_prefix r) x}"
  shows "(c, i) \<notin> Pair (purge_class r) ` X" and "tracking_prefix c @ i \<notin> purge_keys n' r X"
proof -
  have cl: "purge_class r \<in> classes" by (simp add: purge_class_def)
  show "(c, i) \<notin> Pair (purge_class r) ` X" using assms(1,3,4) by (auto simp: named_def)
  show "tracking_prefix c @ i \<notin> purge_keys n' r X"
    using tracking_key_elsewhere tracking_key_inj [OF assms(2) cl] assms(1,3,4)
    by (auto simp: purge_keys_def named_def)
qed

context do_history begin

lemma kept_reclaims:
  assumes k: "kept view alive used H w" and "touches env w w'"
    and X: "X = {x. in_scope n t (view w) (purge_prefix r) x}"
    and rc: "reclaims view alive (Pair (purge_class r) ` X) (purge_keys n' r X) w w'"
  shows "kept view alive used (H - named (view w) n t) w'"
proof (rule kept_step [where A = "{}", OF k _ _ assms(2)])
  note rc = rc [unfolded reclaims_def]
  have pp: "purge_prefix r = tracking_prefix (purge_class r)"
    by (simp add: purge_prefix_def purge_class_def tracking_prefix_def credential_type_defs)
  have keep: "(c, i) \<notin> Pair (purge_class r) ` X \<and> tracking_prefix c @ i \<notin> purge_keys n' r X"
    if "(c, i) \<in> H - named (view w) n t" for c i
    using withdraws_held [OF pp keptD(2) [OF k] _ X] that by blast
  show "H - named (view w) n t \<subseteq> alive w'"
  proof (rule subrelI)
    fix c i
    assume h: "(c, i) \<in> H - named (view w) n t"
    then have "(c, i) \<in> alive w - Pair (purge_class r) ` X" using keep [OF h] keptD(1) [OF k] by blast
    then show "(c, i) \<in> alive w'" using rc by blast
  qed
  show "view w' (tracking_prefix c @ i) \<noteq> None"
    if "(c, i) \<in> H - named (view w) n t" "view w (tracking_prefix c @ i) \<noteq> None" for c i
    using keep [OF that(1)] that(2) rc by simp
  show "shared_names (view w') \<subseteq> shared_names (view w) \<union> {}" using rc by simp
qed auto

lemma kept_purge:
  assumes "kept view alive used H (snd bw)" and "pathPurge env n mode bw = (bw', res)"
  shows "kept view alive used (H - named (view (snd bw)) n (eNow env (snd bw))) (snd bw')"
proof -
  obtain b w b' w' where bw: "bw = (b, w)" "bw' = (b', w')" by (metis surj_pair)
  have k: "kept view alive used H w" using assms(1) bw by simp
  have t: "touches env w w'" using touches_purge [OF assms(2)] bw by simp
  from pathPurge_reclaims [OF assms(2) [unfolded bw]]
  have "kept view alive used (H - named (view w) n (eNow env w)) w'"
  proof (elim disjE exE conjE)
    assume "w' = w"
    then show ?thesis using kept_mono [OF k] by blast
  next
    fix v r X
    assume X: "X = {x. in_scope n (eNow env w) (view w) (purge_prefix r) x}"
      and "reclaims view alive (Pair (purge_class r) ` X) (purge_keys n r X) w w'"
    from kept_reclaims [OF k t this] show ?thesis .
  qed
  then show ?thesis using bw by simp
qed

lemma kept_sweep_role:
  assumes "kept view alive used H (snd bw)" and "sweep_role (beside (eKV env)) (purgeEndpoint env) n bw = bw'"
  shows "kept view alive used (H - withdrawn env view bw n) (snd bw')"
proof -
  obtain b w b' w' where bw: "bw = (b, w)" "bw' = (b', w')" by (metis surj_pair)
  have k: "kept view alive used H w" using assms(1) bw by simp
  have t: "touches env w w'" using touches_sweep_role [of env bw n] assms(2) bw by simp
  from sweep_role_reclaims [OF assms(2) [unfolded bw]]
  have "kept view alive used (H - withdrawn env view bw n) w'"
  proof (elim disjE exE conjE)
    assume "w' = w"
    then show ?thesis using kept_mono [OF k] by blast
  next
    fix i v r X
    assume i: "LoadIntent (beside (eKV env)) (b, w) n = Inr (Some i)"
      and X: "X = {x. in_scope (iRole i) (iCutoff i) (view w) (purge_prefix r) x}"
      and rc: "reclaims view alive (Pair (purge_class r) ` X) (purge_keys (iRole i) r X) w w'"
    have "withdrawn env view bw n = named (view w) (iRole i) (iCutoff i)" by (simp add: withdrawn_def i bw)
    then show ?thesis using kept_reclaims [OF k t X rc] by simp
  qed
  then show ?thesis using bw by simp
qed

lemma kept_revoke:
  assumes "kept view alive used H (snd bw)" and "revoke_lease env bw ty internal = (bw', res)"
  shows "kept view alive used (H - surrendered ty internal) (snd bw')"
proof -
  obtain b w b' w' where bw: "bw = (b, w)" "bw' = (b', w')" by (metis surj_pair)
  have k: "kept view alive used H w" using assms(1) bw by simp
  have t: "touches env w w'" using touches_revoke [OF assms(2)] bw by simp
  have own: "kept view alive used (H - {(c, i)}) w'"
    if c: "c \<in> classes" and f: "alive w - {(c, i)} \<subseteq> alive w' \<and> alive w' \<subseteq> alive w
        \<and> (\<forall>k. k \<noteq> tracking_prefix c @ i \<longrightarrow> view w' k = view w k) \<and> (res \<noteq> None \<longrightarrow> view w' = view w)" for c i
  proof (rule kept_step [where A = "{}", OF k _ _ t])
    show "H - {(c, i)} \<subseteq> alive w'" using f keptD(1) [OF k] by blast
    show "view w' (tracking_prefix d @ j) \<noteq> None"
      if "(d, j) \<in> H - {(c, i)}" "view w (tracking_prefix d @ j) \<noteq> None" for d j
    proof -
      have "(d, j) \<in> H" "(d, j) \<noteq> (c, i)" using that(1) by blast+
      then have "tracking_prefix d @ j \<noteq> tracking_prefix c @ i"
        using tracking_key_inj [OF keptD(2) [OF k] c] by simp
      then show ?thesis using f that(2) by simp
    qed
    have "view w' (sharedSpacesPrefix @ n) = view w (sharedSpacesPrefix @ n)" for n
      using f tracking_key_elsewhere(1) [of c i n] by (simp add: eq_commute)
    then show "shared_names (view w') \<subseteq> shared_names (view w) \<union> {}"
      using shared_names_same [of "view w'" "view w"] by simp
  qed auto
  have "kept view alive used (H - surrendered ty internal) w'"
  proof (cases "ty = ''do_token'' \<or> ty = ''do_spaces_key''")
    case False
    then have "w' = w" using assms(2) bw by (simp add: revoke_lease_def pathSharedSpacesKeyRevoke_def)
    then show ?thesis using kept_mono [OF k] by blast
  next
    case ty: True
    show ?thesis
    proof (cases "ty = ''do_token''")
      case True
      then have "pathCredsRevoke env (b, w) internal = ((b', w'), res)" using assms(2) bw by (simp add: revoke_lease_def)
      note f = pathCredsRevoke_frame [OF this refl, unfolded tracking_prefix_of]
      have "surrendered ty internal = {(credentialTypeToken, internal_str internal ''upstream_token_id'')}"
        by (simp add: surrendered_def lease_owns_def True Let_def credential_type_defs)
      then show ?thesis using own [OF _ f] by simp
    next
      case False
      then have tk: "ty = ''do_spaces_key''" using ty by simp
      then have "pathSpacesKeyRevoke env (b, w) internal = ((b', w'), res)"
        using assms(2) bw by (simp add: revoke_lease_def)
      note f = pathSpacesKeyRevoke_frame [OF this refl, unfolded tracking_prefix_of]
      have "surrendered ty internal = {(credentialTypeSpacesKey, internal_str internal ''upstream_access_key'')}"
        by (simp add: surrendered_def lease_owns_def tk Let_def credential_type_defs)
      then show ?thesis using own [OF _ f] by simp
    qed
  qed
  then show ?thesis using bw by simp
qed

text \<open>A grant is of a credential never used before.\<close>

lemma kept_issues:
  assumes k: "kept view alive used H w" and t: "touches env w w'" and c: "c \<in> classes"
    and al: "issues view alive c (tracking_prefix c) f n w w' resp"
    and us: "issues view used c (tracking_prefix c) f n w w' resp"
    and gr: "\<And>x. x \<in> granted resp \<Longrightarrow> \<exists>l. resp = RespLease l \<and> x = (c, lease_id l f) \<and> snd x \<noteq> [] \<and> segment (snd x) = snd x"
  shows "kept view alive used (H \<union> granted resp) w'"
    and "granted resp = {} \<or> (\<exists>x. granted resp = {x} \<and> x \<in> used w' - used w)"
proof -
  obtain i where sub: "alive w \<subseteq> alive w'"
    and fr: "\<And>k. view w' k \<noteq> view w k \<Longrightarrow> k = storageKey \<or> k = tracking_prefix c @ i \<and> view w' k \<noteq> None"
    and rec: "\<And>l. resp = RespLease l \<Longrightarrow> lease_id l f = i \<and> alive w' = insert (c, i) (alive w)
        \<and> field_is (view w' (tracking_prefix c @ i)) ''role'' (JStr n)"
    using al unfolding issues_def by blast
  have new: "(c, lease_id l f) \<in> used w' - used w" if "resp = RespLease l" for l
    using us that unfolding issues_def by blast
  have names: "shared_names (view w') \<subseteq> shared_names (view w)"
  proof -
    have "view w' (sharedSpacesPrefix @ m) = view w (sharedSpacesPrefix @ m)" for m
      using fr [of "sharedSpacesPrefix @ m"] tracking_key_elsewhere(1) [of c i m]
      by (auto simp: storageKey_def sharedSpacesPrefix_def)
    then show ?thesis using shared_names_same [of "view w'" "view w"] by simp
  qed
  have kH: "kept view alive used H w'"
  proof (rule kept_step [where A = "{}", OF k _ _ t])
    show "H \<subseteq> alive w'" using keptD(1) [OF k] sub by blast
    show "view w' (tracking_prefix d @ j) \<noteq> None" if "view w (tracking_prefix d @ j) \<noteq> None" for d j
      using fr [of "tracking_prefix d @ j"] that tracking_key_elsewhere(2) by metis
    show "shared_names (view w') \<subseteq> shared_names (view w) \<union> {}" using names by simp
  qed auto
  have gx: "x = (c, i) \<and> i \<noteq> [] \<and> segment i = i \<and> x \<in> used w' - used w \<and> x \<in> alive w'
      \<and> view w' (tracking_prefix c @ i) \<noteq> None" if "x \<in> granted resp" for x
  proof -
    obtain l where l: "resp = RespLease l" "x = (c, lease_id l f)" "snd x \<noteq> []" "segment (snd x) = snd x"
      using gr [OF \<open>x \<in> granted resp\<close>] by blast
    have "view w' (tracking_prefix c @ i) \<noteq> None" using rec [OF l(1)] by (auto simp: field_is_def split: option.splits)
    then show ?thesis using l rec [OF l(1)] new [OF l(1)] by auto
  qed
  show "kept view alive used (H \<union> granted resp) w'"
  proof (rule keptI)
    show "H \<union> granted resp \<subseteq> alive w'" using keptD(1) [OF kH] gx by blast
    show "d \<in> classes \<and> j \<noteq> [] \<and> segment j = j \<and> view w' (tracking_prefix d @ j) \<noteq> None"
      if "(d, j) \<in> H \<union> granted resp" for d j
      using that keptD(2-5) [OF kH, of d j] gx [of "(d, j)"] c by auto
    show "(credentialTypeSpacesKey, a) \<in> used w' - (H \<union> granted resp)" if a: "a \<in> shared_names (view w')" for a
      using keptD(6,7) [OF kH a] keptD(6) [OF k subsetD [OF names a]] gx by blast
  qed
  show "granted resp = {} \<or> (\<exists>x. granted resp = {x} \<and> x \<in> used w' - used w)"
    using gx by (cases "granted resp = {}") (simp, blast)
qed

lemma kept_read:
  assumes "kept view alive used H (snd bw)" and "pathCredsRead env id bw req n = (bw', resp)"
  shows "kept view alive used (H \<union> granted resp) (snd bw')
     \<and> (granted resp = {} \<or> (\<exists>x. granted resp = {x} \<and> x \<in> used (snd bw') - used (snd bw)))"
proof -
  obtain b w b' w' where bw: "bw = (b, w)" "bw' = (b', w')" by (metis surj_pair)
  have k: "kept view alive used H w" using assms(1) bw by simp
  have t: "touches env w w'" using touches_read [OF assms(2)] bw by simp
  consider "bw' = bw" "\<forall>l. resp \<noteq> RespLease l" | r where "serveSharedSpacesKey env id bw r n = (bw', resp)"
    | r lin where "issueSpacesKey env bw req r n lin = (bw', resp)"
    | r lin where "issueToken env bw req r n lin = (bw', resp)"
    using assms(2) by (auto simp: pathCredsRead_def split: sum.splits option.splits prod.splits if_splits)
  then show ?thesis
  proof cases
    case 1
    then have "granted resp = {}" by (cases resp) (simp_all add: granted_def)
    then show ?thesis using assms(1) 1(1) by simp
  next
    case 2
    then show ?thesis using kept_serve [OF assms(1) 2] granted_shared [OF 2] by simp
  next
    case 3
    note run = 3 [unfolded bw]
    have ty: "lsType l = ''do_spaces_key''" if "resp = RespLease l" for l 
      by (rule lease_types(2) [OF run [unfolded that]])
    have "\<exists>l. resp = RespLease l \<and> x = (credentialTypeSpacesKey, lease_id l ''upstream_access_key'')
        \<and> snd x \<noteq> [] \<and> segment (snd x) = snd x" if "x \<in> granted resp" for x
      using that ty by (cases resp) (auto simp: granted_def Let_def split: if_splits)
    note ki = kept_issues [OF k t _ issueSpacesKey_issues [OF run, unfolded tracking_prefix_of]
        ever.issueSpacesKey_issues [OF run, unfolded tracking_prefix_of] this]
    show ?thesis using ki bw by simp
  next
    case 4
    note run = 4 [unfolded bw]
    have ty: "lsType l = ''do_token''" if "resp = RespLease l" for l 
      by (rule lease_types(1) [OF run [unfolded that]])
    have "\<exists>l. resp = RespLease l \<and> x = (credentialTypeToken, lease_id l ''upstream_token_id'')
        \<and> snd x \<noteq> [] \<and> segment (snd x) = snd x" if "x \<in> granted resp" for x
      using that ty by (cases resp) (auto simp: granted_def Let_def split: if_splits)
    note ki = kept_issues [OF k t _ issueToken_issues [OF run, unfolded tracking_prefix_of]
        ever.issueToken_issues [OF run, unfolded tracking_prefix_of] this]
    show ?thesis using ki bw by simp
  qed
qed

end

section \<open>The mount, step by step\<close>

text \<open>
  The mount and its world, and what its callers hold. Each step is one operation, run to its end; \<open>Around\<close>
  is everything else: other endpoints, time, and other users of the account, who leave alone what is held
  and the records of it.
\<close>

inductive mount_step ::
  "'w env \<Rightarrow> ('w \<Rightarrow> string \<Rightarrow> blob option) \<Rightarrow> ('w \<Rightarrow> (string \<times> string) set) \<Rightarrow> ('w \<Rightarrow> (string \<times> string) set)
     \<Rightarrow> 'w st \<times> (string \<times> string) set \<Rightarrow> 'w st \<times> (string \<times> string) set \<Rightarrow> bool"
  for env :: "'w env" and view :: "'w \<Rightarrow> string \<Rightarrow> blob option"
    and alive :: "'w \<Rightarrow> (string \<times> string) set" and used :: "'w \<Rightarrow> (string \<times> string) set" where
  Read: "pathCredsRead env id bw req n = (bw', resp)
    \<Longrightarrow> mount_step env view alive used (bw, H) (bw', H \<union> granted resp)"
| Revoke: "revoke_lease env bw ty internal = (bw', res)
    \<Longrightarrow> mount_step env view alive used (bw, H) (bw', H - surrendered ty internal)"
| Rotate: "pathSharedSpacesRotate env bw n = (bw', resp) \<Longrightarrow> mount_step env view alive used (bw, H) (bw', H)"
| Sweep: "sweepSharedSpacesKeys env bw = (bw', errs) \<Longrightarrow> mount_step env view alive used (bw, H) (bw', H)"
| Reconcile: "pathReconcile env mode secs bw = (bw', resp) \<Longrightarrow> mount_step env view alive used (bw, H) (bw', H)"
| Reclaim: "reconcileWorker env bw = (bw', e) \<Longrightarrow> mount_step env view alive used (bw, H) (bw', H)"
| Purge: "pathPurge env n mode bw = (bw', rep)
    \<Longrightarrow> mount_step env view alive used (bw, H) (bw', H - named (view (snd bw)) n (eNow env (snd bw)))"
| Advance: "sweep_role (beside (eKV env)) (purgeEndpoint env) n bw = bw'
    \<Longrightarrow> mount_step env view alive used (bw, H) (bw', H - withdrawn env view bw n)"
| Health: "healthCheckWorker env bw = bw' \<Longrightarrow> mount_step env view alive used (bw, H) (bw', H)"
| Around: "H \<inter> alive (snd bw) \<subseteq> alive (snd bw') \<Longrightarrow> used (snd bw) \<subseteq> used (snd bw')
    \<Longrightarrow> (\<And>p k. p \<in> {activeTrackingPrefix, spacesTrackingPrefix, sharedSpacesPrefix}
           \<Longrightarrow> view (snd bw') (p @ k) = view (snd bw) (p @ k))
    \<Longrightarrow> mount_step env view alive used (bw, H) (bw', H)"

section \<open>The contract\<close>

text \<open>What is held and what was ever used: a grant is new, and nothing else is added to what is held.\<close>

inductive contract_step ::
  "(string \<times> string) set \<times> (string \<times> string) set \<Rightarrow> (string \<times> string) set \<times> (string \<times> string) set \<Rightarrow> bool" where
  Grant: "x \<in> E' - E \<Longrightarrow> E \<subseteq> E' \<Longrightarrow> contract_step (H, E) (insert x H, E')"
| Release: "E \<subseteq> E' \<Longrightarrow> contract_step (H, E) (H - G, E')"

inductive_cases contract_stepE: "contract_step s t"

text \<open>Once used, a credential that is not held is never held again.\<close>

lemma contract_never_again:
  assumes "contract_step\<^sup>*\<^sup>* (H, E) (H', E')" and "x \<in> E - H"
  shows "x \<in> E' - H'"
  using assms(1)
proof (induction "(H', E')" arbitrary: H' E' rule: rtranclp_induct)
  case base
  then show ?case using assms(2) by simp
next
  case (step s)
  obtain H1 E1 where s: "s = (H1, E1)" by force
  have "x \<in> E1 - H1" by (rule step.hyps(3) [OF s])
  then show ?case using step.hyps(2) unfolding s by (auto elim: contract_stepE)
qed

context do_history begin

lemma mount_simulates:
  assumes "mount_step env view alive used (bw, H) (bw', H')" and k: "kept view alive used H (snd bw)"
  shows "kept view alive used H' (snd bw') \<and> contract_step (H, used (snd bw)) (H', used (snd bw'))"
  using assms(1)
proof cases
  case (Read req n resp)
  note r = kept_read [OF k Read(2)] and u = touches_used [OF touches_read [OF Read(2)]]
  from conjunct2 [OF r] show ?thesis
  proof (elim conjE disjE exE)
    assume "granted resp = {}"
    then show ?thesis using r contract_step.Release [OF u, of H "{}"] Read(1) by simp
  next
    fix x
    assume "granted resp = {x}" "x \<in> used (snd bw') - used (snd bw)"
    then show ?thesis using r contract_step.Grant [OF _ u, of x H] Read(1) by simp
  qed
next
  case (Revoke ty internal res)
  then show ?thesis
    using kept_revoke [OF k] contract_step.Release [OF touches_used [OF touches_revoke [OF Revoke(2)]]] by simp
next
  case (Rotate n resp)
  then show ?thesis
    using kept_operator_rotate [OF k]
      contract_step.Release [OF touches_used [OF touches_operator_rotate [OF Rotate(2)]], of H "{}"] by simp
next
  case (Sweep errs)
  then show ?thesis
    using kept_sweep [OF k] contract_step.Release [OF touches_used [OF touches_sweep [OF Sweep(2)]], of H "{}"] by simp
next
  case (Reconcile mode secs resp)
  then show ?thesis
    using kept_reconcile [OF k] contract_step.Release [OF touches_used [OF touches_reconcile [OF Reconcile(2)]], of H "{}"]
    by simp
next
  case (Reclaim e)
  then show ?thesis
    using kept_reclaim [OF k] contract_step.Release [OF touches_used [OF touches_reclaim [OF Reclaim(2)]], of H "{}"]
    by simp
next
  case (Purge n mode rep)
  then show ?thesis
    using kept_purge [OF k] contract_step.Release [OF touches_used [OF touches_purge [OF Purge(2)]]] by simp
next
  case (Advance n)
  have "touches env (snd bw) (snd bw')" using touches_sweep_role [of env bw n] Advance(2) by simp
  then show ?thesis
    using kept_sweep_role [OF k Advance(2)] contract_step.Release [OF touches_used] Advance(1) by simp
next
  case Health
  have "snd bw' = snd bw" using Health(2) by (auto simp: healthCheckWorker_def Let_def)
  then show ?thesis using k Health(1) contract_step.Release [of "used (snd bw)" "used (snd bw)" H "{}"] by simp
next
  case Around
  have "view (snd bw') (tracking_prefix c @ i) = view (snd bw) (tracking_prefix c @ i)" for c i
    using Around(4) by (simp add: tracking_prefix_def)
  moreover have "shared_names (view (snd bw')) = shared_names (view (snd bw))"
    by (rule shared_names_same) (use Around(4) in simp)
  ultimately have "kept view alive used H (snd bw')"
    using keptD [OF k] Around(2,3) by (intro keptI) (simp_all, blast+)
  then show ?thesis using Around(1) contract_step.Release [OF Around(3), of H "{}"] by simp
qed

lemma mount_run:
  assumes "(mount_step env view alive used)\<^sup>*\<^sup>* (bw, H) (bw', H')" and "kept view alive used H (snd bw)"
  shows "kept view alive used H' (snd bw') \<and> contract_step\<^sup>*\<^sup>* (H, used (snd bw)) (H', used (snd bw'))"
  using assms(1)
proof (induction "(bw', H')" arbitrary: bw' H' rule: rtranclp_induct)
  case base
  then show ?case using assms(2) by simp
next
  case (step s)
  obtain bw1 H1 where s: "s = (bw1, H1)" by (cases s)
  note ih = step.hyps(3) [OF s]
  from mount_simulates [OF step.hyps(2) [unfolded s] conjunct1 [OF ih]]
  show ?case using rtranclp.rtrancl_into_rtrancl [OF conjunct2 [OF ih]] by blast
qed

lemma kept_nothing:
  assumes "\<forall>a \<in> shared_names (view w). (credentialTypeSpacesKey, a) \<in> used w"
  shows "kept view alive used {} w"
  using assms by (simp add: kept_def)

end

section \<open>A run in memory\<close>

text \<open>Two reads of a token role, and the revocation of the first lease.\<close>

abbreviation "reading bw \<equiv> pathCredsRead (fake_env 5) id bw plain_request ''t''"

definition after_first :: "fake_world st" where "after_first = fst (reading (one_minter, token_world))"
definition after_second :: "fake_world st" where "after_second = fst (reading after_first)"

definition first_lease :: "(string \<times> json) list" where
  "first_lease = [(''upstream_token_id'', JStr ''KKKK''), (''minter_set'', JStr ''s''), (''minter_id'', JStr ''m1'')]"

definition after_revoke :: "fake_world st" where
  "after_revoke = fst (revoke_lease (fake_env 5) after_second ''do_token'' first_lease)"

lemma memory_run:
  shows first_grant: "granted (snd (reading (one_minter, token_world))) = {(''token'', ''KKKK'')}"
    and second_grant: "granted (snd (reading after_first)) = {(''token'', ''KKKKKKKK'')}"
    and gives_back: "surrendered ''do_token'' first_lease = {(''token'', ''KKKK'')}"
    and third_grant: "granted (snd (reading after_revoke)) = {(''token'', ''KKKKKKKKKKKKKKKK'')}"
  by code_simp+

abbreviation "memory_step t \<equiv> mount_step (fake_env t) mem_view known_classes known_ever"

lemma memory_reads:
  "(memory_step 5)\<^sup>*\<^sup>* ((one_minter, token_world), {}) (after_revoke, {(''token'', ''KKKKKKKK'')})"
proof -
  have r1: "memory_step 5 ((one_minter, token_world), {}) (after_first, {} \<union> {(''token'', ''KKKK'')})"
    unfolding after_first_def first_grant [symmetric] by (rule mount_step.Read) (rule prod.collapse [symmetric])
  have r2: "memory_step 5 (after_first, {(''token'', ''KKKK'')}) (after_second, {(''token'', ''KKKK'')} \<union> {(''token'', ''KKKKKKKK'')})"
    unfolding after_second_def second_grant [symmetric] by (rule mount_step.Read) (rule prod.collapse [symmetric])
  have r3: "memory_step 5 (after_second, {(''token'', ''KKKK''), (''token'', ''KKKKKKKK'')})
      (after_revoke, {(''token'', ''KKKK''), (''token'', ''KKKKKKKK'')} - surrendered ''do_token'' first_lease)"
    unfolding after_revoke_def by (rule mount_step.Revoke) (rule prod.collapse [symmetric])
  show ?thesis
    using rtranclp.rtrancl_into_rtrancl [OF rtranclp.rtrancl_into_rtrancl [OF r_into_rtranclp]] r1 r2 r3 gives_back
    by (auto simp: insert_commute)
qed

lemma memory_start: "\<forall>a \<in> shared_names (mem_view token_world). (''spaces_key'', a) \<in> known_ever token_world"
  by (simp add: shared_names_def token_world_def mem_view_def sharedSpacesPrefix_def rolesPrefix_def)

section \<open>Nothing that is held is ever destroyed, or forgotten, or handed out again\<close>





end
