(* ===== verification/DOConfig.thy ===== *)
theory DOConfig
  imports DOMount MountConfig
begin

text \<open>
  \<open>plugins/credential-do\<close>, the write side of a mount (\<open>path_config.go\<close>, \<open>backend.go\<close>): the mount
  configuration, what a restart loads, and what the writes of sets and roles leave behind, the
  capability probes they run included. URL and address parsing are arguments. Starting the background
  workers after a write is not modelled.
\<close>

section \<open>The stored configuration\<close>

definition config_members :: "plugin_config \<Rightarrow> (string \<times> json option) list" where
  "config_members c =
     [(''schema_version'', omit_int (cfgSchema c)), (''cloud'', Some (JStr (cfgCloud c))),
      (''minters'', Some (if cfgMinters c = [] then JNull else JArr (map enc_minter (cfgMinters c)))),
      (''reconcile_cadence'', Some (JInt (ReconcileCadence c))),
      (''bootstrap_delay'', Some (JInt (BootstrapDelay c))),
      (''max_deletes_per_pass'', Some (JInt (MaxDeletesPerPass c))),
      (''minter_expiry_warn'', Some (JInt (MinterExpiryWarn c))),
      (''minter_retire_grace'', Some (JInt (MinterRetireGrace c))),
      (''verify_minter_capability'', map_option JBool (VerifyMinterCapability c)),
      (''capability_cache_ttl'', map_option JInt (CapabilityCacheTTL c)),
      (''minter_credential_limit'', map_option JInt (MinterCredentialLimit c))]"

definition enc_config :: "plugin_config \<Rightarrow> blob" where
  "enc_config c = Json (members (config_members c))"

definition dec_opt :: "(json \<Rightarrow> 'a option) \<Rightarrow> json \<Rightarrow> 'a option option" where
  "dec_opt dec v = map_option Some (dec v)"

definition dec_config_json :: "json \<Rightarrow> plugin_config option" where
  "dec_config_json d =
     (case (opt_field 0 dec_int d ''schema_version'', opt_field [] dec_str d ''cloud'',
            opt_field [] (dec_list dec_minter) d ''minters'', opt_field 0 dec_int d ''reconcile_cadence'',
            opt_field 0 dec_int d ''bootstrap_delay'', opt_field 0 dec_int d ''max_deletes_per_pass'') of
        (Some sv, Some cl, Some ms, Some rc, Some bd, Some md) \<Rightarrow>
          (case (opt_field 0 dec_int d ''minter_expiry_warn'', opt_field 0 dec_int d ''minter_retire_grace'',
                 opt_field None (dec_opt dec_bool) d ''verify_minter_capability'',
                 opt_field None (dec_opt dec_int) d ''capability_cache_ttl'',
                 opt_field None (dec_opt dec_int) d ''minter_credential_limit'') of
             (Some ew, Some rg, Some vc, Some ct, Some cr) \<Rightarrow>
               Some \<lparr> cfgSchema = sv, cfgCloud = cl, cfgMinters = ms, ReconcileCadence = rc, BootstrapDelay = bd,
                      MaxDeletesPerPass = md, MinterExpiryWarn = ew, MinterRetireGrace = rg,
                      VerifyMinterCapability = vc, CapabilityCacheTTL = ct, MinterCredentialLimit = cr \<rparr>
           | _ \<Rightarrow> None)
      | _ \<Rightarrow> None)"

definition dec_config :: "blob \<Rightarrow> plugin_config option" where
  "dec_config b = dec_body dec_config_json b"

lemma distinct_config_members: "distinct (map fst (config_members c))"
  by (simp add: config_members_def)

lemma dec_enc_config: "dec_config (enc_config c) = Some c"
proof -
  note f = field_members [OF distinct_config_members]
  have ms: "dec_list dec_minter (JArr (map enc_minter ms)) = Some ms" for ms
    by (simp add: dec_list_def dec_all_map dec_enc_minter)
  have fields:
    "opt_field 0 dec_int (members (config_members c)) ''schema_version'' = Some (cfgSchema c)"
    "opt_field [] dec_str (members (config_members c)) ''cloud'' = Some (cfgCloud c)"
    "opt_field [] (dec_list dec_minter) (members (config_members c)) ''minters'' = Some (cfgMinters c)"
    "opt_field 0 dec_int (members (config_members c)) ''reconcile_cadence'' = Some (ReconcileCadence c)"
    "opt_field 0 dec_int (members (config_members c)) ''bootstrap_delay'' = Some (BootstrapDelay c)"
    "opt_field 0 dec_int (members (config_members c)) ''max_deletes_per_pass'' = Some (MaxDeletesPerPass c)"
    "opt_field 0 dec_int (members (config_members c)) ''minter_expiry_warn'' = Some (MinterExpiryWarn c)"
    "opt_field 0 dec_int (members (config_members c)) ''minter_retire_grace'' = Some (MinterRetireGrace c)"
    "opt_field None (dec_opt dec_bool) (members (config_members c)) ''verify_minter_capability'' = Some (VerifyMinterCapability c)"
    "opt_field None (dec_opt dec_int) (members (config_members c)) ''capability_cache_ttl'' = Some (CapabilityCacheTTL c)"
    "opt_field None (dec_opt dec_int) (members (config_members c)) ''minter_credential_limit'' = Some (MinterCredentialLimit c)"
    unfolding opt_field_cases f
    by (simp_all add: config_members_def omit_int_def ms dec_opt_def split: option.split)
  then show ?thesis
    by (simp add: enc_config_def dec_config_def dec_body_def dec_object_def dec_config_json_def)
qed

text \<open>The other entry, a map of strings.\<close>

definition dec_meta :: "blob \<Rightarrow> (string \<times> string) list option" where
  "dec_meta b =
     (case b of
        Json JNull \<Rightarrow> Some []
      | Json (JObj kvs) \<Rightarrow> dec_all (\<lambda>(k, v). case v of JStr s \<Rightarrow> Some (k, s) | JNull \<Rightarrow> Some (k, []) | _ \<Rightarrow> None) kvs
      | _ \<Rightarrow> None)"

definition meta_get :: "(string \<times> string) list \<Rightarrow> string \<Rightarrow> string" where
  "meta_get kvs k = (case map_of (rev kvs) k of None \<Rightarrow> [] | Some s \<Rightarrow> s)"

section \<open>The handlers\<close>

definition pathConfigKey :: string where "pathConfigKey = ''config''"
definition configMetaKey :: string where "configMetaKey = ''config_meta''"

definition reconcilerBootstrapDelay :: duration where "reconcilerBootstrapDelay = 24 * hour"

definition write_config :: "request_fields \<Rightarrow> duration \<Rightarrow> duration \<Rightarrow> duration \<Rightarrow> plugin_config" where
  "write_config d reconcileCadence minterExpiryWarn minterRetireGrace =
     \<lparr> cfgSchema = SchemaVersion, cfgCloud = ''do'', cfgMinters = [], ReconcileCadence = reconcileCadence,
       BootstrapDelay = reconcilerBootstrapDelay, MaxDeletesPerPass = 10, MinterExpiryWarn = minterExpiryWarn,
       MinterRetireGrace = minterRetireGrace,
       VerifyMinterCapability = Some (case d ''verify_minter_capability'' of Some (JBool v) \<Rightarrow> v | _ \<Rightarrow> True),
       CapabilityCacheTTL = Some (of_seconds (get_int d ''capability_cache_ttl'' 3600)),
       MinterCredentialLimit = None \<rparr>"

text \<open>The configuration is stored before the endpoint, and memory follows both.\<close>

definition store_config :: "'w env \<Rightarrow> 'w st \<Rightarrow> plugin_config \<Rightarrow> string \<Rightarrow> 'w st \<times> response" where
  "store_config env bw cfg apiURL =
     (case bw of
        (b, w) \<Rightarrow>
          (case kput (eKV env) w pathConfigKey (enc_config cfg) of
             (w, Some e) \<Rightarrow> ((b, w), RespErr ErrInternal)
           | (w, None) \<Rightarrow>
               (case kput (eKV env) w configMetaKey (Json (JObj [(''api_url'', JStr apiURL)])) of
                  (w, Some e) \<Rightarrow> ((b, w), RespErr ErrInternal)
                | (w, None) \<Rightarrow>
                    ((b \<lparr> bConfig := Some cfg, bApiURL := (if apiURL \<noteq> [] then apiURL else bApiURL b) \<rparr>, w),
                     RespNil))))"

definition pathConfigWrite ::
  "'w env \<Rightarrow> (string \<Rightarrow> url option) \<Rightarrow> (string \<Rightarrow> bool option) \<Rightarrow> 'w st \<Rightarrow> request_fields \<Rightarrow> 'w st \<times> response" where
  "pathConfigWrite env parse parse_ip bw d =
     (let apiURL = get_str d ''do_api_url'' ''https://api.digitalocean.com''
      in if \<not> ValidateEndpoint parse parse_ip apiURL then (bw, RespErr ErrConfigInvalid)
         else if d ''minter_retire_grace'' \<notin> {None, Some JNull} then (bw, RespErr ErrUnsupported)
         else
           let reconcileCadence = of_seconds (get_int d ''reconcile_cadence'' 21600);
               minterExpiryWarn = of_seconds (get_int d ''minter_expiry_warn'' 604800);
               minterRetireGrace = of_seconds 604800
           in if ValidateIntervals [(''reconcile_cadence'', reconcileCadence),
                   (''minter_expiry_warn'', minterExpiryWarn), (''minter_retire_grace'', minterRetireGrace)] \<noteq> None
              then (bw, RespErr ErrConfigInvalid)
              else store_config env bw (write_config d reconcileCadence minterExpiryWarn minterRetireGrace) apiURL)"

text \<open>Loading answers with the state it has reached when it fails.\<close>

definition loadConfig :: "'w env \<Rightarrow> 'w st \<Rightarrow> backend \<times> err option" where
  "loadConfig env bw =
     (case bw of
        (b, w) \<Rightarrow>
          (case kget (eKV env) w pathConfigKey of
             Inl e \<Rightarrow> (b, Some e)
           | Inr None \<Rightarrow> (b, None)
           | Inr (Some v) \<Rightarrow>
               (case dec_config v of
                  None \<Rightarrow> (b, Some (Opaque ''json''))
                | Some cfg \<Rightarrow>
                    if \<not> CheckSchema (cfgSchema cfg) then (b, Some (Opaque ''schema version''))
                    else
                      let b = b \<lparr> bConfig := Some cfg \<rparr>
                      in case kget (eKV env) w configMetaKey of
                           Inl e \<Rightarrow> (b, Some e)
                         | Inr None \<Rightarrow> (b, None)
                         | Inr (Some m) \<Rightarrow>
                             (case dec_meta m of
                                None \<Rightarrow> (b, Some (Opaque ''json''))
                              | Some meta \<Rightarrow>
                                  (let url = meta_get meta ''api_url''
                                   in (b \<lparr> bApiURL := (if url \<noteq> [] then url else bApiURL b) \<rparr>, None))))))"

definition pathConfigRead :: "'w env \<Rightarrow> 'w st \<Rightarrow> response" where
  "pathConfigRead env bw =
     (case kget (eKV env) (snd bw) pathConfigKey of
        Inl e \<Rightarrow> RespErr ErrInternal
      | Inr None \<Rightarrow> RespNil
      | Inr (Some v) \<Rightarrow>
          (case dec_config v of
             None \<Rightarrow> RespErr ErrInternal
           | Some cfg \<Rightarrow>
               RespData [(''cloud'', JStr (cfgCloud cfg)),
                 (''reconcile_cadence'', JInt (seconds_of (ReconcileCadence cfg))),
                 (''minter_expiry_warn'', JInt (seconds_of (MinterExpiryWarn cfg))),
                 (''minter_retire_grace'', JInt (seconds_of (MinterRetireGrace cfg))),
                 (''verify_minter_capability'', JBool (CapabilityVerificationEnabled (Some cfg))),
                 (''capability_cache_ttl'', JInt (seconds_of (CapabilityCacheDuration (Some cfg))))]))"

text \<open>A backend as the core has just built it, and what it loads: failures are logged and passed over.\<close>

definition new_backend :: backend where
  "new_backend = \<lparr> bInstanceID = [], bConfig = None, bSets = [], bApiURL = [] \<rparr>"

definition Factory :: "'w env \<Rightarrow> 'w \<Rightarrow> 'w st" where
  "Factory env w = fst (loadAllMinterSets env (fst (loadConfig env (new_backend, w)), w))"

definition initialize :: "'w env \<Rightarrow> 'w st \<Rightarrow> 'w st" where
  "initialize env bw = fst (loadAllMinterSets env (fst (loadConfig env bw), snd bw))"

lemma load_sets_keeps:
  "bConfig (load_sets env w b names) = bConfig b" "bApiURL (load_sets env w b names) = bApiURL b"
proof -
  have "bConfig (loadMinterSet b s) = bConfig b" "bApiURL (loadMinterSet b s) = bApiURL b" for b s
    by (simp_all add: loadMinterSet_def Let_def)
  then have "bConfig (load_sets env w b names) = bConfig b \<and> bApiURL (load_sets env w b names) = bApiURL b"
    by (induction env w b names rule: load_sets.induct) (auto split: sum.splits option.splits)
  then show "bConfig (load_sets env w b names) = bConfig b" "bApiURL (load_sets env w b names) = bApiURL b" by auto
qed

lemma Factory_config:
  "bConfig (fst (Factory env w)) = bConfig (fst (loadConfig env (new_backend, w)))"
  "bApiURL (fst (Factory env w)) = bApiURL (fst (loadConfig env (new_backend, w)))"
  by (auto simp: Factory_def loadAllMinterSets_def load_sets_keeps split: sum.split)

section \<open>A restart\<close>

lemma ValidateIntervals_None:
  "ValidateIntervals iv = None \<longleftrightarrow> (\<forall>(n, v) \<in> set iv. \<exists>d > 0. map_of iv n = Some d)"
proof -
  have "ValidateIntervals iv = None \<longleftrightarrow>
      (\<forall>n \<in> fst ` set iv. \<not> (case map_of iv n of None \<Rightarrow> True | Some d \<Rightarrow> d \<le> 0))"
    by (auto simp: ValidateIntervals_def find_None_iff)
  also have "\<dots> \<longleftrightarrow> (\<forall>n \<in> fst ` set iv. \<exists>d > 0. map_of iv n = Some d)"
    by (intro ball_cong refl) (auto split: option.splits)
  finally show ?thesis by fastforce
qed

text \<open>
  C19. A restart loses no configuration that was accepted: the configuration written is well formed (its
  endpoint may carry a credential, its intervals are positive) and, as long as the storage answers the
  restart's reads of the two entries, loading them ends without an error and a backend built anew on the
  storage the write left holds the same configuration; the endpoint is the same too, unless the write gave
  an empty one, when the running mount keeps the endpoint it had and the restarted one falls back to the
  default.
\<close>
theorem config_survives_restart:
  assumes "kv_store (eKV env) view" and "pathConfigWrite env parse parse_ip (b, w) d = ((b', w'), RespNil)"
    and "\<forall>k \<in> {''config'', ''config_meta''}. \<exists>g. kget (eKV env) w' k = Inr g"
  shows "snd (loadConfig env (new_backend, w')) = None
     \<and> (\<exists>cfg url. bConfig b' = Some cfg \<and> bConfig (fst (Factory env w')) = Some cfg
     \<and> 0 < ReconcileCadence cfg \<and> 0 < MinterExpiryWarn cfg
     \<and> url = get_str d ''do_api_url'' ''https://api.digitalocean.com'' \<and> ValidateEndpoint parse parse_ip url
     \<and> (if url \<noteq> [] then bApiURL b' = url \<and> bApiURL (fst (Factory env w')) = url
        else bApiURL b' = bApiURL b \<and> bApiURL (fst (Factory env w')) = []))"
proof -
  let ?url = "get_str d ''do_api_url'' ''https://api.digitalocean.com''"
  let ?c = "of_seconds (get_int d ''reconcile_cadence'' 21600)" and ?e = "of_seconds (get_int d ''minter_expiry_warn'' 604800)"
  let ?iv = "[(''reconcile_cadence'', ?c), (''minter_expiry_warn'', ?e), (''minter_retire_grace'', of_seconds 604800)]"
  define cfg where "cfg = write_config d ?c ?e (of_seconds 604800)"
  have cfg: "cfgSchema cfg = SchemaVersion" "ReconcileCadence cfg = ?c" "MinterExpiryWarn cfg = ?e"
    by (simp_all add: cfg_def write_config_def)
  have ok: "ValidateEndpoint parse parse_ip ?url" "ValidateIntervals ?iv = None"
    and run: "store_config env (b, w) cfg ?url = ((b', w'), RespNil)"
    using assms(2) by (simp_all add: pathConfigWrite_def Let_def cfg_def split: if_splits)
  note run = run [unfolded store_config_def prod.case]
  obtain w1 x1 where p1: "kput (eKV env) w pathConfigKey (enc_config cfg) = (w1, x1)" by force
  with run have x1: "x1 = None" by (cases x1) simp_all
  obtain w2 x2 where p2: "kput (eKV env) w1 configMetaKey (Json (JObj [(''api_url'', JStr ?url)])) = (w2, x2)" by force
  with run p1 x1 have x2: "x2 = None" by (cases x2) simp_all
  have b': "w' = w2" "bConfig b' = Some cfg" "bApiURL b' = (if ?url \<noteq> [] then ?url else bApiURL b)"
    using run p1 p2 x1 x2 by auto
  note v1 = kv_store.put_ok [OF assms(1) p1 [unfolded x1]] and v2 = kv_store.put_ok [OF assms(1) p2 [unfolded x2]]
  have view: "view w' pathConfigKey = Some (enc_config cfg)" "view w' configMetaKey = Some (Json (JObj [(''api_url'', JStr ?url)]))"
    by (simp_all add: b' v1 v2 pathConfigKey_def configMetaKey_def)
  have meta: "dec_meta (Json (JObj [(''api_url'', JStr ?url)])) = Some [(''api_url'', ?url)]"
    by (simp add: dec_meta_def)
  obtain g1 g2 where g: "kget (eKV env) w' pathConfigKey = Inr g1" "kget (eKV env) w' configMetaKey = Inr g2"
    using assms(3) by (auto simp: pathConfigKey_def configMetaKey_def)
  have "g1 = Some (enc_config cfg)" "g2 = Some (Json (JObj [(''api_url'', JStr ?url)]))"
    using kv_store.get_view [OF assms(1) g(1)] kv_store.get_view [OF assms(1) g(2)] view by simp_all
  with g obtain b1 where b1: "loadConfig env (new_backend, w') = (b1, None)" "bConfig b1 = Some cfg" "bApiURL b1 = ?url"
    using cfg(1) by (auto simp: loadConfig_def dec_enc_config CheckSchema_def meta meta_get_def new_backend_def Let_def)
  then have "bConfig (fst (Factory env w')) = Some cfg" "bApiURL (fst (Factory env w')) = ?url"
    by (simp_all add: Factory_config)
  moreover have "0 < ?c" "0 < ?e" using ok(2) by (auto simp: ValidateIntervals_None)
  ultimately show ?thesis using b' b1(1) cfg ok(1) by (intro conjI exI [of _ cfg] exI [of _ ?url]) auto
qed

theorem config_survives_restart_witness:
  "\<exists>b' w' cfg. pathConfigWrite (fake_env 5) (\<lambda>s. None) (\<lambda>s. None) (one_minter, ([], [])) (Map.empty(''do_api_url'' \<mapsto> JStr []))
       = ((b', w'), RespNil) \<and> bConfig b' = Some cfg \<and> bConfig (fst (Factory (fake_env 5) w')) = Some cfg"
proof -
  let ?r = "pathConfigWrite (fake_env 5) (\<lambda>s. None) (\<lambda>s. None) (one_minter, ([], [])) (Map.empty(''do_api_url'' \<mapsto> JStr []))"
  have v: "snd ?r = RespNil" by code_simp
  obtain b' w' where r: "?r = ((b', w'), RespNil)" using v by (metis prod.collapse)
  have "\<forall>k \<in> {''config'', ''config_meta''}. \<exists>g. kget (eKV (fake_env 5)) w' k = Inr g"
    by (simp add: fake_env_def mem_kv_def split: prod.split)
  from config_survives_restart [OF fake.kv_store_axioms r this] show ?thesis using r by blast
qed

section \<open>What the writes leave alone\<close>

text \<open>
  From one world to the next nothing is deleted upstream and nothing that was used becomes unused, and of
  the storage only the owner id, cached verdicts and the entries in \<open>K\<close> may change.
\<close>

definition quiet ::
  "('w \<Rightarrow> string \<Rightarrow> blob option) \<Rightarrow> ('w \<Rightarrow> (string \<times> string) set) \<Rightarrow> ('w \<Rightarrow> (string \<times> string) set)
     \<Rightarrow> string set \<Rightarrow> 'w \<Rightarrow> 'w \<Rightarrow> bool" where
  "quiet view alive used K w w' \<longleftrightarrow>
     alive w \<subseteq> alive w' \<and> used w \<subseteq> used w'
     \<and> (\<forall>k. k \<notin> K \<longrightarrow> k \<noteq> storageKey \<longrightarrow> \<not> prefix cachePrefix k \<longrightarrow> view w' k = view w k)"

lemma quietD:
  assumes "quiet view alive used K w w'"
  shows "alive w \<subseteq> alive w'" and "used w \<subseteq> used w'"
    and "k \<notin> K \<Longrightarrow> k \<noteq> storageKey \<Longrightarrow> \<not> prefix cachePrefix k \<Longrightarrow> view w' k = view w k"
  using assms by (simp_all add: quiet_def)

lemma quietI:
  assumes "alive w \<subseteq> alive w'" and "used w \<subseteq> used w'"
    and "\<And>k. k \<notin> K \<Longrightarrow> k \<noteq> storageKey \<Longrightarrow> \<not> prefix cachePrefix k \<Longrightarrow> view w' k = view w k"
  shows "quiet view alive used K w w'"
  using assms by (simp add: quiet_def)

lemma quiet_refl: "quiet view alive used K w w"
  by (simp add: quiet_def)

lemma quiet_trans:
  assumes "quiet view alive used K u v" and "quiet view alive used K v w"
  shows "quiet view alive used K u w"
proof (rule quietI)
  show "alive u \<subseteq> alive w" using quietD(1) [OF assms(1)] quietD(1) [OF assms(2)] by (rule subset_trans)
  show "used u \<subseteq> used w" using quietD(2) [OF assms(1)] quietD(2) [OF assms(2)] by (rule subset_trans)
  show "view w k = view u k" if "k \<notin> K" "k \<noteq> storageKey" "\<not> prefix cachePrefix k" for k
    using quietD(3) [OF assms(1) that] quietD(3) [OF assms(2) that] by simp
qed

lemma quiet_mono: "quiet view alive used K w w' \<Longrightarrow> K \<subseteq> K' \<Longrightarrow> quiet view alive used K' w w'"
  unfolding quiet_def by (elim conjE, intro conjI allI impI) (assumption, assumption, blast)

text \<open>A verification, as any relation sees it that holds of each probe and each write of a verdict.\<close>

lemma verify_loop_rel:
  assumes "\<And>w. R w w" and "\<And>u v w. R u v \<Longrightarrow> R v w \<Longrightarrow> R u w"
    and "\<And>c w w' st e. c \<in> set cs \<Longrightarrow> ckRun c w = (w', st, e) \<Longrightarrow> R w w'"
    and "\<And>c w. c \<in> set cs \<Longrightarrow> R w (store (rCache r) w c)"
    and "verify_loop r w sms res cs = ((w', sms'), res', e)"
  shows "R w w'"
  using assms(3-5)
proof (induction cs arbitrary: w sms res)
  case Nil
  then show ?case using assms(1) by simp
next
  case (Cons c cs)
  have IH: "R v w'" if "verify_loop r v sms2 res2 cs = ((w', sms'), res', e)" for v sms2 res2
    using Cons.IH [OF _ _ that] Cons.prems(1,2) by (meson list.set_intros(2))
  obtain w1 st x where run: "ckRun c w = (w1, st, x)" by (metis surj_pair)
  have r1: "R w w1" using Cons.prems(1) run by (meson list.set_intros(1))
  have r2: "R w (store (rCache r) w1 c)" using assms(2) [OF r1] Cons.prems(2) by (meson list.set_intros(1))
  show ?case
  proof (cases "fresh (rCache r) w c")
    case True
    then show ?thesis using Cons.prems(3) IH by simp
  next
    case f: False
    show ?thesis
    proof (cases "acquire (rLimiter r) sms w (ckMinter c)")
      case (Some y)
      then show ?thesis using Cons.prems(3) f assms(1) by simp
    next
      case a: None
      show ?thesis
      proof (cases x)
        case None
        then have "verify_loop r (store (rCache r) w1 c) (record_probe (rLimiter r) sms w1 (ckMinter c) st x)
            (res \<lparr> Ran := Ran res + 1 \<rparr>) cs = ((w', sms'), res', e)"
          using Cons.prems(3) f a run by (simp add: Let_def)
        from assms(2) [OF r2 IH [OF this]] show ?thesis .
      next
        case (Some y)
        show ?thesis
        proof (cases "leaf y = ErrProbeUnsupported")
          case True
          then have "verify_loop r w1 (record_probe (rLimiter r) sms w1 (ckMinter c) st x)
              (res \<lparr> Skipped := Skipped res + 1 \<rparr>) cs = ((w', sms'), res', e)"
            using Cons.prems(3) f a run Some by (simp add: Let_def)
          from assms(2) [OF r1 IH [OF this]] show ?thesis .
        next
          case False
          then have "w' = w1" using Cons.prems(3) f a run Some by (simp add: Let_def)
          then show ?thesis using r1 by simp
        qed
      qed
    qed
  qed
qed

text \<open>The gate as a whole: reads, probes, and entries of the verdict cache.\<close>

lemma store_rel:
  assumes "\<And>w. R w w" and "\<And>k v w. R w (fst (kput kv w (cachePrefix @ k) v))" and "cStorage co = Some kv"
  shows "R w (store (Some co) w c)"
  using assms by (auto simp: store_def cache_usable_def cache_key_def split: option.split)

lemma gate_run_rel:
  assumes refl: "\<And>w. R w w" and trans: "\<And>u v w. R u v \<Longrightarrow> R v w \<Longrightarrow> R u w"
    and puts: "\<And>k v w. R w (fst (kput kv w (cachePrefix @ k) v))"
    and checks: "\<And>c w w' st e. c \<in> set cs \<Longrightarrow> ckRun c w = (w', st, e) \<Longrightarrow> R w w'"
    and run: "gate_run g kv w sms cs = ((w', sms'), r)"
  shows "R w w'"
proof -
  let ?ca = "\<lparr> cStorage = Some kv, cTTL = gCacheTTL g, cNow = gNow g, cDigest = gDigest g \<rparr>"
  let ?rn = "\<lparr> rCache = Some ?ca, rLimiter = gLimiter g \<rparr>"
  obtain ws res x where "Verify ?rn w sms cs = (ws, res, x)" by (metis surj_pair)
  moreover have "ws = (w', sms')" using run calculation by (cases x) (simp_all add: gate_run_def Let_def)
  ultimately have v: "verify_loop ?rn w sms \<lparr> Ran = 0, Skipped = 0, Cached = 0 \<rparr> (Dedupe cs) = ((w', sms'), res, x)"
    unfolding Verify_def by simp
  show ?thesis
  proof (rule verify_loop_rel [where R = R, OF refl _ _ _ v])
    show "R u x" if "R u v" "R v x" for u v x using that by (rule trans)
    show "R u v" if c: "c \<in> set (Dedupe cs)" and ck: "ckRun c u = (v, st, e)" for c u v st e
    proof -
      obtain d rest where d: "with_key (ckKey c) cs = d # rest" "c = d \<lparr> ckRoles := merge_roles (ckRoles d) rest \<rparr>"
        using Dedupe_member [OF c] .
      have "d \<in> set (with_key (ckKey c) cs)" unfolding d(1) by simp
      then have "d \<in> set cs" by (simp add: with_key_def)
      moreover have "ckRun c = ckRun d" by (subst d(2)) simp
      ultimately show ?thesis using checks ck by metis
    qed
  qed (simp add: store_rel [where R = R, OF refl puts])
qed

lemma verify_role_rel:
  assumes "\<And>w. R w w" and "\<And>u v w. R u v \<Longrightarrow> R v w \<Longrightarrow> R u w"
    and "\<And>k v w. R w (fst (kput kv w (cachePrefix @ k) v))"
    and "\<And>s c w w' st e. c \<in> set (checks s raw) \<Longrightarrow> ckRun c w = (w', st, e) \<Longrightarrow> R w w'"
    and "VerifyRole g kv w sms n raw checks = ((w', sms'), r)"
  shows "R w w'"
proof -
  have "w' = w \<or> (\<exists>s. gate_run g kv w sms (checks s raw) = ((w', sms'), r))"
    using assms(5) by (auto simp: VerifyRole_def split: if_splits sum.splits option.splits)
  moreover have "R w w'" if "gate_run g kv w sms (checks s raw) = ((w', sms'), r)" for s
    by (rule gate_run_rel [where R = R, OF assms(1,2,3) _ that]) (use assms(4) in auto)
  ultimately show ?thesis using assms(1) by blast
qed

lemma verify_set_rel:
  assumes "\<And>w. R w w" and "\<And>u v w. R u v \<Longrightarrow> R v w \<Longrightarrow> R u w"
    and "\<And>k v w. R w (fst (kput kv w (cachePrefix @ k) v))"
    and "\<And>raw c w w' st e. c \<in> set (checks s raw) \<Longrightarrow> ckRun c w = (w', st, e) \<Longrightarrow> R w w'"
    and "VerifySet g kv w sms s checks = ((w', sms'), r)"
  shows "R w w'"
proof -
  have "w' = w \<or> (\<exists>rs :: bound_role list. gate_run g kv w sms (concat (map (\<lambda>r. checks s (brRaw r)) rs)) = ((w', sms'), r))"
    using assms(5) by (auto simp: VerifySet_def split: if_splits sum.splits)
  moreover have "R w w'"
    if "gate_run g kv w sms (concat (map (\<lambda>r. checks s (brRaw r)) rs)) = ((w', sms'), r)" for rs :: "bound_role list"
    by (rule gate_run_rel [where R = R, OF assms(1,2,3) _ that]) (use assms(4) in auto)
  ultimately show ?thesis using assms(1) by blast
qed

context do_history begin

lemma quiet_probes:
  "probeMint env url inst n scopes m w = (w', st, e) \<Longrightarrow> quiet view alive used {} w w'" (is "?l1 \<Longrightarrow> _")
  "probeSpacesMint env url inst n gs m w = (w', st, e) \<Longrightarrow> quiet view alive used {} w w'" (is "?l2 \<Longrightarrow> _")
proof -
  assume run: ?l1
  let ?c = "newDOClient url (Token m)"
  obtain w1 s1 r where c: "CreateToken (eHttp env) ?c (ProbeName (Prefix inst) n (eSuffix env w)) scopes w = (w1, s1, r)"
    by (metis surj_pair)
  note cr = create_token [OF c] and cu = ever.create_token [OF c] and vw = CreateToken_view [OF c]
  show "quiet view alive used {} w w'"
  proof (cases r)
    case (Inl x)
    then have "w' = w1" using run c by (simp add: probeMint_def Let_def)
    then show ?thesis using cr cu vw by (intro quietI) simp_all
  next
    case (Inr t)
    obtain w2 s2 x where d: "DeleteToken (eHttp env) ?c (tokID t) w1 = (w2, s2, x)" by (metis surj_pair)
    have "w' = w2" using run c Inr d by (simp add: probeMint_def Let_def)
    moreover have "alive w \<subseteq> alive w2" using cr Inr delete_token [OF d] by blast
    moreover have "used w \<subseteq> used w2" using cu touches_used [OF touches_requests(3) [OF d]] by blast
    ultimately show ?thesis using vw DeleteToken_view [OF d] by (intro quietI) simp_all
  qed
next
  assume run: ?l2
  let ?c = "newDOClient url (Token m)"
  obtain w1 s1 r where c: "CreateSpacesKey (eHttp env) ?c (ProbeName (Prefix inst) n (eSuffix env w)) gs w = (w1, s1, r)"
    by (metis surj_pair)
  note cr = create_key [OF c] and cu = ever.create_key [OF c] and vw = CreateSpacesKey_view [OF c]
  show "quiet view alive used {} w w'"
  proof (cases r)
    case (Inl x)
    then have "w' = w1" using run c by (simp add: probeSpacesMint_def Let_def)
    then show ?thesis using cr cu vw by (intro quietI) simp_all
  next
    case (Inr k)
    obtain w2 s2 x where d: "DeleteSpacesKey (eHttp env) ?c (skAccessKey k) w1 = (w2, s2, x)" by (metis surj_pair)
    have "w' = w2" using run c Inr d by (simp add: probeSpacesMint_def Let_def)
    moreover have "alive w \<subseteq> alive w2" using cr Inr delete_key [OF d] by blast
    moreover have "used w \<subseteq> used w2" using cu touches_used [OF touches_requests(4) [OF d]] by blast
    ultimately show ?thesis using vw DeleteSpacesKey_view [OF d] by (intro quietI) simp_all
  qed
qed

lemma quiet_put:
  assumes p: "kput (eKV env) w k v = (w', e)"
  shows "quiet view alive used {k} w w'"
  using put_alive [OF p] ever.put_alive [OF p] put_frame [OF p] by (intro quietI) simp_all

lemma quiet_del:
  assumes d: "kdel (eKV env) w k = (w', e)"
  shows "quiet view alive used {k} w w'"
  using kdel_alive [OF d] ever.kdel_alive [OF d] del_frame [OF d] by (intro quietI) simp_all

lemma quiet_cache_put: "quiet view alive used {} w (fst (kput (eKV env) w (cachePrefix @ k) v))"
proof -
  obtain w' e where p: "kput (eKV env) w (cachePrefix @ k) v = (w', e)" by force
  have "view w' j = view w j" if "\<not> prefix cachePrefix j" for j
    using put_frame [OF p, of j] that by (cases "j = cachePrefix @ k") auto
  then show ?thesis using p put_alive [OF p] ever.put_alive [OF p] by (intro quietI) simp_all
qed

lemma quiet_checks:
  assumes "c \<in> set (capabilityChecks env b s raw)" and "ckRun c w = (w', st, e)"
  shows "quiet view alive used {} w w'"
  using assms quiet_probes
  by (auto simp: capabilityChecks_def ChecksPerMinter_def split: option.splits if_splits)

lemma quiet_owner: "ownerInstanceID env (b, w) = ((b', w'), r) \<Longrightarrow> quiet view alive used {} w w'"
  using ownerInstanceID_frame touches_used [OF touches_owner] by (intro quietI) simp_all

lemma quiet_verify_role:
  assumes "verifyRoleCapability env (b, w) r = ((b', w'), c)"
  shows "quiet view alive used {} w w'"
proof -
  obtain b1 w1 o1 where o: "ownerInstanceID env (b, w) = ((b1, w1), o1)" by (metis surj_pair)
  note q = quiet_owner [OF o]
  show ?thesis
  proof (cases o1)
    case (Inl e)
    then show ?thesis using assms o q by (simp add: verifyRoleCapability_def)
  next
    case (Inr i)
    obtain w2 sms2 c2 where v: "VerifyRole (gate env b1) (eKV env) w1 (minterStateByID b1) (drMinterSet r) (enc_role r)
        (capabilityChecks env b1) = ((w2, sms2), c2)" by (metis surj_pair)
    then have w': "w' = w2" using assms o Inr by (simp add: verifyRoleCapability_def)
    show ?thesis unfolding w'
      by (rule quiet_trans [OF q verify_role_rel [where R = "quiet view alive used {}",
            OF quiet_refl quiet_trans quiet_cache_put quiet_checks v]])
  qed
qed

lemma quiet_verify_set:
  assumes "verifySetCapability env (b, w) s = ((b', w'), c)"
  shows "quiet view alive used {} w w'"
proof -
  obtain b1 w1 o1 where o: "ownerInstanceID env (b, w) = ((b1, w1), o1)" by (metis surj_pair)
  note q = quiet_owner [OF o]
  show ?thesis
  proof (cases o1)
    case (Inl e)
    then show ?thesis using assms o q by (simp add: verifySetCapability_def)
  next
    case (Inr i)
    obtain w2 sms2 c2 where v: "VerifySet (gate env b1) (eKV env) w1 (minterStateByID b1) s (capabilityChecks env b1)
        = ((w2, sms2), c2)" by (metis surj_pair)
    then have w': "w' = w2" using assms o Inr by (simp add: verifySetCapability_def)
    show ?thesis unfolding w'
      by (rule quiet_trans [OF q verify_set_rel [where R = "quiet view alive used {}",
            OF quiet_refl quiet_trans quiet_cache_put quiet_checks v]])
  qed
qed

text \<open>A role write, on every branch: refused, or the role that was built is what may be stored.\<close>

lemma role_write_cases:
  assumes "pathRoleWrite env (b, w) n raw = ((b', w'), resp)"
  obtains (refused) "quiet view alive used {} w w'" "resp \<noteq> RespNil"
  | (stored) d typed r w1 e where
      "parseCredentialTypeFields d (get_strs d ''scopes'') (of_seconds (get_int d ''max_ttl'' 3600)) = Some typed"
      "get_str d ''minter_set'' [] \<noteq> []" "build_role n d typed = Some r" "quiet view alive used {} w w1"
      "kput (eKV env) w1 (rolesPrefix @ n) (enc_role r) = (w', e)" "resp = RespNil \<longleftrightarrow> e = None"
proof -
  obtain d x where d: "PrefillRoleWrite (eKV env) w (rolesPrefix @ n) role_schema storedRoleData (eValidate env) raw = (d, x)"
    by force
  let ?typed = "parseCredentialTypeFields d (get_strs d ''scopes'') (of_seconds (get_int d ''max_ttl'' 3600))"
  show thesis
  proof (cases "\<exists>typed r. x = None \<and> ?typed = Some typed \<and> get_str d ''minter_set'' [] \<noteq> []
      \<and> minterSetExists env w (get_str d ''minter_set'' []) = Inr True \<and> build_role n d typed = Some r")
    case False
    then have "w' = w \<and> resp \<noteq> RespNil"
      using assms d by (auto simp: pathRoleWrite_def Let_def split: option.splits if_splits sum.splits bool.splits)
    then show thesis using refused quiet_refl by metis
  next
    case True
    then obtain typed r where t: "x = None" "?typed = Some typed" "get_str d ''minter_set'' [] \<noteq> []"
      "minterSetExists env w (get_str d ''minter_set'' []) = Inr True" "build_role n d typed = Some r" by blast
    obtain b1 w1 c where v: "verifyRoleCapability env (b, w) r = ((b1, w1), c)" by (metis surj_pair)
    note q = quiet_verify_role [OF v]
    show thesis
    proof (cases c)
      case (Some y)
      then have "w' = w1" "resp \<noteq> RespNil" using assms d t v by (auto simp: pathRoleWrite_def Let_def)
      then show thesis using refused q by simp
    next
      case None
      obtain w2 e where p: "kput (eKV env) w1 (rolesPrefix @ n) (enc_role r) = (w2, e)" by force
      have "w' = w2" "resp = RespNil \<longleftrightarrow> e = None"
        using assms d t v None p by (auto simp: pathRoleWrite_def Let_def split: option.splits)
      then show thesis using stored [OF t(2,3,5) q] p by simp
    qed
  qed
qed

end

section \<open>Stored roles are well formed\<close>

text \<open>
  What the code that serves a role takes for granted: positive bounds in order, demands that parse, one of
  the three credential types and exactly the fields that type has, grants a parser produced, and for a
  rotated role the arithmetic of its schedule.
\<close>

definition role_ok :: "string \<Rightarrow> do_role \<Rightarrow> bool" where
  "role_ok n r \<longleftrightarrow>
     drName r = n \<and> n \<noteq> [] \<and> 0 < drDefaultTTL r \<and> drDefaultTTL r \<le> drMaxTTL r \<and> drMinterSet r \<noteq> []
     \<and> ParseIdentityRequirement (RequireCallerIdentity r) \<noteq> None
     \<and> ParseLineageRequirement (RequireCallerLineage r) \<noteq> None
     \<and> (if CredentialType r = ''token'' then
          drScopes r \<noteq> [] \<and> Grants r = [] \<and> Region r = [] \<and> Endpoint r = []
          \<and> RotationPeriod r = 0 \<and> RotationJitter r = 0 \<and> OverlapTTL r = 0
        else
          drScopes r = [] \<and> parseGrants (renderGrants (Grants r)) = Some (Grants r)
          \<and> Region r \<noteq> [] \<and> Endpoint r \<noteq> []
          \<and> (if CredentialType r = ''spaces_key'' then RotationPeriod r = 0 \<and> RotationJitter r = 0 \<and> OverlapTTL r = 0
             else CredentialType r = ''spaces_key_rotated''
               \<and> lifecycle_ok (RotationPeriod r) (RotationJitter r) (OverlapTTL r) (drMaxTTL r)))"

definition roles_ok :: "(string \<Rightarrow> blob option) \<Rightarrow> bool" where
  "roles_ok m \<longleftrightarrow> (\<forall>n v. m (''roles/'' @ n) = Some v \<longrightarrow> (\<exists>r. dec_role v = Some r \<and> role_ok n r))"

lemma parse_typed:
  assumes "parseCredentialTypeFields d scopes maxTTL = Some f"
  shows "if tfType f = credentialTypeToken then
       scopes \<noteq> [] \<and> f = no_type_fields \<lparr> tfType := credentialTypeToken \<rparr>
     else scopes = [] \<and> parseGrants (renderGrants (tfGrants f)) = Some (tfGrants f) \<and> tfRegion f \<noteq> [] \<and> tfEndpoint f \<noteq> []
       \<and> (if tfType f = credentialTypeSpacesKey then tfPeriod f = 0 \<and> tfJitter f = 0 \<and> tfOverlap f = 0
          else tfType f = credentialTypeSpacesKeyRotated
            \<and> lifecycle_ok (tfPeriod f) (tfJitter f) (tfOverlap f) maxTTL)"
proof -
  let ?ct = "get_str d ''credential_type'' credentialTypeToken"
  obtain w where w: "w = \<lparr> wfType = (if ?ct = [] then credentialTypeToken else ?ct), wfScopes = scopes,
                wfMaxTTL = maxTTL, wfGrantSpecs = get_strs d ''grants'', wfRegion = get_str d ''region'' [],
                wfEndpoint = get_str d ''endpoint'' [], wfLife = readLifecycleFields d \<rparr>" by simp
  have run: "(if wfType w = credentialTypeToken then parseToken w
         else if wfType w = credentialTypeSpacesKey \<or> wfType w = credentialTypeSpacesKeyRotated
         then parseSpaces w else None) = Some f"
    using assms unfolding parseCredentialTypeFields_def Let_def w [symmetric] .
  show ?thesis
  proof (cases "wfType w = credentialTypeToken")
    case True
    then have "parseToken w = Some f" using run by simp
    then show ?thesis by (auto simp: parseToken_def w credential_type_defs split: if_splits)
  next
    case False
    then have sp: "parseSpaces w = Some f" and ty: "wfType w \<in> {credentialTypeSpacesKey, credentialTypeSpacesKeyRotated}"
      using run by (auto split: if_splits)
    then obtain gs where gs: "parseGrants (wfGrantSpecs w) = Some gs" "scopes = []" "wfRegion w \<noteq> []"
      by (auto simp: parseSpaces_def w Let_def split: if_splits option.splits)
    let ?ep = "if wfEndpoint w = [] then spacesEndpointForRegion (wfRegion w) else wfEndpoint w"
    let ?base = "no_type_fields \<lparr> tfType := wfType w, tfGrants := gs, tfRegion := wfRegion w, tfEndpoint := ?ep \<rparr>"
    have ep: "?ep \<noteq> []" by (simp add: spacesEndpointForRegion_def)
    have f: "(if wfType w = credentialTypeSpacesKeyRotated then apply_lifecycle (wfLife w) maxTTL ?base else Some ?base) = Some f"
      using sp gs by (simp add: parseSpaces_def Let_def w split: if_splits)
    have rt: "parseGrants (renderGrants gs) = Some gs" by (rule grants_least_privilege_facts(2) [OF gs(1)])
    show ?thesis
    proof (cases "wfType w = credentialTypeSpacesKeyRotated")
      case True
      then have "apply_lifecycle (wfLife w) maxTTL ?base = Some f" using f by simp
      then obtain p ov j where "lifecycle_ok p j ov maxTTL" "f = ?base \<lparr> tfPeriod := p, tfJitter := j, tfOverlap := ov \<rparr>"
        unfolding apply_lifecycle_ok by blast
      then show ?thesis using True gs rt ep by (simp add: credential_type_defs)
    next
      case False
      then have "f = ?base" "wfType w = credentialTypeSpacesKey" using f ty by auto
      then show ?thesis using gs rt ep by (simp add: credential_type_defs no_type_fields_def)
    qed
  qed
qed

lemma built_role_ok:
  assumes t: "parseCredentialTypeFields d (get_strs d ''scopes'') (of_seconds (get_int d ''max_ttl'' 3600)) = Some typed"
    and "get_str d ''minter_set'' [] \<noteq> []" and "build_role n d typed = Some r"
  shows "role_ok n r"
proof -
  let ?dt = "of_seconds (get_int d ''default_ttl'' 900)" and ?mt = "of_seconds (get_int d ''max_ttl'' 3600)"
  have v: "ValidateRole \<lparr> roleName = n, roleCloud = ''do'', DefaultTTL = ?dt, MaxTTL = ?mt \<rparr>"
    and p: "ParseIdentityRequirement (get_str d ''require_caller_identity'' []) \<noteq> None"
      "ParseLineageRequirement (get_str d ''require_caller_lineage'' []) \<noteq> None"
    and r: "r = \<lparr> drName = n, drDefaultTTL = ?dt, drMaxTTL = ?mt, drScopes = get_strs d ''scopes'',
        drMinterSet = get_str d ''minter_set'' [], drDisabled = get_bool d ''disabled'',
        RequireCallerIdentity = get_str d ''require_caller_identity'' [],
        RequireCallerLineage = get_str d ''require_caller_lineage'' [],
        CredentialType = tfType typed, Grants = tfGrants typed, Region = tfRegion typed,
        Endpoint = tfEndpoint typed, RotationPeriod = tfPeriod typed, RotationJitter = tfJitter typed,
        OverlapTTL = tfOverlap typed \<rparr>"
    using assms(3) by (auto simp: build_role_def Let_def split: if_splits)
  have "n \<noteq> [] \<and> 0 < ?dt \<and> ?dt \<le> ?mt" using v by (auto simp: ValidateRole_def split: if_splits)
  moreover have "(if tfType typed = ''token'' then
          get_strs d ''scopes'' \<noteq> [] \<and> tfGrants typed = [] \<and> tfRegion typed = [] \<and> tfEndpoint typed = []
          \<and> tfPeriod typed = 0 \<and> tfJitter typed = 0 \<and> tfOverlap typed = 0
        else
          get_strs d ''scopes'' = [] \<and> parseGrants (renderGrants (tfGrants typed)) = Some (tfGrants typed)
          \<and> tfRegion typed \<noteq> [] \<and> tfEndpoint typed \<noteq> []
          \<and> (if tfType typed = ''spaces_key'' then tfPeriod typed = 0 \<and> tfJitter typed = 0 \<and> tfOverlap typed = 0
             else tfType typed = ''spaces_key_rotated'' \<and> lifecycle_ok (tfPeriod typed) (tfJitter typed) (tfOverlap typed) ?mt))"
    using parse_typed [OF t]
    by (simp add: credential_type_defs no_type_fields_def split: if_splits)
  ultimately show ?thesis using p assms(2) unfolding role_ok_def r by simp
qed

lemma roles_ok_put:
  assumes "roles_ok m" and "role_ok n r"
  shows "roles_ok (m(''roles/'' @ n \<mapsto> enc_role r))"
  using assms by (auto simp: roles_ok_def dec_enc_role)

lemma roles_ok_del: "roles_ok m \<Longrightarrow> roles_ok (m(k := None))"
  by (auto simp: roles_ok_def)

lemma roles_ok_same: "roles_ok m \<Longrightarrow> (\<And>n. m' (''roles/'' @ n) = m (''roles/'' @ n)) \<Longrightarrow> roles_ok m'"
  by (simp add: roles_ok_def)

text \<open>
  C17. What is served is well formed by construction: if every stored role is, then after a role write,
  whatever the request says and however it ends, and after a role delete, every stored role is, and every
  role a read can load afterwards has bounds in order, demands that parse, exactly the fields of its
  credential type, grants that follow least privilege, and a schedule the rotation can keep.
\<close>
theorem stored_roles_typed:
  assumes "do_history env view alive used" and "roles_ok (view w)"
    and "pathRoleWrite env (b, w) n raw = ((b', w'), resp)"
  shows "roles_ok (view w') \<and> roles_ok (view (snd (fst (pathRoleDelete env (b, w) n))))
     \<and> (\<forall>m r. loadRole env w' m = Inr r \<longrightarrow> role_ok m r)"
proof -
  have kv: "kv_store (eKV env) view" using assms(1) by (simp add: do_history_def do_world_def)
  have same: "roles_ok (view v)" if "quiet view alive used {} w v" for v
  proof (rule roles_ok_same [OF assms(2)])
    show "view v (''roles/'' @ m) = view w (''roles/'' @ m)" for m
      using quietD(3) [OF that] by (simp add: storageKey_def cachePrefix_def)
  qed
  have ok: "roles_ok (view w')"
  proof (cases rule: do_history.role_write_cases [OF assms(1,3)])
    case 1
    then show ?thesis using same by simp
  next
    case stored: (2 d typed r w1 e)
    have r: "role_ok n r" by (rule built_role_ok [OF stored(1-3)])
    have "view w' = view w1 \<or> view w' = (view w1)(''roles/'' @ n \<mapsto> enc_role r)"
      using stored(5) kv_store.put_ok [OF kv] kv_store.put_err [OF kv] unfolding rolesPrefix_def by (cases e) auto
    then show ?thesis using same [OF stored(4)] roles_ok_put [OF same [OF stored(4)] r] by auto
  qed
  obtain w2 e where d: "kdel (eKV env) w (''roles/'' @ n) = (w2, e)" by force
  have "view w2 = view w \<or> view w2 = (view w)(''roles/'' @ n := None)"
    using d kv_store.del_ok [OF kv] kv_store.del_err [OF kv] by (cases e) auto
  then have "roles_ok (view w2)" using assms(2) roles_ok_del by auto
  moreover have "snd (fst (pathRoleDelete env (b, w) n)) = w2"
    using d by (simp add: pathRoleDelete_def rolesPrefix_def split: option.split)
  moreover have "role_ok m r" if l: "loadRole env w' m = Inr r" for m r
  proof -
    obtain v where v: "kget (eKV env) w' (''roles/'' @ m) = Inr (Some v)" "dec_role v = Some r"
      using l by (auto simp: loadRole_def rolesPrefix_def split: sum.splits option.splits if_splits)
    have "view w' (''roles/'' @ m) = Some v" using kv_store.get_view [OF kv v(1)] by simp
    from ok [unfolded roles_ok_def, THEN spec, THEN spec, THEN mp, OF this] v(2) show ?thesis by auto
  qed
  ultimately show ?thesis using ok by simp
qed

definition set_world :: fake_world where
  "set_world =
     ([(''minter-sets/s'', enc_minter_set \<lparr> Schema = 1, Name = ''s'', Minters = [sample_minter ''m1'' False] \<rparr>)], [])"

definition unprobed :: backend where
  "unprobed = one_minter \<lparr> bConfig :=
     Some (write_config [''verify_minter_capability'' \<mapsto> JBool False] hour hour hour) \<rparr>"

definition token_request :: request_fields where
  "token_request = [''minter_set'' \<mapsto> JStr ''s'', ''scopes'' \<mapsto> JArr [JStr ''droplet:read'']]"

theorem stored_roles_typed_witness:
  "\<exists>b' w'. pathRoleWrite (fake_env 5) (unprobed, set_world) ''t'' token_request = ((b', w'), RespNil)
     \<and> roles_ok (mem_view w') \<and> mem_view w' ''roles/t'' \<noteq> None"
proof -
  let ?r = "pathRoleWrite (fake_env 5) (unprobed, set_world) ''t'' token_request"
  have v: "snd ?r = RespNil" "mem_view (snd (fst ?r)) ''roles/t'' \<noteq> None" by code_simp+
  obtain b' w' where r: "?r = ((b', w'), RespNil)" using v(1) by (metis prod.collapse)
  have "roles_ok (mem_view set_world)" by (simp add: roles_ok_def set_world_def mem_view_def)
  from stored_roles_typed [OF fake.do_history_axioms this r] show ?thesis using r v(2) by auto
qed

section \<open>Writes in the life of the mount\<close>

lemma quiet_around:
  assumes "quiet view alive used K w w'"
    and "\<And>p k. p \<in> {activeTrackingPrefix, spacesTrackingPrefix, sharedSpacesPrefix} \<Longrightarrow> p @ k \<notin> K"
  shows "mount_step env view alive used ((b, w), H) ((b', w'), H)"
proof (rule mount_step.Around)
  show "H \<inter> alive (snd (b, w)) \<subseteq> alive (snd (b', w'))" using quietD(1) [OF assms(1)] by auto
  show "used (snd (b, w)) \<subseteq> used (snd (b', w'))" using quietD(2) [OF assms(1)] by simp
  show "view (snd (b', w')) (p @ k) = view (snd (b, w)) (p @ k)"
    if "p \<in> {activeTrackingPrefix, spacesTrackingPrefix, sharedSpacesPrefix}" for p k
  proof -
    have "p @ k \<noteq> storageKey" "\<not> prefix cachePrefix (p @ k)"
      using that by (auto simp: activeTrackingPrefix_def spacesTrackingPrefix_def sharedSpacesPrefix_def
          storageKey_def cachePrefix_def)
    from quietD(3) [OF assms(1) assms(2) [OF that] this] show ?thesis by simp
  qed
qed

context do_history begin

lemma quiet_role_write:
  assumes "pathRoleWrite env (b, w) n raw = ((b', w'), resp)"
  shows "quiet view alive used {''roles/'' @ n} w w'"
proof (cases rule: role_write_cases [OF assms])
  case 1
  show ?thesis by (rule quiet_mono [OF 1(1) empty_subsetI])
next
  case stored: (2 d typed r w1 e)
  show ?thesis
    by (rule quiet_trans [OF quiet_mono [OF stored(4) empty_subsetI] quiet_put [OF stored(5) [unfolded rolesPrefix_def]]])
qed

lemma quiet_set_write:
  assumes "pathMinterSetWrite env print (b, w) n d = ((b', w'), resp)"
  shows "quiet view alive used {minterSetPrefix @ n} w w'"
proof -
  have probed: "quiet view alive used {minterSetPrefix @ n} w w1"
    if "verifySetCapability env (b, w) s = ((b1, w1), c)" for s b1 w1 c
    by (rule quiet_mono [OF quiet_verify_set [OF that] empty_subsetI])
  have wrote: "quiet view alive used {minterSetPrefix @ n} w w2"
    if "verifySetCapability env (b, w) s = ((b1, w1), c)" "kput (eKV env) w1 (minterSetPrefix @ n) v = (w2, e)"
    for s b1 w1 c v w2 e
    by (rule quiet_trans [OF probed [OF that(1)] quiet_put [OF that(2)]])
  show ?thesis
    using assms
    by (auto simp: pathMinterSetWrite_def Let_def quiet_refl
        split: if_splits option.splits sum.splits prod.splits elim: probed wrote)
qed

lemma quiet_config_write:
  assumes "pathConfigWrite env parse parse_ip (b, w) d = ((b', w'), resp)"
  shows "quiet view alive used {pathConfigKey, configMetaKey} w w'"
proof -
  have "w' = w \<or> (\<exists>v w1 e. kput (eKV env) w pathConfigKey v = (w1, e)
      \<and> (w' = w1 \<or> (\<exists>v e. kput (eKV env) w1 configMetaKey v = (w', e))))"
    using assms
    by (auto simp: pathConfigWrite_def store_config_def Let_def split: if_splits option.splits prod.splits)
  then show ?thesis
  proof (elim disjE exE conjE)
    fix v w1 e
    assume "kput (eKV env) w pathConfigKey v = (w1, e)" "w' = w1"
    then show ?thesis using quiet_put quiet_mono by (metis insert_subset subset_insertI empty_subsetI insertI1)
  next
    fix v w1 e v2 e2
    assume p: "kput (eKV env) w pathConfigKey v = (w1, e)" "kput (eKV env) w1 configMetaKey v2 = (w', e2)"
    show ?thesis
      by (rule quiet_trans [OF quiet_mono [OF quiet_put [OF p(1)]] quiet_mono [OF quiet_put [OF p(2)]]]) simp_all
  qed (simp add: quiet_refl)
qed

lemma quiet_deletes:
  "pathRoleDelete env (b, w) n = ((b', w'), resp) \<Longrightarrow> quiet view alive used {''roles/'' @ n} w w'"
  "pathMinterSetDelete env (b, w) n = ((b', w'), resp) \<Longrightarrow> quiet view alive used {minterSetPrefix @ n} w w'"
  using quiet_del
  by (auto simp: pathRoleDelete_def pathMinterSetDelete_def rolesPrefix_def split: prod.splits option.splits)

end

text \<open>
  C18. Changing what a mount is configured to do takes nothing away from anyone: a role write, a minter-set
  write, either delete and a configuration write, with every capability probe they run and however they
  end, are steps the mount can take around its callers. So the promise of the whole mount, that what is
  held lives and stays tracked, covers runs with these in between.
\<close>
theorem writes_leave_held_alone:
  assumes "do_history env view alive used"
  shows "mount_step env view alive used ((b, w), H) (fst (pathRoleWrite env (b, w) n raw), H)
     \<and> mount_step env view alive used ((b, w), H) (fst (pathRoleDelete env (b, w) n), H)
     \<and> mount_step env view alive used ((b, w), H) (fst (pathMinterSetWrite env print (b, w) n d), H)
     \<and> mount_step env view alive used ((b, w), H) (fst (pathMinterSetDelete env (b, w) n), H)
     \<and> mount_step env view alive used ((b, w), H) (fst (pathConfigWrite env parse parse_ip (b, w) d), H)"
proof -
  note apart = activeTrackingPrefix_def spacesTrackingPrefix_def sharedSpacesPrefix_def minterSetPrefix_def
    pathConfigKey_def configMetaKey_def
  have step: "mount_step env view alive used ((b, w), H) (fst r, H)"
    if q: "\<And>b' w' resp. r = ((b', w'), resp) \<Longrightarrow> quiet view alive used K w w'"
      and K: "\<And>p k. p \<in> {activeTrackingPrefix, spacesTrackingPrefix, sharedSpacesPrefix} \<Longrightarrow> p @ k \<notin> K"
    for r :: "'a st \<times> response" and K
  proof -
    obtain b' w' resp where r: "r = ((b', w'), resp)" by (metis surj_pair)
    from quiet_around [OF q [OF r] K] show ?thesis by (simp add: r)
  qed
  note quiets = do_history.quiet_role_write [OF assms] do_history.quiet_deletes [OF assms]
    do_history.quiet_set_write [OF assms] do_history.quiet_config_write [OF assms]
  show ?thesis
    by (intro conjI)
      ((rule step, erule quiets(1), force simp: apart), (rule step, erule quiets(2), force simp: apart),
       (rule step, erule quiets(4), force simp: apart), (rule step, erule quiets(3), force simp: apart),
       (rule step, erule quiets(5), force simp: apart))
qed

theorem writes_leave_held_alone_witness:
  "memory_step 5 (after_revoke, {(''token'', ''KKKKKKKK'')})
     (fst (pathRoleDelete (fake_env 5) after_revoke ''t''), {(''token'', ''KKKKKKKK'')})
   \<and> mem_view (snd (fst (pathRoleDelete (fake_env 5) after_revoke ''t''))) ''roles/t'' = None"
proof -
  obtain b w where r: "after_revoke = (b, w)" by (cases after_revoke)
  have "mem_view (snd (fst (pathRoleDelete (fake_env 5) after_revoke ''t''))) ''roles/t'' = None" by code_simp
  then show ?thesis using writes_leave_held_alone [OF fake.do_history_axioms] unfolding r by blast
qed

end
