(* ===== verification/OCISlots.thy ===== *)
theory OCISlots
  imports DOBackend
begin

text \<open>
  \<open>plugins/credential-oci\<close>, a plugin of the second kind: it serves no credential of its own to a
  reader but one of a role's slots, auth tokens that are made ahead of time and replaced on a schedule.
  This theory holds the data (\<open>path_roles.go\<close>, \<open>slots.go\<close>), the client interface with its two
  implementations (\<open>oci_client.go\<close>), the mount's state and minter selection (\<open>backend.go\<close>), and the
  operations on slots. What is shared with every plugin is taken from \<open>DORoles\<close> and \<open>DOBackend\<close>: request
  fields, the form of a stored object, the states of a minter set, the shape of a response.
\<close>

section \<open>Decimals, for runs\<close>

text \<open>An equation of \<open>Itoa\<close> that stays in binary arithmetic.\<close>

function int_digits :: "int \<Rightarrow> string" where
  "int_digits i = (if i < 10 then [digit_char (nat i)] else int_digits (i div 10) @ [digit_char (nat (i mod 10))])"
  by auto
termination by (relation "measure nat") auto

declare int_digits.simps [simp del]

lemma int_digits_nat: "0 \<le> i \<Longrightarrow> nat_digits (nat i) = int_digits i"
proof (induction i rule: int_digits.induct)
  case (1 i)
  show ?case
  proof (cases "i < 10")
    case True
    then show ?thesis using "1.prems" by (simp add: int_digits.simps [of i] nat_digits.simps [of "nat i"])
  next
    case False
    then have "nat_digits (nat (i div 10)) = int_digits (i div 10)" using "1.IH" by simp
    then show ?thesis using False
      by (simp add: int_digits.simps [of i] nat_digits.simps [of "nat i"] nat_div_distrib nat_mod_distrib)
  qed
qed

lemma Itoa_code [code]: "Itoa i = (if i < 0 then CHR ''-'' # int_digits (- i) else int_digits i)"
  by (simp add: Itoa_def int_digits_nat)

lemma Itoa_inj: "Itoa m = Itoa n \<Longrightarrow> m = n"
proof -
  have d: "nat_digits k \<noteq> CHR ''-'' # cs" for k cs using nat_digits_clean(1) [of k] by auto
  have i: "nat_digits k = nat_digits j \<Longrightarrow> k = j" for k j using nat_digits_value by (metis option.inject)
  show "Itoa m = Itoa n \<Longrightarrow> m = n"
    using d by (auto simp: Itoa_def split: if_splits dest!: i) (metis d)+
qed

section \<open>Roles\<close>

record oci_role =
  orName :: string
  orUserOCID :: string
  orSlotCount :: int
  orRotationPeriod :: duration
  orDefaultTTL :: duration
  orMaxTTL :: duration
  orMinterSet :: string
  orDisabled :: bool
  orRequireCallerIdentity :: string
  orRequireCallerLineage :: string

definition oci_role_members :: "oci_role \<Rightarrow> (string \<times> json option) list" where
  "oci_role_members r =
     [(''name'', Some (JStr (orName r))), (''user_ocid'', Some (JStr (orUserOCID r))),
      (''slot_count'', Some (JInt (orSlotCount r))), (''rotation_period'', Some (JInt (orRotationPeriod r))),
      (''default_ttl'', Some (JInt (orDefaultTTL r))), (''max_ttl'', Some (JInt (orMaxTTL r))),
      (''minter_set'', Some (JStr (orMinterSet r))),
      (''disabled'', if orDisabled r then Some (JBool True) else None),
      (''require_caller_identity'', omit_str (orRequireCallerIdentity r)),
      (''require_caller_lineage'', omit_str (orRequireCallerLineage r))]"

definition enc_oci_role :: "oci_role \<Rightarrow> blob" where
  "enc_oci_role r = Json (members (oci_role_members r))"

definition dec_oci_role_json :: "json \<Rightarrow> oci_role option" where
  "dec_oci_role_json d =
     (case (opt_field [] dec_str d ''name'', opt_field [] dec_str d ''user_ocid'',
            opt_field 0 dec_int d ''slot_count'', opt_field 0 dec_int d ''rotation_period'',
            opt_field 0 dec_int d ''default_ttl'', opt_field 0 dec_int d ''max_ttl'') of
        (Some n, Some u, Some c, Some p, Some dt, Some mt) \<Rightarrow>
          (case (opt_field [] dec_str d ''minter_set'', opt_field False dec_bool d ''disabled'',
                 opt_field [] dec_str d ''require_caller_identity'',
                 opt_field [] dec_str d ''require_caller_lineage'') of
             (Some ms, Some dis, Some rci, Some rcl) \<Rightarrow>
               Some \<lparr> orName = n, orUserOCID = u, orSlotCount = c, orRotationPeriod = p, orDefaultTTL = dt,
                      orMaxTTL = mt, orMinterSet = ms, orDisabled = dis, orRequireCallerIdentity = rci,
                      orRequireCallerLineage = rcl \<rparr>
           | _ \<Rightarrow> None)
      | _ \<Rightarrow> None)"

definition dec_oci_role :: "blob \<Rightarrow> oci_role option" where
  "dec_oci_role b = dec_body dec_oci_role_json b"

lemma dec_enc_oci_role [simp]: "dec_oci_role (enc_oci_role r) = Some r"
proof -
  have "distinct (map fst (oci_role_members r))" by (simp add: oci_role_members_def)
  note f = field_members [OF this]
  have
    "opt_field [] dec_str (members (oci_role_members r)) ''name'' = Some (orName r)"
    "opt_field [] dec_str (members (oci_role_members r)) ''user_ocid'' = Some (orUserOCID r)"
    "opt_field 0 dec_int (members (oci_role_members r)) ''slot_count'' = Some (orSlotCount r)"
    "opt_field 0 dec_int (members (oci_role_members r)) ''rotation_period'' = Some (orRotationPeriod r)"
    "opt_field 0 dec_int (members (oci_role_members r)) ''default_ttl'' = Some (orDefaultTTL r)"
    "opt_field 0 dec_int (members (oci_role_members r)) ''max_ttl'' = Some (orMaxTTL r)"
    "opt_field [] dec_str (members (oci_role_members r)) ''minter_set'' = Some (orMinterSet r)"
    "opt_field False dec_bool (members (oci_role_members r)) ''disabled'' = Some (orDisabled r)"
    "opt_field [] dec_str (members (oci_role_members r)) ''require_caller_identity'' =
       Some (orRequireCallerIdentity r)"
    "opt_field [] dec_str (members (oci_role_members r)) ''require_caller_lineage'' =
       Some (orRequireCallerLineage r)"
    unfolding opt_field_cases f by (simp_all add: oci_role_members_def omit_str_def)
  then show ?thesis
    by (simp add: enc_oci_role_def dec_oci_role_def dec_body_def dec_object_def dec_oci_role_json_def)
qed

section \<open>Slots\<close>

definition slotActive :: string where "slotActive = ''active''"
definition slotRetiring :: string where "slotRetiring = ''retiring''"
definition slotRetired :: string where "slotRetired = ''retired''"
definition slotEmpty :: string where "slotEmpty = ''empty''"

record slot =
  slTokenID :: string
  slTokenValue :: string
  slRotatedAt :: time
  slNextRotationAt :: time
  slState :: string
  slSlotIndex :: int
  slDescription :: string
  slMinterSet :: string
  slMinterID :: string

definition slot_members :: "slot \<Rightarrow> (string \<times> json option) list" where
  "slot_members s =
     [(''token_id'', Some (JStr (slTokenID s))), (''token_value'', Some (JStr (slTokenValue s))),
      (''rotated_at'', Some (JTime (slRotatedAt s))), (''next_rotation_at'', Some (JTime (slNextRotationAt s))),
      (''state'', Some (JStr (slState s))), (''slot_index'', Some (JInt (slSlotIndex s))),
      (''description'', Some (JStr (slDescription s))), (''minter_set'', Some (JStr (slMinterSet s))),
      (''minter_id'', Some (JStr (slMinterID s)))]"

definition enc_slot :: "slot \<Rightarrow> blob" where
  "enc_slot s = Json (members (slot_members s))"

definition dec_slot_json :: "json \<Rightarrow> slot option" where
  "dec_slot_json d =
     (case (opt_field [] dec_str d ''token_id'', opt_field [] dec_str d ''token_value'',
            opt_field 0 dec_time d ''rotated_at'', opt_field 0 dec_time d ''next_rotation_at'',
            opt_field [] dec_str d ''state'', opt_field 0 dec_int d ''slot_index'') of
        (Some i, Some v, Some ra, Some nr, Some st, Some ix) \<Rightarrow>
          (case (opt_field [] dec_str d ''description'', opt_field [] dec_str d ''minter_set'',
                 opt_field [] dec_str d ''minter_id'') of
             (Some ds, Some ms, Some mi) \<Rightarrow>
               Some \<lparr> slTokenID = i, slTokenValue = v, slRotatedAt = ra, slNextRotationAt = nr, slState = st,
                      slSlotIndex = ix, slDescription = ds, slMinterSet = ms, slMinterID = mi \<rparr>
           | _ \<Rightarrow> None)
      | _ \<Rightarrow> None)"

definition dec_slot :: "blob \<Rightarrow> slot option" where
  "dec_slot b = dec_body dec_slot_json b"

lemma dec_enc_slot [simp]: "dec_slot (enc_slot s) = Some s"
proof -
  have "distinct (map fst (slot_members s))" by (simp add: slot_members_def)
  note f = field_members [OF this]
  have
    "opt_field [] dec_str (members (slot_members s)) ''token_id'' = Some (slTokenID s)"
    "opt_field [] dec_str (members (slot_members s)) ''token_value'' = Some (slTokenValue s)"
    "opt_field 0 dec_time (members (slot_members s)) ''rotated_at'' = Some (slRotatedAt s)"
    "opt_field 0 dec_time (members (slot_members s)) ''next_rotation_at'' = Some (slNextRotationAt s)"
    "opt_field [] dec_str (members (slot_members s)) ''state'' = Some (slState s)"
    "opt_field 0 dec_int (members (slot_members s)) ''slot_index'' = Some (slSlotIndex s)"
    "opt_field [] dec_str (members (slot_members s)) ''description'' = Some (slDescription s)"
    "opt_field [] dec_str (members (slot_members s)) ''minter_set'' = Some (slMinterSet s)"
    "opt_field [] dec_str (members (slot_members s)) ''minter_id'' = Some (slMinterID s)"
    unfolding opt_field_cases f by (simp_all add: slot_members_def dec_time_def)
  then show ?thesis
    by (simp add: enc_slot_def dec_slot_def dec_body_def dec_object_def dec_slot_json_def)
qed

section \<open>The client\<close>

record auth_token_info =
  atID :: string
  atDescription :: string
  atLifecycleState :: string

text \<open>
  \<open>OCIIAMClient\<close>: what the plugin asks of the cloud. A user comes first, then what the call is about; a
  creation answers with the token's value and its id.
\<close>

record 'w iam =
  CreateAuthToken :: "string \<Rightarrow> string \<Rightarrow> 'w \<Rightarrow> 'w \<times> (err + string \<times> string)"
  DeleteAuthToken :: "string \<Rightarrow> string \<Rightarrow> 'w \<Rightarrow> 'w \<times> err option"
  ListAuthTokens :: "string \<Rightarrow> 'w \<Rightarrow> 'w \<times> (err + auth_token_info list)"
  GetUser :: "string \<Rightarrow> 'w \<Rightarrow> 'w \<times> err option"

text \<open>The client of the build as it is: every call is refused, because requests are not signed yet.\<close>

definition signing_error :: err where
  "signing_error = NewError ErrUnsupported 501 ''OCI request signing not implemented in this build''"

definition signingOCIClient :: "string \<Rightarrow> string \<Rightarrow> 'w iam" where
  "signingOCIClient token region =
     \<lparr> CreateAuthToken = (\<lambda>_ _ w. (w, Inl signing_error)), DeleteAuthToken = (\<lambda>_ _ w. (w, Some signing_error)),
       ListAuthTokens = (\<lambda>_ w. (w, Inl signing_error)), GetUser = (\<lambda>_ w. (w, Some signing_error)) \<rparr>"

text \<open>
  The in-memory client that the tests of the plugin put in its place. Its state is shared by every
  client, so it is a part of the world that \<open>get\<close> reads and \<open>put\<close> replaces.
\<close>

record fake_oci =
  fkTokens :: "(string \<times> (string \<times> auth_token_info) list) list"
  fkNextID :: int
  fkFailNext :: "err option"

definition newFakeOCIClient :: fake_oci where
  "newFakeOCIClient = \<lparr> fkTokens = [], fkNextID = 1000, fkFailNext = None \<rparr>"

definition fake_ocid :: "int \<Rightarrow> string" where
  "fake_ocid n = ''ocid1.credential.oc1..fake'' @ Itoa n"

definition user_tokens :: "fake_oci \<Rightarrow> string \<Rightarrow> (string \<times> auth_token_info) list" where
  "user_tokens f u = (case map_of (fkTokens f) u of None \<Rightarrow> [] | Some ts \<Rightarrow> ts)"

definition fake_create :: "string \<Rightarrow> string \<Rightarrow> fake_oci \<Rightarrow> fake_oci \<times> (err + string \<times> string)" where
  "fake_create u desc f =
     (case fkFailNext f of
        Some e \<Rightarrow> (f \<lparr> fkFailNext := None \<rparr>, Inl e)
      | None \<Rightarrow>
          (let n = fkNextID f + 1; i = fake_ocid n;
               t = \<lparr> atID = i, atDescription = desc, atLifecycleState = ''ACTIVE'' \<rparr>
           in (f \<lparr> fkNextID := n, fkTokens := AList.update u (AList.update i t (user_tokens f u)) (fkTokens f) \<rparr>,
               Inr (''faketoken_'' @ Itoa n, i))))"

definition fake_delete :: "string \<Rightarrow> string \<Rightarrow> fake_oci \<Rightarrow> fake_oci \<times> err option" where
  "fake_delete u i f =
     (case fkFailNext f of
        Some e \<Rightarrow> (f \<lparr> fkFailNext := None \<rparr>, Some e)
      | None \<Rightarrow>
          (case map_of (fkTokens f) u of
             None \<Rightarrow> (f, None)
           | Some ts \<Rightarrow> (f \<lparr> fkTokens := AList.update u (AList.delete i ts) (fkTokens f) \<rparr>, None)))"

definition fake_list :: "string \<Rightarrow> fake_oci \<Rightarrow> fake_oci \<times> (err + auth_token_info list)" where
  "fake_list u f =
     (case fkFailNext f of
        Some e \<Rightarrow> (f \<lparr> fkFailNext := None \<rparr>, Inl e)
      | None \<Rightarrow> (f, Inr (map snd (user_tokens f u))))"

definition fake_get_user :: "string \<Rightarrow> fake_oci \<Rightarrow> fake_oci \<times> err option" where
  "fake_get_user u f = (f \<lparr> fkFailNext := None \<rparr>, fkFailNext f)"

definition on_part :: "('w \<Rightarrow> 'f) \<Rightarrow> ('f \<Rightarrow> 'w \<Rightarrow> 'w) \<Rightarrow> ('f \<Rightarrow> 'f \<times> 'r) \<Rightarrow> 'w \<Rightarrow> 'w \<times> 'r" where
  "on_part get put f w = (case f (get w) of (s, r) \<Rightarrow> (put s w, r))"

definition fakeOCIClient :: "('w \<Rightarrow> fake_oci) \<Rightarrow> (fake_oci \<Rightarrow> 'w \<Rightarrow> 'w) \<Rightarrow> 'w iam" where
  "fakeOCIClient get put =
     \<lparr> CreateAuthToken = (\<lambda>u desc. on_part get put (fake_create u desc)),
       DeleteAuthToken = (\<lambda>u i. on_part get put (fake_delete u i)),
       ListAuthTokens = (\<lambda>u. on_part get put (fake_list u)),
       GetUser = (\<lambda>u. on_part get put (fake_get_user u)) \<rparr>"

section \<open>The mount\<close>

record oci_backend =
  obInstanceID :: string
  obConfig :: "plugin_config option"
  obSets :: "(string \<times> set_states) list"
  obRegion :: string

text \<open>
  What the mount gets from outside; a client factory is what a test registers. \<open>oeOrder\<close> is the order in
  which a \<open>range\<close> over a Go map visits the keys: any order, another one at every call.
\<close>

record 'w oci_env =
  oeKV :: "'w kv"
  oeFactory :: "(string \<Rightarrow> 'w iam) option"
  oeNow :: "'w \<Rightarrow> time"
  oeOrder :: "'w \<Rightarrow> string list \<Rightarrow> string list"
  oeJitter :: "'w \<Rightarrow> rat"
  oeDigest :: "string \<Rightarrow> string"
  oeMarshal :: "json \<Rightarrow> string"
  oeRandomID :: "'w \<Rightarrow> string option"
  oeValidate :: "request_fields \<Rightarrow> err option"

type_synonym 'w ost = "oci_backend \<times> 'w"

definition newOCIClient :: "'w oci_env \<Rightarrow> oci_backend \<Rightarrow> string \<Rightarrow> 'w iam" where
  "newOCIClient env b token =
     (case oeFactory env of Some factory \<Rightarrow> factory token | None \<Rightarrow> signingOCIClient token (obRegion b))"

definition oci_ownerInstanceID :: "'w oci_env \<Rightarrow> 'w ost \<Rightarrow> 'w ost \<times> (err + string)" where
  "oci_ownerInstanceID env bw =
     (case bw of
        (b, w) \<Rightarrow>
          if obInstanceID b \<noteq> [] then ((b, w), Inr (obInstanceID b))
          else case InstanceID (oeKV env) (oeMarshal env) (oeRandomID env w) w of
            (w', Inl e) \<Rightarrow> ((b, w'), Inl e)
          | (w', Inr i) \<Rightarrow> ((b \<lparr> obInstanceID := i \<rparr>, w'), Inr i))"

definition usable :: "time \<Rightarrow> minter_state \<Rightarrow> bool" where
  "usable now ms \<longleftrightarrow> \<not> Retired (msMinter ms) \<and> Selectable now (msSM ms)"

text \<open>The entries of a map in the order of a visit; an order that leaves a key out or repeats one is no visit.\<close>

definition map_order :: "('k list \<Rightarrow> 'k list) \<Rightarrow> ('k \<times> 'v) list \<Rightarrow> ('k \<times> 'v) list" where
  "map_order ord kvs =
     (let ks = ord (map fst kvs)
      in if distinct ks \<and> set ks = set (map fst kvs) then map (\<lambda>k. (k, the (map_of kvs k))) ks else kvs)"

lemma map_order_set:
  assumes "(k, v) \<in> set (map_order ord kvs)"
  shows "(k, v) \<in> set kvs"
proof (cases "distinct (ord (map fst kvs)) \<and> set (ord (map fst kvs)) = set (map fst kvs)")
  case True
  then have "k \<in> fst ` set kvs" "v = the (map_of kvs k)" using assms by (auto simp: map_order_def Let_def)
  then show ?thesis using map_of_SomeD [of kvs k v] map_of_eq_None_iff [of kvs k] by (cases "map_of kvs k") auto
next
  case False
  then show ?thesis using assms by (auto simp: map_order_def Let_def split: if_splits)
qed

lemma map_order_self [simp]: "distinct (map fst kvs) \<Longrightarrow> map_order (\<lambda>ks. ks) kvs = kvs"
  by (auto simp: map_order_def Let_def intro!: map_idI)

definition selectMinterForSet :: "'w oci_env \<Rightarrow> oci_backend \<Rightarrow> 'w \<Rightarrow> string \<Rightarrow> err + string \<times> 'w iam" where
  "selectMinterForSet env b w setName =
     (let now = oeNow env w
      in case map_of (obSets b) setName of
           None \<Rightarrow> Inl (NewError ErrConfigInvalid 400 ''minter set is not loaded'')
         | Some states \<Rightarrow>
             (case find (\<lambda>(_, ms). usable now ms) (map_order (oeOrder env w) states) of
                Some (i, ms) \<Rightarrow> Inr (i, newOCIClient env b (Token (msMinter ms)))
              | None \<Rightarrow> Inl (NewError (fst (UnavailableError (machinesOf states) now)) 503 ''no minter is available'')))"

definition getMinterClient :: "'w oci_env \<Rightarrow> oci_backend \<Rightarrow> string \<Rightarrow> string \<Rightarrow> 'w iam option" where
  "getMinterClient env b setName minterID =
     (case map_of (obSets b) setName of
        None \<Rightarrow> None
      | Some states \<Rightarrow>
          map_option (\<lambda>ms. newOCIClient env b (Token (msMinter ms))) (map_of states minterID))"

definition oci_anyHealthyMinter :: "'w oci_env \<Rightarrow> oci_backend \<Rightarrow> 'w \<Rightarrow> 'w iam option" where
  "oci_anyHealthyMinter env b w =
     map_option (\<lambda>(_, ms). newOCIClient env b (Token (msMinter ms)))
       (find (\<lambda>(_, ms). usable (oeNow env w) ms)
         (concat (map (\<lambda>(_, states). map_order (oeOrder env w) states) (map_order (oeOrder env w) (obSets b)))))"

definition clientForSlot :: "'w oci_env \<Rightarrow> oci_backend \<Rightarrow> 'w \<Rightarrow> slot \<Rightarrow> string \<Rightarrow> 'w iam option" where
  "clientForSlot env b w s roleSet =
     (case (if slMinterSet s \<noteq> [] \<and> slMinterID s \<noteq> []
            then getMinterClient env b (slMinterSet s) (slMinterID s) else None) of
        Some c \<Rightarrow> Some c
      | None \<Rightarrow> (case selectMinterForSet env b w roleSet of Inl e \<Rightarrow> None | Inr (_, c) \<Rightarrow> Some c))"

section \<open>Slots in storage\<close>

definition storageKeyForSlot :: "string \<Rightarrow> nat \<Rightarrow> string" where
  "storageKeyForSlot rName i = ''slots/'' @ rName @ ''/'' @ nat_digits i"

definition loadSlot :: "'w kv \<Rightarrow> 'w \<Rightarrow> string \<Rightarrow> nat \<Rightarrow> err + slot option" where
  "loadSlot kv w rName i =
     (case kget kv w (storageKeyForSlot rName i) of
        Inl e \<Rightarrow> Inl e
      | Inr None \<Rightarrow> Inr None
      | Inr (Some v) \<Rightarrow>
          (case dec_slot v of None \<Rightarrow> Inl (Opaque ''decoding a slot'') | Some s \<Rightarrow> Inr (Some s)))"

text \<open>A slot is stored under the index it carries.\<close>

definition saveSlot :: "'w kv \<Rightarrow> 'w \<Rightarrow> string \<Rightarrow> slot \<Rightarrow> 'w \<times> err option" where
  "saveSlot kv w rName s = kput kv w (storageKeyForSlot rName (nat (slSlotIndex s))) (enc_slot s)"

fun load_slots :: "'w kv \<Rightarrow> 'w \<Rightarrow> string \<Rightarrow> nat list \<Rightarrow> err + slot list" where
  "load_slots kv w rName [] = Inr []"
| "load_slots kv w rName (i # is) =
     (case loadSlot kv w rName i of
        Inl e \<Rightarrow> Inl e
      | Inr None \<Rightarrow> load_slots kv w rName is
      | Inr (Some s) \<Rightarrow>
          (case load_slots kv w rName is of Inl e \<Rightarrow> Inl e | Inr ss \<Rightarrow> Inr (s # ss)))"

definition loadAllSlots :: "'w kv \<Rightarrow> 'w \<Rightarrow> string \<Rightarrow> int \<Rightarrow> err + slot list" where
  "loadAllSlots kv w rName slotCount = load_slots kv w rName [0..<nat slotCount]"

fun delete_slots :: "'w kv \<Rightarrow> 'w \<Rightarrow> string \<Rightarrow> nat list \<Rightarrow> 'w \<times> err option" where
  "delete_slots kv w rName [] = (w, None)"
| "delete_slots kv w rName (i # is) =
     (case kdel kv w (storageKeyForSlot rName i) of
        (w, Some e) \<Rightarrow> (w, Some e)
      | (w, None) \<Rightarrow> delete_slots kv w rName is)"

definition deleteSlots :: "'w kv \<Rightarrow> 'w \<Rightarrow> string \<Rightarrow> int \<Rightarrow> 'w \<times> err option" where
  "deleteSlots kv w rName slotCount = delete_slots kv w rName [0..<nat slotCount]"

text \<open>The freshest active slot that is not overdue; of two that are equally fresh, the first.\<close>

fun freshest :: "time \<Rightarrow> slot option \<Rightarrow> slot list \<Rightarrow> slot option" where
  "freshest now best [] = best"
| "freshest now best (s # ss) =
     (if slState s \<noteq> slotActive then freshest now best ss
      else if \<not> now < slNextRotationAt s then freshest now best ss
      else case best of
        None \<Rightarrow> freshest now (Some s) ss
      | Some b \<Rightarrow> freshest now (Some (if slRotatedAt b < slRotatedAt s then s else b)) ss)"

definition freshestSlot :: "slot list \<Rightarrow> time \<Rightarrow> slot option" where
  "freshestSlot ss now = freshest now None ss"

section \<open>Making and replacing slots\<close>

definition slot_description :: "string \<Rightarrow> oci_role \<Rightarrow> nat \<Rightarrow> string" where
  "slot_description instanceID r i = Prefix instanceID @ orName r @ ''-slot-'' @ nat_digits i"

definition rotation_interval :: "oci_role \<Rightarrow> duration" where
  "rotation_interval r = go_div (orRotationPeriod r) (orSlotCount r)"

definition new_slot ::
  "string \<Rightarrow> oci_role \<Rightarrow> string \<Rightarrow> nat \<Rightarrow> string \<times> string \<Rightarrow> time \<Rightarrow> time \<Rightarrow> slot" where
  "new_slot instanceID r minterID i tk now next_at =
     \<lparr> slTokenID = snd tk, slTokenValue = fst tk, slRotatedAt = now, slNextRotationAt = next_at,
       slState = slotActive, slSlotIndex = int i, slDescription = slot_description instanceID r i,
       slMinterSet = orMinterSet r, slMinterID = minterID \<rparr>"

text \<open>Every slot of a new role is made at once; the next rotations are staggered.\<close>

fun init_slots ::
  "'w oci_env \<Rightarrow> string \<Rightarrow> oci_role \<Rightarrow> string \<Rightarrow> 'w iam \<Rightarrow> time \<Rightarrow> nat list \<Rightarrow> 'w \<Rightarrow> 'w \<times> err option" where
  "init_slots env instanceID r minterID client now [] w = (w, None)"
| "init_slots env instanceID r minterID client now (i # is) w =
     (case CreateAuthToken client (orUserOCID r) (slot_description instanceID r i) w of
        (w, Inl e) \<Rightarrow> (w, Some (Wrap (''failed to create auth token for slot '' @ nat_digits i @ '': '') e))
      | (w, Inr tk) \<Rightarrow>
          (case saveSlot (oeKV env) w (orName r)
                  (new_slot instanceID r minterID i tk now (now + rotation_interval r * (int i + 1))) of
             (w, Some e) \<Rightarrow> (w, Some (Wrap (''failed to save slot '' @ nat_digits i @ '': '') e))
           | (w, None) \<Rightarrow> init_slots env instanceID r minterID client now is w))"

definition initializeSlots :: "'w oci_env \<Rightarrow> 'w ost \<Rightarrow> oci_role \<Rightarrow> 'w ost \<times> err option" where
  "initializeSlots env bw r =
     (case oci_ownerInstanceID env bw of
        (bw, Inl e) \<Rightarrow> (bw, Some e)
      | ((b, w), Inr instanceID) \<Rightarrow>
          (case selectMinterForSet env b w (orMinterSet r) of
             Inl e \<Rightarrow> ((b, w), Some e)
           | Inr (minterID, client) \<Rightarrow>
               (case init_slots env instanceID r minterID client (oeNow env w) [0..<nat (orSlotCount r)] w of
                  (w, e) \<Rightarrow> ((b, w), e))))"

text \<open>What is left of a rotation once its replacement is stored: the old token is deleted, best effort.\<close>

definition drop_old :: "'w oci_env \<Rightarrow> oci_backend \<Rightarrow> oci_role \<Rightarrow> slot \<Rightarrow> 'w \<Rightarrow> 'w" where
  "drop_old env b r existing w =
     (if slTokenID existing = [] then w
      else case clientForSlot env b w existing (orMinterSet r) of
        None \<Rightarrow> w
      | Some oldClient \<Rightarrow> fst (DeleteAuthToken oldClient (orUserOCID r) (slTokenID existing) w))"

definition rotateSlot :: "'w oci_env \<Rightarrow> 'w ost \<Rightarrow> oci_role \<Rightarrow> nat \<Rightarrow> 'w ost \<times> err option" where
  "rotateSlot env bw r i =
     (case oci_ownerInstanceID env bw of
        (bw, Inl e) \<Rightarrow> (bw, Some e)
      | ((b, w), Inr instanceID) \<Rightarrow>
          (case loadSlot (oeKV env) w (orName r) i of
             Inl e \<Rightarrow> ((b, w), Some (Wrap (''failed to load slot '' @ nat_digits i @ '': '') e))
           | Inr None \<Rightarrow> ((b, w), Some (Opaque (''slot '' @ nat_digits i @ '' does not exist'')))
           | Inr (Some existing) \<Rightarrow>
               (case selectMinterForSet env b w (orMinterSet r) of
                  Inl e \<Rightarrow> ((b, w), Some e)
                | Inr (minterID, client) \<Rightarrow>
                    (case CreateAuthToken client (orUserOCID r) (slot_description instanceID r i) w of
                       (w, Inl e) \<Rightarrow>
                         ((b, w), Some (Wrap (''failed to create replacement auth token for slot '' @ nat_digits i @ '': '') e))
                     | (w, Inr tk) \<Rightarrow>
                         (let now = oeNow env w
                          in case saveSlot (oeKV env) w (orName r)
                                    (new_slot instanceID r minterID i tk now (now + rotation_interval r)) of
                               (w, Some e) \<Rightarrow>
                                 ((b, fst (DeleteAuthToken client (orUserOCID r) (snd tk) w)),
                                  Some (Wrap (''failed to save rotated slot '' @ nat_digits i @ '': '') e))
                             | (w, None) \<Rightarrow> ((b, drop_old env b r existing w), None))))))"

end
