(* ===== verification/OCIHandlers.thy ===== *)
theory OCIHandlers
  imports OCISlots
begin

text \<open>
  \<open>plugins/credential-oci\<close>, the handlers and the workers: roles (\<open>path_roles.go\<close>), minter sets
  (\<open>path_minter_sets.go\<close>), the capability gate (\<open>capability.go\<close>), the credential read
  (\<open>path_creds.go\<close>), the operator's rotation (\<open>path_rotate_slot.go\<close>), reclamation
  (\<open>path_reconcile.go\<close>), the rotation worker and the health check (\<open>workers.go\<close>, \<open>health_check.go\<close>).
  A rotation and a reconcile pass each hold one lock from end to end, so each is one function.
\<close>

section \<open>The capability gate\<close>

text \<open>No check can be made: each answers that it is unsupported, and is counted as skipped.\<close>

definition oci_states :: "oci_backend \<Rightarrow> states" where
  "oci_states b i =
     (case find (\<lambda>(_, states). map_of states i \<noteq> None) (obSets b) of
        None \<Rightarrow> None
      | Some (_, states) \<Rightarrow> map_option msSM (map_of states i))"

definition oci_update_machine :: "oci_backend \<Rightarrow> string \<Rightarrow> string \<Rightarrow> (machine \<Rightarrow> machine) \<Rightarrow> oci_backend" where
  "oci_update_machine b setName i f =
     b \<lparr> obSets :=
           map (\<lambda>(s, states). (s, if s = setName
                 then map (\<lambda>(j, ms). (j, if j = i then ms \<lparr> msSM := f (msSM ms) \<rparr> else ms)) states
                 else states)) (obSets b) \<rparr>"

definition oci_put_state :: "string \<Rightarrow> machine \<Rightarrow> oci_backend \<Rightarrow> oci_backend" where
  "oci_put_state i sm b =
     (case find (\<lambda>(_, states). map_of states i \<noteq> None) (obSets b) of
        None \<Rightarrow> b
      | Some (s, _) \<Rightarrow> oci_update_machine b s i (\<lambda>_. sm))"

definition oci_with_states :: "oci_backend \<Rightarrow> states \<Rightarrow> oci_backend" where
  "oci_with_states b sms =
     fold (\<lambda>i b. case sms i of None \<Rightarrow> b | Some sm \<Rightarrow> oci_put_state i sm b)
       (concat (map (\<lambda>(_, states). map fst states) (obSets b))) b"

definition oci_gate :: "'w oci_env \<Rightarrow> oci_backend \<Rightarrow> 'w gate" where
  "oci_gate env b =
     \<lparr> gEnabled = CapabilityVerificationEnabled (obConfig b),
       gLimiter = Some \<lparr> lNow = oeNow env, lJitter = oeJitter env \<rparr>,
       gCacheTTL = CapabilityCacheDuration (obConfig b), gNow = oeNow env, gDigest = oeDigest env \<rparr>"

definition oci_capabilityChecks :: "'w oci_env \<Rightarrow> 'w checks_func" where
  "oci_capabilityChecks env s roleJSON =
     (case dec_oci_role roleJSON of
        None \<Rightarrow> []
      | Some r \<Rightarrow>
          ChecksPerMinter (oeMarshal env) s (orName r) [] (\<lambda>_ w. (w, StatusNone, Some ErrProbeUnsupported)))"

definition oci_verifySetCapability :: "'w oci_env \<Rightarrow> 'w ost \<Rightarrow> minter_set \<Rightarrow> 'w ost \<times> code option" where
  "oci_verifySetCapability env bw s =
     (case oci_ownerInstanceID env bw of
        (bw, Inl e) \<Rightarrow> (bw, Some ErrInternal)
      | ((b, w), Inr _) \<Rightarrow>
          (case VerifySet (oci_gate env b) (oeKV env) w (oci_states b) s (oci_capabilityChecks env) of
             ((w, sms), c) \<Rightarrow> ((oci_with_states b sms, w), c)))"

definition oci_verifyRoleCapability :: "'w oci_env \<Rightarrow> 'w ost \<Rightarrow> oci_role \<Rightarrow> 'w ost \<times> code option" where
  "oci_verifyRoleCapability env bw r =
     (case oci_ownerInstanceID env bw of
        (bw, Inl e) \<Rightarrow> (bw, Some ErrInternal)
      | ((b, w), Inr _) \<Rightarrow>
          (case VerifyRole (oci_gate env b) (oeKV env) w (oci_states b) (orMinterSet r) (enc_oci_role r)
                  (oci_capabilityChecks env) of
             ((w, sms), c) \<Rightarrow> ((oci_with_states b sms, w), c)))"

section \<open>Minter sets\<close>

definition oci_loadMinterSet :: "oci_backend \<Rightarrow> minter_set \<Rightarrow> oci_backend" where
  "oci_loadMinterSet b s =
     (let previous = (case map_of (obSets b) (Name s) of None \<Rightarrow> [] | Some states \<Rightarrow> states);
          fresh = NewStateMachine \<lparr> AuthFailThreshold = authFailThreshold,
                                    HealthCheckInterval = healthCheckInterval \<rparr>;
          states = fold (\<lambda>m. AList.update (ID m)
            \<lparr> msMinter = m,
              msSM = (case map_of previous (ID m) of Some old \<Rightarrow> msSM old | None \<Rightarrow> fresh) \<rparr>) (Minters s) []
      in b \<lparr> obSets := AList.update (Name s) states (obSets b) \<rparr>)"

definition oci_pathMinterSetWrite ::
  "'w oci_env \<Rightarrow> (json \<Rightarrow> string) \<Rightarrow> 'w ost \<Rightarrow> string \<Rightarrow> request_fields \<Rightarrow> 'w ost \<times> response" where
  "oci_pathMinterSetWrite env print bw name d =
     (if \<not> ValidateSetName name then (bw, RespErr ErrConfigInvalid)
      else case parseMinters print (oeNow env (snd bw)) d of
        None \<Rightarrow> (bw, RespErr ErrConfigInvalid)
      | Some minters \<Rightarrow>
          if \<not> ValidateMinterIDs minters then (bw, RespErr ErrConfigInvalid)
          else case LoadMinterSet (oeKV env) (snd bw) name of
            Inl e \<Rightarrow> (bw, RespErr ErrInternal)
          | Inr stored \<Rightarrow>
              (let minters = PreserveLifecycle minters stored (oeNow env (snd bw))
               in if ValidateMinterSet minters \<noteq> None then (bw, RespErr ErrConfigInvalid)
                  else
                    let s = \<lparr> Schema = SchemaVersion, Name = name, Minters = minters \<rparr>
                    in case oci_verifySetCapability env bw s of
                         (bw, Some c) \<Rightarrow> (bw, RespErr c)
                       | ((b, w), None) \<Rightarrow>
                           (case kput (oeKV env) w (minterSetPrefix @ name) (enc_minter_set s) of
                              (w, Some e) \<Rightarrow> ((b, w), RespErr ErrInternal)
                            | (w, None) \<Rightarrow> ((oci_loadMinterSet b s, w), RespNil))))"

definition oci_pathMinterSetDelete :: "'w oci_env \<Rightarrow> 'w ost \<Rightarrow> string \<Rightarrow> 'w ost \<times> response" where
  "oci_pathMinterSetDelete env bw name =
     (case bw of
        (b, w) \<Rightarrow>
          (case kdel (oeKV env) w (minterSetPrefix @ name) of
             (w, Some e) \<Rightarrow> ((b, w), RespErr ErrInternal)
           | (w, None) \<Rightarrow> ((b \<lparr> obSets := AList.delete name (obSets b) \<rparr>, w), RespNil)))"

text \<open>Minters cannot rotate themselves on this cloud.\<close>

definition oci_pathMinterSetRotate :: "'w ost \<Rightarrow> 'w ost \<times> response" where
  "oci_pathMinterSetRotate bw = (bw, RespErr ErrUnsupported)"

section \<open>Roles\<close>

definition oci_role_schema :: "string set" where
  "oci_role_schema =
     {''name'', ''user_ocid'', ''slot_count'', ''rotation_period'', ''default_ttl'', ''max_ttl'', ''minter_set'',
      ''disabled'', ''require_caller_identity'', ''require_caller_lineage''}"

definition oci_roleData :: "oci_role \<Rightarrow> (string \<times> json) list" where
  "oci_roleData r =
     [(''name'', JStr (orName r)), (''user_ocid'', JStr (orUserOCID r)), (''slot_count'', JInt (orSlotCount r)),
      (''rotation_period'', JInt (seconds_of (orRotationPeriod r))),
      (''default_ttl'', JInt (seconds_of (orDefaultTTL r))), (''max_ttl'', JInt (seconds_of (orMaxTTL r))),
      (''minter_set'', JStr (orMinterSet r)), (''disabled'', JBool (orDisabled r)),
      (''require_caller_identity'', JStr (orRequireCallerIdentity r)),
      (''require_caller_lineage'', JStr (orRequireCallerLineage r))]"

definition oci_storedRoleData :: "blob \<Rightarrow> request_fields option" where
  "oci_storedRoleData b = map_option (\<lambda>r. map_of (oci_roleData r)) (dec_oci_role b)"

definition maxSlotCount :: int where "maxSlotCount = 2"

definition role_of_fields :: "string \<Rightarrow> request_fields \<Rightarrow> oci_role" where
  "role_of_fields name d =
     \<lparr> orName = name, orUserOCID = get_str d ''user_ocid'' [], orSlotCount = get_int d ''slot_count'' 2,
       orRotationPeriod = of_seconds (get_int d ''rotation_period'' 604800),
       orDefaultTTL = of_seconds (get_int d ''default_ttl'' 302400),
       orMaxTTL = of_seconds (get_int d ''max_ttl'' 604800), orMinterSet = get_str d ''minter_set'' [],
       orDisabled = get_bool d ''disabled'',
       orRequireCallerIdentity = get_str d ''require_caller_identity'' [],
       orRequireCallerLineage = get_str d ''require_caller_lineage'' [] \<rparr>"

definition validateRoleWriteParams :: "'w kv \<Rightarrow> 'w \<Rightarrow> oci_role \<Rightarrow> code option" where
  "validateRoleWriteParams kv w p =
     (if orUserOCID p = [] then Some ErrConfigInvalid
      else if orMinterSet p = [] then Some ErrConfigInvalid
      else case kget kv w (minterSetPrefix @ orMinterSet p) of
        Inl e \<Rightarrow> Some ErrInternal
      | Inr None \<Rightarrow> Some ErrConfigInvalid
      | Inr (Some _) \<Rightarrow>
          if orSlotCount p < 1 \<or> orSlotCount p > maxSlotCount then Some ErrConfigInvalid
          else if orRotationPeriod p < hour then Some ErrConfigInvalid
          else if orDefaultTTL p > rotation_interval p then Some ErrConfigInvalid
          else None)"

text \<open>
  A failure to look for slots is the one answer that is a bare Go error, here the left of a sum. A role
  whose slots cannot be made is taken away again.
\<close>

definition maybeInitializeSlots :: "'w oci_env \<Rightarrow> 'w ost \<Rightarrow> oci_role \<Rightarrow> 'w ost \<times> (err + response)" where
  "maybeInitializeSlots env bw r =
     (case bw of
        (b, w) \<Rightarrow>
          (case selectMinterForSet env b w (orMinterSet r) of
             Inl e \<Rightarrow> (bw, Inr RespNil)
           | Inr _ \<Rightarrow>
               (case loadAllSlots (oeKV env) w (orName r) (orSlotCount r) of
                  Inl e \<Rightarrow> (bw, Inl (Wrap ''failed to check existing slots: '' e))
                | Inr existing \<Rightarrow>
                    if existing \<noteq> [] then (bw, Inr RespNil)
                    else case initializeSlots env bw r of
                      (bw, None) \<Rightarrow> (bw, Inr RespNil)
                    | ((b, w), Some e) \<Rightarrow>
                        ((b, fst (kdel (oeKV env) w (rolesPrefix @ orName r))),
                         Inr (RespErr (case leaf e of PluginError (Some c) _ _ \<Rightarrow> c
                                       | _ \<Rightarrow> Classify StatusNone (Some e)))))))"

definition oci_pathRoleWrite ::
  "'w oci_env \<Rightarrow> 'w ost \<Rightarrow> string \<Rightarrow> request_fields \<Rightarrow> 'w ost \<times> (err + response)" where
  "oci_pathRoleWrite env bw name raw =
     (case PrefillRoleWrite (oeKV env) (snd bw) (rolesPrefix @ name) oci_role_schema oci_storedRoleData
             (oeValidate env) raw of
        (d, Some e) \<Rightarrow> (bw, Inr (RespErr ErrInternal))
      | (d, None) \<Rightarrow>
          (let r = role_of_fields name d
           in case validateRoleWriteParams (oeKV env) (snd bw) r of
                Some c \<Rightarrow> (bw, Inr (RespErr c))
              | None \<Rightarrow>
                  if \<not> ValidateRole \<lparr> roleName = name, roleCloud = ''oci'', DefaultTTL = orDefaultTTL r,
                                       MaxTTL = orMaxTTL r \<rparr>
                  then (bw, Inr (RespErr ErrConfigInvalid))
                  else if ParseIdentityRequirement (orRequireCallerIdentity r) = None
                  then (bw, Inr (RespErr ErrConfigInvalid))
                  else if ParseLineageRequirement (orRequireCallerLineage r) = None
                  then (bw, Inr (RespErr ErrConfigInvalid))
                  else case oci_verifyRoleCapability env bw r of
                    (bw, Some c) \<Rightarrow> (bw, Inr (RespErr c))
                  | ((b, w), None) \<Rightarrow>
                      (case kput (oeKV env) w (rolesPrefix @ name) (enc_oci_role r) of
                         (w, Some e) \<Rightarrow> ((b, w), Inr (RespErr ErrInternal))
                       | (w, None) \<Rightarrow> maybeInitializeSlots env (b, w) r)))"

definition slot_status :: "slot \<Rightarrow> json" where
  "slot_status s =
     JObj [(''slot_index'', JInt (slSlotIndex s)), (''state'', JStr (slState s)),
           (''rotated_at'', JTimestamp (slRotatedAt s)), (''next_rotation_at'', JTimestamp (slNextRotationAt s)),
           (''token_id'', JStr (slTokenID s))]"

definition oci_pathRoleRead :: "'w oci_env \<Rightarrow> 'w ost \<Rightarrow> string \<Rightarrow> response" where
  "oci_pathRoleRead env bw name =
     (case kget (oeKV env) (snd bw) (rolesPrefix @ name) of
        Inl e \<Rightarrow> RespErr ErrInternal
      | Inr None \<Rightarrow> RespNil
      | Inr (Some v) \<Rightarrow>
          (case dec_oci_role v of
             None \<Rightarrow> RespErr ErrInternal
           | Some r \<Rightarrow>
               (let slots = (case loadAllSlots (oeKV env) (snd bw) name (orSlotCount r) of
                               Inl e \<Rightarrow> [] | Inr ss \<Rightarrow> ss)
                in RespData (oci_roleData r @ [(''slots'', JArr (map slot_status slots))]))))"

text \<open>Deleting a role deletes its tokens, best effort, and then its slots, whether or not that worked.\<close>

fun cleanup_tokens :: "'w oci_env \<Rightarrow> oci_backend \<Rightarrow> oci_role \<Rightarrow> slot list \<Rightarrow> 'w \<Rightarrow> 'w" where
  "cleanup_tokens env b r [] w = w"
| "cleanup_tokens env b r (s # ss) w = cleanup_tokens env b r ss (drop_old env b r s w)"

definition cleanupRoleSlots :: "'w oci_env \<Rightarrow> oci_backend \<Rightarrow> 'w \<Rightarrow> string \<Rightarrow> oci_role \<Rightarrow> 'w" where
  "cleanupRoleSlots env b w name r =
     (let slots = (case loadAllSlots (oeKV env) w name (orSlotCount r) of Inl e \<Rightarrow> [] | Inr ss \<Rightarrow> ss)
      in fst (deleteSlots (oeKV env) (cleanup_tokens env b r slots w) name (orSlotCount r)))"

definition oci_pathRoleDelete :: "'w oci_env \<Rightarrow> 'w ost \<Rightarrow> string \<Rightarrow> 'w ost \<times> response" where
  "oci_pathRoleDelete env bw name =
     (case bw of
        (b, w) \<Rightarrow>
          (case kget (oeKV env) w (rolesPrefix @ name) of
             Inl e \<Rightarrow> (bw, RespErr ErrInternal)
           | Inr entry \<Rightarrow>
               (let w = (case Option.bind entry dec_oci_role of
                           None \<Rightarrow> w
                         | Some r \<Rightarrow> cleanupRoleSlots env b w name r)
                in case kdel (oeKV env) w (rolesPrefix @ name) of
                     (w, Some e) \<Rightarrow> ((b, w), RespErr ErrInternal)
                   | (w, None) \<Rightarrow> ((b, w), RespNil))))"

section \<open>The credential read\<close>

record read_request =
  rrCaller :: "caller option"
  rrView :: "entity_store option"
  rrCredentialKind :: string

definition loadIssuableRole :: "'w oci_env \<Rightarrow> 'w \<Rightarrow> string \<Rightarrow> code + oci_role" where
  "loadIssuableRole env w rName =
     (case kget (oeKV env) w (rolesPrefix @ rName) of
        Inl e \<Rightarrow> Inl ErrInternal
      | Inr None \<Rightarrow> Inl ErrRoleNotFound
      | Inr (Some v) \<Rightarrow>
          (case dec_oci_role v of
             None \<Rightarrow> Inl ErrInternal
           | Some r \<Rightarrow> if orDisabled r then Inl ErrRoleDisabled else Inr r))"

text \<open>\<open>time.Time.Sub\<close> is exact between the ends of a duration and stays at them beyond.\<close>

definition time_sub :: "time \<Rightarrow> time \<Rightarrow> duration" where
  "time_sub t u = max (- (2 ^ 63)) (min (2 ^ 63 - 1) (t - u))"

definition lease_seconds :: "oci_role \<Rightarrow> slot \<Rightarrow> time \<Rightarrow> int" where
  "lease_seconds r s now =
     (let ttl = seconds_of (time_sub (slNextRotationAt s) now); dflt = seconds_of (orDefaultTTL r)
      in if 0 < dflt \<and> dflt < ttl then dflt else ttl)"

definition slot_lease :: "oci_role \<Rightarrow> string \<Rightarrow> slot \<Rightarrow> time \<Rightarrow> lease" where
  "slot_lease r rName s now =
     (let ttl = lease_seconds r s now
      in \<lparr> lsEnvelope = ToMap (NewEnvelope
             \<lparr> pCloud = ''oci'', pRole = rName,
               pCredential = [(''auth_token'', JStr (slTokenValue s)), (''user_id'', JStr (orUserOCID r))],
               pExpiresAt = now + of_seconds ttl, pTTLSeconds = ttl, pRenewable = False,
               pCredentialID = slTokenID s, pScope = orUserOCID r, pScopeKind = ScopeKindIdentity,
               pCredentialKind = KindOCIAuthToken, pIssuedBy = ''cloud-creds-oci/v0.1'',
               pMinterSet = slMinterSet s, pMinterID = slMinterID s \<rparr>),
           lsInternal = [(''role'', rName), (''slot_index'', Itoa (slSlotIndex s)), (''token_id'', slTokenID s),
                         (''minter_set'', slMinterSet s), (''minter_id'', slMinterID s)],
           lsType = ''oci_auth_token'', lsTTL = of_seconds ttl, lsMaxTTL = orMaxTTL r \<rparr>)"

text \<open>A read changes nothing.\<close>

definition oci_pathCredsRead :: "'w oci_env \<Rightarrow> 'w \<Rightarrow> read_request \<Rightarrow> string \<Rightarrow> response" where
  "oci_pathCredsRead env w req rName =
     (case RequireCredentialKind (rrCredentialKind req) KindOCIAuthToken of
        Some c \<Rightarrow> RespErr c
      | None \<Rightarrow>
          (case loadIssuableRole env w rName of
             Inl c \<Rightarrow> RespErr c
           | Inr r \<Rightarrow>
               (case EnforceIdentity (rrCaller req) (orRequireCallerIdentity r) of
                  Some c \<Rightarrow> RespErr c
                | None \<Rightarrow>
                    (case EnforceLineage (rrCaller req) (rrView req) (orRequireCallerLineage r) of
                       (_, Some c) \<Rightarrow> RespErr c
                     | (_, None) \<Rightarrow>
                         (case loadAllSlots (oeKV env) w rName (orSlotCount r) of
                            Inl e \<Rightarrow> RespErr ErrInternal
                          | Inr slots \<Rightarrow>
                              (case freshestSlot slots (oeNow env w) of
                                 None \<Rightarrow> RespErr ErrPoolExhausted
                               | Some best \<Rightarrow> RespLease (slot_lease r rName best (oeNow env w))))))))"

text \<open>Revoking a lease forgets it: others hold the same token.\<close>

definition oci_pathCredsRevoke :: "'w ost \<Rightarrow> 'w ost \<times> code option" where
  "oci_pathCredsRevoke bw = (bw, None)"

section \<open>Rotation\<close>

definition oci_pathRotateSlot :: "'w oci_env \<Rightarrow> 'w ost \<Rightarrow> string \<Rightarrow> string \<Rightarrow> 'w ost \<times> response" where
  "oci_pathRotateSlot env bw rName indexStr =
     (case ParseInt indexStr of
        None \<Rightarrow> (bw, RespErr ErrConfigInvalid)
      | Some slotIndex \<Rightarrow>
          (case kget (oeKV env) (snd bw) (rolesPrefix @ rName) of
             Inl e \<Rightarrow> (bw, RespErr ErrInternal)
           | Inr None \<Rightarrow> (bw, RespErr ErrRoleNotFound)
           | Inr (Some v) \<Rightarrow>
               (case dec_oci_role v of
                  None \<Rightarrow> (bw, RespErr ErrInternal)
                | Some r \<Rightarrow>
                    if slotIndex < 0 \<or> slotIndex \<ge> orSlotCount r then (bw, RespErr ErrConfigInvalid)
                    else case rotateSlot env bw r (nat slotIndex) of
                      (bw, Some e) \<Rightarrow> (bw, RespErr (Classify StatusNone (Some e)))
                    | (bw, None) \<Rightarrow>
                        (case loadSlot (oeKV env) (snd bw) rName (nat slotIndex) of
                           Inl e \<Rightarrow> (bw, RespErr ErrInternal)
                         | Inr None \<Rightarrow> (bw, RespErr ErrEntityUnavailable)
                         | Inr (Some updated) \<Rightarrow>
                             (bw, RespData [(''role'', JStr rName), (''slot_index'', JInt slotIndex),
                                (''rotated'', JBool True), (''new_token_id'', JStr (slTokenID updated)),
                                (''next_rotation_at'', JTimestamp (slNextRotationAt updated))])))))"

definition oci_loadRole :: "'w kv \<Rightarrow> 'w \<Rightarrow> string \<Rightarrow> oci_role option" where
  "oci_loadRole kv w rName =
     (case kget kv w (rolesPrefix @ rName) of Inr (Some v) \<Rightarrow> dec_oci_role v | _ \<Rightarrow> None)"

text \<open>The rotations of one pass share one instant; those that fail are passed over.\<close>

fun rotate_due :: "'w oci_env \<Rightarrow> oci_role \<Rightarrow> time \<Rightarrow> nat list \<Rightarrow> 'w ost \<Rightarrow> 'w ost" where
  "rotate_due env r now [] bw = bw"
| "rotate_due env r now (i # is) bw =
     (case loadSlot (oeKV env) (snd bw) (orName r) i of
        Inr (Some s) \<Rightarrow>
          if slState s = slotActive \<and> slNextRotationAt s < now
          then rotate_due env r now is (fst (rotateSlot env bw r i))
          else rotate_due env r now is bw
      | _ \<Rightarrow> rotate_due env r now is bw)"

definition rotateDueSlots :: "'w oci_env \<Rightarrow> 'w ost \<Rightarrow> oci_role \<Rightarrow> time \<Rightarrow> 'w ost" where
  "rotateDueSlots env bw r now = rotate_due env r now [0..<nat (orSlotCount r)] bw"

fun rotate_roles :: "'w oci_env \<Rightarrow> time \<Rightarrow> string list \<Rightarrow> 'w ost \<Rightarrow> 'w ost" where
  "rotate_roles env now [] bw = bw"
| "rotate_roles env now (n # ns) bw =
     (case oci_loadRole (oeKV env) (snd bw) n of
        None \<Rightarrow> rotate_roles env now ns bw
      | Some r \<Rightarrow>
          if orDisabled r then rotate_roles env now ns bw
          else rotate_roles env now ns (rotateDueSlots env bw r now))"

definition rotationWorker :: "'w oci_env \<Rightarrow> 'w ost \<Rightarrow> 'w ost \<times> err option" where
  "rotationWorker env bw =
     (case klist (oeKV env) (snd bw) rolesPrefix of
        Inl e \<Rightarrow> (bw, Some e)
      | Inr names \<Rightarrow> (rotate_roles env (oeNow env (snd bw)) names bw, None))"

section \<open>Reclamation\<close>

definition maxDeletesForPass :: "oci_backend \<Rightarrow> int" where
  "maxDeletesForPass b = (case obConfig b of None \<Rightarrow> 10 | Some cfg \<Rightarrow> MaxDeletesPerPass cfg)"

text \<open>A role or a slot that cannot be read is left out of what is known.\<close>

definition known_of_role :: "'w kv \<Rightarrow> 'w \<Rightarrow> string \<Rightarrow> string set" where
  "known_of_role kv w rName =
     (case oci_loadRole kv w rName of
        None \<Rightarrow> {}
      | Some r \<Rightarrow>
          (case loadAllSlots kv w rName (orSlotCount r) of
             Inl e \<Rightarrow> {}
           | Inr slots \<Rightarrow> set (map slTokenID slots) - {[]}))"

definition collectKnownTokenIDs :: "'w kv \<Rightarrow> 'w \<Rightarrow> string list \<Rightarrow> string set" where
  "collectKnownTokenIDs kv w names = (\<Union>n \<in> set names. known_of_role kv w n)"

record reconcile_result =
  rsScanned :: int
  rsOrphansFound :: int
  rsDeleted :: int
  rsDeleteErrors :: int

definition no_result :: reconcile_result where
  "no_result = \<lparr> rsScanned = 0, rsOrphansFound = 0, rsDeleted = 0, rsDeleteErrors = 0 \<rparr>"

record reconcile_pass =
  rpInstanceID :: string
  rpKnown :: "string set"
  rpDryRun :: bool
  rpMaxDeletes :: int

fun reconcileRoleTokens ::
  "reconcile_pass \<Rightarrow> 'w iam \<Rightarrow> oci_role \<Rightarrow> auth_token_info list \<Rightarrow> 'w \<times> reconcile_result \<Rightarrow> 'w \<times> reconcile_result" where
  "reconcileRoleTokens p client r [] wr = wr"
| "reconcileRoleTokens p client r (t # ts) (w, res) =
     (if \<not> Owns (rpInstanceID p) (atDescription t) then reconcileRoleTokens p client r ts (w, res)
      else
        let res = res \<lparr> rsScanned := rsScanned res + 1 \<rparr>
        in if atID t \<in> rpKnown p then reconcileRoleTokens p client r ts (w, res)
           else
             let res = res \<lparr> rsOrphansFound := rsOrphansFound res + 1 \<rparr>
             in if \<not> rpDryRun p \<and> rsDeleted res < rpMaxDeletes p then
                  case DeleteAuthToken client (orUserOCID r) (atID t) w of
                    (w, None) \<Rightarrow> reconcileRoleTokens p client r ts (w, res \<lparr> rsDeleted := rsDeleted res + 1 \<rparr>)
                  | (w, Some e) \<Rightarrow>
                      reconcileRoleTokens p client r ts (w, res \<lparr> rsDeleteErrors := rsDeleteErrors res + 1 \<rparr>)
                else reconcileRoleTokens p client r ts (w, res))"

fun reconcileOrphans ::
  "'w oci_env \<Rightarrow> oci_backend \<Rightarrow> reconcile_pass \<Rightarrow> string list \<Rightarrow> 'w \<times> reconcile_result \<Rightarrow> 'w \<times> reconcile_result" where
  "reconcileOrphans env b p [] wr = wr"
| "reconcileOrphans env b p (n # ns) (w, res) =
     (case oci_loadRole (oeKV env) w n of
        None \<Rightarrow> reconcileOrphans env b p ns (w, res)
      | Some r \<Rightarrow>
          (case selectMinterForSet env b w (orMinterSet r) of
             Inl e \<Rightarrow> reconcileOrphans env b p ns (w, res)
           | Inr (_, client) \<Rightarrow>
               (case ListAuthTokens client (orUserOCID r) w of
                  (w, Inl e) \<Rightarrow> reconcileOrphans env b p ns (w, res)
                | (w, Inr tokens) \<Rightarrow>
                    reconcileOrphans env b p ns (reconcileRoleTokens p client r tokens (w, res)))))"

definition oci_runReconcilePass ::
  "'w oci_env \<Rightarrow> 'w ost \<Rightarrow> string list \<Rightarrow> bool \<Rightarrow> 'w ost \<times> reconcile_result" where
  "oci_runReconcilePass env bw names dryRun =
     (case oci_ownerInstanceID env bw of
        (bw, Inl e) \<Rightarrow> (bw, no_result)
      | ((b, w), Inr instanceID) \<Rightarrow>
          (case reconcileOrphans env b
                  \<lparr> rpInstanceID = instanceID, rpKnown = collectKnownTokenIDs (oeKV env) w names,
                    rpDryRun = dryRun, rpMaxDeletes = maxDeletesForPass b \<rparr> names (w, no_result) of
             (w, res) \<Rightarrow> ((b, w), res)))"

definition oci_pathReconcile :: "'w oci_env \<Rightarrow> 'w ost \<Rightarrow> string \<Rightarrow> 'w ost \<times> response" where
  "oci_pathReconcile env bw mode =
     (if mode \<noteq> ''normal'' \<and> mode \<noteq> ''dry_run'' then (bw, RespErr ErrConfigInvalid)
      else if oci_anyHealthyMinter env (fst bw) (snd bw) = None then (bw, RespErr ErrUpstreamAuthFailed)
      else case klist (oeKV env) (snd bw) rolesPrefix of
        Inl e \<Rightarrow> (bw, RespErr ErrInternal)
      | Inr names \<Rightarrow>
          (let maxDeletes = maxDeletesForPass (fst bw)
           in case oci_runReconcilePass env bw names (mode = ''dry_run'') of
                (bw, res) \<Rightarrow>
                  (bw, RespData [(''mode'', JStr mode), (''dry_run'', JBool (mode = ''dry_run'')),
                     (''target'', JStr ''upstream_orphans''), (''scanned'', JInt (rsScanned res)), (''found'', JInt (rsOrphansFound res)),
                     (''deleted'', JInt (rsDeleted res)), (''remaining'', JInt (rsScanned res - rsDeleted res)),
                     (''delete_errors'', JInt (rsDeleteErrors res)), (''expired'', JInt 0),
                     (''hit_limit'', JBool (rsDeleted res \<ge> maxDeletes)), (''confirmation_hold'', JInt 0)])))"

definition oci_reconcileWorker :: "'w oci_env \<Rightarrow> 'w ost \<Rightarrow> 'w ost \<times> err option" where
  "oci_reconcileWorker env bw =
     (case bw of
        (b, w) \<Rightarrow>
          (let w = fst (PruneCache (Some (oeKV env)) (oeNow env w) (CapabilityCacheDuration (obConfig b)) w)
           in case klist (oeKV env) w rolesPrefix of
                Inl e \<Rightarrow> ((b, w), Some e)
              | Inr names \<Rightarrow> (fst (oci_runReconcilePass env (b, w) names False), None)))"

section \<open>The health check\<close>

text \<open>The minter's id stands in for a user.\<close>

definition oci_health_step ::
  "'w oci_env \<Rightarrow> time \<Rightarrow> string \<times> string \<times> string \<Rightarrow> 'w ost \<Rightarrow> 'w ost" where
  "oci_health_step env now p bw =
     (case p of
        (s, i, tok) \<Rightarrow>
          (case GetUser (newOCIClient env (fst bw) tok) i (snd bw) of
             (w, Some e) \<Rightarrow>
               (oci_update_machine (fst bw) s i (RecordUpstream (oeJitter env w) StatusNone (Some e) now), w)
           | (w, None) \<Rightarrow> (oci_update_machine (fst bw) s i (RecordSuccess now), w)))"

definition oci_healthCheckWorker :: "'w oci_env \<Rightarrow> 'w ost \<Rightarrow> 'w ost" where
  "oci_healthCheckWorker env bw =
     (let now = oeNow env (snd bw);
          probes = concat (map (\<lambda>(s, states). map (\<lambda>(i, ms). (s, i, Token (msMinter ms)))
                     (filter (\<lambda>(_, ms). NeedsHealthCheck now (msSM ms)) states)) (obSets (fst bw)))
      in fold (oci_health_step env now) probes bw)"

end
