(* ===== verification/OCIWorld.thy ===== *)
theory OCIWorld
  imports OCIHandlers DOConfig
begin

text \<open>
  What the OCI plugin relies on from the outside: the storage contract, a cloud that hands out an id it
  has never handed out before, and that deletes nothing but what a call names. The store beside the
  plugin's own in-memory client keeps it. \<open>inside\<close> then says, for every operation on slots, which
  entries of storage it may change and which tokens it may delete.
\<close>

section \<open>The world\<close>

text \<open>\<open>live\<close> is the set of upstream tokens, each a user and an id; \<open>issued\<close> holds every id ever handed out.\<close>

locale oci_world = kv_store "oeKV env" view
  for env :: "'w oci_env" and view :: "'w \<Rightarrow> string \<Rightarrow> blob option" +
  fixes live :: "'w \<Rightarrow> (string \<times> string) set" and issued :: "'w \<Rightarrow> string set"
  assumes put_cloud: "kput (oeKV env) w k v = (w', e) \<Longrightarrow> live w' = live w \<and> issued w' = issued w"
    and del_cloud: "kdel (oeKV env) w k = (w', e) \<Longrightarrow> live w' = live w \<and> issued w' = issued w"
    and create_view: "CreateAuthToken (newOCIClient env b tok) u d w = (w', rc) \<Longrightarrow> view w' = view w"
    and create_err: "CreateAuthToken (newOCIClient env b tok) u d w = (w', Inl x) \<Longrightarrow>
      live w \<subseteq> live w' \<and> issued w \<subseteq> issued w'"
    and create_ok: "CreateAuthToken (newOCIClient env b tok) u d w = (w', Inr (val, i)) \<Longrightarrow>
      i \<noteq> [] \<and> i \<notin> issued w \<and> issued w' = insert i (issued w) \<and> live w' = insert (u, i) (live w)"
    and delete_view: "DeleteAuthToken (newOCIClient env b tok) u i w = (w', e) \<Longrightarrow>
      view w' = view w \<and> issued w' = issued w \<and> live w - {(u, i)} \<subseteq> live w' \<and> live w' \<subseteq> live w"
    and delete_ok: "DeleteAuthToken (newOCIClient env b tok) u i w = (w', None) \<Longrightarrow> (u, i) \<notin> live w'"
    and tokens_view: "ListAuthTokens (newOCIClient env b tok) u w = (w', rl) \<Longrightarrow>
      view w' = view w \<and> issued w' = issued w \<and> live w' = live w"
    and user_view: "GetUser (newOCIClient env b tok) u w = (w', e) \<Longrightarrow>
      view w' = view w \<and> issued w' = issued w \<and> live w' = live w"

text \<open>The same on a store whose refused writes store nothing.\<close>

locale oci_honest = oci_world env view live issued
  for env :: "'w oci_env" and view :: "'w \<Rightarrow> string \<Rightarrow> blob option" and live :: "'w \<Rightarrow> (string \<times> string) set"
    and issued :: "'w \<Rightarrow> string set" +
  assumes put_refused: "kput (oeKV env) w k v = (w', Some e) \<Longrightarrow> view w' = view w"

text \<open>What an operation may do: change the entries \<open>K\<close>, and delete the tokens \<open>D\<close>.\<close>

definition inside ::
  "('w \<Rightarrow> string \<Rightarrow> blob option) \<Rightarrow> ('w \<Rightarrow> (string \<times> string) set) \<Rightarrow> ('w \<Rightarrow> string set)
     \<Rightarrow> string set \<Rightarrow> string set \<Rightarrow> 'w \<Rightarrow> 'w \<Rightarrow> bool" where
  "inside view live issued K D w w' \<longleftrightarrow>
     (\<forall>k. view w' k \<noteq> view w k \<longrightarrow> k \<in> K)
     \<and> (\<forall>u i. (u, i) \<in> live w - live w' \<longrightarrow> i \<in> D) \<and> issued w \<subseteq> issued w'"

lemma inside_refl [simp, intro]: "inside view live issued K D w w"
  by (simp add: inside_def)

lemma inside_trans [trans]:
  "inside view live issued K D u v \<Longrightarrow> inside view live issued K D v w \<Longrightarrow> inside view live issued K D u w"
  unfolding inside_def by (metis DiffI Diff_iff subset_trans)

lemma inside_mono:
  "inside view live issued K D u v \<Longrightarrow> K \<subseteq> K' \<Longrightarrow> D \<subseteq> D' \<Longrightarrow> inside view live issued K' D' u v"
  by (fastforce simp: inside_def)

lemma inside_join:
  "inside view live issued K D u v \<Longrightarrow> inside view live issued K' D' v w \<Longrightarrow>
     inside view live issued (K \<union> K') (D \<union> D') u w"
  by (meson inside_mono inside_trans Un_upper1 Un_upper2)

lemma inside_view: "inside view live issued K D w w' \<Longrightarrow> k \<notin> K \<Longrightarrow> view w' k = view w k"
  by (auto simp: inside_def)

lemma inside_live: "inside view live issued K D w w' \<Longrightarrow> (u, i) \<in> live w \<Longrightarrow> i \<notin> D \<Longrightarrow> (u, i) \<in> live w'"
  by (auto simp: inside_def)

lemma inside_issued: "inside view live issued K D w w' \<Longrightarrow> i \<in> issued w \<Longrightarrow> i \<in> issued w'"
  by (auto simp: inside_def)

section \<open>Keys\<close>

lemma digits_no_slash: "CHR ''/'' \<notin> set (nat_digits n)"
proof
  assume "CHR ''/'' \<in> set (nat_digits n)"
  then obtain d where "d < 10" "CHR ''/'' = digit_char d" using nat_digits_set by blast
  then have "(of_char (CHR ''/'') :: nat) = 48 + d" using of_char_digit_char by metis
  then show False by simp
qed

lemma nat_digits_inj: "nat_digits m = nat_digits n \<Longrightarrow> m = n"
  using nat_digits_value by (metis option.inject)

lemma split_last:
  assumes "a @ c # x = b @ c # y" and "c \<notin> set x" and "c \<notin> set y"
  shows "a = b \<and> x = y"
proof -
  have "rev x @ c # rev a = rev y @ c # rev b" using arg_cong [OF assms(1), of rev] by simp
  moreover have "takeWhile (\<lambda>z. z \<noteq> c) (rev z @ c # v) = rev z" if "c \<notin> set z" for z v
    using that by (induction z rule: rev_induct) auto
  ultimately have "rev x = rev y" using assms(2,3) by metis
  then show ?thesis using assms(1) by simp
qed

lemma slot_key_inj [simp]:
  "storageKeyForSlot n i = storageKeyForSlot m j \<longleftrightarrow> n = m \<and> i = j"
proof
  assume "storageKeyForSlot n i = storageKeyForSlot m j"
  then have "n @ CHR ''/'' # nat_digits i = m @ CHR ''/'' # nat_digits j" by (simp add: storageKeyForSlot_def)
  then have "n = m \<and> nat_digits i = nat_digits j" by (rule split_last) (rule digits_no_slash)+
  then show "n = m \<and> i = j" using nat_digits_inj by simp
qed simp

lemma slot_key_other [simp]:
  "storageKeyForSlot n i \<noteq> storageKey" "storageKey \<noteq> storageKeyForSlot n i"
  "storageKeyForSlot n i \<noteq> rolesPrefix @ m" "rolesPrefix @ m \<noteq> storageKeyForSlot n i"
  "rolesPrefix @ m \<noteq> storageKey" "storageKey \<noteq> rolesPrefix @ m"
  "storageKeyForSlot n i \<noteq> cachePrefix @ m" "rolesPrefix @ n \<noteq> cachePrefix @ m"
  by (simp_all add: storageKeyForSlot_def storageKey_def rolesPrefix_def cachePrefix_def)

definition slot_keys :: "string \<Rightarrow> string set" where
  "slot_keys n = range (storageKeyForSlot n)"

lemma slot_keys_other [simp]:
  "storageKey \<notin> slot_keys n" "rolesPrefix @ m \<notin> slot_keys n" "storageKeyForSlot m i \<in> slot_keys n \<longleftrightarrow> m = n"
  by (auto simp: slot_keys_def)

definition cache_keys :: "string set" where
  "cache_keys = range ((@) cachePrefix)"

lemma cache_keys_other [simp]: "rolesPrefix @ m \<notin> cache_keys" "storageKeyForSlot m i \<notin> cache_keys" "storageKey \<notin> cache_keys"
  by (auto simp: cache_keys_def cachePrefix_def rolesPrefix_def storageKeyForSlot_def storageKey_def)

section \<open>Single calls\<close>

definition is_client :: "'w oci_env \<Rightarrow> 'w iam \<Rightarrow> bool" where
  "is_client env c \<longleftrightarrow> (\<exists>b tok. c = newOCIClient env b tok)"

lemma select_client: "selectMinterForSet env b w s = Inr (i, c) \<Longrightarrow> is_client env c"
  by (auto simp: selectMinterForSet_def Let_def is_client_def split: option.splits)

lemma slot_client: "clientForSlot env b w s rs = Some c \<Longrightarrow> is_client env c"
  by (auto simp: clientForSlot_def getMinterClient_def is_client_def
      split: option.splits sum.splits if_splits dest!: select_client)

definition stored :: "('w \<Rightarrow> string \<Rightarrow> blob option) \<Rightarrow> 'w \<Rightarrow> string \<Rightarrow> nat \<Rightarrow> slot \<Rightarrow> bool" where
  "stored view w n i s \<longleftrightarrow> (\<exists>v. view w (storageKeyForSlot n i) = Some v \<and> dec_slot v = Some s)"

lemma stored_unique: "stored view w n i s \<Longrightarrow> stored view w n i t \<Longrightarrow> s = t"
  by (auto simp: stored_def)

lemma oci_ownerInstanceID_world:
  assumes "oci_ownerInstanceID env (b, w) = ((b', w'), r)"
  shows "w' = w \<or> (\<exists>i e. kput (oeKV env) w storageKey (Raw i) = (w', e))"
proof -
  obtain v r' where i: "InstanceID (oeKV env) (oeMarshal env) (oeRandomID env w) w = (v, r')" by force
  then show ?thesis
    using assms InstanceID_world [OF i] by (cases r') (auto simp: oci_ownerInstanceID_def split: if_splits)
qed

context kv_store begin

lemma loadSlot_stored:
  assumes "loadSlot kv w n i = Inr r"
  shows "r = Some s \<longleftrightarrow> stored view w n i s"
proof -
  obtain g where g: "kget kv w (storageKeyForSlot n i) = Inr g"
    using assms by (cases "kget kv w (storageKeyForSlot n i)") (simp_all add: loadSlot_def)
  note v = get_view [OF g]
  show ?thesis using assms g v by (cases g) (auto simp: loadSlot_def stored_def split: option.splits)
qed

lemma load_slots_stored:
  "load_slots kv w n is = Inr ss \<Longrightarrow> s \<in> set ss \<longleftrightarrow> (\<exists>i \<in> set is. stored view w n i s)"
proof (induction "is" arbitrary: ss)
  case (Cons i "is")
  obtain r where r: "loadSlot kv w n i = Inr r"
    using Cons.prems by (cases "loadSlot kv w n i") simp_all
  show ?case using Cons r loadSlot_stored [OF r, of s]
    by (cases r) (auto split: sum.splits)
qed simp

lemma loadAllSlots_stored:
  "loadAllSlots kv w n c = Inr ss \<Longrightarrow> s \<in> set ss \<longleftrightarrow> (\<exists>i < nat c. stored view w n i s)"
  using load_slots_stored by (fastforce simp: loadAllSlots_def)

lemma loadRole_view: "oci_loadRole kv w n = Some r \<Longrightarrow> Option.bind (view w (rolesPrefix @ n)) dec_oci_role = Some r"
  using get_view by (fastforce simp: oci_loadRole_def split: sum.splits option.splits)

end

context oci_world begin

abbreviation "wi \<equiv> inside view live issued"

lemma wi_put: "kput (oeKV env) w k v = (w', e) \<Longrightarrow> wi {k} {} w w'"
  using put_frame put_cloud unfolding inside_def by blast

lemma wi_del: "kdel (oeKV env) w k = (w', e) \<Longrightarrow> wi {k} {} w w'"
  using del_frame del_cloud unfolding inside_def by blast

lemma wi_create: "is_client env c \<Longrightarrow> CreateAuthToken c u d w = (w', r) \<Longrightarrow> wi {} {} w w'"
proof -
  assume "is_client env c" and c: "CreateAuthToken c u d w = (w', r)"
  then obtain b tok where b: "c = newOCIClient env b tok" by (auto simp: is_client_def)
  note v = create_view [OF c [unfolded b]]
  show "wi {} {} w w'"
  proof (cases r)
    case (Inl e)
    then show ?thesis using v create_err [of b tok u d w w' e] b c by (auto simp: inside_def)
  next
    case (Inr t)
    then obtain x i where "r = Inr (x, i)" by (cases t) auto
    then show ?thesis using v create_ok [of b tok u d w w' x i] b c by (auto simp: inside_def)
  qed
qed

lemma wi_delete: "is_client env c \<Longrightarrow> DeleteAuthToken c u i w = (w', e) \<Longrightarrow> wi {} {i} w w'"
  using delete_view by (fastforce simp: inside_def is_client_def)

lemma wi_list: "is_client env c \<Longrightarrow> ListAuthTokens c u w = (w', r) \<Longrightarrow> wi {} {} w w'"
  using tokens_view by (fastforce simp: inside_def is_client_def)

lemma wi_owner: "oci_ownerInstanceID env (b, w) = ((b', w'), r) \<Longrightarrow> wi {storageKey} {} w w'"
  using oci_ownerInstanceID_world wi_put inside_refl by metis

lemma owner_live:
  assumes "oci_ownerInstanceID env (b, w) = ((b', w'), r)"
  shows "live w' = live w" and "issued w' = issued w"
  using oci_ownerInstanceID_world [OF assms] put_cloud by blast+

lemma owner_sets:
  assumes "oci_ownerInstanceID env (b, w) = ((b', w'), r)"
  shows "obSets b' = obSets b" and "obConfig b' = obConfig b" and "obRegion b' = obRegion b"
  using assms by (auto simp: oci_ownerInstanceID_def split: if_splits sum.splits prod.splits)

end

section \<open>Slots name tokens of their own\<close>

definition slots_ok ::
  "('w \<Rightarrow> string \<Rightarrow> blob option) \<Rightarrow> ('w \<Rightarrow> string set) \<Rightarrow> 'w \<Rightarrow> bool" where
  "slots_ok view issued w \<longleftrightarrow>
     (\<forall>n i s. stored view w n i s \<longrightarrow> slTokenID s = [] \<or> slTokenID s \<in> issued w)
     \<and> (\<forall>n i s m j t. stored view w n i s \<longrightarrow> stored view w m j t \<longrightarrow> slTokenID s = slTokenID t \<longrightarrow>
          slTokenID s \<noteq> [] \<longrightarrow> n = m \<and> i = j)"

lemma slots_ok_same:
  assumes "slots_ok view issued w" and "issued w \<subseteq> issued w'"
    and "\<And>n i s. stored view w' n i s \<Longrightarrow> stored view w n i s"
  shows "slots_ok view issued w'"
  using assms unfolding slots_ok_def by blast

lemma slots_ok_new:
  assumes "slots_ok view issued w" and "issued w \<subseteq> issued w'" and "x \<notin> issued w" and "x \<in> issued w'"
    and "\<And>n i s. stored view w' n i s \<Longrightarrow> stored view w n i s \<or> n = m \<and> i = j \<and> slTokenID s = x"
  shows "slots_ok view issued w'"
  unfolding slots_ok_def
proof (intro conjI allI impI)
  fix n i s
  assume "stored view w' n i s"
  then show "slTokenID s = [] \<or> slTokenID s \<in> issued w'"
    using assms unfolding slots_ok_def by (metis subsetD)
next
  fix n i s n' i' t
  assume s: "stored view w' n i s" and t: "stored view w' n' i' t" and eq: "slTokenID s = slTokenID t" "slTokenID s \<noteq> []"
  have old: "slTokenID s \<in> issued w" if "stored view w n i s"
    using assms(1) that eq(2) unfolding slots_ok_def by blast
  have old': "slTokenID t \<in> issued w" if "stored view w n' i' t"
    using assms(1) that eq unfolding slots_ok_def by metis
  show "n = n'" "i = i'"
    using assms(5) [OF s] assms(5) [OF t] old old' assms(1,3) eq unfolding slots_ok_def by metis+
qed

context oci_world begin

abbreviation "ok \<equiv> slots_ok view issued"

lemma stored_frame:
  assumes "wi K D w w'" and "storageKeyForSlot n i \<notin> K"
  shows "stored view w' n i s \<longleftrightarrow> stored view w n i s"
  using inside_view [OF assms] by (simp add: stored_def)

lemma ok_inside:
  assumes "ok w" and "wi K D w w'" and "\<And>n i. storageKeyForSlot n i \<notin> K"
  shows "ok w'"
  using slots_ok_same [OF assms(1), of w'] stored_frame [OF assms(2,3)] assms(2) by (auto simp: inside_def)

text \<open>Saving a slot, whatever storage answers, leaves the old entry or the new one.\<close>

lemma save_stored:
  assumes "saveSlot (oeKV env) w n s = (w', e)" and "stored view w' m j t"
  shows "stored view w m j t \<or> m = n \<and> j = nat (slSlotIndex s) \<and> t = s"
proof (cases "m = n \<and> j = nat (slSlotIndex s)")
  case True
  note p = assms(1) [unfolded saveSlot_def]
  have "view w' (storageKeyForSlot m j) \<in> {view w (storageKeyForSlot m j), Some (enc_slot s)}"
    using put_ok [of w _ _ w'] put_err [of w _ _ w'] p True by (cases e) fastforce+
  then show ?thesis using assms(2) True by (auto simp: stored_def)
next
  case False
  then have "storageKeyForSlot m j \<notin> {storageKeyForSlot n (nat (slSlotIndex s))}" by auto
  then show ?thesis using stored_frame [OF wi_put [OF assms(1) [unfolded saveSlot_def]]] assms(2) by blast
qed

lemma save_ok:
  assumes "saveSlot (oeKV env) w n s = (w', None)"
  shows "stored view w' n (nat (slSlotIndex s)) s"
  using put_ok [OF assms [unfolded saveSlot_def]] by (simp add: stored_def)

lemma wi_save: "saveSlot (oeKV env) w n s = (w', e) \<Longrightarrow> wi {storageKeyForSlot n (nat (slSlotIndex s))} {} w w'"
  unfolding saveSlot_def by (rule wi_put)

text \<open>A slot made for a token that was just created.\<close>

lemma create_save:
  assumes "ok w" and "is_client env c" and "CreateAuthToken c u d w = (w1, Inr tk)"
    and "saveSlot (oeKV env) w1 n s = (w2, e)" and "slTokenID s = snd tk"
  shows "ok w2" and "wi {storageKeyForSlot n (nat (slSlotIndex s))} {} w w2" and "snd tk \<notin> issued w"
    and "snd tk \<noteq> []" and "(u, snd tk) \<in> live w2" and "snd tk \<in> issued w2"
proof -
  obtain b tok where b: "c = newOCIClient env b tok" using assms(2) by (auto simp: is_client_def)
  obtain x i where tk: "tk = (x, i)" by force
  note c = create_ok [OF assms(3) [unfolded b tk]] and v = create_view [OF assms(3) [unfolded b]]
  note p = put_cloud [OF assms(4) [unfolded saveSlot_def]]
  show "snd tk \<notin> issued w" "snd tk \<noteq> []" "(u, snd tk) \<in> live w2" "snd tk \<in> issued w2" using c p tk by auto
  show "wi {storageKeyForSlot n (nat (slSlotIndex s))} {} w w2"
    using inside_join [OF wi_create [OF assms(2,3)] wi_save [OF assms(4)]] by simp
  have "stored view w m j t \<or> m = n \<and> j = nat (slSlotIndex s) \<and> slTokenID t = i" if "stored view w2 m j t" for m j t
    using save_stored [OF assms(4) that] assms(5) tk v by (auto simp: stored_def)
  then show "ok w2" using slots_ok_new [OF assms(1), of w2 i n "nat (slSlotIndex s)"] c p by auto
qed

lemma wi_drop_old:
  "wi {} {slTokenID s} w (drop_old env b r s w)"
proof -
  have "wi {} {slTokenID s} w (fst (DeleteAuthToken c (orUserOCID r) (slTokenID s) w))"
    if "clientForSlot env b w s (orMinterSet r) = Some c" for c
    using wi_delete [OF slot_client [OF that]] by (metis prod.collapse)
  then show ?thesis by (auto simp: drop_old_def split: option.split)
qed

lemma drop_old_spec:
  "view (drop_old env b r s w) = view w" "issued (drop_old env b r s w) = issued w"
  "live w - {(orUserOCID r, slTokenID s)} \<subseteq> live (drop_old env b r s w)" "live (drop_old env b r s w) \<subseteq> live w"
proof -
  have "view (drop_old env b r s w) = view w \<and> issued (drop_old env b r s w) = issued w
      \<and> live w - {(orUserOCID r, slTokenID s)} \<subseteq> live (drop_old env b r s w) \<and> live (drop_old env b r s w) \<subseteq> live w"
  proof (cases "slTokenID s = [] \<or> clientForSlot env b w s (orMinterSet r) = None")
    case True
    then show ?thesis by (auto simp: drop_old_def)
  next
    case False
    then obtain c where c: "clientForSlot env b w s (orMinterSet r) = Some c" "slTokenID s \<noteq> []" by blast
    obtain bb tok where cl: "c = newOCIClient env bb tok" using slot_client [OF c(1)] by (auto simp: is_client_def)
    obtain w1 e where "DeleteAuthToken c (orUserOCID r) (slTokenID s) w = (w1, e)" by force
    then show ?thesis using delete_view [of bb tok "orUserOCID r" "slTokenID s" w w1 e] c cl by (simp add: drop_old_def)
  qed
  then show "view (drop_old env b r s w) = view w" "issued (drop_old env b r s w) = issued w"
    "live w - {(orUserOCID r, slTokenID s)} \<subseteq> live (drop_old env b r s w)" "live (drop_old env b r s w) \<subseteq> live w" by auto
qed

text \<open>A rotation either stops before it has a new token, or saves it and then deletes one token.\<close>

lemma rotateSlot_cases:
  assumes "rotateSlot env (b, w) r i = ((b', w'), e)"
  obtains (early) x where "e = Some x" and "wi {storageKey} {} w w'"
  | (made) w1 w2 w3 c d tk old s x where "wi {storageKey} {} w w1" and "stored view w1 (orName r) i old" and "is_client env c"
      and "CreateAuthToken c (orUserOCID r) d w1 = (w2, Inr tk)" and "nat (slSlotIndex s) = i" and "slTokenID s = snd tk"
      and "slState s = slotActive" and "slNextRotationAt s = slRotatedAt s + rotation_interval r"
      and "saveSlot (oeKV env) w2 (orName r) s = (w3, x)"
      and "if x = None then e = None \<and> (\<exists>b. w' = drop_old env b r old w3)
           else e \<noteq> None \<and> w' = fst (DeleteAuthToken c (orUserOCID r) (snd tk) w3)"
proof -
  obtain b1 w1 o1 where o: "oci_ownerInstanceID env (b, w) = ((b1, w1), o1)" by (metis surj_pair)
  note wo = wi_owner [OF o]
  show thesis
  proof (cases "w' = w1 \<and> e \<noteq> None")
    case True
    then show thesis using early wo by auto
  next
    case moved: False
    obtain inst where o1: "o1 = Inr inst" using assms o moved by (cases o1) (auto simp: rotateSlot_def)
    obtain old where old: "loadSlot (oeKV env) w1 (orName r) i = Inr (Some old)"
      using assms o o1 moved by (auto simp: rotateSlot_def split: sum.splits option.splits)
    then have st: "stored view w1 (orName r) i old" using loadSlot_stored [OF old] by blast
    obtain m c where sel: "selectMinterForSet env b1 w1 (orMinterSet r) = Inr (m, c)"
      using assms o o1 old moved by (auto simp: rotateSlot_def split: sum.splits)
    note cl = select_client [OF sel]
    obtain w2 rc where cr: "CreateAuthToken c (orUserOCID r) (slot_description inst r i) w1 = (w2, rc)" by force
    show thesis
    proof (cases rc)
      case (Inl x)
      then have "w' = w2" "\<exists>y. e = Some y" using assms o o1 old sel cr by (auto simp: rotateSlot_def)
      then show thesis using early inside_join [OF wo wi_create [OF cl cr]] by auto
    next
      case (Inr tk)
      let ?s = "new_slot inst r m i tk (oeNow env w2) (oeNow env w2 + rotation_interval r)"
      obtain w3 x where sv: "saveSlot (oeKV env) w2 (orName r) ?s = (w3, x)" by force
      have fate: "if x = None then e = None \<and> (\<exists>b. w' = drop_old env b r old w3)
           else e \<noteq> None \<and> w' = fst (DeleteAuthToken c (orUserOCID r) (snd tk) w3)"
        using assms o o1 old sel cr Inr sv by (cases x) (auto simp: rotateSlot_def)
      show thesis by (rule made [OF wo st cl cr [unfolded Inr] _ _ _ _ sv fate]) (simp_all add: new_slot_def)
    qed
  qed
qed

lemma wi_rotate:
  assumes "rotateSlot env (b, w) r i = ((b', w'), e)"
  shows "wi {storageKey, storageKeyForSlot (orName r) i} UNIV w w'"
  using assms
proof (cases rule: rotateSlot_cases)
  case (early x)
  show ?thesis by (rule inside_mono [OF early(2)]) auto
next
  case (made w1 w2 w3 c d tk old s x)
  have "\<exists>D. wi {} D w3 w'"
  proof (cases x)
    case None
    then obtain b2 where "w' = drop_old env b2 r old w3" using made(10) by auto
    then show ?thesis using wi_drop_old [of old w3 b2 r] by blast
  next
    case (Some y)
    then have "w' = fst (DeleteAuthToken c (orUserOCID r) (snd tk) w3)" using made(10) by simp
    then obtain z where "DeleteAuthToken c (orUserOCID r) (snd tk) w3 = (w', z)" by (metis prod.collapse)
    from wi_delete [OF made(3) this] show ?thesis by blast
  qed
  then obtain D where "wi {} D w3 w'" by blast
  from inside_join [OF inside_join [OF inside_join [OF made(1) wi_create [OF made(3,4)]] wi_save [OF made(9)]] this]
  show ?thesis by (rule inside_mono) (use made(5) in auto)
qed

text \<open>
  So it changes its own slot and the mount's id, it deletes the token the slot held before or one that did
  not exist then, and the slots stay apart.
\<close>

lemma rotateSlot_spec:
  assumes "rotateSlot env (b, w) r i = ((b', w'), e)" and "ok w"
  shows "ok w'"
    and "wi {storageKey, storageKeyForSlot (orName r) i}
           ({slTokenID s |s. stored view w (orName r) i s} \<union> - issued w) w w'"
proof -
  let ?K = "{storageKey, storageKeyForSlot (orName r) i}"
  let ?D = "{slTokenID s |s. stored view w (orName r) i s} \<union> - issued w"
  have "ok w' \<and> wi ?K ?D w w'"
    using assms(1)
  proof (cases rule: rotateSlot_cases)
    case (early x)
    then show ?thesis using ok_inside [OF assms(2) early(2)] inside_mono [OF early(2), of ?K ?D] by auto
  next
    case (made w1 w2 w3 c d tk old s x)
    have ok1: "ok w1" using ok_inside [OF assms(2) made(1)] by simp
    have st: "stored view w (orName r) i old" using stored_frame [OF made(1)] made(2) by simp
    note cs = create_save [OF ok1 made(3,4,9,6)]
    have new: "snd tk \<notin> issued w" using cs(3) made(1) by (auto simp: inside_def)
    have w03: "wi ?K ?D w w3"
      by (rule inside_mono [OF inside_join [OF made(1) cs(2)]]) (use made(5) in auto)
    have "\<exists>D \<subseteq> ?D. wi {} D w3 w'"
    proof (cases x)
      case None
      then obtain b2 where "w' = drop_old env b2 r old w3" using made(10) by auto
      then show ?thesis using wi_drop_old [of old w3 b2 r] st by (intro exI [of _ "{slTokenID old}"]) auto
    next
      case (Some y)
      then have "wi {} {snd tk} w3 w'" using made(10) wi_delete [OF made(3)] by (metis option.distinct(1) prod.collapse)
      then show ?thesis using new by (intro exI [of _ "{snd tk}"]) auto
    qed
    then obtain D where D: "D \<subseteq> ?D" "wi {} D w3 w'" by blast
    then show ?thesis using ok_inside [OF cs(1) D(2)] inside_trans [OF w03 inside_mono [OF D(2)]] by simp
  qed
  then show "ok w'" "wi ?K ?D w w'" by auto
qed

end

section \<open>What a rotation leaves\<close>

context oci_world begin

text \<open>A rotation that has a new token, whatever becomes of the write of its slot.\<close>

lemma rotation_minted:
  assumes "wi {storageKey} {} w w1" and "stored view w1 (orName r) i old" and "is_client env c"
    and "CreateAuthToken c (orUserOCID r) d w1 = (w2, Inr tk)" and "nat (slSlotIndex s) = i" and "slTokenID s = snd tk"
    and "saveSlot (oeKV env) w2 (orName r) s = (w3, x)" and "ok w"
  shows "live w \<subseteq> live w3" and "snd tk \<notin> issued w" and "snd tk \<in> issued w3" and "(orUserOCID r, snd tk) \<in> live w3"
    and "stored view w (orName r) i old" and "snd tk \<noteq> []"
proof -
  have w01: "live w \<subseteq> live w1" "issued w \<subseteq> issued w1" using assms(1) by (auto simp: inside_def)
  have ok1: "ok w1" using ok_inside [OF assms(8,1)] by simp
  note cs = create_save [OF ok1 assms(3,4,7,6)]
  show "snd tk \<notin> issued w" "snd tk \<in> issued w3" "(orUserOCID r, snd tk) \<in> live w3" "snd tk \<noteq> []"
    using cs(3-6) w01(2) by blast+
  show "live w \<subseteq> live w3" using w01(1) cs(2) by (auto simp: inside_def)
  show "stored view w (orName r) i old" using assms(2) stored_frame [OF assms(1)] by simp
qed

text \<open>The slot was saved: the new token stays, for no slot named it before.\<close>

lemma rotation_made:
  assumes "wi {storageKey} {} w w1" and "stored view w1 (orName r) i old" and "is_client env c"
    and "CreateAuthToken c (orUserOCID r) d w1 = (w2, Inr tk)" and "nat (slSlotIndex s) = i" and "slTokenID s = snd tk"
    and "saveSlot (oeKV env) w2 (orName r) s = (w3, None)" and "ok w" and "w' = drop_old env b r old w3"
  shows "stored view w (orName r) i old" and "stored view w' (orName r) i s"
    and "slTokenID s \<notin> issued w" and "slTokenID s \<noteq> []" and "slTokenID s \<in> issued w'"
    and "(orUserOCID r, slTokenID s) \<in> live w'" and "live w - {(orUserOCID r, slTokenID old)} \<subseteq> live w'"
proof -
  note m = rotation_minted [OF assms(1-8)]
  note dr = drop_old_spec [where b = b and r = r and s = old and w = w3, folded assms(9)]
  show "stored view w (orName r) i old" by (rule m(5))
  show "stored view w' (orName r) i s" using save_ok [OF assms(7)] assms(5) dr by (simp add: stored_def)
  show "slTokenID s \<notin> issued w" "slTokenID s \<noteq> []" "slTokenID s \<in> issued w'" using m(2,3,6) dr assms(6) by simp_all
  have "slTokenID old \<noteq> snd tk" using assms(8) m(2,5,6) unfolding slots_ok_def by metis
  then show "(orUserOCID r, slTokenID s) \<in> live w'" using m(4) dr assms(6) by auto
  show "live w - {(orUserOCID r, slTokenID old)} \<subseteq> live w'" using m(1) dr by blast
qed

lemma rotation_done:
  assumes "rotateSlot env (b, w) r i = ((b', w'), None)" and "ok w"
  obtains old new where "stored view w (orName r) i old" "stored view w' (orName r) i new" "slState new = slotActive"
    "slNextRotationAt new = slRotatedAt new + rotation_interval r" "slTokenID new \<notin> issued w" "slTokenID new \<noteq> []"
    "slTokenID new \<in> issued w'" "(orUserOCID r, slTokenID new) \<in> live w'"
    "live w - {(orUserOCID r, slTokenID old)} \<subseteq> live w'"
  using assms(1)
proof (cases rule: rotateSlot_cases)
  case (early x)
  then show ?thesis by simp
next
  case (made w1 w2 w3 c d tk old s x)
  have x: "x = None" using made(10) by (cases x) auto
  then obtain b2 where w': "w' = drop_old env b2 r old w3" using made(10) by auto
  note m = rotation_made [OF made(1-6) made(9) [unfolded x] assms(2) w']
  show ?thesis by (rule that [OF m(1,2) made(7,8) m(3-7)])
qed

end

context oci_honest begin

text \<open>A rotation that fails leaves its slot, and every token that was handed out before.\<close>

lemma rotation_failed:
  assumes "rotateSlot env (b, w) r i = ((b', w'), Some x)" and "ok w"
  shows "stored view w' n j s \<longleftrightarrow> stored view w n j s"
    and "(u, t) \<in> live w \<Longrightarrow> t \<in> issued w \<Longrightarrow> (u, t) \<in> live w'"
proof -
  have "(\<forall>n j s. stored view w' n j s \<longleftrightarrow> stored view w n j s)
      \<and> (\<forall>u t. (u, t) \<in> live w \<longrightarrow> t \<in> issued w \<longrightarrow> (u, t) \<in> live w')"
    using assms(1)
  proof (cases rule: rotateSlot_cases)
    case (early y)
    then show ?thesis using inside_live [OF early(2)] stored_frame [OF early(2)] by simp
  next
    case (made w1 w2 w3 c d tk old s y)
    obtain z where y: "y = Some z" "w' = fst (DeleteAuthToken c (orUserOCID r) (snd tk) w3)"
      using made(10) by (cases y) auto
    note m = rotation_minted [OF made(1-6,9) assms(2)]
    obtain bb tok where bb: "c = newOCIClient env bb tok" using made(3) by (auto simp: is_client_def)
    obtain e where d: "DeleteAuthToken c (orUserOCID r) (snd tk) w3 = (w', e)" using y(2) by (metis prod.collapse)
    note dl = delete_view [OF d [unfolded bb]]
    have "view w3 = view w2" using put_refused made(9) y(1) by (auto simp: saveSlot_def)
    moreover have "view w2 = view w1" using made(4) create_view bb by blast
    ultimately have "stored view w' n j s \<longleftrightarrow> stored view w n j s" for n j s
      using dl stored_frame [OF made(1), of n j s] by (simp add: stored_def)
    then show ?thesis using dl m(1,2) by blast
  qed
  then show "stored view w' n j s \<longleftrightarrow> stored view w n j s"
    "(u, t) \<in> live w \<Longrightarrow> t \<in> issued w \<Longrightarrow> (u, t) \<in> live w'" by blast+
qed

end

section \<open>The store beside the in-memory client\<close>

text \<open>A world that can be run: stored entries, the client's state, and a clock.\<close>

type_synonym oci_sim = "(fake_oci \<times> time) mem"

definition sim_get :: "oci_sim \<Rightarrow> fake_oci" where
  "sim_get w = fst (snd w)"

definition sim_put :: "fake_oci \<Rightarrow> oci_sim \<Rightarrow> oci_sim" where
  "sim_put f w = (fst w, (f, snd (snd w)))"

definition sim_env :: "oci_sim oci_env" where
  "sim_env =
     \<lparr> oeKV = mem_kv, oeFactory = Some (\<lambda>_. fakeOCIClient sim_get sim_put), oeNow = (\<lambda>w. snd (snd w)), oeOrder = (\<lambda>_ ks. ks),
       oeJitter = (\<lambda>_. 0), oeDigest = id, oeMarshal = (\<lambda>_. ''x''), oeRandomID = (\<lambda>_. Some ''abcd''),
       oeValidate = (\<lambda>_. None) \<rparr>"

definition sim_live :: "oci_sim \<Rightarrow> (string \<times> string) set" where
  "sim_live w = {(u, i). map_of (user_tokens (sim_get w) u) i \<noteq> None}"

definition sim_issued :: "oci_sim \<Rightarrow> string set" where
  "sim_issued w = fake_ocid ` {n. n \<le> fkNextID (sim_get w)}"

lemma sim_client: "newOCIClient sim_env b tok = fakeOCIClient sim_get sim_put"
  by (simp add: newOCIClient_def sim_env_def)

lemma sim_part [simp]: "sim_get (sim_put f w) = f" "mem_view (sim_put f w) = mem_view w"
  by (simp_all add: sim_get_def sim_put_def mem_view_def)

lemma fake_ocid_inj: "fake_ocid m = fake_ocid n \<Longrightarrow> m = n"
  by (simp add: fake_ocid_def Itoa_inj)

lemma fake_issued: "fake_ocid n \<in> sim_issued w \<longleftrightarrow> n \<le> fkNextID (sim_get w)"
  using fake_ocid_inj by (auto simp: sim_issued_def)

lemma sim_create_ok:
  assumes "CreateAuthToken (fakeOCIClient sim_get sim_put) u d w = (w', Inr (val, i))"
  shows "i \<noteq> [] \<and> i \<notin> sim_issued w \<and> sim_issued w' = insert i (sim_issued w) \<and> sim_live w' = insert (u, i) (sim_live w)"
proof -
  let ?f = "sim_get w"
  let ?n = "fkNextID ?f + 1"
  have i: "i = fake_ocid ?n" and w': "fkNextID (sim_get w') = ?n"
    "\<And>v. user_tokens (sim_get w') v = (if v = u then AList.update i \<lparr> atID = i, atDescription = d, atLifecycleState = ''ACTIVE'' \<rparr>
        (user_tokens ?f u) else user_tokens ?f v)"
    using assms by (auto simp: fakeOCIClient_def on_part_def fake_create_def Let_def user_tokens_def update_conv'
        split: option.splits)
  have "i \<noteq> []" "i \<notin> sim_issued w" unfolding i fake_issued by (simp_all add: fake_ocid_def)
  moreover have "sim_issued w' = insert i (sim_issued w)"
    unfolding sim_issued_def w'(1) i by (auto simp: order_le_less)
  moreover have "sim_live w' = insert (u, i) (sim_live w)"
    unfolding sim_live_def w'(2) by (auto simp: update_conv' split: if_splits)
  ultimately show ?thesis by blast
qed

lemma sim_create_err:
  "CreateAuthToken (fakeOCIClient sim_get sim_put) u d w = (w', Inl x) \<Longrightarrow> sim_live w' = sim_live w \<and> sim_issued w' = sim_issued w"
  by (auto simp: fakeOCIClient_def on_part_def fake_create_def Let_def sim_live_def sim_issued_def user_tokens_def
      split: option.splits)

lemma sim_delete:
  assumes "DeleteAuthToken (fakeOCIClient sim_get sim_put) u i w = (w', e)"
  shows "mem_view w' = mem_view w \<and> sim_issued w' = sim_issued w \<and> sim_live w - {(u, i)} \<subseteq> sim_live w' \<and> sim_live w' \<subseteq> sim_live w"
    and "e = None \<Longrightarrow> (u, i) \<notin> sim_live w'"
  using assms by (auto simp: fakeOCIClient_def on_part_def fake_delete_def sim_live_def sim_issued_def user_tokens_def
      update_conv' delete_conv' split: option.splits prod.splits if_splits)

lemma sim_quiet:
  "CreateAuthToken (fakeOCIClient sim_get sim_put) u d w = (w', rc) \<Longrightarrow> mem_view w' = mem_view w"
  "ListAuthTokens (fakeOCIClient sim_get sim_put) u w = (w', rl) \<Longrightarrow>
     mem_view w' = mem_view w \<and> sim_issued w' = sim_issued w \<and> sim_live w' = sim_live w"
  "GetUser (fakeOCIClient sim_get sim_put) u w = (w', e) \<Longrightarrow>
     mem_view w' = mem_view w \<and> sim_issued w' = sim_issued w \<and> sim_live w' = sim_live w"
  by (auto simp: fakeOCIClient_def on_part_def fake_list_def fake_get_user_def sim_live_def sim_issued_def user_tokens_def
      split: option.splits prod.splits)

lemma sim_store:
  "kput mem_kv w k v = (w', e) \<Longrightarrow> sim_live w' = sim_live w \<and> sim_issued w' = sim_issued w"
  "kdel mem_kv w k = (w', e) \<Longrightarrow> sim_live w' = sim_live w \<and> sim_issued w' = sim_issued w"
  by (auto simp: mem_kv_def sim_live_def sim_issued_def sim_get_def split: prod.splits)

interpretation sim: oci_honest sim_env mem_view sim_live sim_issued
proof (intro oci_honest.intro oci_world.intro)
  have kv: "oeKV sim_env = mem_kv" by (simp add: sim_env_def)
  show "oci_honest_axioms sim_env mem_view"
    unfolding oci_honest_axioms_def kv by (simp add: mem_kv_def split: prod.splits)
  show "kv_store (oeKV sim_env) mem_view" by (simp add: kv mem.kv_store_axioms)
  show "oci_world_axioms sim_env mem_view sim_live sim_issued"
    unfolding oci_world_axioms_def sim_client kv
    by (intro conjI; intro allI impI)
      (erule sim_store(1), erule sim_store(2), erule sim_quiet(1), drule sim_create_err, simp, erule sim_create_ok,
        erule sim_delete(1), erule sim_delete(2), rule refl, erule sim_quiet(2), erule sim_quiet(3))
qed

end
