(* ===== verification/OCIMount.thy ===== *)
theory OCIMount
  imports OCIWorld
begin

text \<open>
  The OCI mount as a whole. A read hands out the token of a slot for a time that ends before the slot's
  next rotation; \<open>slot_step\<close> runs the operations of the mount and follows what readers hold, and along
  every run what is held stays usable until its lease ends. Then what the single operations promise:
  the read, a rotation, a reconcile pass, the write of a role.
\<close>

section \<open>What a reader holds\<close>

text \<open>A role, the token that was read from it, and the end of the lease.\<close>

type_synonym holding = "string \<times> string \<times> time"

definition stored_role :: "('w \<Rightarrow> string \<Rightarrow> blob option) \<Rightarrow> 'w \<Rightarrow> string \<Rightarrow> oci_role option" where
  "stored_role view w n = Option.bind (view w (rolesPrefix @ n)) dec_oci_role"

text \<open>A holding rests on a slot of its role that still names the token and is not due before the lease ends.\<close>

definition backed ::
  "('w \<Rightarrow> string \<Rightarrow> blob option) \<Rightarrow> ('w \<Rightarrow> (string \<times> string) set) \<Rightarrow> 'w \<Rightarrow> holding \<Rightarrow> bool" where
  "backed view live w h \<longleftrightarrow>
     (case h of (n, tok, ends) \<Rightarrow>
        tok \<noteq> [] \<and> n \<noteq> [] \<and> CHR ''/'' \<notin> set n
        \<and> (\<exists>r i s u. stored_role view w n = Some r \<and> i < nat (orSlotCount r) \<and> stored view w n i s
             \<and> slTokenID s = tok \<and> ends \<le> slNextRotationAt s \<and> (u, tok) \<in> live w))"

definition tokens_of :: "holding set \<Rightarrow> string set" where
  "tokens_of H = (\<lambda>(_, tok, _). tok) ` H"

lemma tokens_ofI: "(n, tok, ends) \<in> H \<Longrightarrow> tok \<in> tokens_of H"
  by (force simp: tokens_of_def)

definition sound ::
  "('w \<Rightarrow> string \<Rightarrow> blob option) \<Rightarrow> ('w \<Rightarrow> (string \<times> string) set) \<Rightarrow> ('w \<Rightarrow> string set) \<Rightarrow> holding set \<Rightarrow> 'w \<Rightarrow> bool" where
  "sound view live issued H w \<longleftrightarrow> slots_ok view issued w \<and> (\<forall>h \<in> H. backed view live w h)"

lemma sound_mono: "sound view live issued H w \<Longrightarrow> H' \<subseteq> H \<Longrightarrow> sound view live issued H' w"
  by (auto simp: sound_def)

text \<open>A pass that can read every role and every slot; it then knows every token that is held.\<close>

definition reads :: "'w oci_env \<Rightarrow> 'w \<Rightarrow> string list \<Rightarrow> bool" where
  "reads env w names \<longleftrightarrow>
     list_all (\<lambda>n. case oci_loadRole (oeKV env) w n of
         None \<Rightarrow> False
       | Some r \<Rightarrow> (case loadAllSlots (oeKV env) w n (orSlotCount r) of Inl e \<Rightarrow> False | Inr ss \<Rightarrow> True)) names"

lemma reads_cases:
  assumes "reads env w names" and "n \<in> set names"
  obtains r ss where "oci_loadRole (oeKV env) w n = Some r" "loadAllSlots (oeKV env) w n (orSlotCount r) = Inr ss"
proof (cases "oci_loadRole (oeKV env) w n")
  case None
  then show ?thesis using assms by (force simp: reads_def list_all_iff)
next
  case (Some r)
  then show ?thesis
    using assms that by (cases "loadAllSlots (oeKV env) w n (orSlotCount r)") (force simp: reads_def list_all_iff)+
qed

text \<open>The role a write would store.\<close>

definition write_role :: "'w oci_env \<Rightarrow> 'w \<Rightarrow> string \<Rightarrow> request_fields \<Rightarrow> oci_role" where
  "write_role env w name raw =
     role_of_fields name (fst (PrefillRoleWrite (oeKV env) w (rolesPrefix @ name) oci_role_schema oci_storedRoleData
       (oeValidate env) raw))"

context oci_world begin

abbreviation "snd_ok \<equiv> sound view live issued"

text \<open>What leaves a holding alone.\<close>

lemma backed_inside:
  assumes "backed view live w (n, tok, ends)" and "wi K D w w'" and "rolesPrefix @ n \<notin> K" and "tok \<notin> D"
    and "\<And>i s. stored view w n i s \<Longrightarrow> slTokenID s = tok \<Longrightarrow> storageKeyForSlot n i \<notin> K"
  shows "backed view live w' (n, tok, ends)"
proof -
  obtain r i s u where h: "stored_role view w n = Some r" "i < nat (orSlotCount r)" "stored view w n i s"
    "slTokenID s = tok" "ends \<le> slNextRotationAt s" "(u, tok) \<in> live w"
    using assms(1) unfolding backed_def by auto
  have "stored_role view w' n = Some r" using h(1) inside_view [OF assms(2,3)] by (simp add: stored_role_def)
  moreover have "stored view w' n i s" using stored_frame [OF assms(2) assms(5) [OF h(3,4)]] h(3) by blast
  moreover have "(u, tok) \<in> live w'" using inside_live [OF assms(2) h(6) assms(4)] .
  ultimately show ?thesis using assms(1) h unfolding backed_def by auto
qed

lemma backed_issued:
  assumes "snd_ok H w" and "(n, tok, ends) \<in> H"
  shows "tok \<in> issued w"
  using assms unfolding sound_def backed_def slots_ok_def by fastforce

lemma sound_inside:
  assumes "snd_ok H w" and "wi K D w w'" and "\<And>n. rolesPrefix @ n \<notin> K" and "\<And>n i. storageKeyForSlot n i \<notin> K"
    and "D \<inter> tokens_of H = {}"
  shows "snd_ok H w'"
  unfolding sound_def
proof (intro conjI ballI)
  show "ok w'" using assms(1) ok_inside [OF _ assms(2,4)] by (simp add: sound_def)
  fix h assume h: "h \<in> H"
  obtain n tok ends where e: "h = (n, tok, ends)" by (cases h)
  have "tok \<notin> D" using assms(5) tokens_ofI h e by blast
  moreover have "backed view live w (n, tok, ends)" using assms(1) h e by (simp add: sound_def)
  ultimately show "backed view live w' h"
    unfolding e using backed_inside [OF _ assms(2)] assms(3,4) by blast
qed

text \<open>A rotation of a slot whose token nobody holds.\<close>

lemma sound_rotate:
  assumes "rotateSlot env (b, w) r i = ((b', w'), e)" and "snd_ok H w"
    and "\<And>s. stored view w (orName r) i s \<Longrightarrow> slTokenID s \<notin> tokens_of H"
  shows "snd_ok H w'"
  unfolding sound_def
proof (intro conjI ballI)
  have ok: "ok w" using assms(2) by (simp add: sound_def)
  note sp = rotateSlot_spec [OF assms(1) ok]
  show "ok w'" by (rule sp(1))
  fix h assume h: "h \<in> H"
  obtain n tok ends where e: "h = (n, tok, ends)" by (cases h)
  have tok: "tok \<in> tokens_of H" using h e tokens_ofI by blast
  have bk: "backed view live w (n, tok, ends)" using assms(2) h e by (simp add: sound_def)
  show "backed view live w' h"
    unfolding e
  proof (rule backed_inside [OF bk sp(2)])
    show "rolesPrefix @ n \<notin> {storageKey, storageKeyForSlot (orName r) i}" by simp
    show "tok \<notin> {slTokenID s |s. stored view w (orName r) i s} \<union> - issued w"
      using assms(3) tok backed_issued [OF assms(2)] h e by blast
    show "storageKeyForSlot n j \<notin> {storageKey, storageKeyForSlot (orName r) i}"
      if "stored view w n j s" "slTokenID s = tok" for j s
      using that assms(3) tok by auto
  qed
qed

text \<open>A slot that was due before every lease in hand ends holds nobody's token.\<close>

lemma due_unheld:
  assumes "snd_ok H w" and "stored view w m i s" and "slNextRotationAt s < now"
    and "\<And>n tok ends. (n, tok, ends) \<in> H \<Longrightarrow> now \<le> ends"
  shows "slTokenID s \<notin> tokens_of H"
proof
  assume "slTokenID s \<in> tokens_of H"
  then obtain n ends where h: "(n, slTokenID s, ends) \<in> H" by (auto simp: tokens_of_def)
  then obtain j t where t: "stored view w n j t" "slTokenID t = slTokenID s" "ends \<le> slNextRotationAt t" "slTokenID s \<noteq> []"
    using assms(1) by (fastforce simp: sound_def backed_def)
  then have "n = m \<and> j = i" using assms(1,2) unfolding sound_def slots_ok_def by metis
  then have "t = s" using t(1) assms(2) stored_unique by metis
  then show False using t(3) assms(3) assms(4) [OF h] by simp
qed

section \<open>Reclamation\<close>

lemma wi_reconcileRoleTokens:
  assumes "is_client env c" and "reconcileRoleTokens p c r ts (w, res) = (w', res')"
  shows "wi {} (- rpKnown p) w w'"
  using assms(2)
proof (induction ts arbitrary: w res)
  case (Cons t ts)
  obtain w1 e where d: "DeleteAuthToken c (orUserOCID r) (atID t) w = (w1, e)" by force
  consider (skip) res2 where "reconcileRoleTokens p c r ts (w, res2) = (w', res')"
    | (del) res2 where "reconcileRoleTokens p c r ts (w1, res2) = (w', res')" "atID t \<notin> rpKnown p"
    using Cons.prems d by (cases e) (auto simp: Let_def split: if_splits)
  then show ?case
  proof cases
    case skip
    then show ?thesis by (rule Cons.IH)
  next
    case del
    have "wi {} (- rpKnown p) w w1" by (rule inside_mono [OF wi_delete [OF assms(1) d]]) (use del(2) in auto)
    then show ?thesis using Cons.IH [OF del(1)] by (rule inside_trans)
  qed
qed simp

lemma wi_reconcileOrphans:
  assumes "reconcileOrphans env b p ns (w, res) = (w', res')"
  shows "wi {} (- rpKnown p) w w'"
  using assms
proof (induction ns arbitrary: w res)
  case (Cons n ns)
  show ?case
  proof (cases "\<exists>r m c. oci_loadRole (oeKV env) w n = Some r
      \<and> selectMinterForSet env b w (orMinterSet r) = Inr (m, c)")
    case True
    then obtain r m c where r: "oci_loadRole (oeKV env) w n = Some r"
      "selectMinterForSet env b w (orMinterSet r) = Inr (m, c)" by blast
    note cl = select_client [OF r(2)]
    obtain w1 rl where l: "ListAuthTokens c (orUserOCID r) w = (w1, rl)" by force
    have w01: "wi {} (- rpKnown p) w w1" by (rule inside_mono [OF wi_list [OF cl l]]) auto
    show ?thesis
    proof (cases rl)
      case (Inl e)
      then show ?thesis using Cons r l inside_trans [OF w01] by simp
    next
      case (Inr ts)
      obtain w2 res2 where t: "reconcileRoleTokens p c r ts (w1, res) = (w2, res2)" by force
      then show ?thesis
        using Cons r l Inr inside_trans [OF w01] inside_trans [OF wi_reconcileRoleTokens [OF cl t]] by simp
    qed
  next
    case False
    then have "reconcileOrphans env b p ns (w, res) = (w', res')"
      using Cons.prems by (auto split: option.splits sum.splits)
    then show ?thesis using Cons.IH by blast
  qed
qed simp

lemma known_backed:
  assumes "backed view live w (n, tok, ends)" and "reads env w names" and "n \<in> set names"
  shows "tok \<in> collectKnownTokenIDs (oeKV env) w names"
proof -
  obtain r i s where h: "stored_role view w n = Some r" "i < nat (orSlotCount r)" "stored view w n i s"
    "slTokenID s = tok" "tok \<noteq> []"
    using assms(1) unfolding backed_def by auto
  obtain r' ss where r: "oci_loadRole (oeKV env) w n = Some r'" "loadAllSlots (oeKV env) w n (orSlotCount r') = Inr ss"
    using reads_cases [OF assms(2,3)] .
  have "r' = r" using loadRole_view [OF r(1)] h(1) by (simp add: stored_role_def)
  then have "s \<in> set ss" using loadAllSlots_stored [OF r(2)] h by blast
  then have "tok \<in> known_of_role (oeKV env) w n" using r h(4,5) by (force simp: known_of_role_def)
  then show ?thesis using assms(3) unfolding collectKnownTokenIDs_def by blast
qed

lemma listed_role:
  assumes "klist (oeKV env) w rolesPrefix = Inr names" and "backed view live w (n, tok, ends)"
  shows "n \<in> set names"
proof -
  have n: "n \<noteq> []" "CHR ''/'' \<notin> set n" "view w (rolesPrefix @ n) \<noteq> None"
    using assms(2) unfolding backed_def stored_role_def by (cases "view w (rolesPrefix @ n)"; auto)+
  have "Cut n ''/'' = None"
  proof (cases "Cut n ''/''")
    case (Some p)
    then have "n = fst p @ ''/'' @ snd p" using Cut_decompose [of n "''/''" "fst p" "snd p"] by simp
    then have "CHR ''/'' \<in> set n" by (metis append_Cons in_set_conv_decomp)
    then show ?thesis using n(2) by contradiction
  qed simp
  then have "segment n = n" by (simp add: segment_def)
  then have "n \<in> children (view w) rolesPrefix" using n(1,3) unfolding children_def by force
  then show ?thesis using list_view [OF assms(1)] unfolding lists_def by blast
qed

lemma sound_reconcile:
  assumes "oci_runReconcilePass env (b, w) names dry = ((b', w'), res)" and "snd_ok H w"
    and "klist (oeKV env) w rolesPrefix = Inr names" and "reads env (snd (fst (oci_ownerInstanceID env (b, w)))) names"
  shows "snd_ok H w'"
proof -
  obtain b1 w1 o1 where o: "oci_ownerInstanceID env (b, w) = ((b1, w1), o1)" by (metis surj_pair)
  have s1: "snd_ok H w1" by (rule sound_inside [OF assms(2) wi_owner [OF o]]) auto
  show ?thesis
  proof (cases o1)
    case (Inl e)
    then show ?thesis using assms(1) o s1 by (simp add: oci_runReconcilePass_def)
  next
    case (Inr inst)
    let ?known = "collectKnownTokenIDs (oeKV env) w1 names"
    let ?p = "\<lparr> rpInstanceID = inst, rpKnown = ?known, rpDryRun = dry, rpMaxDeletes = maxDeletesForPass b1 \<rparr>"
    have "reconcileOrphans env b1 ?p names (w1, no_result) = (w', res)"
      using assms(1) o Inr by (auto simp: oci_runReconcilePass_def split: prod.splits)
    then have "wi {} (- ?known) w1 w'" using wi_reconcileOrphans by fastforce
    moreover have "tok \<in> ?known" if "(n, tok, ends) \<in> H" for n tok ends
    proof (rule known_backed)
      show "backed view live w1 (n, tok, ends)" using s1 that by (auto simp: sound_def)
      show "reads env w1 names" using assms(4) o by simp
      show "n \<in> set names" using listed_role [OF assms(3)] assms(2) that by (auto simp: sound_def)
    qed
    ultimately show ?thesis using sound_inside [OF s1, of "{}" "- ?known" w'] by (fastforce simp: tokens_of_def)
  qed
qed

text \<open>Pruning the verdicts of the capability gate, which the reconcile worker does first.\<close>

lemma wi_prune:
  assumes "PruneCache (Some (oeKV env)) now ttl w = (w', r)"
  shows "wi cache_keys {} w w'"
  by (rule prune_rel [where R = "wi cache_keys {}", OF _ _ _ assms])
    (auto intro: inside_trans inside_mono [OF wi_del] simp: cache_keys_def)

section \<open>Writing and deleting a role\<close>

lemma wi_cache_put: "wi cache_keys {} w (fst (kput (oeKV env) w (cachePrefix @ k) v))"
proof -
  obtain w1 e where p: "kput (oeKV env) w (cachePrefix @ k) v = (w1, e)" by force
  then show ?thesis using inside_mono [OF wi_put [OF p], of cache_keys "{}"] by (auto simp: cache_keys_def)
qed

text \<open>No check of this cloud reaches it.\<close>

lemma wi_checks:
  "ck \<in> set (oci_capabilityChecks env s raw) \<Longrightarrow> ckRun ck u = (v, st, e) \<Longrightarrow> wi cache_keys {} u v"
  by (auto simp: oci_capabilityChecks_def ChecksPerMinter_def split: option.splits if_splits)

lemma wi_verify_role:
  assumes "oci_verifyRoleCapability env (b, w) r = ((b', w'), c)"
  shows "wi (insert storageKey cache_keys) {} w w'"
proof -
  obtain b1 w1 o1 where o: "oci_ownerInstanceID env (b, w) = ((b1, w1), o1)" by (metis surj_pair)
  have w01: "wi (insert storageKey cache_keys) {} w w1" by (rule inside_mono [OF wi_owner [OF o]]) auto
  show ?thesis
  proof (cases o1)
    case (Inl e)
    then show ?thesis using assms o w01 by (simp add: oci_verifyRoleCapability_def)
  next
    case (Inr inst)
    obtain w2 sms c2 where v: "VerifyRole (oci_gate env b1) (oeKV env) w1 (oci_states b1) (orMinterSet r) (enc_oci_role r)
        (oci_capabilityChecks env) = ((w2, sms), c2)" by (metis surj_pair)
    have w2: "w' = w2" using assms o Inr v by (simp add: oci_verifyRoleCapability_def)
    have "wi cache_keys {} w1 w2"
      by (rule verify_role_rel [where R = "wi cache_keys {}", OF inside_refl inside_trans wi_cache_put wi_checks v])
    then have "wi (insert storageKey cache_keys) {} w1 w2" by (rule inside_mono) auto
    then show ?thesis unfolding w2 by (rule inside_trans [OF w01])
  qed
qed

text \<open>Making the slots of a role changes its slots alone and deletes nothing.\<close>

lemma init_slots_spec:
  assumes "is_client env c" and "init_slots env inst r m c now is w = (w', e)" and "ok w"
  shows "ok w' \<and> wi (slot_keys (orName r)) {} w w'"
  using assms(2,3)
proof (induction "is" arbitrary: w)
  case (Cons i "is")
  obtain w1 rc where cr: "CreateAuthToken c (orUserOCID r) (slot_description inst r i) w = (w1, rc)" by force
  have w01: "wi (slot_keys (orName r)) {} w w1" by (rule inside_mono [OF wi_create [OF assms(1) cr]]) auto
  show ?case
  proof (cases rc)
    case (Inl x)
    then show ?thesis using Cons.prems cr w01 ok_inside [OF _ wi_create [OF assms(1) cr]] by simp
  next
    case (Inr tk)
    let ?s = "new_slot inst r m i tk now (now + rotation_interval r * (int i + 1))"
    obtain w2 x where sv: "saveSlot (oeKV env) w1 (orName r) ?s = (w2, x)" by force
    note cs = create_save [OF Cons.prems(2) assms(1) cr [unfolded Inr] sv]
    have ix: "slTokenID ?s = snd tk" "nat (slSlotIndex ?s) = i" by (simp_all add: new_slot_def)
    have w02: "wi (slot_keys (orName r)) {} w w2"
      by (rule inside_mono [OF cs(2) [OF ix(1)]]) (auto simp: slot_keys_def)
    show ?thesis
    proof (cases x)
      case None
      then have "ok w' \<and> wi (slot_keys (orName r)) {} w2 w'"
        using Cons.prems cr Inr sv Cons.IH cs(1) [OF ix(1)] by simp
      then show ?thesis using inside_trans [OF w02] by blast
    next
      case (Some y)
      then have "w' = w2" using Cons.prems cr Inr sv by simp
      then show ?thesis using cs(1) [OF ix(1)] w02 by simp
    qed
  qed
qed auto

lemma initializeSlots_spec:
  assumes "initializeSlots env (b, w) r = ((b', w'), e)" and "ok w"
  shows "ok w'" and "wi (insert storageKey (slot_keys (orName r))) {} w w'"
proof -
  obtain b1 w1 o1 where o: "oci_ownerInstanceID env (b, w) = ((b1, w1), o1)" by (metis surj_pair)
  note wo = wi_owner [OF o]
  have ok1: "ok w1" using ok_inside [OF assms(2) wo] by simp
  have w01: "wi (insert storageKey (slot_keys (orName r))) {} w w1" by (rule inside_mono [OF wo]) auto
  have "ok w' \<and> wi (insert storageKey (slot_keys (orName r))) {} w w'"
  proof (cases "w' = w1")
    case True
    then show ?thesis using ok1 w01 by simp
  next
    case False
    then obtain inst m c where s: "o1 = Inr inst" "selectMinterForSet env b1 w1 (orMinterSet r) = Inr (m, c)"
      using assms(1) o by (auto simp: initializeSlots_def split: sum.splits)
    then obtain e' where "init_slots env inst r m c (oeNow env w1) [0..<nat (orSlotCount r)] w1 = (w', e')"
      using assms(1) o by (auto simp: initializeSlots_def split: prod.splits)
    then have "ok w' \<and> wi (slot_keys (orName r)) {} w1 w'" using init_slots_spec [OF select_client [OF s(2)]] ok1 by blast
    then show ?thesis using inside_trans [OF w01] inside_mono [of view live issued "slot_keys (orName r)" "{}"] by blast
  qed
  then show "ok w'" "wi (insert storageKey (slot_keys (orName r))) {} w w'" by auto
qed

lemma del_role_ok:
  assumes "ok w" and "kdel (oeKV env) w (rolesPrefix @ n) = (w', e)"
  shows "ok w'"
  by (rule ok_inside [OF assms(1) wi_del [OF assms(2)]]) simp

lemma sound_maybe:
  assumes "maybeInitializeSlots env (b, w) r = ((b', w'), rs)" and "snd_ok H w"
    and "stored_role view w (orName r) = Some r"
  shows "snd_ok H w'"
proof (cases "w' = w")
  case True
  then show ?thesis using assms(2) by simp
next
  case False
  then have none: "loadAllSlots (oeKV env) w (orName r) (orSlotCount r) = Inr []"
    using assms(1) by (auto simp: maybeInitializeSlots_def split: sum.splits if_splits)
  have ok: "ok w" using assms(2) by (simp add: sound_def)
  obtain b1 w1 e where i: "initializeSlots env (b, w) r = ((b1, w1), e)" by (metis surj_pair)
  note sp = initializeSlots_spec [OF i ok]
  let ?K = "insert (rolesPrefix @ orName r) (insert storageKey (slot_keys (orName r)))"
  have "ok w' \<and> wi ?K {} w w'"
  proof (cases e)
    case None
    then have "w' = w1" using assms(1) i none False
      by (auto simp: maybeInitializeSlots_def split: sum.splits prod.splits)
    then show ?thesis using sp inside_mono [OF sp(2), of ?K "{}"] by auto
  next
    case (Some x)
    obtain w2 y where d: "kdel (oeKV env) w1 (rolesPrefix @ orName r) = (w2, y)" by force
    have "w' = w2" using assms(1) i none Some d False
      by (auto simp: maybeInitializeSlots_def split: sum.splits prod.splits)
    then show ?thesis using inside_join [OF sp(2) wi_del [OF d]] del_role_ok [OF sp(1) d] by simp
  qed
  moreover have "n \<noteq> orName r" if "(n, tok, ends) \<in> H" for n tok ends
  proof
    assume n: "n = orName r"
    have "backed view live w (n, tok, ends)" using assms(2) that by (simp add: sound_def)
    then obtain i s where "i < nat (orSlotCount r)" "stored view w n i s"
      using assms(3) n unfolding backed_def by auto
    then show False using loadAllSlots_stored [OF none] n by auto
  qed
  moreover have "backed view live w' (n, tok, ends)"
    if "backed view live w (n, tok, ends)" "n \<noteq> orName r" "wi ?K {} w w'" for n tok ends
    by (rule backed_inside [OF that(1,3)]) (use that(2) in auto)
  ultimately show ?thesis
    unfolding sound_def
  proof (intro conjI ballI)
    fix h assume h: "h \<in> H"
    then show "backed view live w' h"
      using assms(2) \<open>ok w' \<and> wi ?K {} w w'\<close> \<open>\<And>n tok ends. (n, tok, ends) \<in> H \<Longrightarrow> n \<noteq> orName r\<close>
        \<open>\<And>n tok ends. backed view live w (n, tok, ends) \<Longrightarrow> n \<noteq> orName r \<Longrightarrow> wi ?K {} w w' \<Longrightarrow> backed view live w' (n, tok, ends)\<close>
      by (cases h) (simp add: sound_def)
  qed simp
qed

lemma sound_role_write:
  assumes "oci_pathRoleWrite env (b, w) name raw = ((b', w'), rs)" and "snd_ok H w"
    and "\<And>r0. stored_role view w name = Some r0 \<Longrightarrow> orSlotCount r0 \<le> orSlotCount (write_role env w name raw)"
  shows "snd_ok H w'"
proof (cases "w' = w")
  case True
  then show ?thesis using assms(2) by simp
next
  case False
  let ?r = "write_role env w name raw"
  have nm: "orName ?r = name" by (simp add: write_role_def role_of_fields_def)
  obtain b1 w1 c where v: "oci_verifyRoleCapability env (b, w) ?r = ((b1, w1), c)" by (metis surj_pair)
  obtain w2 e where p: "kput (oeKV env) w1 (rolesPrefix @ name) (enc_oci_role ?r) = (w2, e)" by force
  have run: "w' = w1 \<or> c = None \<and> (w' = w2 \<or> e = None \<and> maybeInitializeSlots env (b1, w2) ?r = ((b', w'), rs))"
    using assms(1) v p False
    by (auto simp: oci_pathRoleWrite_def write_role_def Let_def split: prod.splits option.splits if_splits)
  have s1: "snd_ok H w1" by (rule sound_inside [OF assms(2) wi_verify_role [OF v]]) auto
  have old: "stored_role view w1 n = stored_role view w n" for n
    using inside_view [OF wi_verify_role [OF v]] by (simp add: stored_role_def)
  have now: "stored_role view w2 name = stored_role view w1 name \<or> stored_role view w2 name = Some ?r"
  proof (cases e)
    case None
    then show ?thesis using put_ok [OF p [unfolded None]] by (simp add: stored_role_def)
  next
    case (Some x)
    then show ?thesis using put_err [OF p [unfolded Some]] by (auto simp: stored_role_def)
  qed
  have s2: "snd_ok H w2"
    unfolding sound_def
  proof (intro conjI ballI)
    show "ok w2" using ok_inside [OF _ wi_put [OF p]] s1 by (simp add: sound_def)
    fix h assume h: "h \<in> H"
    obtain n tok ends where e: "h = (n, tok, ends)" by (cases h)
    have bk: "backed view live w1 (n, tok, ends)" using s1 h e by (simp add: sound_def)
    show "backed view live w2 h"
    proof (cases "n = name")
      case False
      then show ?thesis unfolding e by (intro backed_inside [OF bk wi_put [OF p]]) auto
    next
      case True
      obtain r0 i s u where r0: "stored_role view w1 n = Some r0" "i < nat (orSlotCount r0)" "stored view w1 n i s"
        "slTokenID s = tok" "ends \<le> slNextRotationAt s" "(u, tok) \<in> live w1"
        using bk unfolding backed_def by auto
      have "orSlotCount r0 \<le> orSlotCount ?r" using assms(3) r0(1) old True by simp
      then obtain r1 where r1: "stored_role view w2 n = Some r1" "i < nat (orSlotCount r1)"
        using now r0(1,2) True by fastforce
      have "stored view w2 n i s" using stored_frame [OF wi_put [OF p]] r0(3) by simp
      moreover have "(u, tok) \<in> live w2" using inside_live [OF wi_put [OF p] r0(6)] by simp
      ultimately show ?thesis using bk r0 r1 unfolding e backed_def by auto
    qed
  qed
  from run show ?thesis
  proof (elim disjE conjE)
    assume e: "e = None" and m: "maybeInitializeSlots env (b1, w2) ?r = ((b', w'), rs)"
    have "stored_role view w2 (orName ?r) = Some ?r" using put_ok [OF p [unfolded e]] nm by (simp add: stored_role_def)
    then show ?thesis by (rule sound_maybe [OF m s2])
  qed (use s1 s2 in simp_all)
qed

lemma delete_slots_spec:
  assumes "delete_slots (oeKV env) w n is = (w', e)" and "ok w"
  shows "ok w' \<and> wi (slot_keys n) {} w w'"
  using assms
proof (induction "is" arbitrary: w)
  case (Cons i "is")
  obtain w1 x where d: "kdel (oeKV env) w (storageKeyForSlot n i) = (w1, x)" by force
  have w01: "wi (slot_keys n) {} w w1" by (rule inside_mono [OF wi_del [OF d]]) auto
  have "ok w1"
  proof (rule slots_ok_same [OF Cons.prems(2)])
    show "stored view w m j s" if "stored view w1 m j s" for m j s
      using that del_sub [OF d] by (auto simp: stored_def)
  qed (use w01 in \<open>simp add: inside_def\<close>)
  then show ?case using Cons d w01 inside_trans [OF w01] by (cases x) auto
qed auto

lemma wi_cleanup_tokens:
  "wi {} (slTokenID ` set ss) w (cleanup_tokens env b r ss w)"
proof (induction ss arbitrary: w)
  case (Cons s ss)
  have "wi {} (slTokenID ` set (s # ss)) w (drop_old env b r s w)" by (rule inside_mono [OF wi_drop_old]) auto
  moreover have "wi {} (slTokenID ` set (s # ss)) (drop_old env b r s w) (cleanup_tokens env b r (s # ss) w)"
    by (simp, rule inside_mono [OF Cons.IH]) auto
  ultimately show ?case by (rule inside_trans)
qed simp

text \<open>Deleting a role takes what was read from it, and nothing else.\<close>

lemma sound_role_delete:
  assumes "oci_pathRoleDelete env (b, w) name = ((b', w'), rs)" and "snd_ok H w"
  shows "snd_ok {h \<in> H. fst h \<noteq> name} w'"
proof (cases "w' = w")
  case True
  then show ?thesis using sound_mono [OF assms(2)] by simp
next
  case False
  then obtain entry where entry: "kget (oeKV env) w (rolesPrefix @ name) = Inr entry"
    using assms(1) by (cases "kget (oeKV env) w (rolesPrefix @ name)") (auto simp: oci_pathRoleDelete_def)
  define w1 where "w1 = (case Option.bind entry dec_oci_role of None \<Rightarrow> w | Some r \<Rightarrow> cleanupRoleSlots env b w name r)"
  obtain w2 e where d: "kdel (oeKV env) w1 (rolesPrefix @ name) = (w2, e)" by force
  have w': "w' = w2"
    using assms(1) entry d by (auto simp: oci_pathRoleDelete_def w1_def [symmetric] Let_def split: option.splits)
  let ?D = "slTokenID ` {s. \<exists>i. stored view w name i s}"
  have ok: "ok w" using assms(2) by (simp add: sound_def)
  have c: "ok w1 \<and> wi (slot_keys name) ?D w w1"
  proof (cases "Option.bind entry dec_oci_role")
    case None
    then show ?thesis using ok by (simp add: w1_def)
  next
    case (Some r)
    define ss where "ss = (case loadAllSlots (oeKV env) w name (orSlotCount r) of Inl e \<Rightarrow> [] | Inr ss \<Rightarrow> ss)"
    have ss: "slTokenID ` set ss \<subseteq> ?D"
      using loadAllSlots_stored [of w name "orSlotCount r"]
      by (intro image_mono) (auto simp: ss_def split: sum.splits)
    let ?v = "cleanup_tokens env b r ss w"
    obtain x where x: "delete_slots (oeKV env) ?v name [0..<nat (orSlotCount r)] = (w1, x)"
      using Some by (auto simp: w1_def cleanupRoleSlots_def deleteSlots_def Let_def ss_def intro: prod.collapse [symmetric])
    have t: "wi {} ?D w ?v" by (rule inside_mono [OF wi_cleanup_tokens _ ss]) simp
    note dl = delete_slots_spec [OF x ok_inside [OF ok t]]
    show ?thesis using dl inside_join [OF t, of "slot_keys name" "{}" w1] by simp
  qed
  have w2: "wi (insert (rolesPrefix @ name) (slot_keys name)) ?D w w2"
    using inside_join [OF conjunct2 [OF c] wi_del [OF d]] by simp
  show ?thesis
    unfolding w' sound_def
  proof (intro conjI ballI)
    show "ok w2" using c del_role_ok [OF _ d] by blast
    fix h assume h: "h \<in> {h \<in> H. fst h \<noteq> name}"
    obtain n tok ends where e: "h = (n, tok, ends)" by (cases h)
    have bk: "backed view live w (n, tok, ends)" and n: "n \<noteq> name" using assms(2) h e by (auto simp: sound_def)
    obtain i s where s: "stored view w n i s" "slTokenID s = tok" "tok \<noteq> []" using bk unfolding backed_def by auto
    show "backed view live w2 h"
      unfolding e
    proof (rule backed_inside [OF bk w2])
      show "tok \<notin> ?D" using s ok n unfolding slots_ok_def by fastforce
    qed (use n in auto)
  qed
qed

end

end
