(* ===== verification/OCIServed.thy ===== *)
theory OCIServed
  imports OCIMount
begin

text \<open>
  What whole operations of the OCI mount may touch, and the slots a reader could be served from: \<open>ready\<close>.
  \<open>sure\<close> says that each of them, like everything that is held, names a token that exists upstream; every
  operation keeps it, on a store whose refused writes store nothing.
\<close>

section \<open>What operations may touch\<close>

text \<open>A role as a write accepts it.\<close>

definition oci_role_ok :: "string \<Rightarrow> oci_role \<Rightarrow> bool" where
  "oci_role_ok n r \<longleftrightarrow>
     orName r = n \<and> orUserOCID r \<noteq> [] \<and> orMinterSet r \<noteq> [] \<and> 1 \<le> orSlotCount r \<and> orSlotCount r \<le> 2
     \<and> hour \<le> orRotationPeriod r \<and> 0 < orDefaultTTL r \<and> orDefaultTTL r \<le> orMaxTTL r
     \<and> orDefaultTTL r \<le> rotation_interval r
     \<and> ParseIdentityRequirement (orRequireCallerIdentity r) \<noteq> None
     \<and> ParseLineageRequirement (orRequireCallerLineage r) \<noteq> None"

text \<open>A write that gets past the checks has a well-formed role.\<close>

lemma oci_role_write_cases:
  assumes "oci_pathRoleWrite env (b, w) n raw = ((b', w'), rs)"
  obtains (refused) "w' = w" "\<exists>c. rs = Inr (RespErr c)"
  | (verified) c b1 where "oci_verifyRoleCapability env (b, w) (write_role env w n raw) = ((b1, w'), Some c)" "rs = Inr (RespErr c)"
  | (put) b1 w1 e where "oci_verifyRoleCapability env (b, w) (write_role env w n raw) = ((b1, w1), None)"
      "oci_role_ok n (write_role env w n raw)"
      "kput (oeKV env) w1 (rolesPrefix @ n) (enc_oci_role (write_role env w n raw)) = (w', Some e)" "rs = Inr (RespErr ErrInternal)"
  | (stored) b1 w1 w2 where "oci_verifyRoleCapability env (b, w) (write_role env w n raw) = ((b1, w1), None)"
      "oci_role_ok n (write_role env w n raw)"
      "kput (oeKV env) w1 (rolesPrefix @ n) (enc_oci_role (write_role env w n raw)) = (w2, None)"
      "maybeInitializeSlots env (b1, w2) (write_role env w n raw) = ((b', w'), rs)"
proof -
  let ?r = "write_role env w n raw"
  have nm: "orName ?r = n" by (simp add: write_role_def role_of_fields_def)
  obtain d x where pre: "PrefillRoleWrite (oeKV env) w (rolesPrefix @ n) oci_role_schema oci_storedRoleData (oeValidate env) raw = (d, x)"
    by force
  have r: "role_of_fields n d = ?r" using pre by (simp add: write_role_def)
  obtain b1 w1 c where v: "oci_verifyRoleCapability env (b, w) ?r = ((b1, w1), c)" by (metis surj_pair)
  obtain w2 e where p: "kput (oeKV env) w1 (rolesPrefix @ n) (enc_oci_role ?r) = (w2, e)" by force
  show thesis
  proof (cases "x = None \<and> validateRoleWriteParams (oeKV env) w ?r = None
      \<and> ValidateRole \<lparr> roleName = n, roleCloud = ''oci'', DefaultTTL = orDefaultTTL ?r, MaxTTL = orMaxTTL ?r \<rparr>
      \<and> ParseIdentityRequirement (orRequireCallerIdentity ?r) \<noteq> None \<and> ParseLineageRequirement (orRequireCallerLineage ?r) \<noteq> None")
    case False
    then have "w' = w \<and> (\<exists>c. rs = Inr (RespErr c))" using assms pre r
      by (auto simp: oci_pathRoleWrite_def Let_def split: option.splits if_splits)
    then show thesis using refused by blast
  next
    case True
    then have ok: "oci_role_ok n ?r"
      by (auto simp: oci_role_ok_def nm validateRoleWriteParams_def ValidateRole_def maxSlotCount_def
          split: if_splits sum.splits option.splits)
    have run: "oci_pathRoleWrite env (b, w) n raw =
        (case c of Some c \<Rightarrow> ((b1, w1), Inr (RespErr c))
         | None \<Rightarrow> (case e of Some _ \<Rightarrow> ((b1, w2), Inr (RespErr ErrInternal)) | None \<Rightarrow> maybeInitializeSlots env (b1, w2) ?r))"
      using True pre r v p by (auto simp: oci_pathRoleWrite_def Let_def split: option.splits)
    show thesis
    proof (cases c)
      case (Some y)
      show thesis by (rule verified [of b1 y]) (use run assms Some v in auto)
    next
      case None
      show thesis
      proof (cases e)
        case (Some y)
        show thesis by (rule put [of b1 w1 y]) (use run assms None Some v p ok in auto)
      next
        case e: None
        show thesis by (rule stored [of b1 w1 w2]) (use run assms None e v p ok in auto)
      qed
    qed
  qed
qed

text \<open>The keys a write or a deletion of a role may change.\<close>

definition role_keys :: "string \<Rightarrow> string set" where
  "role_keys n = insert (rolesPrefix @ n) (insert storageKey (slot_keys n \<union> cache_keys))"

context oci_world begin

lemma maybe_cases:
  assumes "maybeInitializeSlots env (b, w) r = ((b', w'), rs)"
  obtains (skip) "w' = w" "b' = b" "rs = Inr RespNil \<or> (\<exists>e. rs = Inl e)"
  | (made) "initializeSlots env (b, w) r = ((b', w'), None)" "rs = Inr RespNil"
  | (gone) b1 w1 e x where "initializeSlots env (b, w) r = ((b1, w1), Some e)"
      "kdel (oeKV env) w1 (rolesPrefix @ orName r) = (w', x)" "\<exists>c. rs = Inr (RespErr c)"
proof -
  obtain b1 w1 e where i: "initializeSlots env (b, w) r = ((b1, w1), e)" by (metis surj_pair)
  obtain w2 x where d: "kdel (oeKV env) w1 (rolesPrefix @ orName r) = (w2, x)" by force
  show thesis
  proof (cases e)
    case None
    then show thesis using assms i skip made
      by (auto simp: maybeInitializeSlots_def split: sum.splits if_splits)
  next
    case (Some y)
    then show thesis using assms i d skip gone
      by (auto simp: maybeInitializeSlots_def split: sum.splits if_splits)
  qed
qed

lemma wi_init_slots:
  assumes "is_client env c" and "init_slots env inst r m c now is w = (w', e)"
  shows "wi (slot_keys (orName r)) {} w w'"
  using assms(2)
proof (induction "is" arbitrary: w)
  case (Cons i "is")
  obtain w1 rc where cr: "CreateAuthToken c (orUserOCID r) (slot_description inst r i) w = (w1, rc)" by force
  have w01: "wi (slot_keys (orName r)) {} w w1" by (rule inside_mono [OF wi_create [OF assms(1) cr]]) auto
  show ?case
  proof (cases rc)
    case (Inl x)
    then show ?thesis using Cons.prems cr w01 by simp
  next
    case (Inr tk)
    let ?s = "new_slot inst r m i tk now (now + rotation_interval r * (int i + 1))"
    obtain w2 x where sv: "saveSlot (oeKV env) w1 (orName r) ?s = (w2, x)" by force
    have w02: "wi (slot_keys (orName r)) {} w w2"
      by (rule inside_trans [OF w01 inside_mono [OF wi_save [OF sv]]]) (auto simp: slot_keys_def)
    have "w' = w2 \<or> init_slots env inst r m c now is w2 = (w', e)"
      using Cons.prems cr Inr sv by (cases x) simp_all
    then show ?thesis using w02 inside_trans [OF w02 Cons.IH] by (elim disjE) simp_all
  qed
qed simp

lemma initializeSlots_run:
  assumes "initializeSlots env (b, w) r = ((b', w'), e)"
  obtains (early) "wi {storageKey} {} w w'"
  | (made) w1 inst m c now where "wi {storageKey} {} w w1" and "is_client env c"
      and "init_slots env inst r m c now [0..<nat (orSlotCount r)] w1 = (w', e)"
proof -
  obtain b1 w1 o1 where o: "oci_ownerInstanceID env (b, w) = ((b1, w1), o1)" by (metis surj_pair)
  note wo = wi_owner [OF o]
  show thesis
  proof (cases "w' = w1")
    case True
    then show thesis using early wo by simp
  next
    case False
    then obtain inst m c where s: "o1 = Inr inst" "selectMinterForSet env b1 w1 (orMinterSet r) = Inr (m, c)"
      using assms o by (auto simp: initializeSlots_def split: sum.splits)
    then have "init_slots env inst r m c (oeNow env w1) [0..<nat (orSlotCount r)] w1 = (w', e)"
      using assms o by (auto simp: initializeSlots_def split: prod.splits)
    then show thesis by (rule made [OF wo select_client [OF s(2)]])
  qed
qed

lemma wi_initializeSlots:
  assumes "initializeSlots env (b, w) r = ((b', w'), e)"
  shows "wi (insert storageKey (slot_keys (orName r))) {} w w'"
  using assms
proof (cases rule: initializeSlots_run)
  case early
  then show ?thesis by (rule inside_mono) auto
next
  case (made w1 inst m c now)
  then show ?thesis using inside_join [OF made(1) wi_init_slots [OF made(2,3)]] by simp
qed

lemma wi_delete_slots:
  assumes "delete_slots (oeKV env) w n is = (w', e)"
  shows "wi (slot_keys n) {} w w'"
  using assms
proof (induction "is" arbitrary: w)
  case (Cons i "is")
  obtain w1 x where d: "kdel (oeKV env) w (storageKeyForSlot n i) = (w1, x)" by force
  have w01: "wi (slot_keys n) {} w w1" by (rule inside_mono [OF wi_del [OF d]]) auto
  then show ?case using Cons d inside_trans [OF w01] by (cases x) auto
qed simp

lemma wi_maybe:
  assumes "maybeInitializeSlots env (b, w) r = ((b', w'), rs)"
  shows "wi (role_keys (orName r)) {} w w'"
  using assms
proof (cases rule: maybe_cases)
  case skip
  then show ?thesis by simp
next
  case made
  show ?thesis by (rule inside_mono [OF wi_initializeSlots [OF made(1)]]) (auto simp: role_keys_def)
next
  case (gone b1 w1 e x)
  show ?thesis
    by (rule inside_mono [OF inside_join [OF wi_initializeSlots [OF gone(1)] wi_del [OF gone(2)]]])
      (auto simp: role_keys_def)
qed

lemma wi_role_write:
  assumes "oci_pathRoleWrite env (b, w) n raw = ((b', w'), rs)"
  shows "wi (role_keys n) {} w w'"
  using assms
proof (cases rule: oci_role_write_cases)
  case refused
  then show ?thesis by simp
next
  case (verified c b1)
  show ?thesis by (rule inside_mono [OF wi_verify_role [OF verified(1)]]) (auto simp: role_keys_def)
next
  case (put b1 w1 e)
  show ?thesis
    by (rule inside_mono [OF inside_join [OF wi_verify_role [OF put(1)] wi_put [OF put(3)]]]) (auto simp: role_keys_def)
next
  case (stored b1 w1 w2)
  have nm: "orName (write_role env w n raw) = n" by (simp add: write_role_def role_of_fields_def)
  show ?thesis
    by (rule inside_mono [OF inside_join [OF inside_join [OF wi_verify_role [OF stored(1)] wi_put [OF stored(3)]]
      wi_maybe [OF stored(4), unfolded nm]]]) (auto simp: role_keys_def)
qed

lemma role_delete_frame:
  assumes "oci_pathRoleDelete env (b, w) n = ((b', w'), rs)"
  shows "wi (role_keys n) UNIV w w'" and "rs = RespNil \<Longrightarrow> stored_role view w' n = None"
proof -
  have "wi (role_keys n) UNIV w w' \<and> (rs = RespNil \<longrightarrow> stored_role view w' n = None)"
  proof (cases "kget (oeKV env) w (rolesPrefix @ n)")
    case (Inl e)
    then show ?thesis using assms by (auto simp: oci_pathRoleDelete_def)
  next
    case (Inr entry)
    define w1 where "w1 = (case Option.bind entry dec_oci_role of None \<Rightarrow> w | Some r \<Rightarrow> cleanupRoleSlots env b w n r)"
    obtain w2 e where d: "kdel (oeKV env) w1 (rolesPrefix @ n) = (w2, e)" by force
    have w': "w' = w2" and rs: "rs = RespNil \<longrightarrow> e = None"
      using assms Inr d by (auto simp: oci_pathRoleDelete_def w1_def [symmetric] Let_def split: option.splits)
    have "wi (slot_keys n) UNIV w w1"
    proof (cases "Option.bind entry dec_oci_role")
      case (Some r)
      obtain ss where c: "w1 = fst (deleteSlots (oeKV env) (cleanup_tokens env b r ss w) n (orSlotCount r))"
        using Some by (auto simp: w1_def cleanupRoleSlots_def Let_def)
      obtain x where x: "delete_slots (oeKV env) (cleanup_tokens env b r ss w) n [0..<nat (orSlotCount r)] = (w1, x)"
        using c by (auto simp: deleteSlots_def intro: prod.collapse [symmetric])
      show ?thesis by (rule inside_mono [OF inside_join [OF wi_cleanup_tokens wi_delete_slots [OF x]]]) auto
    qed (simp add: w1_def)
    from inside_join [OF this wi_del [OF d]] have "wi (role_keys n) UNIV w w2"
      by (rule inside_mono) (auto simp: role_keys_def)
    moreover have "stored_role view w2 n = None" if "e = None"
      using del_ok [OF d [unfolded that]] by (simp add: stored_role_def)
    ultimately show ?thesis using w' rs by blast
  qed
  then show "wi (role_keys n) UNIV w w'" "rs = RespNil \<Longrightarrow> stored_role view w' n = None" by blast+
qed

lemma role_keys_other [simp]:
  "rolesPrefix @ m \<in> role_keys n \<longleftrightarrow> m = n" "storageKeyForSlot m i \<in> role_keys n \<longleftrightarrow> m = n"
  by (auto simp: role_keys_def)

text \<open>A slot that a role write or the making of slots left is one that was there, or names a new token.\<close>

definition fresh_slot :: "'w \<Rightarrow> slot \<Rightarrow> bool" where
  "fresh_slot w s \<longleftrightarrow> slTokenID s \<noteq> [] \<and> (\<exists>u. (u, slTokenID s) \<in> live w)"

lemma fresh_inside: "fresh_slot w s \<Longrightarrow> wi K {} w w' \<Longrightarrow> fresh_slot w' s"
  using inside_live by (fastforce simp: fresh_slot_def)

lemma init_slots_fresh:
  assumes "is_client env c" and "init_slots env inst r m c now is w = (w', e)" and "stored view w' n j s"
  shows "stored view w n j s \<or> fresh_slot w' s"
  using assms(2)
proof (induction "is" arbitrary: w)
  case Nil
  then show ?case using assms(3) by simp
next
  case (Cons i "is")
  obtain w1 rc where cr: "CreateAuthToken c (orUserOCID r) (slot_description inst r i) w = (w1, rc)" by force
  obtain b tok where bb: "c = newOCIClient env b tok" using assms(1) by (auto simp: is_client_def)
  have v: "view w1 = view w" using create_view cr bb by blast
  show ?case
  proof (cases rc)
    case (Inl x)
    then show ?thesis using Cons.prems cr v assms(3) by (simp add: stored_def)
  next
    case (Inr tk)
    let ?s = "new_slot inst r m i tk now (now + rotation_interval r * (int i + 1))"
    obtain w2 x where sv: "saveSlot (oeKV env) w1 (orName r) ?s = (w2, x)" by force
    obtain val t where tk: "tk = (val, t)" by force
    have "fresh_slot w1 ?s"
      using create_ok [OF cr [unfolded Inr tk bb]] by (auto simp: fresh_slot_def new_slot_def tk)
    then have f: "fresh_slot w2 ?s" by (rule fresh_inside [OF _ wi_save [OF sv]])
    have old: "stored view w n j t \<or> t = ?s" if "stored view w2 n j t" for t
      using save_stored [OF sv that] v by (auto simp: stored_def)
    show ?thesis
    proof (cases x)
      case None
      then have run: "init_slots env inst r m c now is w2 = (w', e)" using Cons.prems cr Inr sv by simp
      show ?thesis using Cons.IH [OF run] old [of s] fresh_inside [OF f wi_init_slots [OF assms(1) run]] by blast
    next
      case (Some y)
      then have "w' = w2" using Cons.prems cr Inr sv by simp
      then show ?thesis using old assms(3) f by blast
    qed
  qed
qed

lemma initializeSlots_fresh:
  assumes "initializeSlots env (b, w) r = ((b', w'), e)" and "stored view w' n j s"
  shows "stored view w n j s \<or> fresh_slot w' s"
  using assms(1)
proof (cases rule: initializeSlots_run)
  case early
  then show ?thesis using assms(2) stored_frame [OF early] by simp
next
  case (made w1 inst m c now)
  then show ?thesis using init_slots_fresh [OF made(2,3) assms(2)] stored_frame [OF made(1)] by simp
qed

lemma maybe_fresh:
  assumes "maybeInitializeSlots env (b, w) r = ((b', w'), rs)" and "stored view w' n j s"
  shows "stored view w n j s \<or> fresh_slot w' s"
  using assms(1)
proof (cases rule: maybe_cases)
  case skip
  then show ?thesis using assms(2) by simp
next
  case made
  then show ?thesis using initializeSlots_fresh [OF _ assms(2)] by blast
next
  case (gone b1 w1 e x)
  note d = wi_del [OF gone(2)]
  have "stored view w1 n j s" using assms(2) stored_frame [OF d] by simp
  then show ?thesis using initializeSlots_fresh [OF gone(1)] fresh_inside [OF _ d] by blast
qed

lemma role_write_fresh:
  assumes "oci_pathRoleWrite env (b, w) n raw = ((b', w'), rs)" and "stored view w' m j s"
  shows "stored view w m j s \<or> fresh_slot w' s"
  using assms(1)
proof (cases rule: oci_role_write_cases)
  case refused
  then show ?thesis using assms(2) by simp
next
  case (verified c b1)
  then show ?thesis using assms(2) stored_frame [OF wi_verify_role [OF verified(1)]] by simp
next
  case (put b1 w1 e)
  then show ?thesis
    using assms(2) stored_frame [OF wi_verify_role [OF put(1)]] stored_frame [OF wi_put [OF put(3)]] by simp
next
  case (stored b1 w1 w2)
  then show ?thesis
    using maybe_fresh [OF stored(4) assms(2)] stored_frame [OF wi_verify_role [OF stored(1)]]
      stored_frame [OF wi_put [OF stored(3)]] by simp
qed

end

section \<open>What a reader could be served\<close>

text \<open>The active slots of the roles that are stored, in the form of what a reader would hold.\<close>

definition ready :: "('w \<Rightarrow> string \<Rightarrow> blob option) \<Rightarrow> 'w \<Rightarrow> holding set" where
  "ready view w =
     {(n, slTokenID s, slNextRotationAt s) |n r i s. n \<noteq> [] \<and> CHR ''/'' \<notin> set n \<and> stored_role view w n = Some r
        \<and> i < nat (orSlotCount r) \<and> stored view w n i s \<and> slState s = slotActive}"

lemma ready_cases:
  assumes "h \<in> ready view w"
  obtains n r i s where "h = (n, slTokenID s, slNextRotationAt s)" "n \<noteq> []" "CHR ''/'' \<notin> set n" "stored_role view w n = Some r"
    "i < nat (orSlotCount r)" "stored view w n i s" "slState s = slotActive"
  using assms unfolding ready_def by blast

lemma readyI:
  "n \<noteq> [] \<Longrightarrow> CHR ''/'' \<notin> set n \<Longrightarrow> stored_role view w n = Some r \<Longrightarrow> i < nat (orSlotCount r) \<Longrightarrow>
     stored view w n i s \<Longrightarrow> slState s = slotActive \<Longrightarrow> (n, slTokenID s, slNextRotationAt s) \<in> ready view w"
  unfolding ready_def by blast

text \<open>Each names a token that exists.\<close>

definition slots_live ::
  "('w \<Rightarrow> string \<Rightarrow> blob option) \<Rightarrow> ('w \<Rightarrow> (string \<times> string) set) \<Rightarrow> 'w \<Rightarrow> bool" where
  "slots_live view live w \<longleftrightarrow> (\<forall>(n, tok, ends) \<in> ready view w. tok \<noteq> [] \<and> (\<exists>u. (u, tok) \<in> live w))"

lemma ready_backed:
  "h \<in> ready view w \<Longrightarrow> backed view live w h \<longleftrightarrow> fst (snd h) \<noteq> [] \<and> (\<exists>u. (u, fst (snd h)) \<in> live w)"
  by (erule ready_cases) (auto simp: backed_def)

lemma slots_live_backed: "slots_live view live w \<longleftrightarrow> (\<forall>h \<in> ready view w. backed view live w h)"
  using ready_backed [of _ view w live] by (force simp: slots_live_def)

definition sure ::
  "('w \<Rightarrow> string \<Rightarrow> blob option) \<Rightarrow> ('w \<Rightarrow> (string \<times> string) set) \<Rightarrow> ('w \<Rightarrow> string set) \<Rightarrow> holding set \<Rightarrow> 'w \<Rightarrow> bool" where
  "sure view live issued H w \<longleftrightarrow> sound view live issued H w \<and> slots_live view live w"

lemma sure_sound: "sure view live issued H w \<longleftrightarrow> sound view live issued (H \<union> ready view w) w"
  by (auto simp: sure_def sound_def slots_live_backed)

lemma sure_mono: "sure view live issued H w \<Longrightarrow> H' \<subseteq> H \<Longrightarrow> sure view live issued H' w"
  using sound_mono by (auto simp: sure_def)

lemma sureI:
  assumes "sound view live issued (H \<union> R) w"
    and "\<And>h. h \<in> ready view w \<Longrightarrow> h \<in> R \<or> fst (snd h) \<noteq> [] \<and> (\<exists>u. (u, fst (snd h)) \<in> live w)"
  shows "sure view live issued H w"
proof -
  have "backed view live w h" if "h \<in> ready view w" for h
    using assms(1) assms(2) [OF that] ready_backed [OF that, of live] by (auto simp only: sound_def Un_iff)
  then show ?thesis using assms(1) unfolding sure_def slots_live_backed by (simp add: sound_def)
qed

lemma tokens_of_image: "tokens_of H = (\<lambda>h. fst (snd h)) ` H"
  by (force simp: tokens_of_def)

context oci_world begin

abbreviation "sure_ok \<equiv> sure view live issued"

lemma ready_same:
  assumes "wi K D w w'" and "\<And>n. rolesPrefix @ n \<notin> K" and "\<And>n i. storageKeyForSlot n i \<notin> K"
  shows "ready view w' = ready view w"
  using inside_view [OF assms(1,2)] stored_frame [OF assms(1,3)] by (simp add: ready_def stored_role_def)

lemma sure_inside:
  assumes "sure_ok H w" and "wi K D w w'" and "\<And>n. rolesPrefix @ n \<notin> K" and "\<And>n i. storageKeyForSlot n i \<notin> K"
    and "\<And>n i s. stored view w n i s \<Longrightarrow> slTokenID s \<notin> D"
  shows "sure_ok H w'"
proof -
  have s: "snd_ok (H \<union> ready view w) w" using assms(1) by (simp add: sure_sound)
  have "D \<inter> tokens_of (H \<union> ready view w) = {}"
  proof -
    have "tok \<notin> D" if "(n, tok, ends) \<in> H \<union> ready view w" for n tok ends
    proof -
      have "backed view live w (n, tok, ends)" using s that by (simp add: sound_def)
      then show ?thesis using assms(5) by (auto simp: backed_def)
    qed
    then show ?thesis by (fastforce simp: tokens_of_def)
  qed
  from sound_inside [OF s assms(2-4) this] show ?thesis by (simp add: sure_sound ready_same [OF assms(2-4)])
qed

text \<open>A rotation of a slot whose token nobody holds leaves every slot with a token that exists.\<close>

lemma rotate_ready:
  assumes "rotateSlot env (b, w) r i = ((b', w'), e)" and "snd_ok (H \<union> ready view w) w"
    and "\<And>s. stored view w (orName r) i s \<Longrightarrow> slTokenID s \<notin> tokens_of H"
    and "h \<in> ready view w'" and "\<not> (fst h = orName r \<and> (\<exists>s. stored view w' (orName r) i s \<and> fst (snd h) = slTokenID s))"
  shows "h \<in> ready view w \<and> (\<forall>s. stored view w (orName r) i s \<longrightarrow> slTokenID s \<noteq> fst (snd h))"
proof -
  note fr = wi_rotate [OF assms(1)]
  obtain n q j s where h: "h = (n, slTokenID s, slNextRotationAt s)" "n \<noteq> []" "CHR ''/'' \<notin> set n"
    "stored_role view w' n = Some q" "j < nat (orSlotCount q)" "stored view w' n j s" "slState s = slotActive"
    using ready_cases [OF assms(4)] .
  have d: "n \<noteq> orName r \<or> j \<noteq> i" using assms(5) h(1,6) by auto
  have st: "stored view w n j s" using stored_frame [OF fr, of n j s] d h(6) by auto
  have q: "stored_role view w n = Some q" using inside_view [OF fr, of "rolesPrefix @ n"] h(4) by (simp add: stored_role_def)
  have rd: "h \<in> ready view w" unfolding h(1) by (rule readyI [OF h(2,3) q h(5) st h(7)])
  then have "backed view live w h" using assms(2) by (simp add: sound_def)
  then have "slTokenID s \<noteq> []" using h(1) by (auto simp: backed_def)
  then have "slTokenID t \<noteq> slTokenID s" if "stored view w (orName r) i t" for t
    using assms(2) that st d unfolding sound_def slots_ok_def by metis
  then show ?thesis using rd h(1) by auto
qed

end

context oci_honest begin

lemma sure_rotate:
  assumes "rotateSlot env (b, w) r i = ((b', w'), e)" and "sure_ok H w"
    and "\<And>s. stored view w (orName r) i s \<Longrightarrow> slTokenID s \<notin> tokens_of H"
  shows "sure_ok H w'"
proof -
  have s: "snd_ok (H \<union> ready view w) w" using assms(2) by (simp add: sure_sound)
  then have ok: "ok w" by (simp add: sound_def)
  let ?R = "{h \<in> ready view w. \<forall>s. stored view w (orName r) i s \<longrightarrow> slTokenID s \<noteq> fst (snd h)}"
  have "snd_ok (H \<union> ?R) w'"
  proof (rule sound_rotate [OF assms(1) sound_mono [OF s]])
    show "slTokenID t \<notin> tokens_of (H \<union> ?R)" if "stored view w (orName r) i t" for t
      using assms(3) [OF that] that unfolding tokens_of_image image_Un by fastforce
  qed blast
  then show ?thesis
  proof (rule sureI)
    fix h assume h: "h \<in> ready view w'"
    show "h \<in> ?R \<or> fst (snd h) \<noteq> [] \<and> (\<exists>u. (u, fst (snd h)) \<in> live w')"
    proof (cases e)
      case None
      obtain new where n: "stored view w' (orName r) i new" "slTokenID new \<noteq> []" "(orUserOCID r, slTokenID new) \<in> live w'"
        using rotation_done [OF assms(1) [unfolded None] ok] by metis
      show ?thesis
      proof (cases "\<exists>t. fst h = orName r \<and> stored view w' (orName r) i t \<and> fst (snd h) = slTokenID t")
        case True
        then show ?thesis using n stored_unique by metis
      next
        case False
        then show ?thesis using rotate_ready [OF assms(1) s assms(3) h] by blast
      qed
    next
      case (Some x)
      note f = rotation_failed [OF assms(1) [unfolded Some] ok]
      have "view w' (rolesPrefix @ n) = view w (rolesPrefix @ n)" for n
        using inside_view [OF wi_rotate [OF assms(1)], of "rolesPrefix @ n"] by simp
      then have "h \<in> ready view w" using h f(1) by (simp add: ready_def stored_role_def)
      then have b: "backed view live w h" using s by (simp add: sound_def)
      then have "fst (snd h) \<in> issued w" using ok unfolding backed_def slots_ok_def by fastforce
      then show ?thesis using b f(2) unfolding backed_def by fastforce
    qed
  qed
qed

lemma sure_rotate_due:
  assumes "rotate_due env r now is (b, w) = (b', w')" and "sure_ok H w"
    and "\<And>n tok ends. (n, tok, ends) \<in> H \<Longrightarrow> now \<le> ends"
  shows "sure_ok H w'"
  using assms(1,2)
proof (induction "is" arbitrary: b w)
  case (Cons i "is")
  show ?case
  proof (cases "\<exists>s. loadSlot (oeKV env) w (orName r) i = Inr (Some s) \<and> slState s = slotActive \<and> slNextRotationAt s < now")
    case True
    then obtain s where s: "loadSlot (oeKV env) w (orName r) i = Inr (Some s)" "slState s = slotActive" "slNextRotationAt s < now"
      by blast
    obtain b1 w1 e where ro: "rotateSlot env (b, w) r i = ((b1, w1), e)" by (metis surj_pair)
    have st: "stored view w (orName r) i s" using loadSlot_stored [OF s(1)] by blast
    have snd: "snd_ok H w" using Cons.prems(2) by (simp add: sure_def)
    have "sure_ok H w1"
    proof (rule sure_rotate [OF ro Cons.prems(2)])
      show "slTokenID t \<notin> tokens_of H" if "stored view w (orName r) i t" for t
        using due_unheld [OF snd st s(3) assms(3)] stored_unique [OF that st] by simp
    qed
    then show ?thesis using Cons.IH [of b1 w1] Cons.prems(1) s ro by simp
  next
    case False
    then have "rotate_due env r now is (b, w) = (b', w')"
      using Cons.prems(1) by (auto split: sum.splits option.splits if_splits)
    then show ?thesis using Cons.IH Cons.prems(2) by blast
  qed
qed simp

lemma sure_rotate_roles:
  assumes "rotate_roles env now ns (b, w) = (b', w')" and "sure_ok H w"
    and "\<And>n tok ends. (n, tok, ends) \<in> H \<Longrightarrow> now \<le> ends"
  shows "sure_ok H w'"
  using assms(1,2)
proof (induction ns arbitrary: b w)
  case (Cons n ns)
  show ?case
  proof (cases "oci_loadRole (oeKV env) w n")
    case None
    then show ?thesis using Cons by simp
  next
    case (Some r)
    obtain b1 w1 where d: "rotate_due env r now [0..<nat (orSlotCount r)] (b, w) = (b1, w1)" by (metis surj_pair)
    show ?thesis
      using Cons.IH [of b w] Cons.IH [of b1 w1] sure_rotate_due [OF d Cons.prems(2) assms(3)] Cons.prems Some d
      by (simp add: rotateDueSlots_def split: if_splits)
  qed
qed simp

end

context oci_world begin

lemma wi_reconcile:
  assumes "oci_runReconcilePass env (b, w) names dry = ((b', w'), res)"
  shows "wi {storageKey} UNIV w w'"
proof -
  obtain b1 w1 o1 where o: "oci_ownerInstanceID env (b, w) = ((b1, w1), o1)" by (metis surj_pair)
  note wo = wi_owner [OF o]
  have "w' = w1 \<or> (\<exists>p res res'. reconcileOrphans env b1 p names (w1, res) = (w', res'))"
    using assms o by (auto simp: oci_runReconcilePass_def split: sum.splits prod.splits)
  then show ?thesis
  proof
    assume "\<exists>p res res'. reconcileOrphans env b1 p names (w1, res) = (w', res')"
    then obtain p res res' where r: "reconcileOrphans env b1 p names (w1, res) = (w', res')" by blast
    show ?thesis by (rule inside_mono [OF inside_join [OF wo wi_reconcileOrphans [OF r]]]) auto
  next
    assume e: "w' = w1"
    show ?thesis unfolding e by (rule inside_mono [OF wo]) auto
  qed
qed

lemma sure_reconcile:
  assumes "oci_runReconcilePass env (b, w) names dry = ((b', w'), res)" and "sure_ok H w"
    and "klist (oeKV env) w rolesPrefix = Inr names" and "reads env (snd (fst (oci_ownerInstanceID env (b, w)))) names"
  shows "sure_ok H w'"
proof -
  have "ready view w' = ready view w" by (rule ready_same [OF wi_reconcile [OF assms(1)]]) simp_all
  then show ?thesis using sound_reconcile [OF assms(1) _ assms(3,4)] assms(2) by (simp add: sure_sound)
qed

lemma sure_role_write:
  assumes "oci_pathRoleWrite env (b, w) name raw = ((b', w'), rs)" and "sure_ok H w"
    and grow: "\<And>r0. stored_role view w name = Some r0 \<Longrightarrow> orSlotCount r0 \<le> orSlotCount (write_role env w name raw)"
    and left: "\<And>i s. stored view w name i s \<Longrightarrow> \<exists>r0. stored_role view w name = Some r0 \<and> i < nat (orSlotCount r0)"
  shows "sure_ok H w'"
proof (rule sureI)
  show "snd_ok (H \<union> ready view w) w'"
    by (rule sound_role_write [OF assms(1) _ grow]) (use assms(2) in \<open>simp_all add: sure_sound\<close>)
  note fr = wi_role_write [OF assms(1)]
  fix h assume "h \<in> ready view w'"
  then obtain n q j s where h: "h = (n, slTokenID s, slNextRotationAt s)" "n \<noteq> []" "CHR ''/'' \<notin> set n"
    "stored_role view w' n = Some q" "j < nat (orSlotCount q)" "stored view w' n j s" "slState s = slotActive"
    using ready_cases by metis
  show "h \<in> ready view w \<or> fst (snd h) \<noteq> [] \<and> (\<exists>u. (u, fst (snd h)) \<in> live w')"
  proof (cases "stored view w n j s")
    case False
    then show ?thesis using role_write_fresh [OF assms(1) h(6)] h(1) by (simp add: fresh_slot_def)
  next
    case st: True
    have "\<exists>r. stored_role view w n = Some r \<and> j < nat (orSlotCount r)"
    proof (cases "n = name")
      case True
      then show ?thesis using left st by blast
    next
      case False
      then show ?thesis using inside_view [OF fr, of "rolesPrefix @ n"] h(4,5) by (simp add: stored_role_def)
    qed
    then show ?thesis unfolding h(1) using readyI [OF h(2,3) _ _ st h(7)] by blast
  qed
qed

lemma sure_role_delete:
  assumes "oci_pathRoleDelete env (b, w) name = ((b', w'), RespNil)" and "sure_ok H w"
  shows "sure_ok {h \<in> H. fst h \<noteq> name} w'"
proof (rule sureI)
  have "snd_ok {h \<in> H \<union> ready view w. fst h \<noteq> name} w'"
    by (rule sound_role_delete [OF assms(1)]) (use assms(2) in \<open>simp add: sure_sound\<close>)
  then show "snd_ok ({h \<in> H. fst h \<noteq> name} \<union> {h \<in> ready view w. fst h \<noteq> name}) w'"
    by (rule sound_mono) blast
  note fr = role_delete_frame [OF assms(1)]
  fix h assume "h \<in> ready view w'"
  then obtain n q j s where h: "h = (n, slTokenID s, slNextRotationAt s)" "n \<noteq> []" "CHR ''/'' \<notin> set n"
    "stored_role view w' n = Some q" "j < nat (orSlotCount q)" "stored view w' n j s" "slState s = slotActive"
    using ready_cases by metis
  have n: "n \<noteq> name" using fr(2) h(4) by auto
  have "stored_role view w n = Some q" using inside_view [OF fr(1), of "rolesPrefix @ n"] n h(4) by (simp add: stored_role_def)
  moreover have "stored view w n j s" using stored_frame [OF fr(1), of n j s] n h(6) by simp
  ultimately have "h \<in> ready view w" unfolding h(1) by (intro readyI [OF h(2,3) _ h(5) _ h(7)])
  then show "h \<in> {h \<in> ready view w. fst h \<noteq> name} \<or> fst (snd h) \<noteq> [] \<and> (\<exists>u. (u, fst (snd h)) \<in> live w')"
    using n h(1) by simp
qed

end

end
