(* ===== verification/OCIRun.thy ===== *)
theory OCIRun
  imports OCIServed
begin

text \<open>
  Runs of the OCI mount, and what the single operations promise: the read of a slot, its rotation, a
  reconcile pass, the write of a role. \<open>slot_step\<close> is one operation of the mount, with what readers hold
  before and after it.
\<close>

section \<open>The read\<close>

lemma seconds_within: "0 \<le> d \<Longrightarrow> 0 \<le> seconds_of d \<and> seconds_of d * second \<le> d \<and> d < seconds_of d * second + second"
proof -
  assume d: "0 \<le> d"
  have s: "0 < second" by (simp add: second_def)
  then have e: "seconds_of d = d div second" using d by (simp add: seconds_of_def)
  show ?thesis
    unfolding e using div_mult_mod_eq [of d second] pos_mod_bound [OF s, of d] pos_mod_sign [OF s, of d]
      pos_imp_zdiv_nonneg_iff [OF s, THEN iffD2, OF d] by (intro conjI) linarith+
qed

text \<open>The seconds of a lease fit before the slot's rotation.\<close>

lemma lease_seconds_bound:
  assumes "now < slNextRotationAt s"
  shows "0 \<le> lease_seconds r s now" and "of_seconds (lease_seconds r s now) = lease_seconds r s now * second"
    and "now + of_seconds (lease_seconds r s now) \<le> slNextRotationAt s"
    and "0 < seconds_of (orDefaultTTL r) \<Longrightarrow> lease_seconds r s now \<le> seconds_of (orDefaultTTL r)"
proof -
  let ?d = "time_sub (slNextRotationAt s) now"
  have d: "0 \<le> ?d" "?d \<le> slNextRotationAt s - now" "?d < 2 ^ 63" using assms by (auto simp: time_sub_def)
  note b = seconds_within [OF d(1)]
  have l: "0 \<le> lease_seconds r s now" "lease_seconds r s now \<le> seconds_of ?d"
    using b by (auto simp: lease_seconds_def Let_def)
  show "0 \<le> lease_seconds r s now" by (rule l(1))
  have "lease_seconds r s now * second \<le> ?d" using l(2) b by (simp add: second_def)
  then show e: "of_seconds (lease_seconds r s now) = lease_seconds r s now * second"
    and "now + of_seconds (lease_seconds r s now) \<le> slNextRotationAt s"
    using l(1) d by (auto simp: of_seconds_def wrap64_id second_def)
  show "lease_seconds r s now \<le> seconds_of (orDefaultTTL r)" if "0 < seconds_of (orDefaultTTL r)"
    using that by (simp add: lease_seconds_def Let_def)
qed

definition eligible :: "time \<Rightarrow> slot \<Rightarrow> bool" where
  "eligible now s \<longleftrightarrow> slState s = slotActive \<and> now < slNextRotationAt s"

lemma freshest_spec:
  assumes "\<And>b. best = Some b \<Longrightarrow> eligible now b"
  shows "case freshest now best ss of
      None \<Rightarrow> best = None \<and> (\<forall>s \<in> set ss. \<not> eligible now s)
    | Some f \<Rightarrow> eligible now f \<and> (f \<in> set ss \<or> best = Some f)
        \<and> (\<forall>s \<in> set ss \<union> set_option best. eligible now s \<longrightarrow> slRotatedAt s \<le> slRotatedAt f)"
  using assms
proof (induction ss arbitrary: best)
  case Nil
  then show ?case by (cases best) auto
next
  case (Cons s ss)
  show ?case
  proof (cases "eligible now s")
    case False
    then have e: "freshest now best (s # ss) = freshest now best ss" by (auto simp: eligible_def)
    have "case freshest now best ss of
      None \<Rightarrow> best = None \<and> (\<forall>s \<in> set ss. \<not> eligible now s)
    | Some f \<Rightarrow> eligible now f \<and> (f \<in> set ss \<or> best = Some f)
        \<and> (\<forall>s \<in> set ss \<union> set_option best. eligible now s \<longrightarrow> slRotatedAt s \<le> slRotatedAt f)"
      by (rule Cons.IH) (rule Cons.prems)
    then show ?thesis unfolding e using False by (cases "freshest now best ss") auto
  next
    case True
    define b where "b = (case best of None \<Rightarrow> s | Some b \<Rightarrow> if slRotatedAt b < slRotatedAt s then s else b)"
    have e: "freshest now best (s # ss) = freshest now (Some b) ss" "eligible now b"
      using True Cons.prems by (auto simp: b_def eligible_def split: option.splits)
    have b: "slRotatedAt s \<le> slRotatedAt b" "\<And>a. best = Some a \<Longrightarrow> slRotatedAt a \<le> slRotatedAt b" "b = s \<or> best = Some b"
      by (auto simp: b_def split: option.splits)
    have "case freshest now (Some b) ss of
      None \<Rightarrow> Some b = None \<and> (\<forall>s \<in> set ss. \<not> eligible now s)
    | Some f \<Rightarrow> eligible now f \<and> (f \<in> set ss \<or> Some b = Some f)
        \<and> (\<forall>s \<in> set ss \<union> set_option (Some b). eligible now s \<longrightarrow> slRotatedAt s \<le> slRotatedAt f)"
      by (rule Cons.IH) (use e(2) in simp)
    then show ?thesis unfolding e(1) using b e(2) by (cases "freshest now (Some b) ss"; cases best) force+
  qed
qed

lemma freshestSlot_Some:
  "freshestSlot ss now = Some f \<Longrightarrow> f \<in> set ss \<and> eligible now f \<and> (\<forall>s \<in> set ss. eligible now s \<longrightarrow> slRotatedAt s \<le> slRotatedAt f)"
  using freshest_spec [of None now ss] by (simp add: freshestSlot_def)

lemma freshestSlot_None: "freshestSlot ss now = None \<longleftrightarrow> (\<forall>s \<in> set ss. \<not> eligible now s)"
  using freshest_spec [of None now ss] by (auto simp: freshestSlot_def split: option.splits)

lemma read_lease:
  assumes "oci_pathCredsRead env w req n = RespLease l"
  obtains v r ss s where "kget (oeKV env) w (rolesPrefix @ n) = Inr (Some v)" "dec_oci_role v = Some r" "\<not> orDisabled r"
    "EnforceIdentity (rrCaller req) (orRequireCallerIdentity r) = None"
    "snd (EnforceLineage (rrCaller req) (rrView req) (orRequireCallerLineage r)) = None"
    "loadAllSlots (oeKV env) w n (orSlotCount r) = Inr ss" "freshestSlot ss (oeNow env w) = Some s"
    "l = slot_lease r n s (oeNow env w)"
  using assms
  by (auto simp: oci_pathCredsRead_def loadIssuableRole_def split: option.splits sum.splits if_splits prod.splits)

lemma slot_lease_fields:
  "lsInternal (slot_lease r n s now) = [(''role'', n), (''slot_index'', Itoa (slSlotIndex s)), (''token_id'', slTokenID s),
     (''minter_set'', slMinterSet s), (''minter_id'', slMinterID s)]"
  "lsTTL (slot_lease r n s now) = of_seconds (lease_seconds r s now)"
  by (simp_all add: slot_lease_def Let_def)

definition lease_token :: "lease \<Rightarrow> string" where
  "lease_token l = (case map_of (lsInternal l) ''token_id'' of None \<Rightarrow> [] | Some i \<Rightarrow> i)"

lemma lease_token_slot [simp]: "lease_token (slot_lease r n s now) = slTokenID s"
  by (simp add: lease_token_def slot_lease_fields)

context oci_world begin

text \<open>A read is served from a slot that is ready, so what it hands out exists.\<close>

lemma sure_read:
  assumes "oci_pathCredsRead env w req n = RespLease l" and "n \<noteq> []" and "CHR ''/'' \<notin> set n" and "sure_ok H w"
  shows "sure_ok (insert (n, lease_token l, oeNow env w + lsTTL l) H) w" and "\<exists>u. (u, lease_token l) \<in> live w"
proof -
  obtain v r ss s where r: "kget (oeKV env) w (rolesPrefix @ n) = Inr (Some v)" "dec_oci_role v = Some r"
    "loadAllSlots (oeKV env) w n (orSlotCount r) = Inr ss" "freshestSlot ss (oeNow env w) = Some s"
    "l = slot_lease r n s (oeNow env w)"
    using read_lease [OF assms(1)] by metis
  have role: "stored_role view w n = Some r" using get_view [OF r(1)] r(2) by (metis stored_role_def bind.bind_lunit)
  obtain i where i: "i < nat (orSlotCount r)" "stored view w n i s"
    using freshestSlot_Some [OF r(4)] loadAllSlots_stored [OF r(3)] by blast
  have e: "slState s = slotActive" "oeNow env w < slNextRotationAt s"
    using freshestSlot_Some [OF r(4)] by (simp_all add: eligible_def)
  have "(n, slTokenID s, slNextRotationAt s) \<in> ready view w" by (rule readyI [OF assms(2,3) role i e(1)])
  then have b: "backed view live w (n, slTokenID s, slNextRotationAt s)"
    using assms(4) by (simp add: sure_def slots_live_backed)
  then show "\<exists>u. (u, lease_token l) \<in> live w" by (auto simp: backed_def r(5))
  have "oeNow env w + lsTTL l \<le> slNextRotationAt s"
    using lease_seconds_bound(3) [OF e(2)] by (simp add: r(5) slot_lease_fields)
  then have "backed view live w (n, lease_token l, oeNow env w + lsTTL l)"
    using b by (fastforce simp: backed_def r(5))
  then show "sure_ok (insert (n, lease_token l, oeNow env w + lsTTL l) H) w"
    using assms(4) by (simp add: sure_def sound_def)
qed

end

section \<open>The mount, one operation at a time\<close>

text \<open>
  A worker's pass is over the leases that have not ended when it starts. A reconcile pass is one that
  could read every role and slot; a role write is one that takes no slot away, of a role that has no
  entries left from a time it had more slots or went by that name before; a deletion is one that succeeds.
  In the cases left out the code does serve a token that is gone (see \<open>OCIDepartures\<close>). \<open>Around\<close> is
  anything that stays off roles and slots and deletes no token that a slot names: writes of minter sets
  and of the configuration, health checks, other mounts and other users of the account, the passing of time.
\<close>

inductive slot_step ::
  "'w oci_env \<Rightarrow> ('w \<Rightarrow> string \<Rightarrow> blob option) \<Rightarrow> ('w \<Rightarrow> (string \<times> string) set) \<Rightarrow> ('w \<Rightarrow> string set)
     \<Rightarrow> 'w ost \<times> holding set \<Rightarrow> 'w ost \<times> holding set \<Rightarrow> bool"
  for env view live issued where
    Read: "oci_pathCredsRead env w req n = RespLease l \<Longrightarrow> n \<noteq> [] \<Longrightarrow> CHR ''/'' \<notin> set n \<Longrightarrow>
      slot_step env view live issued ((b, w), H) ((b, w), insert (n, lease_token l, oeNow env w + lsTTL l) H)"
  | Forget: "H' \<subseteq> H \<Longrightarrow> slot_step env view live issued (bw, H) (bw, H')"
  | Worker: "rotationWorker env (b, w) = (bw', e) \<Longrightarrow>
      slot_step env view live issued ((b, w), H) (bw', {h \<in> H. oeNow env w \<le> snd (snd h)})"
  | RotateNow: "oci_pathRotateSlot env (b, w) n ix = (bw', resp) \<Longrightarrow>
      slot_step env view live issued ((b, w), H)
        (bw', {h \<in> H. \<forall>r i s. stored_role view w n = Some r \<longrightarrow> stored view w (orName r) i s \<longrightarrow>
           ParseInt ix = Some (int i) \<longrightarrow> fst (snd h) \<noteq> slTokenID s})"
  | Reconcile: "klist (oeKV env) w rolesPrefix = Inr names \<Longrightarrow>
      reads env (snd (fst (oci_ownerInstanceID env (b, w)))) names \<Longrightarrow>
      oci_runReconcilePass env (b, w) names dry = (bw', res) \<Longrightarrow>
      slot_step env view live issued ((b, w), H) (bw', H)"
  | RoleWrite: "oci_pathRoleWrite env (b, w) n raw = (bw', rs) \<Longrightarrow>
      (\<forall>r0. stored_role view w n = Some r0 \<longrightarrow> orSlotCount r0 \<le> orSlotCount (write_role env w n raw)) \<Longrightarrow>
      (\<forall>i s. stored view w n i s \<longrightarrow> (\<exists>r0. stored_role view w n = Some r0 \<and> i < nat (orSlotCount r0))) \<Longrightarrow>
      slot_step env view live issued ((b, w), H) (bw', H)"
  | RoleDelete: "oci_pathRoleDelete env (b, w) n = (bw', RespNil) \<Longrightarrow>
      slot_step env view live issued ((b, w), H) (bw', {h \<in> H. fst h \<noteq> n})"
  | Around: "inside view live issued K D w w' \<Longrightarrow> (\<forall>n. rolesPrefix @ n \<notin> K) \<Longrightarrow> (\<forall>n i. storageKeyForSlot n i \<notin> K) \<Longrightarrow>
      (\<forall>n i s. stored view w n i s \<longrightarrow> slTokenID s \<notin> D) \<Longrightarrow>
      slot_step env view live issued ((b, w), H) ((b', w'), H)"

text \<open>Every operation keeps what is held, and what could be served, with a token that exists.\<close>

lemma slot_step_sure:
  assumes "slot_step env view live issued (bw, H) (bw', H')" and "oci_honest env view live issued"
    and "sure view live issued H (snd bw)"
  shows "sure view live issued H' (snd bw')"
  using assms(1)
proof cases
  case (Read w req n l b)
  then show ?thesis
    using oci_world.sure_read(1) [OF oci_honest.axioms(1) [OF assms(2)] Read(4-6)] assms(3) by simp
next
  case Forget
  then show ?thesis using sure_mono [OF assms(3)] by simp
next
  case (Worker b w e)
  let ?H = "{h \<in> H. oeNow env w \<le> snd (snd h)}"
  have s: "sure view live issued ?H w" using sure_mono [OF assms(3), of ?H] Worker by simp
  obtain b1 w1 where bw': "bw' = (b1, w1)" by force
  show ?thesis
  proof (cases "klist (oeKV env) w rolesPrefix")
    case (Inl x)
    then show ?thesis using Worker s by (auto simp: rotationWorker_def)
  next
    case (Inr names)
    then have "rotate_roles env (oeNow env w) names (b, w) = (b1, w1)" using Worker bw' by (simp add: rotationWorker_def)
    then show ?thesis using oci_honest.sure_rotate_roles [OF assms(2) _ s] Worker bw' by fastforce
  qed
next
  case (RotateNow b w n ix resp)
  have s: "sure view live issued H' w" using sure_mono [OF assms(3), of H'] RotateNow by auto
  show ?thesis
  proof (cases "\<exists>r k e. kget (oeKV env) w (rolesPrefix @ n) = Inr (Some r) \<and> dec_oci_role r \<noteq> None \<and> ParseInt ix = Some k \<and> 0 \<le> k
      \<and> bw' = fst (rotateSlot env (b, w) (the (dec_oci_role r)) (nat k))")
    case True
    then obtain v r k where r: "kget (oeKV env) w (rolesPrefix @ n) = Inr (Some v)" "dec_oci_role v = Some r"
      "ParseInt ix = Some k" "0 \<le> k" "bw' = fst (rotateSlot env (b, w) r (nat k))" by auto
    have sr: "stored_role view w n = Some r"
      using kv_store.get_view [OF oci_world.axioms(1) [OF oci_honest.axioms(1) [OF assms(2)]] r(1)] r(2)
      by (metis stored_role_def bind.bind_lunit)
    obtain b1 w1 e where ro: "rotateSlot env (b, w) r (nat k) = ((b1, w1), e)" by (metis surj_pair)
    have "slTokenID t \<notin> tokens_of H'" if "stored view w (orName r) (nat k) t" for t
      using RotateNow sr that r(3,4) by (auto simp: tokens_of_def) (metis nat_0_le)
    then show ?thesis using oci_honest.sure_rotate [OF assms(2) ro s] r(5) ro by simp
  next
    case False
    then have "bw' = (b, w)"
      using RotateNow(3)
      by (auto simp: oci_pathRotateSlot_def split: option.splits sum.splits if_splits prod.splits)
    then show ?thesis using s by simp
  qed
next
  case (Reconcile w names b dry res)
  obtain b1 w1 where bw': "bw' = (b1, w1)" by force
  show ?thesis
    using oci_world.sure_reconcile [OF oci_honest.axioms(1) [OF assms(2)] _ _ Reconcile(3,4)] Reconcile assms(3) bw'
    by fastforce
next
  case (RoleWrite b w n raw rs)
  obtain b1 w1 where bw': "bw' = (b1, w1)" by force
  have "oci_pathRoleWrite env (b, w) n raw = ((b1, w1), rs)" "sure view live issued H w"
    using RoleWrite assms(3) bw' by simp_all
  from oci_world.sure_role_write [OF oci_honest.axioms(1) [OF assms(2)] this] RoleWrite(4,5)
  show ?thesis using RoleWrite bw' by auto
next
  case (RoleDelete b w n)
  obtain b1 w1 where bw': "bw' = (b1, w1)" by force
  show ?thesis
    using oci_world.sure_role_delete [OF oci_honest.axioms(1) [OF assms(2)]] RoleDelete assms(3) bw' by fastforce
next
  case (Around K D w w' b b')
  then show ?thesis
    using oci_world.sure_inside [OF oci_honest.axioms(1) [OF assms(2)], of H w K D w'] assms(3) by simp
qed

lemma slot_steps_sure:
  assumes "(slot_step env view live issued)\<^sup>*\<^sup>* x y" and "oci_honest env view live issued"
    and "sure view live issued (snd x) (snd (fst x))"
  shows "sure view live issued (snd y) (snd (fst y))"
  using assms(1)
proof (induction rule: rtranclp_induct)
  case base
  then show ?case by (rule assms(3))
next
  case (step y z)
  then show ?case using slot_step_sure [OF _ assms(2)] by (metis prod.collapse)
qed


section \<open>A run\<close>

definition quiet_config :: plugin_config where
  "quiet_config = DefaultConfig ''oci'' \<lparr> VerifyMinterCapability := Some False \<rparr>"

definition sim_backend :: oci_backend where
  "sim_backend =
     \<lparr> obInstanceID = ''abcd'', obConfig = Some quiet_config,
       obSets = [(''s'', [(''m'', \<lparr> msMinter = sample_minter ''m'' False, msSM = sample_machine \<rparr>)])],
       obRegion = ''us-ashburn-1'' \<rparr>"

definition sim_start :: oci_sim where
  "sim_start = ([(''minter-sets/s'', enc_minter_set sample_set)], (newFakeOCIClient, epoch))"

definition sim_fields :: "string \<Rightarrow> int \<Rightarrow> request_fields" where
  "sim_fields user k =
     [''user_ocid'' \<mapsto> JStr user, ''slot_count'' \<mapsto> JInt k, ''minter_set'' \<mapsto> JStr ''s'',
      ''rotation_period'' \<mapsto> JInt 7200, ''default_ttl'' \<mapsto> JInt 3600]"

definition anyone :: read_request where
  "anyone = \<lparr> rrCaller = None, rrView = None, rrCredentialKind = [] \<rparr>"

definition later :: "duration \<Rightarrow> oci_sim \<Rightarrow> oci_sim" where
  "later d w = (fst w, (fst (snd w), snd (snd w) + d))"

text \<open>The world after a role of two slots and a period of two hours was written in it.\<close>

definition sim_slot :: "nat \<Rightarrow> slot" where
  "sim_slot i =
     new_slot ''abcd'' (role_of_fields ''r'' (sim_fields ''u'' 2)) ''m'' i
       (''faketoken_'' @ Itoa (1001 + int i), fake_ocid (1001 + int i)) epoch (epoch + hour * (int i + 1))"

definition sim_token :: "nat \<Rightarrow> string \<times> auth_token_info" where
  "sim_token i =
     (fake_ocid (1001 + int i), \<lparr> atID = fake_ocid (1001 + int i), atDescription = slDescription (sim_slot i),
        atLifecycleState = ''ACTIVE'' \<rparr>)"

definition sim_world :: oci_sim where
  "sim_world =
     ([(''minter-sets/s'', enc_minter_set sample_set),
       (''roles/r'', enc_oci_role (role_of_fields ''r'' (sim_fields ''u'' 2))),
       (''slots/r/0'', enc_slot (sim_slot 0)), (''slots/r/1'', enc_slot (sim_slot 1))],
      (\<lparr> fkTokens = [(''u'', [sim_token 0, sim_token 1])], fkNextID = 1002, fkFailNext = None \<rparr>, epoch))"

definition served :: "response \<Rightarrow> (string \<times> duration) option" where
  "served resp = (case resp of RespLease l \<Rightarrow> Some (lease_token l, lsTTL l) | _ \<Rightarrow> None)"

lemma sim_write:
  "oci_pathRoleWrite sim_env (sim_backend, sim_start) ''r'' (sim_fields ''u'' 2) = ((sim_backend, sim_world), Inr RespNil)"
  by code_simp

lemma sim_read: "served (oci_pathCredsRead sim_env sim_world anyone ''r'') = Some (fake_ocid 1001, hour)"
  by code_simp

lemma sim_read_later: "served (oci_pathCredsRead sim_env (later (30 * minute) sim_world) anyone ''r'') \<noteq> None"
  by code_simp

lemma sim_later:
  "slot_step sim_env mem_view sim_live sim_issued ((b, w), H) ((b', later d w), H)"
  by (rule slot_step.Around [where K = "{}" and D = "{}"])
    (simp_all add: inside_def later_def mem_view_def sim_live_def sim_issued_def sim_get_def)

lemma slots_ok_empty:
  assumes "\<And>n i. view w (storageKeyForSlot n i) = None"
  shows "slots_ok view issued w"
  using assms by (simp add: slots_ok_def stored_def)

lemma sim_start_ok: "slots_ok mem_view sim_issued sim_start"
  by (rule slots_ok_empty) (simp add: mem_view_def sim_start_def storageKeyForSlot_def)

lemma sim_start_live: "slots_live mem_view sim_live sim_start"
  by (auto simp: slots_live_def mem_view_def sim_start_def storageKeyForSlot_def stored_def elim!: ready_cases)

lemma sim_step_write:
  "slot_step sim_env mem_view sim_live sim_issued ((sim_backend, sim_start), {}) ((sim_backend, sim_world), {})"
proof (rule slot_step.RoleWrite [OF sim_write])
  have "mem_view sim_start (storageKeyForSlot ''r'' i) = None" for i
    by (simp add: mem_view_def sim_start_def storageKeyForSlot_def)
  then show "\<forall>i s. stored mem_view sim_start ''r'' i s \<longrightarrow>
      (\<exists>r0. stored_role mem_view sim_start ''r'' = Some r0 \<and> i < nat (orSlotCount r0))"
    by (simp add: stored_def)
next
  have "mem_view sim_start (rolesPrefix @ ''r'') = None"
    by (simp add: mem_view_def sim_start_def rolesPrefix_def)
  then show "\<forall>r0. stored_role mem_view sim_start ''r'' = Some r0 \<longrightarrow>
      orSlotCount r0 \<le> orSlotCount (write_role sim_env sim_start ''r'' (sim_fields ''u'' 2))"
    by (simp add: stored_role_def)
qed

lemma sim_world_ok: "slots_ok mem_view sim_issued sim_world"
  using slot_step_sure [OF sim_step_write sim.oci_honest_axioms] sim_start_ok sim_start_live by (simp add: sure_def sound_def)

lemma sim_quiet_half_hour:
  "rotationWorker sim_env (sim_backend, later (30 * minute) sim_world) = ((sim_backend, later (30 * minute) sim_world), None)"
  "klist (oeKV sim_env) (later (30 * minute) sim_world) rolesPrefix = Inr [''r'']"
  "reads sim_env (snd (fst (oci_ownerInstanceID sim_env (sim_backend, later (30 * minute) sim_world)))) [''r'']"
  "fst (oci_runReconcilePass sim_env (sim_backend, later (30 * minute) sim_world) [''r''] False) =
     (sim_backend, later (30 * minute) sim_world)"
  by code_simp+


end
