(* ===== verification/OCIDuties.thy ===== *)
theory OCIDuties
  imports OCIRun
begin

text \<open>
  What the single operations of the OCI plugin promise: a lease that ends before its slot rotates, a
  rotation that never leaves a slot without a token, a reconcile pass that deletes only what is its own
  and unknown, roles that are well formed, and the answer of a build that cannot talk to the cloud. Then
  runs in which the code departs from what it means to do.
\<close>

section \<open>The lease of a slot\<close>

lemma slot_lease_envelope:
  "\<exists>e. lsEnvelope (slot_lease r n s now) = ToMap e \<and> envelope.ExpiresAt e = now + lsTTL (slot_lease r n s now)"
  unfolding slot_lease_def Let_def lease.simps
  by (rule exI, rule conjI, rule refl) (simp add: NewEnvelope_def)

text \<open>A lease has no seconds exactly when less than one remains.\<close>

lemma lease_seconds_zero:
  assumes "now < slNextRotationAt s"
  shows "lease_seconds r s now = 0 \<longleftrightarrow> slNextRotationAt s < now + second"
proof -
  let ?d = "time_sub (slNextRotationAt s) now"
  have d: "0 \<le> ?d" "?d < second \<longleftrightarrow> slNextRotationAt s - now < second" using assms by (auto simp: time_sub_def second_def)
  have "seconds_of ?d = 0 \<longleftrightarrow> ?d < second" using seconds_within [OF d(1)] by (auto simp: second_def)
  moreover have "lease_seconds r s now = 0 \<longleftrightarrow> seconds_of ?d = 0"
    using seconds_within [OF d(1)] by (auto simp: lease_seconds_def Let_def)
  ultimately show ?thesis using d(2) by auto
qed



section \<open>Rotation\<close>



section \<open>Reclamation\<close>

text \<open>What a stretch of a pass may do: delete tokens of \<open>Q\<close>, and count as it goes.\<close>

definition drains ::
  "('w \<Rightarrow> string \<Rightarrow> blob option) \<Rightarrow> ('w \<Rightarrow> (string \<times> string) set) \<Rightarrow> reconcile_pass \<Rightarrow> (string \<times> string) set
     \<Rightarrow> 'w \<times> reconcile_result \<Rightarrow> 'w \<times> reconcile_result \<Rightarrow> bool" where
  "drains view live p Q x y \<longleftrightarrow>
     (case (x, y) of
        ((w, res), (w', res')) \<Rightarrow>
          view w' = view w \<and> live w' \<subseteq> live w \<and> live w - live w' \<subseteq> Q \<and> finite (live w - live w')
          \<and> int (card (live w - live w')) \<le>
              rsDeleted res' + rsDeleteErrors res' - (rsDeleted res + rsDeleteErrors res)
          \<and> rsDeleted res \<le> rsDeleted res' \<and> rsDeleteErrors res \<le> rsDeleteErrors res'
          \<and> rsDeleted res' + rsDeleteErrors res' - (rsDeleted res + rsDeleteErrors res)
              \<le> rsOrphansFound res' - rsOrphansFound res
          \<and> rsOrphansFound res' - rsOrphansFound res \<le> rsScanned res' - rsScanned res
          \<and> rsDeleted res' \<le> max (rsDeleted res) (rpMaxDeletes p)
          \<and> (rpDryRun p \<longrightarrow> rsDeleted res' + rsDeleteErrors res' = rsDeleted res + rsDeleteErrors res))"

lemma drains_refl [simp, intro]: "drains view live p Q x x"
  by (cases x) (simp add: drains_def)

lemma drains_trans:
  assumes "drains view live p Q x y" and "drains view live p Q y z"
  shows "drains view live p Q x z"
proof -
  obtain w1 r1 w2 r2 w3 r3 where e: "x = (w1, r1)" "y = (w2, r2)" "z = (w3, r3)" by (metis surj_pair)
  note a = assms(1) [unfolded e drains_def prod.case] and b = assms(2) [unfolded e drains_def prod.case]
  have u: "live w1 - live w3 = (live w1 - live w2) \<union> (live w2 - live w3)" using a b by blast
  have f: "finite (live w1 - live w2)" "finite (live w2 - live w3)" using a b by blast+
  have "card (live w1 - live w3) \<le> card (live w1 - live w2) + card (live w2 - live w3)"
    unfolding u by (rule card_Un_le)
  moreover have "live w1 - live w3 \<subseteq> Q" "live w3 \<subseteq> live w1" "view w3 = view w1" using a b u by auto
  moreover have "finite (live w1 - live w3)" unfolding u using f by simp
  ultimately show ?thesis unfolding e drains_def prod.case using a b by (intro conjI) linarith+
qed

text \<open>A token that was listed and counted, and perhaps asked to be deleted.\<close>

lemma drains_count:
  "d \<in> {0, 1} \<Longrightarrow> drains view live p Q (w, res) (w, res \<lparr> rsScanned := rsScanned res + 1, rsOrphansFound := rsOrphansFound res + d \<rparr>)"
  by (auto simp: drains_def)

definition owned_orphans :: "reconcile_pass \<Rightarrow> string \<Rightarrow> auth_token_info list \<Rightarrow> (string \<times> string) set" where
  "owned_orphans p u ts = {(u, atID t) |t. t \<in> set ts \<and> Owns (rpInstanceID p) (atDescription t) \<and> atID t \<notin> rpKnown p}"

text \<open>What any listing of the cloud could show a pass as orphans of its own.\<close>

definition orphans_listed :: "'w oci_env \<Rightarrow> reconcile_pass \<Rightarrow> (string \<times> string) set" where
  "orphans_listed env p =
     {(u, i). i \<notin> rpKnown p \<and> (\<exists>c v v' ts t. is_client env c \<and> ListAuthTokens c u v = (v', Inr ts) \<and> t \<in> set ts
        \<and> atID t = i \<and> Owns (rpInstanceID p) (atDescription t))}"

context oci_world begin

lemma drains_delete:
  assumes "is_client env c" and "DeleteAuthToken c u i w = (w', e)" and "(u, i) \<in> Q" and "\<not> rpDryRun p"
    and "rsDeleted res < rpMaxDeletes p"
  shows "drains view live p Q (w, res) (w', if e = None
      then res \<lparr> rsScanned := rsScanned res + 1, rsOrphansFound := rsOrphansFound res + 1, rsDeleted := rsDeleted res + 1 \<rparr>
      else res \<lparr> rsScanned := rsScanned res + 1, rsOrphansFound := rsOrphansFound res + 1, rsDeleteErrors := rsDeleteErrors res + 1 \<rparr>)"
proof -
  obtain b tok where "c = newOCIClient env b tok" using assms(1) by (auto simp: is_client_def)
  note d = delete_view [OF assms(2) [unfolded this]]
  have g: "live w - live w' \<subseteq> {(u, i)}" using d by blast
  then have "card (live w - live w') \<le> 1" using card_mono [OF _ g] by simp
  moreover have "finite (live w - live w')" using g finite_subset by blast
  ultimately show ?thesis using d g assms(3-5) unfolding drains_def by (auto simp: le_max_iff_disj)
qed

lemma drains_tokens:
  assumes "is_client env c" and "owned_orphans p (orUserOCID r) ts \<subseteq> Q"
  shows "drains view live p Q (w, res) (reconcileRoleTokens p c r ts (w, res))"
  using assms(2)
proof (induction ts arbitrary: w res)
  case (Cons t ts)
  have IH: "drains view live p Q (v, rs) (reconcileRoleTokens p c r ts (v, rs))" for v rs
    using Cons by (auto simp: owned_orphans_def)
  let ?s = "res \<lparr> rsScanned := rsScanned res + 1, rsOrphansFound := rsOrphansFound res + 0 \<rparr>"
  let ?f = "res \<lparr> rsScanned := rsScanned res + 1, rsOrphansFound := rsOrphansFound res + 1 \<rparr>"
  consider "\<not> Owns (rpInstanceID p) (atDescription t)" | "Owns (rpInstanceID p) (atDescription t)" "atID t \<in> rpKnown p"
    | "Owns (rpInstanceID p) (atDescription t)" "atID t \<notin> rpKnown p" "rpDryRun p \<or> \<not> rsDeleted res < rpMaxDeletes p"
    | "Owns (rpInstanceID p) (atDescription t)" "atID t \<notin> rpKnown p" "\<not> rpDryRun p" "rsDeleted res < rpMaxDeletes p"
    by blast
  then show ?case
  proof cases
    case 1
    then show ?thesis using IH by simp
  next
    case 2
    then have "reconcileRoleTokens p c r (t # ts) (w, res) = reconcileRoleTokens p c r ts (w, ?s)" by simp
    then show ?thesis using drains_trans [OF drains_count IH, of 0] by auto
  next
    case 3
    then have "reconcileRoleTokens p c r (t # ts) (w, res) = reconcileRoleTokens p c r ts (w, ?f)" by auto
    then show ?thesis using drains_trans [OF drains_count IH, of 1] by auto
  next
    case 4
    obtain w1 e where d: "DeleteAuthToken c (orUserOCID r) (atID t) w = (w1, e)" by force
    have q: "(orUserOCID r, atID t) \<in> Q" using 4 Cons.prems by (auto simp: owned_orphans_def)
    show ?thesis
      using drains_trans [OF drains_delete [OF assms(1) d q 4(3,4)] IH] 4 d by (cases e) (simp_all add: Let_def)
  qed
qed simp

lemma drains_orphans:
  "drains view live p (orphans_listed env p) (w, res) (reconcileOrphans env b p ns (w, res))"
proof (induction ns arbitrary: w res)
  case (Cons n ns)
  show ?case
  proof (cases "\<exists>r m c. oci_loadRole (oeKV env) w n = Some r
      \<and> selectMinterForSet env b w (orMinterSet r) = Inr (m, c)")
    case True
    then obtain r m c where r: "oci_loadRole (oeKV env) w n = Some r"
      "selectMinterForSet env b w (orMinterSet r) = Inr (m, c)" by blast
    note cl = select_client [OF r(2)]
    obtain bb tok where bb: "c = newOCIClient env bb tok" using cl by (auto simp: is_client_def)
    obtain w1 rl where l: "ListAuthTokens c (orUserOCID r) w = (w1, rl)" by force
    have w01: "drains view live p (orphans_listed env p) (w, res) (w1, res)"
      using tokens_view [OF l [unfolded bb]] by (simp add: drains_def)
    show ?thesis
    proof (cases rl)
      case (Inl e)
      then show ?thesis using r l drains_trans [OF w01 Cons.IH] by simp
    next
      case (Inr ts)
      obtain w2 res2 where t: "reconcileRoleTokens p c r ts (w1, res) = (w2, res2)" by force
      have "owned_orphans p (orUserOCID r) ts \<subseteq> orphans_listed env p"
        using cl l Inr unfolding owned_orphans_def orphans_listed_def by blast
      from drains_tokens [OF cl this] have "drains view live p (orphans_listed env p) (w1, res) (w2, res2)"
        unfolding t [symmetric] .
      then show ?thesis using r l Inr t drains_trans [OF w01 drains_trans [OF _ Cons.IH]] by simp
    qed
  next
    case False
    then show ?thesis using Cons.IH by (auto split: option.splits sum.splits)
  qed
qed simp

end

text \<open>
  C10. A reconcile pass is bounded and keeps to its own. It touches no entry but the mount's id; every token
  that is gone after it is in no slot the pass could read and was listed under a name that starts with this
  mount's prefix; there are no more of those than the deletions it reports, failed ones included, which are
  no more than the orphans it found among the tokens it scanned; it reports at most the configured number
  of successful deletions, and a dry run deletes nothing.
\<close>
theorem slot_reconcile_bounded:
  assumes "oci_world env view live issued"
    and "oci_ownerInstanceID env (b, w) = ((b1, w1), Inr inst)"
    and "oci_runReconcilePass env (b, w) names dry = ((b', w'), res)"
  shows "(\<forall>k. k \<noteq> storageKey \<longrightarrow> view w' k = view w k)
     \<and> live w - live w' \<subseteq> {(u, i). i \<notin> collectKnownTokenIDs (oeKV env) w1 names
          \<and> (\<exists>c v v' ts t. is_client env c \<and> ListAuthTokens c u v = (v', Inr ts) \<and> t \<in> set ts \<and> atID t = i
               \<and> Owns inst (atDescription t))}
     \<and> int (card (live w - live w')) \<le> rsDeleted res + rsDeleteErrors res
     \<and> rsDeleted res + rsDeleteErrors res \<le> rsOrphansFound res \<and> rsOrphansFound res \<le> rsScanned res
     \<and> 0 \<le> rsDeleted res \<and> rsDeleted res \<le> max 0 (maxDeletesForPass b) \<and> 0 \<le> rsDeleteErrors res
     \<and> (dry \<longrightarrow> live w' = live w \<and> rsDeleted res = 0)"
proof -
  let ?p = "\<lparr> rpInstanceID = inst, rpKnown = collectKnownTokenIDs (oeKV env) w1 names, rpDryRun = dry,
      rpMaxDeletes = maxDeletesForPass b1 \<rparr>"
  have run: "reconcileOrphans env b1 ?p names (w1, no_result) = (w', res)"
    using assms(2,3) by (auto simp: oci_runReconcilePass_def split: prod.splits)
  have max: "maxDeletesForPass b1 = maxDeletesForPass b"
    using oci_world.owner_sets(2) [OF assms(1,2)] by (simp add: maxDeletesForPass_def)
  have w1: "live w1 = live w" "\<And>k. k \<noteq> storageKey \<Longrightarrow> view w1 k = view w k"
    using oci_world.owner_live [OF assms(1,2)] inside_view [OF oci_world.wi_owner [OF assms(1,2)]] by auto
  have r: "drains view live ?p (orphans_listed env ?p) (w1, no_result) (w', res)"
    using oci_world.drains_orphans [OF assms(1), of ?p w1 no_result b1 names] run by simp
  have e: "live w' = live w" if "dry" "int (card (live w - live w')) \<le> 0" "finite (live w - live w')" "live w' \<subseteq> live w"
    using that by auto
  show ?thesis
    using r w1 e unfolding drains_def orphans_listed_def prod.case max
    by (intro conjI) (auto simp: no_result_def max_def split: if_splits)
qed

text \<open>A world in which a slot lost its entry: the token it named is an orphan.\<close>

definition sim_lost :: oci_sim where
  "sim_lost = (filter (\<lambda>(k, _). k \<noteq> ''slots/r/1'') (fst sim_world), snd sim_world)"

lemma sim_lost_run:
  "snd (oci_runReconcilePass sim_env (sim_backend, sim_lost) [''r''] False) =
     \<lparr> rsScanned = 2, rsOrphansFound = 1, rsDeleted = 1, rsDeleteErrors = 0 \<rparr>
   \<and> user_tokens (sim_get (snd (fst (oci_runReconcilePass sim_env (sim_backend, sim_lost) [''r''] False)))) ''u''
       = [sim_token 0]"
  by code_simp

theorem slot_reconcile_bounded_witness:
  "\<exists>b w res. oci_runReconcilePass sim_env (sim_backend, sim_lost) [''r''] False = ((b, w), res)
     \<and> rsDeleted res = 1 \<and> int (card (sim_live sim_lost - sim_live w)) \<le> 1
     \<and> sim_live sim_lost - sim_live w \<subseteq> {(u, i). i \<noteq> fake_ocid 1001}"
proof -
  obtain b w res where run: "oci_runReconcilePass sim_env (sim_backend, sim_lost) [''r''] False = ((b, w), res)"
    by (metis surj_pair)
  have res: "rsDeleted res = 1" "rsDeleteErrors res = 0" using sim_lost_run run by simp_all
  have inst: "oci_ownerInstanceID sim_env (sim_backend, sim_lost) = ((sim_backend, sim_lost), Inr ''abcd'')"
    by (simp add: oci_ownerInstanceID_def sim_backend_def)
  have known: "fake_ocid 1001 \<in> collectKnownTokenIDs (oeKV sim_env) sim_lost [''r'']" by code_simp
  note b = slot_reconcile_bounded [OF sim.oci_world_axioms inst run]
  have "int (card (sim_live sim_lost - sim_live w)) \<le> 1" using b res by linarith
  moreover have "sim_live sim_lost - sim_live w \<subseteq> {(u, i). i \<noteq> fake_ocid 1001}" using b known by blast
  ultimately show ?thesis using run res by blast
qed

end
