(* ===== verification/OCIRoles.thy ===== *)
theory OCIRoles
  imports OCIDuties
begin

text \<open>
  The operations of the OCI mount, unrestricted, and what the mount keeps of its roles along every run of
  them: that a stored role is well formed, and that a role whose first slots could not be made does not stay.
\<close>

section \<open>Stored roles are well formed\<close>

definition oci_roles_ok :: "('w \<Rightarrow> string \<Rightarrow> blob option) \<Rightarrow> 'w \<Rightarrow> bool" where
  "oci_roles_ok view w \<longleftrightarrow> (\<forall>n r. stored_role view w n = Some r \<longrightarrow> oci_role_ok n r)"

section \<open>The operations of the mount\<close>

text \<open>
  Every operation of the mount, as it is called: whatever the request, whatever storage and the cloud answer.
  \<open>Elsewhere\<close> is what happens around them, as far as the property at hand lets it.
\<close>

inductive oci_operation ::
  "'w oci_env \<Rightarrow> (json \<Rightarrow> string) \<Rightarrow> ('w ost \<Rightarrow> 'w ost \<Rightarrow> bool) \<Rightarrow> 'w ost \<Rightarrow> 'w ost \<Rightarrow> bool" for env print around where
  Elsewhere: "around bw bw' \<Longrightarrow> oci_operation env print around bw bw'"
| SetWrite: "oci_pathMinterSetWrite env print bw n d = (bw', resp) \<Longrightarrow> oci_operation env print around bw bw'"
| SetDelete: "oci_pathMinterSetDelete env bw n = (bw', resp) \<Longrightarrow> oci_operation env print around bw bw'"
| SetRotate: "oci_pathMinterSetRotate bw = (bw', resp) \<Longrightarrow> oci_operation env print around bw bw'"
| RoleWrite: "oci_pathRoleWrite env bw n raw = (bw', rs) \<Longrightarrow> oci_operation env print around bw bw'"
| RoleDelete: "oci_pathRoleDelete env bw n = (bw', resp) \<Longrightarrow> oci_operation env print around bw bw'"
| Revoke: "oci_pathCredsRevoke bw = (bw', c) \<Longrightarrow> oci_operation env print around bw bw'"
| RotateNow: "oci_pathRotateSlot env bw n ix = (bw', resp) \<Longrightarrow> oci_operation env print around bw bw'"
| Reconcile: "oci_pathReconcile env bw mode = (bw', resp) \<Longrightarrow> oci_operation env print around bw bw'"
| Rotation: "rotationWorker env bw = (bw', e) \<Longrightarrow> oci_operation env print around bw bw'"
| Reclaim: "oci_reconcileWorker env bw = (bw', e) \<Longrightarrow> oci_operation env print around bw bw'"
| Health: "oci_operation env print around bw (oci_healthCheckWorker env bw)"

section \<open>What each does to roles\<close>

definition off_roles :: "string set" where
  "off_roles = - range ((@) rolesPrefix)"

lemma off_roles_simps [simp]:
  "rolesPrefix @ n \<notin> off_roles" "storageKey \<in> off_roles" "storageKeyForSlot n i \<in> off_roles"
  "minterSetPrefix @ n \<in> off_roles" "cachePrefix @ n \<in> off_roles"
  by (auto simp: off_roles_def minterSetPrefix_def cachePrefix_def rolesPrefix_def storageKeyForSlot_def storageKey_def)

lemma off_roles_sets [simp]: "slot_keys n \<subseteq> off_roles" "cache_keys \<subseteq> off_roles"
  by (auto simp: slot_keys_def cache_keys_def)

context oci_world begin

text \<open>Most operations stay off them.\<close>

abbreviation "off w w' \<equiv> wi off_roles UNIV w w'"

lemma off_from: "wi K D w w' \<Longrightarrow> K \<subseteq> off_roles \<Longrightarrow> off w w'"
  by (rule inside_mono) auto

lemma off_role: "off w w' \<Longrightarrow> stored_role view w' n = stored_role view w n"
  using inside_view [of view live issued off_roles UNIV w w' "rolesPrefix @ n"] by (simp add: stored_role_def)

lemma off_rotate: "off (snd bw) (snd (fst (rotateSlot env bw r i)))"
proof -
  obtain b w b' w' e where e: "bw = (b, w)" "rotateSlot env (b, w) r i = ((b', w'), e)" by (metis surj_pair)
  show ?thesis using off_from [OF wi_rotate [OF e(2)]] e by simp
qed

lemma off_rotate_due: "off (snd bw) (snd (rotate_due env r now is bw))"
proof (induction "is" arbitrary: bw)
  case (Cons i "is")
  have "off (snd bw) (snd (rotate_due env r now is (fst (rotateSlot env bw r i))))"
    using inside_trans [OF off_rotate Cons.IH] .
  then show ?case using Cons.IH [of bw] by (auto split: sum.split option.split)
qed simp

lemma off_rotate_roles: "off (snd bw) (snd (rotate_roles env now ns bw))"
proof (induction ns arbitrary: bw)
  case (Cons n ns)
  have "off (snd bw) (snd (rotate_roles env now ns (rotateDueSlots env bw r now)))" for r
    unfolding rotateDueSlots_def using inside_trans [OF off_rotate_due Cons.IH] .
  then show ?case using Cons.IH [of bw] by (auto split: option.split)
qed simp

lemma off_reconcile: "off (snd bw) (snd (fst (oci_runReconcilePass env bw names dry)))"
proof -
  obtain b w b' w' res where e: "bw = (b, w)" "oci_runReconcilePass env (b, w) names dry = ((b', w'), res)" by (metis surj_pair)
  show ?thesis using off_from [OF wi_reconcile [OF e(2)]] e by simp
qed

lemma off_health_step: "off (snd bw) (snd (oci_health_step env now p bw))"
proof -
  obtain s i tok where p: "p = (s, i, tok)" by (metis surj_pair)
  obtain w e where g: "GetUser (newOCIClient env (fst bw) tok) i (snd bw) = (w, e)" by force
  have "off (snd bw) w" using user_view [OF g] by (simp add: inside_def)
  then show ?thesis using g p by (cases e) (simp_all add: oci_health_step_def)
qed

lemma off_health: "off (snd bw) (snd (oci_healthCheckWorker env bw))"
proof -
  have "off (snd bw) (snd (fold (oci_health_step env now) ps bw))" for now ps
  proof (induction ps arbitrary: bw)
    case (Cons p ps)
    show ?case using inside_trans [OF off_health_step Cons.IH] by simp
  qed simp
  then show ?thesis by (simp add: oci_healthCheckWorker_def Let_def)
qed

lemma off_verify_set:
  assumes "oci_verifySetCapability env (b, w) s = ((b', w'), c)"
  shows "off w w'"
proof -
  obtain b1 w1 o1 where o: "oci_ownerInstanceID env (b, w) = ((b1, w1), o1)" by (metis surj_pair)
  have w01: "off w w1" by (rule off_from [OF wi_owner [OF o]]) simp
  show ?thesis
  proof (cases o1)
    case (Inl e)
    then show ?thesis using assms o w01 by (simp add: oci_verifySetCapability_def)
  next
    case (Inr inst)
    obtain w2 sms c2 where v: "VerifySet (oci_gate env b1) (oeKV env) w1 (oci_states b1) s (oci_capabilityChecks env) = ((w2, sms), c2)"
      by (metis surj_pair)
    have w2: "w' = w2" using assms o Inr v by (simp add: oci_verifySetCapability_def)
    have "wi cache_keys {} w1 w2"
      by (rule verify_set_rel [where R = "wi cache_keys {}", OF inside_refl inside_trans wi_cache_put wi_checks v])
    then show ?thesis using inside_trans [OF w01 off_from] w2 by simp
  qed
qed

lemma off_set_write:
  assumes "oci_pathMinterSetWrite env print (b, w) n d = ((b', w'), resp)"
  shows "off w w'"
proof -
  have "w' = w \<or> (\<exists>s b1 w1 c. oci_verifySetCapability env (b, w) s = ((b1, w1), c)
      \<and> (w' = w1 \<or> w' = fst (kput (oeKV env) w1 (minterSetPrefix @ n) (enc_minter_set s))))"
    using assms
    by (auto simp: oci_pathMinterSetWrite_def Let_def split: if_splits option.splits sum.splits prod.splits) (metis fst_conv)+
  then show ?thesis
  proof (elim disjE exE conjE)
    fix s b1 w1 c
    assume c: "oci_verifySetCapability env (b, w) s = ((b1, w1), c)"
      and p: "w' = fst (kput (oeKV env) w1 (minterSetPrefix @ n) (enc_minter_set s))"
    obtain v e where k: "kput (oeKV env) w1 (minterSetPrefix @ n) (enc_minter_set s) = (v, e)" by force
    have "off w v" by (rule inside_trans [OF off_verify_set [OF c] off_from [OF wi_put [OF k]]]) simp
    then show "off w w'" using p k by simp
  qed (auto dest: off_verify_set)
qed

text \<open>A role write or deletion keeps a role as it is, takes it away, or puts a well-formed one in its place.\<close>

abbreviation "roles_step w w' \<equiv>
  \<forall>n. stored_role view w' n = stored_role view w n \<or> stored_role view w' n = None
      \<or> (\<exists>r. stored_role view w' n = Some r \<and> oci_role_ok n r)"

lemma roles_inside: "wi K D w w' \<Longrightarrow> (\<And>n. rolesPrefix @ n \<notin> K) \<Longrightarrow> stored_role view w' n = stored_role view w n"
  using inside_view by (fastforce simp: stored_role_def)

lemma del_role:
  assumes "kdel (oeKV env) w k = (w', x)"
  shows "stored_role view w' n = stored_role view w n \<or> stored_role view w' n = None"
proof -
  have "view w' (rolesPrefix @ n) = view w (rolesPrefix @ n) \<or> view w' (rolesPrefix @ n) = None"
    using del_sub [OF assms, of "rolesPrefix @ n"] by (cases "view w' (rolesPrefix @ n)") auto
  then show ?thesis by (auto simp: stored_role_def)
qed

lemma roles_maybe:
  assumes "maybeInitializeSlots env (b, w) r = ((b', w'), rs)"
  shows "stored_role view w' n = stored_role view w n \<or> stored_role view w' n = None"
  using assms
proof (cases rule: maybe_cases)
  case skip
  then show ?thesis by simp
next
  case made
  then show ?thesis using roles_inside [OF wi_initializeSlots [OF made(1)]] by simp
next
  case (gone b1 w1 e x)
  have "stored_role view w1 n = stored_role view w n" by (rule roles_inside [OF wi_initializeSlots [OF gone(1)]]) simp
  then show ?thesis using del_role [OF gone(2)] by metis
qed

lemma roles_role_write:
  assumes "oci_pathRoleWrite env (b, w) n raw = ((b', w'), rs)"
  shows "roles_step w w'"
  using assms
proof (cases rule: oci_role_write_cases)
  case refused
  then show ?thesis by simp
next
  case (verified c b1)
  then show ?thesis using roles_inside [OF wi_verify_role [OF verified(1)]] by simp
next
  case (put b1 w1 e)
  have "stored_role view w1 m = stored_role view w m" for m
    using roles_inside [OF wi_verify_role [OF put(1)]] by simp
  then show ?thesis using put_err [OF put(3)] put(2) by (auto simp: stored_role_def)
next
  case (stored b1 w1 w2)
  have a: "stored_role view w1 m = stored_role view w m" for m
    using roles_inside [OF wi_verify_role [OF stored(1)]] by simp
  have b: "stored_role view w2 m = (if m = n then Some (write_role env w n raw) else stored_role view w1 m)" for m
    using put_ok [OF stored(3)] by (simp add: stored_role_def)
  show ?thesis using a b roles_maybe [OF stored(4)] stored(2) by metis
qed

lemma roles_role_delete:
  assumes "oci_pathRoleDelete env (b, w) name = ((b', w'), rs)"
  shows "stored_role view w' n = stored_role view w n \<or> stored_role view w' n = None"
proof (cases "n = name")
  case False
  then show ?thesis using inside_view [OF role_delete_frame(1) [OF assms], of "rolesPrefix @ n"] by (simp add: stored_role_def)
next
  case True
  show ?thesis
  proof (cases "kget (oeKV env) w (rolesPrefix @ name)")
    case (Inl e)
    then show ?thesis using assms by (simp add: oci_pathRoleDelete_def)
  next
    case (Inr entry)
    define w1 where "w1 = (case Option.bind entry dec_oci_role of None \<Rightarrow> w | Some r \<Rightarrow> cleanupRoleSlots env b w name r)"
    obtain w2 e where d: "kdel (oeKV env) w1 (rolesPrefix @ name) = (w2, e)" by force
    have w': "w' = w2"
      using assms Inr d by (auto simp: oci_pathRoleDelete_def w1_def [symmetric] Let_def split: option.splits)
    have "off w w1"
    proof (cases "Option.bind entry dec_oci_role")
      case (Some r)
      obtain ss where c: "w1 = fst (deleteSlots (oeKV env) (cleanup_tokens env b r ss w) name (orSlotCount r))"
        using Some by (auto simp: w1_def cleanupRoleSlots_def Let_def)
      obtain x where x: "delete_slots (oeKV env) (cleanup_tokens env b r ss w) name [0..<nat (orSlotCount r)] = (w1, x)"
        using c by (auto simp: deleteSlots_def intro: prod.collapse [symmetric])
      show ?thesis by (rule off_from [OF inside_join [OF wi_cleanup_tokens wi_delete_slots [OF x]]]) simp
    qed (simp add: w1_def)
    then show ?thesis using del_role [OF d, of n] off_role [of w w1 n] w' by metis
  qed
qed

end

text \<open>What stays off roles, among the operations.\<close>

lemma operation_roles:
  assumes "oci_operation env print (\<lambda>x y. \<forall>n. stored_role view (snd y) n = stored_role view (snd x) n) bw bw'"
    and w: "oci_world env view live issued"
  shows "\<forall>n. stored_role view (snd bw') n = stored_role view (snd bw) n \<or> stored_role view (snd bw') n = None
      \<or> (\<exists>r. stored_role view (snd bw') n = Some r \<and> oci_role_ok n r)"
  using assms(1)
proof cases
  case (SetWrite n d resp)
  obtain b v b' v' where e: "bw = (b, v)" "bw' = (b', v')" by (metis surj_pair)
  show ?thesis using oci_world.off_role [OF w oci_world.off_set_write [OF w SetWrite [unfolded e]]] e by simp
next
  case (SetDelete n resp)
  obtain b v b' v' where e: "bw = (b, v)" "bw' = (b', v')" by (metis surj_pair)
  obtain v1 x where d: "kdel (oeKV env) v (minterSetPrefix @ n) = (v1, x)" by force
  have "v' = v1" using SetDelete d e by (auto simp: oci_pathMinterSetDelete_def split: option.splits)
  then have "stored_role view (snd bw') m = stored_role view (snd bw) m \<or> stored_role view (snd bw') m = None" for m
    using oci_world.del_role [OF w d, of m] e by simp
  then show ?thesis by blast
next
  case (RoleWrite n raw rs)
  then show ?thesis using oci_world.roles_role_write [OF w] by (metis prod.collapse)
next
  case (RoleDelete n resp)
  then show ?thesis using oci_world.roles_role_delete [OF w] by (metis prod.collapse)
next
  case (RotateNow n ix resp)
  have "bw' = bw \<or> (\<exists>r i. bw' = fst (rotateSlot env bw r i))"
    using RotateNow by (auto simp: oci_pathRotateSlot_def split: option.splits sum.splits if_splits prod.splits) (metis fst_conv)+
  then show ?thesis using oci_world.off_role [OF w oci_world.off_rotate [OF w]] by metis
next
  case (Reconcile mode resp)
  have "bw' = bw \<or> (\<exists>ns dry. bw' = fst (oci_runReconcilePass env bw ns dry))"
    using Reconcile by (auto simp: oci_pathReconcile_def Let_def split: option.splits sum.splits if_splits prod.splits) (metis fst_conv)+
  then show ?thesis using oci_world.off_role [OF w oci_world.off_reconcile [OF w]] by metis
next
  case (Rotation e)
  have "bw' = bw \<or> (\<exists>t ns. bw' = rotate_roles env t ns bw)"
    using Rotation by (auto simp: rotationWorker_def split: sum.splits)
  then show ?thesis using oci_world.off_role [OF w oci_world.off_rotate_roles [OF w]] by metis
next
  case (Reclaim e)
  obtain b v where bw: "bw = (b, v)" by force
  obtain v1 x where p: "PruneCache (Some (oeKV env)) (oeNow env v) (CapabilityCacheDuration (obConfig b)) v = (v1, x)" by force
  have v1: "stored_role view v1 n = stored_role view v n" for n
    by (rule oci_world.roles_inside [OF w oci_world.wi_prune [OF w p]]) simp
  have "snd bw' = v1 \<or> (\<exists>ns. bw' = fst (oci_runReconcilePass env (b, v1) ns False))"
    using Reclaim bw p by (auto simp: oci_reconcileWorker_def Let_def split: sum.splits)
  then show ?thesis using oci_world.off_role [OF w oci_world.off_reconcile [OF w]] v1 bw by (metis snd_conv)
next
  case Health
  then show ?thesis using oci_world.off_role [OF w oci_world.off_health [OF w]] by metis
qed (auto simp: oci_pathMinterSetRotate_def oci_pathCredsRevoke_def)

text \<open>
  C16. Stored roles are well formed. From a mount whose stored roles are (one without roles is such a mount),
  along every run of the mount's operations, whatever is asked and whatever storage and the cloud answer, and
  of anything beside them that leaves the entries of roles alone, a role that is stored goes by its name,
  names a user and a minter set, has one or two slots and a period of at least an hour, has a positive
  default lease that is no longer than its longest lease and no longer than the time between rotations,
  and states demands on the caller that can be read.
\<close>
theorem oci_roles_typed:
  assumes "oci_world env view live issued" and "oci_roles_ok view (snd bw)"
    and "(oci_operation env print (\<lambda>x y. \<forall>n. stored_role view (snd y) n = stored_role view (snd x) n))\<^sup>*\<^sup>* bw bw'"
  shows "\<forall>n r. stored_role view (snd bw') n = Some r \<longrightarrow>
     orName r = n \<and> orUserOCID r \<noteq> [] \<and> orMinterSet r \<noteq> [] \<and> 1 \<le> orSlotCount r \<and> orSlotCount r \<le> 2 \<and> hour \<le> orRotationPeriod r
     \<and> 0 < orDefaultTTL r \<and> orDefaultTTL r \<le> orMaxTTL r \<and> orDefaultTTL r \<le> rotation_interval r
     \<and> ParseIdentityRequirement (orRequireCallerIdentity r) \<noteq> None
     \<and> ParseLineageRequirement (orRequireCallerLineage r) \<noteq> None"
proof -
  have "oci_roles_ok view (snd bw')"
    using assms(3)
  proof (induction rule: rtranclp_induct)
    case base
    then show ?case by (rule assms(2))
  next
    case (step y z)
    have "oci_role_ok n r" if "stored_role view (snd z) n = Some r" for n r
      using operation_roles [OF step.hyps(2) assms(1)] step.IH that by (metis oci_roles_ok_def option.distinct(1) option.inject)
    then show ?case by (simp add: oci_roles_ok_def)
  qed
  then show ?thesis by (auto simp: oci_roles_ok_def oci_role_ok_def)
qed

text \<open>A role of two slots is written, and then lowered to one.\<close>

lemma sim_lowered:
  "oci_pathRoleWrite sim_env (sim_backend, sim_start) ''r'' (sim_fields ''u'' 2) = ((sim_backend, sim_world), Inr RespNil)
   \<and> map_option orSlotCount (stored_role mem_view
       (snd (fst (oci_pathRoleWrite sim_env (sim_backend, sim_world) ''r'' (sim_fields ''u'' 1)))) ''r'') = Some 1"
  by code_simp

theorem oci_roles_typed_witness:
  "\<exists>bw r. (oci_operation sim_env (\<lambda>_. []) (\<lambda>x y. \<forall>n. stored_role mem_view (snd y) n = stored_role mem_view (snd x) n))\<^sup>*\<^sup>*
       (sim_backend, sim_start) bw
     \<and> stored_role mem_view (snd bw) ''r'' = Some r \<and> orSlotCount r = 1 \<and> orName r = ''r'' \<and> hour \<le> orRotationPeriod r"
proof -
  let ?op = "oci_operation sim_env (\<lambda>_. []) (\<lambda>x y. \<forall>n. stored_role mem_view (snd y) n = stored_role mem_view (snd x) n)"
  obtain bw rs where w: "oci_pathRoleWrite sim_env (sim_backend, sim_world) ''r'' (sim_fields ''u'' 1) = (bw, rs)" by (metis surj_pair)
  have "?op (sim_backend, sim_start) (sim_backend, sim_world)" using sim_lowered by (blast intro: oci_operation.RoleWrite)
  moreover have "?op (sim_backend, sim_world) bw" using w by (rule oci_operation.RoleWrite)
  ultimately have run: "?op\<^sup>*\<^sup>* (sim_backend, sim_start) bw" by (meson converse_rtranclp_into_rtranclp rtranclp.rtrancl_refl)
  have start: "oci_roles_ok mem_view (snd (sim_backend, sim_start))"
    by (simp add: oci_roles_ok_def stored_role_def mem_view_def sim_start_def rolesPrefix_def)
  obtain r where r: "stored_role mem_view (snd bw) ''r'' = Some r" "orSlotCount r = 1" using sim_lowered w by auto
  show ?thesis using oci_roles_typed [OF sim.oci_world_axioms start run] r run by blast
qed

section \<open>A role that could not be made\<close>

context oci_world begin

lemma initializeSlots_frame:
  assumes "initializeSlots env (b, w) r = ((b', w'), e)" and "ok w"
  shows "live w \<subseteq> live w'" and "k \<noteq> storageKey \<Longrightarrow> k \<notin> slot_keys (orName r) \<Longrightarrow> view w' k = view w k"
proof -
  note sp = initializeSlots_spec [OF assms]
  show "live w \<subseteq> live w'" using sp(2) by (auto simp: inside_def)
  show "view w' k = view w k" if "k \<noteq> storageKey" "k \<notin> slot_keys (orName r)"
    using inside_view [OF sp(2)] that by simp
qed

text \<open>A role that was stored, whose slots were not all made, and that was taken away again.\<close>

lemma unmade_role:
  assumes "oci_verifyRoleCapability env (b, w) r = ((b1, w1), None)" and "ok w"
    and "kput (oeKV env) w1 (rolesPrefix @ n) v = (w2, None)" and "initializeSlots env (b1, w2) r = ((b3, w3), Some e)"
    and "kdel (oeKV env) w3 (rolesPrefix @ n) = (w', x)" and "x = None" and "orName r = n"
  shows "stored_role view w' n = None" and "live w \<subseteq> live w'"
    and "m \<noteq> n \<Longrightarrow> stored_role view w' m = stored_role view w m"
    and "m \<noteq> n \<Longrightarrow> stored view w' m i s \<longleftrightarrow> stored view w m i s"
proof -
  note v = wi_verify_role [OF assms(1)]
  have "ok w1" by (rule ok_inside [OF assms(2) v]) auto
  then have ok2: "ok w2" by (rule ok_inside [OF _ wi_put [OF assms(3)]]) auto
  note f = initializeSlots_frame [OF assms(4) ok2, unfolded assms(7)]
  note d = del_ok [OF assms(5) [unfolded assms(6)]] and p = put_ok [OF assms(3)]
  have k: "view w' k = view w k" if "k \<noteq> storageKey" "k \<notin> slot_keys n" "k \<noteq> rolesPrefix @ n" "k \<notin> cache_keys" for k
    using that inside_view [OF v, of k] f(2) [of k] d p by simp
  show "stored_role view w' n = None" by (simp add: stored_role_def d)
  show "live w \<subseteq> live w'" using v f(1) put_cloud [OF assms(3)] del_cloud [OF assms(5)] by (auto simp: inside_def)
  show "stored_role view w' m = stored_role view w m" "stored view w' m i s \<longleftrightarrow> stored view w m i s" if "m \<noteq> n"
    using that k [of "rolesPrefix @ m"] k [of "storageKeyForSlot m i"] by (simp_all add: stored_role_def stored_def)
qed

end

text \<open>
  A role write that answers with an error leaves no half-made role. Where storage changes nothing
  when it refuses a write and does not refuse deletions, the role of that name is then what it was before
  or is gone; no other role and no slot of another role changed; and no token upstream was deleted.
\<close>
theorem failed_role_is_removed:
  assumes "oci_world env view live issued" and "slots_ok view issued w"
    and "\<forall>v k x v' e. kput (oeKV env) v k x = (v', Some e) \<longrightarrow> view v' = view v"
    and "\<forall>v k. snd (kdel (oeKV env) v k) = None"
    and "oci_pathRoleWrite env (b, w) n raw = ((b', w'), Inr (RespErr c))"
  shows "(stored_role view w' n = stored_role view w n \<or> stored_role view w' n = None)
     \<and> (\<forall>m. m \<noteq> n \<longrightarrow> stored_role view w' m = stored_role view w m
          \<and> (\<forall>i s. stored view w' m i s \<longleftrightarrow> stored view w m i s))
     \<and> live w \<subseteq> live w'"
  using assms(5)
proof (cases rule: oci_role_write_cases)
  case refused
  then show ?thesis by simp
next
  case (verified d b1)
  note v = oci_world.wi_verify_role [OF assms(1) verified(1)]
  have "stored_role view w' m = stored_role view w m" for m by (rule oci_world.roles_inside [OF assms(1) v]) auto
  moreover have "stored view w' m i s \<longleftrightarrow> stored view w m i s" for m i s
    by (rule oci_world.stored_frame [OF assms(1) v]) auto
  ultimately show ?thesis using v by (auto simp: inside_def)
next
  case (put b1 w1 e)
  note v = oci_world.wi_verify_role [OF assms(1) put(1)]
  have same: "view w' = view w1" using assms(3) put(3) by blast
  have "stored_role view w1 m = stored_role view w m" for m by (rule oci_world.roles_inside [OF assms(1) v]) auto
  moreover have "stored view w1 m i s \<longleftrightarrow> stored view w m i s" for m i s
    by (rule oci_world.stored_frame [OF assms(1) v]) auto
  moreover have "live w \<subseteq> live w'" using v oci_world.put_cloud [OF assms(1) put(3)] by (auto simp: inside_def)
  ultimately show ?thesis using same by (simp add: stored_role_def stored_def)
next
  case (stored b1 w1 w2)
  let ?r = "write_role env w n raw"
  have nm: "orName ?r = n" by (simp add: write_role_def role_of_fields_def)
  obtain b3 w3 e x where i: "initializeSlots env (b1, w2) ?r = ((b3, w3), Some e)" "kdel (oeKV env) w3 (rolesPrefix @ n) = (w', x)"
    using stored(4) by (cases rule: oci_world.maybe_cases [OF assms(1)]) (auto simp: nm)
  then have x: "x = None" using assms(4) by (metis snd_conv)
  note u = oci_world.unmade_role [OF assms(1) stored(1) assms(2) stored(3) i(1) i(2) x nm]
  show ?thesis
  proof (intro conjI allI impI disjI2)
    show "stored_role view w' n = None" "live w \<subseteq> live w'" by (rule u)+
    show "stored_role view w' m = stored_role view w m" if "m \<noteq> n" for m by (rule u(3) [OF that])
    show "stored view w' m i s = stored view w m i s" if "m \<noteq> n" for m i s by (rule u(4) [OF that])
  qed
qed

text \<open>The cloud refuses the next call.\<close>

definition sim_refusing :: oci_sim where
  "sim_refusing = sim_put (newFakeOCIClient \<lparr> fkFailNext := Some (NewError ErrUpstreamUnavailable 503 ''refused'') \<rparr>) sim_start"

lemma sim_refusing_run:
  "snd (oci_pathRoleWrite sim_env (sim_backend, sim_refusing) ''r'' (sim_fields ''u'' 2)) = Inr (RespErr ErrUpstreamUnavailable)"
  by code_simp

theorem failed_role_is_removed_witness:
  "\<exists>b w. oci_pathRoleWrite sim_env (sim_backend, sim_refusing) ''r'' (sim_fields ''u'' 2) = ((b, w), Inr (RespErr ErrUpstreamUnavailable))
     \<and> stored_role mem_view w ''r'' = None"
proof -
  obtain b w where run: "oci_pathRoleWrite sim_env (sim_backend, sim_refusing) ''r'' (sim_fields ''u'' 2)
      = ((b, w), Inr (RespErr ErrUpstreamUnavailable))"
    using sim_refusing_run by (metis prod.collapse)
  have "stored_role mem_view sim_refusing ''r'' = None"
    by (simp add: sim_refusing_def stored_role_def sim_start_def mem_view_def sim_put_def rolesPrefix_def)
  moreover have "slots_ok mem_view sim_issued sim_refusing"
    by (rule slots_ok_empty) (simp add: mem_view_def sim_refusing_def sim_put_def sim_start_def storageKeyForSlot_def)
  moreover have "\<forall>v k x v' e. kput (oeKV sim_env) v k x = (v', Some e) \<longrightarrow> mem_view v' = mem_view v"
    by (simp add: sim_env_def mem_kv_def split: prod.splits)
  moreover have "\<forall>v k. snd (kdel (oeKV sim_env) v k) = None"
    by (simp add: sim_env_def mem_kv_def split: prod.splits)
  ultimately show ?thesis using failed_role_is_removed [OF sim.oci_world_axioms _ _ _ run] run by auto
qed

end
