(* ===== verification/OCIDepartures.thy ===== *)
theory OCIDepartures
  imports OCIRoles
begin

text \<open>
  Runs of the OCI mount in which the code departs from what it, or a document beside it, says. Each starts
  from \<open>sim_world\<close>, where a role of two slots was just written with a period of two hours, or from the
  world before it, and is evaluated from the handlers as they are.
\<close>

section \<open>What is observed\<close>

definition written :: "'w oci_env \<Rightarrow> 'w ost \<Rightarrow> string \<Rightarrow> request_fields \<Rightarrow> 'w ost" where
  "written env bw n raw = fst (oci_pathRoleWrite env bw n raw)"

definition swept :: "oci_sim oci_env \<Rightarrow> oci_sim ost \<Rightarrow> oci_sim ost" where
  "swept env bw = fst (oci_runReconcilePass env bw [''r''] False)"

definition worked :: "oci_sim ost \<Rightarrow> oci_sim ost" where
  "worked bw = fst (rotationWorker sim_env bw)"

text \<open>What a read answers, and whether the cloud still knows the token.\<close>

definition usable_read :: "oci_sim \<Rightarrow> (string \<times> bool) option" where
  "usable_read w =
     map_option (\<lambda>(i, _). (i, list_ex (\<lambda>(_, ts). map_of ts i \<noteq> None) (fkTokens (sim_get w))))
       (served (oci_pathCredsRead sim_env w anyone ''r''))"

definition slot_at :: "oci_sim \<Rightarrow> nat \<Rightarrow> slot option" where
  "slot_at w i = Option.bind (mem_view w (storageKeyForSlot ''r'' i)) dec_slot"

section \<open>The phases of the slots merge\<close>

text \<open>
  Slots are made an interval apart, but each is then replaced once an interval, and not one of them every
  interval: after the first rotation the two slots of a role are due within minutes of each other, and
  until the worker's next pass the role has no credential to give.
\<close>

lemma slots_fall_due_together:
  "(let w = snd (worked (sim_backend, later (61 * minute) sim_world)) in
      (map_option slNextRotationAt (slot_at w 0), map_option slNextRotationAt (slot_at w 1)) =
        (Some (epoch + 121 * minute), Some (epoch + 120 * minute))
      \<and> oci_pathCredsRead sim_env (later (61 * minute) w) anyone ''r'' = RespErr ErrPoolExhausted)"
  by code_simp

section \<open>Slots that were taken away and given back\<close>

text \<open>
  A write that lowers the number of slots leaves the slot's entry, a reconcile pass deletes its token
  because the pass no longer looks at the entry, and a write that raises the number again finds slots
  there and makes none: the role then serves a token that is gone.
\<close>

lemma regrown_slot_serves_dead_token:
  "usable_read (later (61 * minute)
      (snd (written sim_env (swept sim_env (written sim_env (sim_backend, sim_world) ''r'' (sim_fields ''u'' 1)))
         ''r'' (sim_fields ''u'' 2)))) = Some (fake_ocid 1002, False)"
  by code_simp

section \<open>A role that changes its user\<close>

text \<open>
  A role given another user keeps the slots of the first. Deleting it then asks the cloud to delete their
  tokens from the second user: the tokens stay, and no entry is left that would lead anything to them.
\<close>

lemma tokens_outlive_changed_role:
  "(let bw = written sim_env (sim_backend, sim_world) ''r'' (sim_fields ''v'' 2);
        ((_, w), resp) = oci_pathRoleDelete sim_env bw ''r''
    in resp = RespNil \<and> fst w = [(''minter-sets/s'', enc_minter_set sample_set)]
       \<and> map fst (user_tokens (sim_get w) ''u'') = [fake_ocid 1001, fake_ocid 1002])"
  by code_simp

section \<open>A slot that cannot be read\<close>

text \<open>
  A reconcile pass that fails to read one slot of a role counts none of the role's tokens as known, and
  deletes them all, among them the one that readers hold.
\<close>

definition slot_read_fails :: "oci_sim oci_env" where
  "slot_read_fails =
     sim_env \<lparr> oeKV := mem_kv \<lparr> kget := (\<lambda>w k. if k = ''slots/r/1'' then Inl (Opaque ''storage'') else kget mem_kv w k) \<rparr> \<rparr>"

lemma unreadable_slot_costs_live_tokens:
  "usable_read sim_world = Some (fake_ocid 1001, True)
   \<and> usable_read (snd (swept slot_read_fails (sim_backend, sim_world))) = Some (fake_ocid 1001, False)"
  by code_simp

section \<open>Slots that were made before a failure\<close>

text \<open>
  A user that may hold one more token: the first slot is made, the second is not, the role is taken away
  and the first slot stays. Writing the role again, with nothing in the way, finds a slot and makes none:
  the second slot is never made, and cannot be rotated into being.
\<close>

definition one_more :: "oci_sim oci_env" where
  "one_more =
     sim_env \<lparr> oeFactory := Some (\<lambda>_. (fakeOCIClient sim_get sim_put)
       \<lparr> CreateAuthToken := (\<lambda>u d w. if fkNextID (sim_get w) \<noteq> 1000 then (w, Inl (NewError ErrUpstreamQuotaExceeded 400 ''two tokens''))
            else CreateAuthToken (fakeOCIClient sim_get sim_put) u d w) \<rparr>) \<rparr>"

lemma retried_role_lacks_a_slot:
  "(let (bw, first) = oci_pathRoleWrite one_more (sim_backend, sim_start) ''r'' (sim_fields ''u'' 2);
        (bw', again) = oci_pathRoleWrite sim_env bw ''r'' (sim_fields ''u'' 2)
    in first = Inr (RespErr ErrUpstreamQuotaExceeded) \<and> stored_role mem_view (snd bw) ''r'' = None
       \<and> slot_at (snd bw) 0 \<noteq> None
       \<and> again = Inr RespNil \<and> slot_at (snd bw') 0 \<noteq> None \<and> slot_at (snd bw') 1 = None
       \<and> snd (oci_pathRotateSlot sim_env bw' ''r'' ''1'') = RespErr ErrInternal)"
  by code_simp

section \<open>A role that was there before\<close>

text \<open>
  A role that was stored while no minter was usable, and is written again when the cloud refuses to make
  its slots, is taken away, though the answer is that the role was not saved.
\<close>

lemma rewrite_removes_stored_role:
  "(let idle = oci_pathRoleWrite sim_env (sim_backend \<lparr> obSets := [] \<rparr>, sim_refusing) ''r'' (sim_fields ''u'' 2);
        again = oci_pathRoleWrite sim_env (sim_backend, snd (fst idle)) ''r'' (sim_fields ''u'' 2)
    in snd idle = Inr RespNil \<and> stored_role mem_view (snd (fst idle)) ''r'' \<noteq> None
       \<and> snd again = Inr (RespErr ErrUpstreamUnavailable) \<and> stored_role mem_view (snd (fst again)) ''r'' = None)"
  by code_simp

section \<open>A write that landed\<close>

text \<open>
  A rotation whose save was stored, and answered with an error all the same, takes the save for lost and
  deletes the token it made. The slot names that token from then on, and readers are served it.
\<close>

definition slot_write_lands :: "oci_sim oci_env" where
  "slot_write_lands =
     sim_env \<lparr> oeKV := mem_kv \<lparr> kput := (\<lambda>w k v. if k = ''slots/r/0'' then (fst (kput mem_kv w k v), Some (Opaque ''timeout''))
          else kput mem_kv w k v) \<rparr> \<rparr>"

lemma failed_rotation_serves_dead_token:
  "(let ((b, w), resp) = oci_pathRotateSlot slot_write_lands (sim_backend, later minute sim_world) ''r'' ''0''
    in resp = RespErr ErrInternal \<and> usable_read (later minute sim_world) = Some (fake_ocid 1001, True)
       \<and> usable_read w = Some (fake_ocid 1003, False))"
  by code_simp

section \<open>A lease without time\<close>

text \<open>
  In the last second before a slot is due it is served with a time of zero. The core reads that as the
  mount's default, so the lease is good for far longer than the slot.
\<close>

lemma last_second_lease_has_no_time:
  "served (oci_pathCredsRead sim_env (later (2 * hour - 1) sim_world) anyone ''r'') = Some (fake_ocid 1002, 0)"
  by code_simp

end
