(* ===== verification/SetStatus.thy ===== *)
theory SetStatus
  imports OCIHandlers DOConfig
begin

text \<open>
  The read side of minter sets and roles, the same in every plugin (\<open>path_minter_sets.go\<close>,
  \<open>path_roles.go\<close>): the status of a set's minters, and the listings. What an answer shows of a minter
  does not depend on the credential it holds, stored or loaded.
\<close>

section \<open>Answers\<close>

text \<open>\<open>logical.ListResponse\<close> leaves the keys out when there are none.\<close>

definition ListResponse :: "string list \<Rightarrow> response" where
  "ListResponse ks = RespData (if ks = [] then [] else [(''keys'', JArr (map JStr ks))])"

definition snapshot_json :: "snapshot \<Rightarrow> json" where
  "snapshot_json s =
     JObj ([(''state'', JStr (snapState s)), (''consecutive_failures'', JInt (int (snapConsecutiveFailures s))),
            (''consecutive_auth_failures'', JInt (int (snapConsecutiveAuthFailures s)))]
       @ (case snapLastSuccessAt s of None \<Rightarrow> [] | Some t \<Rightarrow> [(''last_success_at'', JTime t)])
       @ [(''selectable'', JBool (snapSelectable s)), (''rate_limited'', JBool (snapRateLimited s))]
       @ (if snapRetryInSeconds s = 0 then [] else [(''retry_in_seconds'', JInt (snapRetryInSeconds s))]))"

definition stamped :: "string \<Rightarrow> time \<Rightarrow> (string \<times> json) list" where
  "stamped k t = (if IsZero t then [] else [(k, JTimestamp t)])"

definition minter_entry :: "time \<Rightarrow> set_states \<Rightarrow> minter \<Rightarrow> json" where
  "minter_entry now states m =
     JObj ([(''id'', JStr (ID m)), (''never_expires'', JBool (NeverExpires m)), (''retired'', JBool (Retired m))]
       @ stamped ''created_at'' (CreatedAt m) @ stamped ''expires_at'' (ExpiresAt m) @ stamped ''retired_at'' (RetiredAt m)
       @ (case map_of states (ID m) of None \<Rightarrow> [] | Some ms \<Rightarrow> [(''health'', snapshot_json (Recovery.Snapshot now (msSM ms)))]))"

definition minterStatus :: "time \<Rightarrow> (string \<times> set_states) list \<Rightarrow> minter_set \<Rightarrow> json list" where
  "minterStatus now sets s =
     map (minter_entry now (case map_of sets (Name s) of None \<Rightarrow> [] | Some states \<Rightarrow> states)) (Minters s)"

definition set_answer :: "time \<Rightarrow> (string \<times> set_states) list \<Rightarrow> minter_set \<Rightarrow> response" where
  "set_answer now sets s =
     RespData [(''name'', JStr (Name s)), (''minter_count'', JInt (int (length (Minters s)))),
               (''minter_ids'', JArr (map (\<lambda>m. JStr (ID m)) (Minters s))),
               (''minters'', JArr (minterStatus now sets s))]"

definition read_set :: "'w kv \<Rightarrow> 'w \<Rightarrow> time \<Rightarrow> (string \<times> set_states) list \<Rightarrow> string \<Rightarrow> response" where
  "read_set kv w now sets name =
     (case kget kv w (minterSetPrefix @ name) of
        Inl e \<Rightarrow> RespErr ErrInternal
      | Inr None \<Rightarrow> RespNil
      | Inr (Some v) \<Rightarrow>
          (case dec_minter_set v of None \<Rightarrow> RespErr ErrInternal | Some s \<Rightarrow> set_answer now sets s))"

definition list_under :: "'w kv \<Rightarrow> 'w \<Rightarrow> string \<Rightarrow> response" where
  "list_under kv w p = (case klist kv w p of Inl e \<Rightarrow> RespErr ErrInternal | Inr ks \<Rightarrow> ListResponse ks)"

section \<open>The handlers of the two plugins\<close>

definition pathMinterSetRead :: "'w env \<Rightarrow> 'w st \<Rightarrow> string \<Rightarrow> response" where
  "pathMinterSetRead env bw name = read_set (eKV env) (snd bw) (eNow env (snd bw)) (bSets (fst bw)) name"

definition pathMinterSetList :: "'w env \<Rightarrow> 'w st \<Rightarrow> response" where
  "pathMinterSetList env bw = list_under (eKV env) (snd bw) minterSetPrefix"

definition pathRoleList :: "'w env \<Rightarrow> 'w st \<Rightarrow> response" where
  "pathRoleList env bw = list_under (eKV env) (snd bw) rolesPrefix"

definition oci_pathMinterSetRead :: "'w oci_env \<Rightarrow> 'w ost \<Rightarrow> string \<Rightarrow> response" where
  "oci_pathMinterSetRead env bw name = read_set (oeKV env) (snd bw) (oeNow env (snd bw)) (obSets (fst bw)) name"

definition oci_pathMinterSetList :: "'w oci_env \<Rightarrow> 'w ost \<Rightarrow> response" where
  "oci_pathMinterSetList env bw = list_under (oeKV env) (snd bw) minterSetPrefix"

definition oci_pathRoleList :: "'w oci_env \<Rightarrow> 'w ost \<Rightarrow> response" where
  "oci_pathRoleList env bw = list_under (oeKV env) (snd bw) rolesPrefix"

section \<open>No secrets\<close>

text \<open>A minter with another credential.\<close>

definition rekeyed :: "(string \<Rightarrow> string) \<Rightarrow> (string \<Rightarrow> (string \<times> string) list) \<Rightarrow> minter \<Rightarrow> minter" where
  "rekeyed tok par m = m \<lparr> Token := tok (ID m), RotationParams := par (ID m) \<rparr>"

text \<open>What a mount has in memory, with other credentials: the minters of every set, their machines as they are.\<close>

definition rekeyed_state ::
  "(string \<Rightarrow> string) \<Rightarrow> (string \<Rightarrow> (string \<times> string) list) \<Rightarrow> minter_state \<Rightarrow> minter_state" where
  "rekeyed_state tok par ms = ms \<lparr> msMinter := rekeyed tok par (msMinter ms) \<rparr>"

definition rekeyed_sets ::
  "(string \<Rightarrow> string) \<Rightarrow> (string \<Rightarrow> (string \<times> string) list) \<Rightarrow> (string \<times> set_states) list \<Rightarrow> (string \<times> set_states) list" where
  "rekeyed_sets tok par sets = map (\<lambda>(n, st). (n, map (\<lambda>(i, ms). (i, rekeyed_state tok par ms)) st)) sets"

lemma map_of_rekeyed:
  "map_of (map (\<lambda>(i, x). (i, f x)) xs) k = map_option f (map_of xs k)"
  by (induction xs) auto

lemma rekeyed_status:
  "minterStatus now (rekeyed_sets tok' par' sets) (s \<lparr> Minters := map (rekeyed tok par) (Minters s) \<rparr>) = minterStatus now sets s"
  by (auto simp: minterStatus_def minter_entry_def rekeyed_def rekeyed_sets_def rekeyed_state_def map_of_rekeyed
      split: option.split)

text \<open>
  C30. The answer to the read of a minter set carries no credential, neither of what is stored nor of what is
  in memory: from worlds in which the stored set differs in nothing but the tokens and rotation parameters
  of its minters, on mounts whose loaded minters differ in nothing but theirs (their machines are the same,
  and everything else of the mounts may differ), the answers are the same.
\<close>
theorem set_read_hides_credentials:
  assumes "kv_store (eKV env) view"
    and "view w (minterSetPrefix @ n) = Some (enc_minter_set s)"
    and "view w' (minterSetPrefix @ n) = Some (enc_minter_set (s \<lparr> Minters := map (rekeyed tok par) (Minters s) \<rparr>))"
    and "bSets b' = rekeyed_sets tok' par' (bSets b)"
    and "eNow env w = eNow env w'"
    and "pathMinterSetRead env (b, w) n = RespData d" and "pathMinterSetRead env (b', w') n = RespData d'"
  shows "d = d'"
proof -
  have get: "kget (eKV env) v (minterSetPrefix @ n) = Inr (view v (minterSetPrefix @ n))"
    if "pathMinterSetRead env (c, v) n = RespData x" for c v x
    using that kv_store.get_view [OF assms(1)]
    by (cases "kget (eKV env) v (minterSetPrefix @ n)") (auto simp: pathMinterSetRead_def read_set_def)
  have ids: "map (\<lambda>m. JStr (ID m)) (map (rekeyed tok par) ms) = map (\<lambda>m. JStr (ID m)) ms" for ms
    by (simp add: rekeyed_def)
  have "pathMinterSetRead env (b, w) n = pathMinterSetRead env (b', w') n"
    unfolding pathMinterSetRead_def read_set_def fst_conv snd_conv get [OF assms(6)] get [OF assms(7)] assms(2-5)
    by (simp add: dec_enc_minter_set set_answer_def rekeyed_status ids del: map_map)
  then show ?thesis using assms(6,7) by simp
qed

theorem set_read_hides_credentials_witness:
  "\<exists>d. pathMinterSetRead (fake_env 5) (one_minter, ([(''minter-sets/s'', enc_minter_set sample_set)], [])) ''s'' = RespData d
     \<and> pathMinterSetRead (fake_env 5) (one_minter \<lparr> bSets := rekeyed_sets (\<lambda>_. ''third'') (\<lambda>_. []) (bSets one_minter) \<rparr>,
         ([(''minter-sets/s'', enc_minter_set
           (sample_set \<lparr> Minters := map (rekeyed (\<lambda>_. ''other'') (\<lambda>_. [])) (Minters sample_set) \<rparr>))], [])) ''s'' = RespData d"
proof -
  let ?w = "([(''minter-sets/s'', enc_minter_set sample_set)], [])"
  let ?v = "([(''minter-sets/s'', enc_minter_set
      (sample_set \<lparr> Minters := map (rekeyed (\<lambda>_. ''other'') (\<lambda>_. [])) (Minters sample_set) \<rparr>))], [])"
  let ?b = "one_minter \<lparr> bSets := rekeyed_sets (\<lambda>_. ''third'') (\<lambda>_. []) (bSets one_minter) \<rparr>"
  have k: "minterSetPrefix @ ''s'' = ''minter-sets/s''" by (simp add: minterSetPrefix_def)
  have a: "\<exists>d. pathMinterSetRead (fake_env 5) (one_minter, ?w) ''s'' = RespData d"
    and b: "\<exists>d. pathMinterSetRead (fake_env 5) (?b, ?v) ''s'' = RespData d"
    by (simp_all add: pathMinterSetRead_def read_set_def k fake_env_def mem_kv_def dec_enc_minter_set set_answer_def)
  have v: "mem_view ?w (minterSetPrefix @ ''s'') = Some (enc_minter_set sample_set)"
    "mem_view ?v (minterSetPrefix @ ''s'') =
       Some (enc_minter_set (sample_set \<lparr> Minters := map (rekeyed (\<lambda>_. ''other'') (\<lambda>_. [])) (Minters sample_set) \<rparr>))"
    by (simp_all add: k mem_view_def)
  have t: "eNow (fake_env 5) ?w = eNow (fake_env 5) ?v" by (simp add: fake_env_def)
  have s: "bSets ?b = rekeyed_sets (\<lambda>_. ''third'') (\<lambda>_. []) (bSets one_minter)" by simp
  show ?thesis
    using a b set_read_hides_credentials [OF fake.kv_store_axioms v s t] by blast
qed

end
