(* ===== verification/OCIHealth.thy ===== *)
theory OCIHealth
  imports OCIRoles
begin

text \<open>
  What the OCI mount learns of its minters: nothing. No operation records on a minter's machine whether
  the cloud accepted its login, so no machine leaves the state it starts in, the choice of a minter never
  moves past the first that is not retired, and the health check, which looks at minters whose login is
  known to fail, never calls the cloud.
\<close>

section \<open>Calm machines\<close>

definition calm :: "machine \<Rightarrow> bool" where
  "calm sm \<longleftrightarrow> mstate sm = Healthy \<and> cooldownUntil sm = zero_time \<and> rateLimitStrikes sm = 0"

definition calm_mount :: "oci_backend \<Rightarrow> bool" where
  "calm_mount b \<longleftrightarrow> (\<forall>(s, states) \<in> set (obSets b). \<forall>(i, ms) \<in> set states. calm (msSM ms))"

lemma calm_mount_same: "obSets b' = obSets b \<Longrightarrow> calm_mount b' = calm_mount b"
  by (simp add: calm_mount_def)

lemma calm_at: "calm_mount b \<Longrightarrow> (s, states) \<in> set (obSets b) \<Longrightarrow> (i, ms) \<in> set states \<Longrightarrow> calm (msSM ms)"
  by (fastforce simp: calm_mount_def)

lemma calm_mountI: "(\<And>s states i ms. (s, states) \<in> set (obSets b) \<Longrightarrow> (i, ms) \<in> set states \<Longrightarrow> calm (msSM ms)) \<Longrightarrow> calm_mount b"
  by (auto simp: calm_mount_def)

lemma calm_new: "calm (NewStateMachine cfg)"
  by (simp add: calm_def NewStateMachine_def)

lemma calm_release: "calm sm \<Longrightarrow> calm (ReleaseProbe sm)"
  by (simp add: calm_def ReleaseProbe_def)

lemma calm_no_check: "calm sm \<Longrightarrow> \<not> NeedsHealthCheck now sm"
  by (simp add: calm_def NeedsHealthCheck_def)

lemma calm_selectable: "calm sm \<Longrightarrow> 0 \<le> now \<Longrightarrow> Selectable now sm"
  by (simp add: calm_def Selectable_def serviceable_def)

lemma calm_machine:
  assumes "calm_mount b" and "oci_states b i = Some sm"
  shows "calm sm"
proof -
  obtain s states ms where "find (\<lambda>(_, states). map_of states i \<noteq> None) (obSets b) = Some (s, states)"
    and m: "map_of states i = Some ms" "sm = msSM ms"
    using assms(2) by (auto simp: oci_states_def split: option.splits)
  then have "(s, states) \<in> set (obSets b)" by (auto simp: find_Some_iff in_set_conv_nth)
  then show ?thesis using assms(1) m map_of_SomeD [OF m(1)] by (fastforce simp: calm_mount_def)
qed

section \<open>The gate\<close>

text \<open>Its only effect on a machine is to let go of a claim.\<close>

lemma calm_update:
  assumes "calm_mount b" and "\<And>sm. calm sm \<Longrightarrow> calm (f sm)"
  shows "calm_mount (oci_update_machine b s i f)"
  using assms by (fastforce simp: calm_mount_def oci_update_machine_def split: if_splits)

lemma calm_put: "calm_mount b \<Longrightarrow> calm sm \<Longrightarrow> calm_mount (oci_put_state i sm b)"
  by (auto simp: oci_put_state_def intro!: calm_update split: option.splits)

lemma calm_with:
  assumes "calm_mount b" and "\<And>i sm. sms i = Some sm \<Longrightarrow> calm sm"
  shows "calm_mount (oci_with_states b sms)"
proof -
  have "calm_mount (fold (\<lambda>i b. case sms i of None \<Rightarrow> b | Some sm \<Rightarrow> oci_put_state i sm b) is b)" for "is"
    using assms by (induction "is" arbitrary: b) (auto intro: calm_put split: option.splits)
  then show ?thesis by (simp add: oci_with_states_def)
qed

definition calm_states :: "states \<Rightarrow> bool" where
  "calm_states sms \<longleftrightarrow> (\<forall>i sm. sms i = Some sm \<longrightarrow> calm sm)"

definition skips :: "'w check \<Rightarrow> bool" where
  "skips c \<longleftrightarrow> (\<forall>v. \<exists>v'. ckRun c v = (v', StatusNone, Some ErrProbeUnsupported))"

lemma calm_record:
  "calm_states sms \<Longrightarrow> calm_states (record_probe l sms w i StatusNone (Some ErrProbeUnsupported))"
  by (auto simp: record_probe_def calm_states_def stateFor_def Let_def Classify_def classifyTransport_def ErrProbeUnsupported_def
      intro: calm_release split: option.splits if_splits)

lemma calm_verify_loop:
  assumes "verify_loop r w sms res cs = ((w', sms'), res', x)" and "calm_states sms" and "\<And>c. c \<in> set cs \<Longrightarrow> skips c"
  shows "calm_states sms'"
  using assms
proof (induction cs arbitrary: w sms res)
  case (Cons c cs)
  obtain v' where run: "ckRun c w = (v', StatusNone, Some ErrProbeUnsupported)"
    using Cons.prems(3) by (auto simp: skips_def)
  have u: "leaf ErrProbeUnsupported = ErrProbeUnsupported" by (simp add: ErrProbeUnsupported_def)
  have IH: "calm_states sms'" if "verify_loop r u s rs cs = ((w', sms'), res', x)" "calm_states s" for u s rs
    using Cons.IH that Cons.prems(3) by simp
  show ?case
    using Cons.prems(1,2) run u
    by (auto simp: Let_def split: if_splits option.splits intro: IH calm_record elim: IH [OF _ calm_record])
qed simp

lemma calm_gate_run:
  assumes "gate_run g kv w sms cs = ((w', sms'), c)" and "calm_states sms" and "\<And>c. c \<in> set cs \<Longrightarrow> skips c"
  shows "calm_states sms'"
proof -
  let ?rn = "\<lparr> rCache = Some \<lparr> cStorage = Some kv, cTTL = gCacheTTL g, cNow = gNow g, cDigest = gDigest g \<rparr>,
      rLimiter = gLimiter g \<rparr>"
  obtain ws res x where v: "Verify ?rn w sms cs = (ws, res, x)" by (metis surj_pair)
  have "ws = (w', sms')" using assms(1) v by (cases x) (simp_all add: gate_run_def Let_def)
  then have l: "verify_loop ?rn w sms \<lparr> Ran = 0, Skipped = 0, Cached = 0 \<rparr> (Dedupe cs) = ((w', sms'), res, x)"
    using v by (simp add: Verify_def)
  have "skips d" if d: "d \<in> set (Dedupe cs)" for d
  proof -
    obtain c rest where c: "with_key (ckKey d) cs = c # rest" "d = c \<lparr> ckRoles := merge_roles (ckRoles c) rest \<rparr>"
      using Dedupe_member [OF d] .
    have "c \<in> set (with_key (ckKey d) cs)" unfolding c(1) by simp
    then have "c \<in> set cs" by (simp add: with_key_def)
    moreover have "ckRun d = ckRun c" by (subst c(2)) simp
    ultimately show ?thesis using assms(3) by (simp add: skips_def)
  qed
  then show ?thesis by (rule calm_verify_loop [OF l assms(2)])
qed

lemma oci_checks_skip: "c \<in> set (oci_capabilityChecks env s v) \<Longrightarrow> skips c"
  by (auto simp: oci_capabilityChecks_def ChecksPerMinter_def skips_def split: option.splits)

lemma owner_same:
  assumes "oci_ownerInstanceID env (b, w) = ((b', w'), r)"
  shows "obSets b' = obSets b"
  using assms by (auto simp: oci_ownerInstanceID_def split: if_splits sum.splits prod.splits)

lemma calm_states_of: "calm_mount b \<Longrightarrow> calm_states (oci_states b)"
  using calm_machine by (auto simp: calm_states_def)

lemma calm_verify_set:
  assumes "oci_verifySetCapability env (b, w) s = ((b', w'), c)" and "calm_mount b"
  shows "calm_mount b'"
proof -
  obtain b1 w1 o1 where o: "oci_ownerInstanceID env (b, w) = ((b1, w1), o1)" by (metis surj_pair)
  have c1: "calm_mount b1" using calm_mount_same [OF owner_same [OF o]] assms(2) by simp
  show ?thesis
  proof (cases o1)
    case (Inl e)
    then show ?thesis using assms(1) o c1 by (simp add: oci_verifySetCapability_def)
  next
    case (Inr i)
    obtain w2 sms c2 where v: "VerifySet (oci_gate env b1) (oeKV env) w1 (oci_states b1) s (oci_capabilityChecks env)
        = ((w2, sms), c2)" by (metis surj_pair)
    have "calm_states sms"
      using v calm_states_of [OF c1] oci_checks_skip
      by (auto simp: VerifySet_def split: if_splits sum.splits elim!: calm_gate_run)
    then show ?thesis using assms(1) o Inr v calm_with [OF c1] by (auto simp: oci_verifySetCapability_def calm_states_def)
  qed
qed

lemma calm_verify_role:
  assumes "oci_verifyRoleCapability env (b, w) r = ((b', w'), c)" and "calm_mount b"
  shows "calm_mount b'"
proof -
  obtain b1 w1 o1 where o: "oci_ownerInstanceID env (b, w) = ((b1, w1), o1)" by (metis surj_pair)
  have c1: "calm_mount b1" using calm_mount_same [OF owner_same [OF o]] assms(2) by simp
  show ?thesis
  proof (cases o1)
    case (Inl e)
    then show ?thesis using assms(1) o c1 by (simp add: oci_verifyRoleCapability_def)
  next
    case (Inr i)
    obtain w2 sms c2 where v: "VerifyRole (oci_gate env b1) (oeKV env) w1 (oci_states b1) (orMinterSet r) (enc_oci_role r)
        (oci_capabilityChecks env) = ((w2, sms), c2)" by (metis surj_pair)
    have "calm_states sms"
      using v calm_states_of [OF c1] oci_checks_skip
      by (auto simp: VerifyRole_def split: if_splits sum.splits option.splits elim!: calm_gate_run)
    then show ?thesis using assms(1) o Inr v calm_with [OF c1] by (auto simp: oci_verifyRoleCapability_def calm_states_def)
  qed
qed

section \<open>Operations that leave every machine alone\<close>

lemma sets_init:
  assumes "initializeSlots env (b, w) r = ((b', w'), e)"
  shows "obSets b' = obSets b"
proof -
  obtain b1 w1 o1 where o: "oci_ownerInstanceID env (b, w) = ((b1, w1), o1)" by (metis surj_pair)
  then have "b' = b1" using assms by (auto simp: initializeSlots_def split: sum.splits prod.splits)
  then show ?thesis using owner_same [OF o] by simp
qed

lemma sets_rotate: "obSets (fst (fst (rotateSlot env bw r i))) = obSets (fst bw)"
proof -
  obtain b w where bw: "bw = (b, w)" by force
  obtain b1 w1 o1 where o: "oci_ownerInstanceID env (b, w) = ((b1, w1), o1)" by (metis surj_pair)
  then have "fst (fst (rotateSlot env bw r i)) = b1"
    by (auto simp: bw rotateSlot_def Let_def split: sum.splits option.splits prod.splits)
  then show ?thesis using owner_same [OF o] bw by simp
qed

lemma sets_rotate_due: "obSets (fst (rotate_due env r now is bw)) = obSets (fst bw)"
proof (induction "is" arbitrary: bw)
  case (Cons i "is")
  then show ?case using sets_rotate [of env bw r i]
    by (auto split: sum.splits option.splits)
qed simp

lemma sets_rotate_roles: "obSets (fst (rotate_roles env now ns bw)) = obSets (fst bw)"
proof (induction ns arbitrary: bw)
  case (Cons n ns)
  then show ?case by (auto simp: rotateDueSlots_def sets_rotate_due split: option.splits)
qed simp

lemma sets_reconcile: "obSets (fst (fst (oci_runReconcilePass env bw ns dry))) = obSets (fst bw)"
proof -
  obtain b w where bw: "bw = (b, w)" by force
  obtain b1 w1 o1 where o: "oci_ownerInstanceID env (b, w) = ((b1, w1), o1)" by (metis surj_pair)
  then have "fst (fst (oci_runReconcilePass env bw ns dry)) = b1"
    by (auto simp: bw oci_runReconcilePass_def split: sum.splits prod.splits)
  then show ?thesis using owner_same [OF o] bw by simp
qed

lemma sets_maybe:
  assumes "maybeInitializeSlots env (b, w) r = ((b', w'), rs)"
  shows "obSets b' = obSets b"
proof -
  obtain b1 w1 e where i: "initializeSlots env (b, w) r = ((b1, w1), e)" by (metis surj_pair)
  then have "b' = b \<or> b' = b1"
    using assms by (auto simp: maybeInitializeSlots_def split: sum.splits if_splits option.splits)
  then show ?thesis using sets_init [OF i] by auto
qed

lemma calm_role_write:
  assumes "oci_pathRoleWrite env (b, w) n raw = ((b', w'), rs)" and "calm_mount b"
  shows "calm_mount b'"
proof -
  let ?r = "write_role env w n raw"
  obtain d x where pre: "PrefillRoleWrite (oeKV env) w (rolesPrefix @ n) oci_role_schema oci_storedRoleData (oeValidate env) raw = (d, x)"
    by force
  obtain b1 w1 c where v: "oci_verifyRoleCapability env (b, w) ?r = ((b1, w1), c)" by (metis surj_pair)
  obtain w2 e where p: "kput (oeKV env) w1 (rolesPrefix @ n) (enc_oci_role ?r) = (w2, e)" by force
  obtain b2 w3 rs2 where m: "maybeInitializeSlots env (b1, w2) ?r = ((b2, w3), rs2)" by (metis surj_pair)
  have "b' = b \<or> b' = b1 \<or> b' = b2"
    using assms(1) pre v p m
    by (auto simp: oci_pathRoleWrite_def write_role_def Let_def split: option.splits if_splits)
  then show ?thesis using calm_verify_role [OF v assms(2)] calm_mount_same [OF sets_maybe [OF m]] assms(2) by auto
qed

lemma set_update: "p \<in> set (AList.update k v kvs) \<Longrightarrow> p = (k, v) \<or> p \<in> set kvs"
  by (induction kvs) (auto split: if_splits)

lemma calm_load:
  assumes "calm_mount b"
  shows "calm_mount (oci_loadMinterSet b s)"
proof -
  define previous where "previous = (case map_of (obSets b) (Name s) of None \<Rightarrow> [] | Some states \<Rightarrow> states)"
  define fresh where "fresh = NewStateMachine \<lparr> AuthFailThreshold = authFailThreshold, HealthCheckInterval = healthCheckInterval \<rparr>"
  define new where "new m = \<lparr> msMinter = m, msSM = (case map_of previous (ID m) of Some old \<Rightarrow> msSM old | None \<Rightarrow> fresh) \<rparr>"
    for m :: minter
  have prev: "calm (msSM ms)" if p: "map_of previous i = Some ms" for i ms
  proof -
    obtain states where "map_of (obSets b) (Name s) = Some states" "map_of states i = Some ms"
      using p by (cases "map_of (obSets b) (Name s)") (auto simp: previous_def)
    then show ?thesis using assms map_of_SomeD [of "obSets b"] map_of_SomeD [of states i ms] by (fastforce simp: calm_mount_def)
  qed
  have made: "calm (msSM (new m))" for m using prev calm_new by (auto simp: new_def fresh_def split: option.splits)
  have "\<forall>(i, ms) \<in> set (fold (\<lambda>m. AList.update (ID m) (new m)) mts acc). calm (msSM ms)"
    if "\<forall>(i, ms) \<in> set acc. calm (msSM ms)" for mts acc
    using that
  proof (induction mts arbitrary: acc)
    case (Cons m mts)
    have "\<forall>(i, ms) \<in> set (AList.update (ID m) (new m) acc). calm (msSM ms)"
      using Cons.prems made by (auto dest!: set_update)
    from Cons.IH [OF this] show ?case by simp
  qed simp
  from this [of "[]" "Minters s"] show ?thesis
    using assms unfolding calm_mount_def oci_loadMinterSet_def Let_def previous_def [symmetric] fresh_def [symmetric] new_def [symmetric]
    by (auto dest!: set_update)
qed

lemma calm_set_write:
  assumes "oci_pathMinterSetWrite env print (b, w) n d = ((b', w'), rs)" and "calm_mount b"
  shows "calm_mount b'"
proof -
  have "b' = b \<or> (\<exists>s b1 w1 c. oci_verifySetCapability env (b, w) s = ((b1, w1), c) \<and> (b' = b1 \<or> b' = oci_loadMinterSet b1 s))"
    using assms(1)
    by (auto simp: oci_pathMinterSetWrite_def Let_def split: if_splits option.splits sum.splits prod.splits)
  then show ?thesis using calm_verify_set calm_load assms(2) by metis
qed

lemma calm_set_delete:
  assumes "oci_pathMinterSetDelete env (b, w) n = ((b', w'), rs)" and "calm_mount b"
  shows "calm_mount b'"
proof -
  have "set (AList.delete n (obSets b)) \<subseteq> set (obSets b)" by (auto simp: AList.delete_eq)
  moreover have "b' = b \<or> obSets b' = AList.delete n (obSets b)"
    using assms(1) by (auto simp: oci_pathMinterSetDelete_def split: prod.splits option.splits)
  ultimately show ?thesis
  proof (elim disjE)
    assume sub: "set (AList.delete n (obSets b)) \<subseteq> set (obSets b)" and sets: "obSets b' = AList.delete n (obSets b)"
    show ?thesis by (rule calm_mountI, rule calm_at [OF assms(2) subsetD [OF sub]]) (simp_all add: sets)
  qed (use assms(2) in simp)
qed

lemma calm_health:
  assumes "calm_mount b"
  shows "oci_healthCheckWorker env (b, w) = (b, w)"
proof -
  have "filter (\<lambda>(_, ms). NeedsHealthCheck now (msSM ms)) states = []" if "(s, states) \<in> set (obSets b)" for s states now
    using assms that by (auto simp: calm_mount_def filter_empty_conv dest!: calm_no_check)
  then have "concat (map (\<lambda>(s, states). map (\<lambda>(i, ms). (s, i, Token (msMinter ms)))
      (filter (\<lambda>(_, ms). NeedsHealthCheck now (msSM ms)) states)) (obSets b)) = []" for now
    by (auto simp: concat_eq_Nil_conv)
  then show ?thesis by (simp only: oci_healthCheckWorker_def Let_def fst_conv snd_conv) simp
qed

section \<open>Runs\<close>

lemma operation_calm:
  assumes "oci_operation env print (\<lambda>x y. obSets (fst y) = obSets (fst x)) bw bw'" and "calm_mount (fst bw)"
  shows "calm_mount (fst bw')"
  using assms(1)
proof cases
  case Elsewhere
  then show ?thesis using assms(2) calm_mount_same by blast
next
  case (RotateNow n ix resp)
  have "fst bw' = fst bw \<or> (\<exists>r i. fst bw' = fst (fst (rotateSlot env bw r i)))"
    using RotateNow by (auto simp: oci_pathRotateSlot_def split: option.splits sum.splits if_splits prod.splits) (metis fst_conv)+
  then show ?thesis using assms(2) sets_rotate calm_mount_same by metis
next
  case (Reconcile mode resp)
  have "fst bw' = fst bw \<or> (\<exists>ns dry. fst bw' = fst (fst (oci_runReconcilePass env bw ns dry)))"
    using Reconcile by (auto simp: oci_pathReconcile_def Let_def split: option.splits sum.splits if_splits prod.splits) (metis fst_conv)+
  then show ?thesis using assms(2) sets_reconcile calm_mount_same by metis
next
  case (Rotation e)
  have "fst bw' = fst bw \<or> (\<exists>t ns. bw' = rotate_roles env t ns bw)"
    using Rotation by (auto simp: rotationWorker_def split: sum.splits)
  then show ?thesis using assms(2) sets_rotate_roles calm_mount_same by metis
next
  case (Reclaim e)
  have "fst bw' = fst bw \<or> (\<exists>w ns. bw' = fst (oci_runReconcilePass env (fst bw, w) ns False))"
    using Reclaim by (cases bw) (auto simp: oci_reconcileWorker_def Let_def split: sum.splits)
  then show ?thesis using assms(2) sets_reconcile calm_mount_same by (metis fst_conv)
next
  case (RoleDelete n resp)
  have "fst bw' = fst bw"
    using RoleDelete by (cases bw) (auto simp: oci_pathRoleDelete_def Let_def split: sum.splits option.splits prod.splits)
  then show ?thesis using assms(2) by simp
next
  case (SetWrite n d resp)
  then show ?thesis using assms(2) calm_set_write by (metis prod.collapse)
next
  case (SetDelete n resp)
  then show ?thesis using assms(2) calm_set_delete by (metis prod.collapse)
next
  case (RoleWrite n raw rs)
  then show ?thesis using assms(2) calm_role_write by (metis prod.collapse)
next
  case Health
  then show ?thesis using assms(2) calm_health by (metis prod.collapse)
qed (use assms(2) in \<open>auto simp: oci_pathMinterSetRotate_def oci_pathCredsRevoke_def\<close>)

text \<open>A visit meets a minter that can be chosen first exactly when it is not retired.\<close>

lemma calm_choice:
  assumes "calm_mount b" and "0 \<le> oeNow env w"
  shows "selectMinterForSet env b w s = Inr (i, c) \<longleftrightarrow>
    (\<exists>states ms. map_of (obSets b) s = Some states
       \<and> find (\<lambda>(_, ms). \<not> Retired (msMinter ms)) (map_order (oeOrder env w) states) = Some (i, ms)
       \<and> c = newOCIClient env b (Token (msMinter ms)))"
proof -
  have "find (\<lambda>(_, ms). usable (oeNow env w) ms) (map_order ord states) = find (\<lambda>(_, ms). \<not> Retired (msMinter ms)) (map_order ord states)"
    if "map_of (obSets b) s = Some states" for ord states
  proof (rule find_cong [OF refl])
    fix p assume p: "p \<in> set (map_order ord states)"
    obtain j ms where e: "p = (j, ms)" by force
    have "calm (msSM ms)" using calm_at [OF assms(1) map_of_SomeD [OF that] map_order_set] p e by blast
    then show "(\<lambda>(_, ms). usable (oeNow env w) ms) p = (\<lambda>(_, ms). \<not> Retired (msMinter ms)) p"
      using calm_selectable [OF _ assms(2)] by (simp add: e usable_def)
  qed
  then show ?thesis by (auto simp: selectMinterForSet_def Let_def split: option.splits)
qed


text \<open>The cloud refuses a role's slots; whatever the order of the map, the same minter is asked again.\<close>

definition two_minters :: oci_backend where
  "two_minters = sim_backend \<lparr> obSets :=
     [(''s'', [(''m'', \<lparr> msMinter = sample_minter ''m'' False, msSM = sample_machine \<rparr>),
               (''n'', \<lparr> msMinter = sample_minter ''n'' False, msSM = sample_machine \<rparr>)])] \<rparr>"

definition backwards :: "oci_sim oci_env" where
  "backwards = sim_env \<lparr> oeOrder := (\<lambda>_. rev) \<rparr>"


end
