(* ===== verification/OCIConfig.thy ===== *)
theory OCIConfig
  imports SetStatus OCIHealth
begin

text \<open>
  \<open>plugins/credential-oci\<close>, the configuration of a mount (\<open>path_config.go\<close>) and what a backend loads
  when it is built or its node takes over (\<open>backend.go\<close>, \<open>path_minter_sets.go\<close>). The configuration lies
  in three entries: the shared part, the interval of the rotation worker, and the region.
\<close>

section \<open>The stored forms\<close>

definition configRegionKey :: string where "configRegionKey = ''config/region''"
definition configRotationCheckKey :: string where "configRotationCheckKey = ''config/rotation_check_interval''"
definition defaultRegion :: string where "defaultRegion = ''us-ashburn-1''"
definition defaultRotationCheckIntervalSeconds :: int where "defaultRotationCheckIntervalSeconds = 3600"

definition oci_write_config :: "request_fields \<Rightarrow> plugin_config" where
  "oci_write_config d =
     \<lparr> cfgSchema = SchemaVersion, cfgCloud = ''oci'', cfgMinters = [],
       ReconcileCadence = of_seconds (get_int d ''reconcile_cadence'' 21600),
       BootstrapDelay = reconcilerBootstrapDelay, MaxDeletesPerPass = 10,
       MinterExpiryWarn = of_seconds (get_int d ''minter_expiry_warn'' 604800), MinterRetireGrace = of_seconds 604800,
       VerifyMinterCapability = Some (case d ''verify_minter_capability'' of Some (JBool v) \<Rightarrow> v | _ \<Rightarrow> True),
       CapabilityCacheTTL = Some (of_seconds (get_int d ''capability_cache_ttl'' 3600)),
       MinterCredentialLimit = None \<rparr>"

definition dec_region :: "blob \<Rightarrow> string option" where
  "dec_region b = (case b of Json (JStr s) \<Rightarrow> Some s | Json JNull \<Rightarrow> Some [] | _ \<Rightarrow> None)"

section \<open>The handlers\<close>

text \<open>The shared part is stored before the intervals are judged, and memory changes last.\<close>

definition oci_pathConfigWrite :: "'w oci_env \<Rightarrow> 'w ost \<Rightarrow> request_fields \<Rightarrow> 'w ost \<times> response" where
  "oci_pathConfigWrite env bw d =
     (if d ''minter_retire_grace'' \<notin> {None, Some JNull} then (bw, RespErr ErrUnsupported)
      else case bw of
        (b, w) \<Rightarrow>
          (let cfg = oci_write_config d
           in case kput (oeKV env) w pathConfigKey (enc_config cfg) of
                (w, Some e) \<Rightarrow> ((b, w), RespErr ErrInternal)
              | (w, None) \<Rightarrow>
                  (let check = of_seconds (get_int d ''rotation_check_interval'' defaultRotationCheckIntervalSeconds)
                   in if ValidateIntervals [(''reconcile_cadence'', ReconcileCadence cfg),
                           (''minter_expiry_warn'', MinterExpiryWarn cfg), (''minter_retire_grace'', MinterRetireGrace cfg),
                           (''rotation_check_interval'', check)] \<noteq> None
                      then ((b, w), RespErr ErrConfigInvalid)
                      else case kput (oeKV env) w configRotationCheckKey (Json (JInt check)) of
                        (w, Some e) \<Rightarrow> ((b, w), RespErr ErrInternal)
                      | (w, None) \<Rightarrow>
                          (let region = get_str d ''region'' defaultRegion
                           in case kput (oeKV env) w configRegionKey (Json (JStr region)) of
                                (w, Some e) \<Rightarrow> ((b, w), RespErr ErrInternal)
                              | (w, None) \<Rightarrow> ((b \<lparr> obConfig := Some cfg, obRegion := region \<rparr>, w), RespNil)))))"

definition oci_loadConfig :: "'w oci_env \<Rightarrow> 'w ost \<Rightarrow> oci_backend \<times> err option" where
  "oci_loadConfig env bw =
     (case bw of
        (b, w) \<Rightarrow>
          (case kget (oeKV env) w pathConfigKey of
             Inl e \<Rightarrow> (b, Some e)
           | Inr None \<Rightarrow> (b, None)
           | Inr (Some v) \<Rightarrow>
               (case dec_config v of
                  None \<Rightarrow> (b, Some (Opaque ''json''))
                | Some cfg \<Rightarrow>
                    if \<not> CheckSchema (cfgSchema cfg) then (b, Some (Opaque ''schema version''))
                    else
                      let b = b \<lparr> obConfig := Some cfg \<rparr>
                      in case kget (oeKV env) w configRegionKey of
                           Inl e \<Rightarrow> (b, Some e)
                         | Inr None \<Rightarrow> (b, None)
                         | Inr (Some v) \<Rightarrow>
                             (case dec_region v of
                                None \<Rightarrow> (b, Some (Opaque ''json''))
                              | Some region \<Rightarrow>
                                  (b \<lparr> obRegion := (if region \<noteq> [] then region else obRegion b) \<rparr>, None)))))"

text \<open>A region that does not parse, or is null, is shown as the default, and so is the interval.\<close>

definition oci_pathConfigRead :: "'w oci_env \<Rightarrow> 'w ost \<Rightarrow> response" where
  "oci_pathConfigRead env bw =
     (case kget (oeKV env) (snd bw) pathConfigKey of
        Inl e \<Rightarrow> RespErr ErrInternal
      | Inr None \<Rightarrow> RespNil
      | Inr (Some v) \<Rightarrow>
          (case dec_config v of
             None \<Rightarrow> RespErr ErrInternal
           | Some cfg \<Rightarrow>
               (case kget (oeKV env) (snd bw) configRegionKey of
                  Inl e \<Rightarrow> RespErr ErrInternal
                | Inr rv \<Rightarrow>
                    (case kget (oeKV env) (snd bw) configRotationCheckKey of
                       Inl e \<Rightarrow> RespErr ErrInternal
                     | Inr iv \<Rightarrow>
                         RespData [(''cloud'', JStr (cfgCloud cfg)),
                           (''region'', JStr (case rv of Some (Json (JStr s)) \<Rightarrow> s | _ \<Rightarrow> defaultRegion)),
                           (''reconcile_cadence'', JInt (seconds_of (ReconcileCadence cfg))),
                           (''minter_expiry_warn'', JInt (seconds_of (MinterExpiryWarn cfg))),
                           (''minter_retire_grace'', JInt (seconds_of (MinterRetireGrace cfg))),
                           (''verify_minter_capability'', JBool (CapabilityVerificationEnabled (Some cfg))),
                           (''capability_cache_ttl'', JInt (seconds_of (CapabilityCacheDuration (Some cfg)))),
                           (''rotation_check_interval'', JInt (case iv of
                               None \<Rightarrow> defaultRotationCheckIntervalSeconds
                             | Some (Json (JInt i)) \<Rightarrow> seconds_of i
                             | Some (Json JNull) \<Rightarrow> 0
                             | Some _ \<Rightarrow> defaultRotationCheckIntervalSeconds))]))))"

section \<open>What a backend loads\<close>

fun oci_load_sets :: "'w oci_env \<Rightarrow> 'w \<Rightarrow> oci_backend \<Rightarrow> string list \<Rightarrow> oci_backend" where
  "oci_load_sets env w b [] = b"
| "oci_load_sets env w b (name # names) =
     (case kget (oeKV env) w (minterSetPrefix @ name) of
        Inr (Some v) \<Rightarrow>
          (case dec_minter_set v of
             None \<Rightarrow> oci_load_sets env w b names
           | Some s \<Rightarrow>
               if \<not> CheckSchema (Schema s) then oci_load_sets env w b names
               else if ValidateMinterSet (Minters s) \<noteq> None then oci_load_sets env w b names
               else oci_load_sets env w (oci_loadMinterSet b s) names)
      | _ \<Rightarrow> oci_load_sets env w b names)"

definition oci_loadAllMinterSets :: "'w oci_env \<Rightarrow> 'w ost \<Rightarrow> 'w ost \<times> err option" where
  "oci_loadAllMinterSets env bw =
     (case bw of
        (b, w) \<Rightarrow>
          (case klist (oeKV env) w minterSetPrefix of
             Inl e \<Rightarrow> (bw, Some e)
           | Inr names \<Rightarrow> ((oci_load_sets env w b names, w), None)))"

definition oci_new_backend :: oci_backend where
  "oci_new_backend = \<lparr> obInstanceID = [], obConfig = None, obSets = [], obRegion = [] \<rparr>"

definition oci_Factory :: "'w oci_env \<Rightarrow> 'w \<Rightarrow> 'w ost" where
  "oci_Factory env w = fst (oci_loadAllMinterSets env (fst (oci_loadConfig env (oci_new_backend, w)), w))"

definition oci_initialize :: "'w oci_env \<Rightarrow> 'w ost \<Rightarrow> 'w ost" where
  "oci_initialize env bw = fst (oci_loadAllMinterSets env (fst (oci_loadConfig env bw), snd bw))"

lemma oci_load_sets_keeps:
  "obConfig (oci_load_sets env w b names) = obConfig b" "obRegion (oci_load_sets env w b names) = obRegion b"
proof -
  have "obConfig (oci_loadMinterSet b s) = obConfig b" "obRegion (oci_loadMinterSet b s) = obRegion b" for b s
    by (simp_all add: oci_loadMinterSet_def Let_def)
  then have "obConfig (oci_load_sets env w b names) = obConfig b \<and> obRegion (oci_load_sets env w b names) = obRegion b"
    by (induction env w b names rule: oci_load_sets.induct) (auto split: sum.splits option.splits)
  then show "obConfig (oci_load_sets env w b names) = obConfig b" "obRegion (oci_load_sets env w b names) = obRegion b"
    by auto
qed

text \<open>A backend starts calm, and a load keeps it so.\<close>

lemma calm_load_sets: "calm_mount b \<Longrightarrow> calm_mount (oci_load_sets env w b names)"
  by (induction env w b names rule: oci_load_sets.induct) (auto simp: calm_load split: sum.splits option.splits)

lemma oci_Factory_calm: "calm_mount (fst (oci_Factory env w))"
proof -
  have "obSets (fst (oci_loadConfig env (oci_new_backend, w))) = []"
    by (auto simp: oci_loadConfig_def oci_new_backend_def Let_def split: sum.splits option.splits)
  then have "calm_mount (fst (oci_loadConfig env (oci_new_backend, w)))" by (simp add: calm_mount_def)
  then show ?thesis by (auto simp: oci_Factory_def oci_loadAllMinterSets_def calm_load_sets split: sum.splits)
qed

text \<open>
  A configuration that was accepted is the one a backend built anew loads; an empty region is the one
  thing the running mount takes over and a new one does not.
\<close>
theorem oci_config_survives_restart:
  assumes "kv_store (oeKV env) view" and "oci_pathConfigWrite env (b, w) d = ((b', w'), RespNil)"
    and "oci_loadConfig env (oci_new_backend, w') = (b1, None)"
  shows "obConfig b' = Some (oci_write_config d) \<and> obConfig (fst (oci_Factory env w')) = obConfig b'
     \<and> 0 < ReconcileCadence (oci_write_config d) \<and> obRegion (fst (oci_Factory env w')) = obRegion b'"
proof -
  let ?cfg = "oci_write_config d" and ?region = "get_str d ''region'' defaultRegion"
  let ?check = "of_seconds (get_int d ''rotation_check_interval'' defaultRotationCheckIntervalSeconds)"
  obtain w1 x1 where p1: "kput (oeKV env) w pathConfigKey (enc_config ?cfg) = (w1, x1)" by force
  obtain w2 x2 where p2: "kput (oeKV env) w1 configRotationCheckKey (Json (JInt ?check)) = (w2, x2)" by force
  obtain w3 x3 where p3: "kput (oeKV env) w2 configRegionKey (Json (JStr ?region)) = (w3, x3)" by force
  have x: "x1 = None" "x2 = None" "x3 = None" "w' = w3" "b' = b \<lparr> obConfig := Some ?cfg, obRegion := ?region \<rparr>"
    and iv: "ValidateIntervals [(''reconcile_cadence'', ReconcileCadence ?cfg), (''minter_expiry_warn'', MinterExpiryWarn ?cfg),
       (''minter_retire_grace'', MinterRetireGrace ?cfg), (''rotation_check_interval'', ?check)] = None"
    using assms(2) p1 p2 p3
    by (auto simp: oci_pathConfigWrite_def Let_def split: if_splits option.splits)
  note v1 = kv_store.put_ok [OF assms(1) p1 [unfolded x]] and v2 = kv_store.put_ok [OF assms(1) p2 [unfolded x]]
    and v3 = kv_store.put_ok [OF assms(1) p3 [unfolded x]]
  have view: "view w' pathConfigKey = Some (enc_config ?cfg)" "view w' configRegionKey = Some (Json (JStr ?region))"
    by (simp_all add: x v1 v2 v3 pathConfigKey_def configRegionKey_def configRotationCheckKey_def)
  obtain g1 where g1: "kget (oeKV env) w' pathConfigKey = Inr g1"
    using assms(3) by (cases "kget (oeKV env) w' pathConfigKey") (simp_all add: oci_loadConfig_def)
  have e1: "g1 = Some (enc_config ?cfg)" using kv_store.get_view [OF assms(1) g1] view(1) by simp
  have s: "CheckSchema (cfgSchema ?cfg)" by (simp add: oci_write_config_def CheckSchema_def)
  obtain g2 where g2: "kget (oeKV env) w' configRegionKey = Inr g2"
    using assms(3) g1 e1 s
    by (cases "kget (oeKV env) w' configRegionKey") (simp_all add: oci_loadConfig_def dec_enc_config)
  have e2: "g2 = Some (Json (JStr ?region))" using kv_store.get_view [OF assms(1) g2] view(2) by simp
  have "b1 = oci_new_backend \<lparr> obConfig := Some ?cfg, obRegion := ?region \<rparr>"
    using assms(3) g1 e1 s g2 e2 by (auto simp: oci_loadConfig_def dec_enc_config dec_region_def oci_new_backend_def Let_def)
  then have "obConfig (fst (oci_Factory env w')) = Some ?cfg" "obRegion (fst (oci_Factory env w')) = ?region"
    by (auto simp: oci_Factory_def oci_loadAllMinterSets_def oci_load_sets_keeps assms(3) split: sum.splits)
  moreover have "0 < ReconcileCadence ?cfg" using iv by (auto simp: ValidateIntervals_None)
  ultimately show ?thesis using x(5) by simp
qed

section \<open>A refused configuration\<close>

text \<open>
  A configuration with an interval that is refused has been stored by then: the answer is that it is
  invalid, the running mount does not change, and the next backend that is built runs with it.
\<close>

definition zero_cadence :: request_fields where
  "zero_cadence = [''reconcile_cadence'' \<mapsto> JInt 0]"

lemma refused_config_is_kept:
  "(let ((b, w), resp) = oci_pathConfigWrite sim_env (sim_backend, sim_start) zero_cadence
    in resp = RespErr ErrConfigInvalid \<and> b = sim_backend
       \<and> map_option ReconcileCadence (obConfig (fst (oci_Factory sim_env w))) = Some 0)"
  by code_simp

end
