(* ===== verification/ExoMinters.thy ===== *)
theory ExoMinters
  imports DOConfig
begin

text \<open>
  \<open>plugins/credential-exoscale\<close>, what a cloud adds whose minters can replace themselves: the rotation of a
  minter by a successor it makes (\<open>path_minter_sets.go\<close>, \<open>exoscale_client.go\<close>, \<open>capability.go\<close>), and the
  sweep that deletes the key of a minter some time after it was retired (\<open>minter_retire.go\<close>). The mount's
  state, the loading of a set into it and the gate are the code of \<open>plugins/credential-do\<close> again and are
  taken from \<open>DOBackend\<close>. A rotation and a sweep hold one lock from end to end.
\<close>

section \<open>The client\<close>

definition exoscaleAPIURL :: "backend \<Rightarrow> string" where
  "exoscaleAPIURL b = (if bApiURL b \<noteq> [] then bApiURL b else ''https://api-ch-gva-2.exoscale.com'')"

definition newExoscaleClient :: "string \<Rightarrow> string \<Rightarrow> do_client" where
  "newExoscaleClient url key = \<lparr> baseURL = url, clToken = key \<rparr>"

record api_key =
  akKey :: string
  akSecret :: string
  akKeyID :: string
  akName :: string
  akRoleID :: string

definition dec_api_key :: "json \<Rightarrow> api_key option" where
  "dec_api_key d =
     (case (opt_field [] dec_str d ''key'', opt_field [] dec_str d ''secret'', opt_field [] dec_str d ''key-id'',
            opt_field [] dec_str d ''name'', opt_field [] dec_str d ''role-id'') of
        (Some k, Some s, Some i, Some n, Some r) \<Rightarrow>
          Some \<lparr> akKey = k, akSecret = s, akKeyID = i, akName = n, akRoleID = r \<rparr>
      | _ \<Rightarrow> None)"

definition CreateAPIKey ::
  "'w http \<Rightarrow> do_client \<Rightarrow> string \<Rightarrow> string \<Rightarrow> 'w \<Rightarrow> 'w \<times> int \<times> (err + api_key)" where
  "CreateAPIKey h c name roleID w =
     (case hSend h w POST (baseURL c @ ''/v2/api-key'') (clToken c)
             (Some (JObj [(''name'', JStr name), (''role-id'', JStr roleID)])) of
        (w', Inl e) \<Rightarrow> (w', 0, Inl e)
      | (w', Inr (st, body)) \<Rightarrow>
          if st \<noteq> 200 then (w', st, Inl (Opaque ''exoscale API returned''))
          else (case dec_body dec_api_key body of
                  None \<Rightarrow> (w', st, Inl (Opaque ''decoding''))
                | Some k \<Rightarrow> (w', st, Inr k)))"

definition exo_CheckHealth :: "'w http \<Rightarrow> do_client \<Rightarrow> 'w \<Rightarrow> int \<times> err option" where
  "exo_CheckHealth h c w =
     (case hGet h w (baseURL c @ ''/v2/zone'') (clToken c) of Inl e \<Rightarrow> (0, Some e) | Inr (st, _) \<Rightarrow> (st, None))"

definition DeleteAPIKey :: "'w http \<Rightarrow> do_client \<Rightarrow> string \<Rightarrow> 'w \<Rightarrow> 'w \<times> int \<times> err option" where
  "DeleteAPIKey h c keyID w =
     (case hSend h w DELETE (baseURL c @ ''/v2/api-key/'' @ PathSegment keyID) (clToken c) None of
        (w', Inl e) \<Rightarrow> (w', 0, Some e)
      | (w', Inr (st, _)) \<Rightarrow>
          if st \<noteq> 200 then (w', st, Some (Opaque ''exoscale API delete returned'')) else (w', st, None))"

text \<open>A time in nanoseconds of the Unix epoch, in base 36.\<close>

definition digit36 :: "int \<Rightarrow> char" where
  "digit36 d = char_of (nat (if d < 10 then 48 + d else 87 + d))"

function digits36 :: "int \<Rightarrow> string" where
  "digits36 i = (if i < 36 then [digit36 i] else digits36 (i div 36) @ [digit36 (i mod 36)])"
  by auto
termination by (relation "measure nat") auto

declare digits36.simps [simp del]

definition rotationSuffix :: "time \<Rightarrow> string" where
  "rotationSuffix now =
     (let i = wrap64 (now - epoch) in if i < 0 then CHR ''-'' # digits36 (- i) else digits36 i)"

definition fieldRoleID :: string where "fieldRoleID = ''role_id''"
definition fieldKeyID :: string where "fieldKeyID = ''key_id''"
definition successorKeyNamePrefix :: string where "successorKeyNamePrefix = ''cloud-creds-minter-''"
definition defaultMinterSecretLifetime :: duration where "defaultMinterSecretLifetime = 365 * (24 * hour)"

text \<open>The successor of a minter, from the key that was made for it.\<close>

definition successor_of :: "minter \<Rightarrow> api_key \<Rightarrow> time \<Rightarrow> minter" where
  "successor_of old k now =
     \<lparr> ID = ID old @ ''-rot-'' @ rotationSuffix now, Token = akKey k,
       ExpiresAt = (if NeverExpires old then 0 else now + defaultMinterSecretLifetime), ExpiresSource = [],
       NeverExpires = NeverExpires old, CreatedAt = now, Retired = False, RetiredAt = 0,
       RotationParams = [(fieldKeyID, akKeyID k), (fieldRoleID, param (RotationParams old) fieldRoleID)] \<rparr>"

definition RotateMinter :: "'w env \<Rightarrow> do_client \<Rightarrow> minter \<Rightarrow> 'w \<Rightarrow> 'w \<times> (err + minter)" where
  "RotateMinter env c old w =
     (let roleID = param (RotationParams old) fieldRoleID
      in if roleID = [] then (w, Inl (Opaque ''missing rotation_params.role_id''))
         else case CreateAPIKey (eHttp env) c (successorKeyNamePrefix @ ID old) roleID w of
           (w', st, Inl e) \<Rightarrow> (w', Inl (Wrap ''create successor api-key failed: '' e))
         | (w', st, Inr k) \<Rightarrow> (w', Inr (successor_of old k (eNow env w'))))"

section \<open>The gate\<close>

record exo_role =
  erName :: string
  erDefaultTTL :: duration
  erMaxTTL :: duration
  erRoleID :: string
  erMinterSet :: string
  erDisabled :: bool
  erRequireCallerIdentity :: string
  erRequireCallerLineage :: string

definition dec_exo_role_json :: "json \<Rightarrow> exo_role option" where
  "dec_exo_role_json d =
     (case (opt_field [] dec_str d ''name'', opt_field 0 dec_int d ''default_ttl'', opt_field 0 dec_int d ''max_ttl'',
            opt_field [] dec_str d ''role_id'', opt_field [] dec_str d ''minter_set'') of
        (Some n, Some dt, Some mt, Some ri, Some ms) \<Rightarrow>
          (case (opt_field False dec_bool d ''disabled'', opt_field [] dec_str d ''require_caller_identity'',
                 opt_field [] dec_str d ''require_caller_lineage'') of
             (Some dis, Some rci, Some rcl) \<Rightarrow>
               Some \<lparr> erName = n, erDefaultTTL = dt, erMaxTTL = mt, erRoleID = ri, erMinterSet = ms, erDisabled = dis,
                      erRequireCallerIdentity = rci, erRequireCallerLineage = rcl \<rparr>
           | _ \<Rightarrow> None)
      | _ \<Rightarrow> None)"

definition dec_exo_role :: "blob \<Rightarrow> exo_role option" where
  "dec_exo_role b = dec_body dec_exo_role_json b"

definition exo_probeMint ::
  "'w env \<Rightarrow> string \<Rightarrow> string \<Rightarrow> string \<Rightarrow> string \<Rightarrow> minter \<Rightarrow> 'w \<Rightarrow> 'w \<times> int \<times> err option" where
  "exo_probeMint env apiURL instanceID rName roleID m w =
     (let client = newExoscaleClient apiURL (Token m)
      in case CreateAPIKey (eHttp env) client (ProbeName (Prefix instanceID) rName (eSuffix env w)) roleID w of
           (w', status, Inl e) \<Rightarrow> (w', status, Some (Wrap ''probe api-key creation returned: '' e))
         | (w', status, Inr k) \<Rightarrow>
             (case DeleteAPIKey (eHttp env) client (akKeyID k) w' of (w'', _) \<Rightarrow> (w'', status, None)))"

definition exo_capabilityChecks :: "'w env \<Rightarrow> backend \<Rightarrow> 'w checks_func" where
  "exo_capabilityChecks env b s roleJSON =
     (case dec_exo_role roleJSON of
        None \<Rightarrow> []
      | Some r \<Rightarrow>
          ChecksPerMinter (eMarshal env) s (erName r) (erRoleID r)
            (exo_probeMint env (exoscaleAPIURL b) (bInstanceID b) (erName r) (erRoleID r)))"

definition verifySuccessorCapability :: "'w env \<Rightarrow> 'w st \<Rightarrow> string \<Rightarrow> minter \<Rightarrow> 'w st \<times> code option" where
  "verifySuccessorCapability env bw setName successor =
     (case ownerInstanceID env bw of
        (bw, Inl e) \<Rightarrow> (bw, Some ErrInternal)
      | ((b, w), Inr _) \<Rightarrow>
          (case VerifySuccessor (gate env b) (eKV env) w (minterStateByID b) setName successor
                  (exo_capabilityChecks env b) of
             ((w', sms), c) \<Rightarrow> ((with_states b sms, w'), c)))"

section \<open>Rotation\<close>

definition newClientForMinter :: "backend \<Rightarrow> minter \<Rightarrow> do_client" where
  "newClientForMinter b m = newExoscaleClient (exoscaleAPIURL b) (Token m)"

text \<open>A set is stored under the name it carries.\<close>

definition persistSet :: "'w env \<Rightarrow> 'w st \<Rightarrow> minter_set \<Rightarrow> 'w st \<times> err option" where
  "persistSet env bw s =
     (case bw of
        (b, w) \<Rightarrow>
          (case kput (eKV env) w (minterSetPrefix @ Name s) (enc_minter_set s) of
             (w', Some e) \<Rightarrow> ((b, w'), Some e)
           | (w', None) \<Rightarrow> ((loadMinterSet b s, w'), None)))"

definition withRotatedSuccessor :: "minter list \<Rightarrow> nat \<Rightarrow> time \<Rightarrow> minter \<Rightarrow> minter list" where
  "withRotatedSuccessor ms oldIdx retiredAt successor =
     map (\<lambda>i. if i = oldIdx then (ms ! i) \<lparr> Retired := True, RetiredAt := retiredAt \<rparr> else ms ! i) [0..<length ms]
       @ [successor]"

fun index_of :: "string \<Rightarrow> nat \<Rightarrow> minter list \<Rightarrow> nat option" where
  "index_of i k [] = None"
| "index_of i k (m # ms) = (if ID m = i then Some k else index_of i (Suc k) ms)"

definition locateRotatable :: "minter_set \<Rightarrow> string \<Rightarrow> code + nat \<times> minter" where
  "locateRotatable s minterID =
     (case index_of minterID 0 (Minters s) of
        None \<Rightarrow> Inl ErrConfigInvalid
      | Some oldIdx \<Rightarrow>
          (let old = Minters s ! oldIdx
           in if Retired old then Inl ErrConfigInvalid
              else if param (RotationParams old) fieldRoleID = [] then Inl ErrConfigInvalid
              else Inr (oldIdx, old)))"

definition synthetic_successor :: "minter \<Rightarrow> time \<Rightarrow> minter" where
  "synthetic_successor old now =
     \<lparr> ID = ID old @ ''-rot-pending'', Token = [], ExpiresAt = (if NeverExpires old then 0 else now + defaultMinterSecretLifetime),
       ExpiresSource = [], NeverExpires = NeverExpires old, CreatedAt = 0, Retired = False, RetiredAt = 0, RotationParams = [] \<rparr>"

definition validateProspectiveRotation :: "minter_set \<Rightarrow> nat \<Rightarrow> minter \<Rightarrow> time \<Rightarrow> time \<Rightarrow> set_error option" where
  "validateProspectiveRotation s oldIdx old retiredAt now =
     ValidateMinterSet (withRotatedSuccessor (Minters s) oldIdx retiredAt (synthetic_successor old now))"

definition rotationClient :: "backend \<Rightarrow> string \<Rightarrow> string \<Rightarrow> time \<Rightarrow> do_client option" where
  "rotationClient b setName minterID now =
     (case map_of (bSets b) setName of
        None \<Rightarrow> None
      | Some states \<Rightarrow>
          (let usable = (\<lambda>ms. \<not> Retired (msMinter ms) \<and> Selectable now (msSM ms))
           in case map_of states minterID of
                Some ms \<Rightarrow>
                  if usable ms then Some (newClientForMinter b (msMinter ms))
                  else map_option (\<lambda>(_, ms). newClientForMinter b (msMinter ms))
                         (find (\<lambda>(i, ms). i \<noteq> minterID \<and> usable ms) states)
              | None \<Rightarrow>
                  map_option (\<lambda>(_, ms). newClientForMinter b (msMinter ms))
                    (find (\<lambda>(i, ms). i \<noteq> minterID \<and> usable ms) states)))"

definition cleanupSuccessor :: "'w env \<Rightarrow> do_client \<Rightarrow> minter \<Rightarrow> 'w \<Rightarrow> 'w" where
  "cleanupSuccessor env c successor w =
     (let keyID = param (RotationParams successor) fieldKeyID
      in if keyID = [] then w else fst (DeleteAPIKey (eHttp env) c keyID w))"

text \<open>The second half of a rotation: the successor was made, and is proved and stored or taken away again.\<close>

definition commit_rotation ::
  "'w env \<Rightarrow> 'w st \<Rightarrow> string \<Rightarrow> string \<Rightarrow> minter_set \<Rightarrow> nat \<Rightarrow> time \<Rightarrow> do_client \<Rightarrow> minter \<Rightarrow> 'w st \<times> response" where
  "commit_rotation env bw name minterID s oldIdx retiredAt client successor =
     (case bw of
        (b, w) \<Rightarrow>
          (case exo_CheckHealth (eHttp env) (newClientForMinter b successor) w of
             (status, herr) \<Rightarrow>
               if herr \<noteq> None \<or> status \<noteq> 200
               then ((b, cleanupSuccessor env client successor w), RespErr ErrUpstreamAuthFailed)
               else case verifySuccessorCapability env (b, w) name successor of
                 ((b, w), Some c) \<Rightarrow> ((b, cleanupSuccessor env client successor w), RespErr c)
               | (bw, None) \<Rightarrow>
                   (case persistSet env bw (s \<lparr> Minters := withRotatedSuccessor (Minters s) oldIdx retiredAt successor \<rparr>) of
                      ((b, w), Some e) \<Rightarrow> ((b, cleanupSuccessor env client successor w), RespErr ErrInternal)
                    | (bw, None) \<Rightarrow>
                        (bw, RespData [(''successor_id'', JStr (ID successor)), (''retired_minter_id'', JStr minterID),
                                       (''retired_at'', JTime retiredAt)]))))"

definition pathMinterSetRotate :: "'w env \<Rightarrow> 'w st \<Rightarrow> string \<Rightarrow> string \<Rightarrow> 'w st \<times> response" where
  "pathMinterSetRotate env bw name minterID =
     (if minterID = [] then (bw, RespErr ErrConfigInvalid)
      else case LoadMinterSet (eKV env) (snd bw) name of
        Inl e \<Rightarrow> (bw, RespErr ErrInternal)
      | Inr None \<Rightarrow> (bw, RespErr ErrConfigInvalid)
      | Inr (Some s) \<Rightarrow>
          (case locateRotatable s minterID of
             Inl c \<Rightarrow> (bw, RespErr c)
           | Inr (oldIdx, old) \<Rightarrow>
               (let retiredAt = eNow env (snd bw)
                in if validateProspectiveRotation s oldIdx old retiredAt (eNow env (snd bw)) \<noteq> None
                   then (bw, RespErr ErrConfigInvalid)
                   else case rotationClient (fst bw) name minterID (eNow env (snd bw)) of
                     None \<Rightarrow> (bw, RespErr ErrUpstreamAuthFailed)
                   | Some client \<Rightarrow>
                       (case RotateMinter env client old (snd bw) of
                          (w, Inl e) \<Rightarrow> ((fst bw, w), RespErr ErrUpstreamAuthFailed)
                        | (w, Inr successor) \<Rightarrow>
                            commit_rotation env (fst bw, w) name minterID s oldIdx retiredAt client successor))))"

section \<open>The sweep of retired minters\<close>

definition retireGrace :: "backend \<Rightarrow> duration" where
  "retireGrace b =
     (case bConfig b of
        Some cfg \<Rightarrow> if 0 < MinterRetireGrace cfg then MinterRetireGrace cfg else MinMinterGap
      | None \<Rightarrow> MinMinterGap)"

text \<open>Whether the minter may be dropped; without a recorded key it may, and its key stays.\<close>

definition deleteRetiredUpstream :: "'w env \<Rightarrow> backend \<Rightarrow> minter \<Rightarrow> 'w \<Rightarrow> 'w \<times> bool" where
  "deleteRetiredUpstream env b m w =
     (let keyID = param (RotationParams m) fieldKeyID
      in if keyID = [] then (w, True)
         else case DeleteAPIKey (eHttp env) (newClientForMinter b m) keyID w of
           (w', status, e) \<Rightarrow> (w', e = None \<or> status = 404))"

fun sweep_minters ::
  "'w env \<Rightarrow> backend \<Rightarrow> time \<Rightarrow> duration \<Rightarrow> minter list \<Rightarrow> minter list \<Rightarrow> bool \<Rightarrow> 'w \<Rightarrow> 'w \<times> minter list \<times> bool" where
  "sweep_minters env b now grace [] rest changed w = (w, rest, changed)"
| "sweep_minters env b now grace (m # ms) rest changed w =
     (if Retired m \<and> RetiredAt m + grace < now
      then case deleteRetiredUpstream env b m w of
        (w, True) \<Rightarrow> sweep_minters env b now grace ms rest True w
      | (w, False) \<Rightarrow> sweep_minters env b now grace ms (rest @ [m]) changed w
      else sweep_minters env b now grace ms (rest @ [m]) changed w)"

definition sweepSet :: "'w env \<Rightarrow> 'w st \<Rightarrow> string \<Rightarrow> time \<Rightarrow> duration \<Rightarrow> 'w st \<times> err option" where
  "sweepSet env bw name now grace =
     (case bw of
        (b, w) \<Rightarrow>
          (case LoadMinterSet (eKV env) w name of
             Inl e \<Rightarrow> (bw, Some e)
           | Inr None \<Rightarrow> (bw, None)
           | Inr (Some s) \<Rightarrow>
               (case sweep_minters env b now grace (Minters s) [] False w of
                  (w, rest, False) \<Rightarrow> ((b, w), None)
                | (w, rest, True) \<Rightarrow> persistSet env (b, w) (s \<lparr> Minters := rest \<rparr>))))"

text \<open>A set whose sweep fails is passed over.\<close>

fun sweep_sets :: "'w env \<Rightarrow> time \<Rightarrow> duration \<Rightarrow> string list \<Rightarrow> 'w st \<Rightarrow> 'w st" where
  "sweep_sets env now grace [] bw = bw"
| "sweep_sets env now grace (n # ns) bw = sweep_sets env now grace ns (fst (sweepSet env bw n now grace))"

definition sweepRetiredMinters :: "'w env \<Rightarrow> 'w st \<Rightarrow> time \<Rightarrow> 'w st \<times> err option" where
  "sweepRetiredMinters env bw now =
     (case klist (eKV env) (snd bw) minterSetPrefix of
        Inl e \<Rightarrow> (bw, Some e)
      | Inr names \<Rightarrow> (sweep_sets env now (retireGrace (fst bw)) names bw, None))"

section \<open>Writing a set\<close>

text \<open>A minter of a request may say how it is rotated.\<close>

definition dec_params :: "(json \<Rightarrow> string) \<Rightarrow> json option \<Rightarrow> (string \<times> string) list" where
  "dec_params print v =
     (case v of Some (JObj kvs) \<Rightarrow> map (\<lambda>(k, d). (k, sprint print (Some d))) kvs | _ \<Rightarrow> [])"

definition exo_parseMinter :: "(json \<Rightarrow> string) \<Rightarrow> time \<Rightarrow> (string \<times> json) list \<Rightarrow> minter option" where
  "exo_parseMinter print now kvs =
     (let get = field (JObj kvs)
      in if \<not> ValidateMinterKeys (map fst kvs) [''id'', ''expires_at'', ''never_expires'', ''key'', ''rotation_params''] then None
         else
           let m = \<lparr> ID = sprint print (get ''id''), Token = sprint print (get ''key''), ExpiresAt = 0,
                     ExpiresSource = [], NeverExpires = (get ''never_expires'' = Some (JBool True)),
                     CreatedAt = now, Retired = False, RetiredAt = 0, RotationParams = dec_params print (get ''rotation_params'') \<rparr>
           in case get ''expires_at'' of
                Some (JStr s) \<Rightarrow> None
              | Some (JTime t) \<Rightarrow> Some (m \<lparr> ExpiresAt := t \<rparr>)
              | _ \<Rightarrow> Some m)"

definition exo_parseMinters :: "(json \<Rightarrow> string) \<Rightarrow> time \<Rightarrow> request_fields \<Rightarrow> minter list option" where
  "exo_parseMinters print now d =
     (case d ''minters'' of
        Some (JArr vs) \<Rightarrow>
          dec_all (\<lambda>v. case v of JObj kvs \<Rightarrow> exo_parseMinter print now kvs | _ \<Rightarrow> None) vs
      | _ \<Rightarrow> None)"

definition exo_verifySetCapability :: "'w env \<Rightarrow> 'w st \<Rightarrow> minter_set \<Rightarrow> 'w st \<times> code option" where
  "exo_verifySetCapability env bw s =
     (case ownerInstanceID env bw of
        (bw, Inl e) \<Rightarrow> (bw, Some ErrInternal)
      | ((b, w), Inr _) \<Rightarrow>
          (case VerifySet (gate env b) (eKV env) w (minterStateByID b) s (exo_capabilityChecks env b) of
             ((w', sms), r) \<Rightarrow> ((with_states b sms, w'), r)))"

definition exo_pathMinterSetWrite ::
  "'w env \<Rightarrow> (json \<Rightarrow> string) \<Rightarrow> 'w st \<Rightarrow> string \<Rightarrow> request_fields \<Rightarrow> 'w st \<times> response" where
  "exo_pathMinterSetWrite env print bw name d =
     (if \<not> ValidateSetName name then (bw, RespErr ErrConfigInvalid)
      else case exo_parseMinters print (eNow env (snd bw)) d of
        None \<Rightarrow> (bw, RespErr ErrConfigInvalid)
      | Some minters \<Rightarrow>
          if \<not> ValidateMinterIDs minters then (bw, RespErr ErrConfigInvalid)
          else case LoadMinterSet (eKV env) (snd bw) name of
            Inl e \<Rightarrow> (bw, RespErr ErrInternal)
          | Inr stored \<Rightarrow>
              (let minters = PreserveLifecycle minters stored (eNow env (snd bw))
               in if ValidateMinterSet minters \<noteq> None then (bw, RespErr ErrConfigInvalid)
                  else
                    let s = \<lparr> Schema = SchemaVersion, Name = name, Minters = minters \<rparr>
                    in case exo_verifySetCapability env bw s of
                         (bw, Some c) \<Rightarrow> (bw, RespErr c)
                       | ((b, w), None) \<Rightarrow>
                           (case persistSet env (b, w) s of
                              (bw, Some e) \<Rightarrow> (bw, RespErr ErrInternal)
                            | (bw, None) \<Rightarrow> (bw, RespNil))))"

end
