(* ===== verification/ExoWorld.thy ===== *)
theory ExoWorld
  imports ExoMinters OCIWorld
begin

text \<open>
  What the rotation of minters relies on from the outside: the storage contract, and a cloud that hands
  out a key id it has never handed out before, bound to the role that was asked for, and that deletes
  nothing but the key a call names. \<open>exo_honest\<close> adds a store whose failed writes wrote nothing. An
  in-memory cloud that checks the key of every call keeps both. \<open>inside\<close>, of the OCI plugin, says
  which entries an operation may change and which keys it may delete.
\<close>

section \<open>The world\<close>

text \<open>\<open>live\<close> is the set of upstream keys, each a role and a key id; \<open>issued\<close> holds every key id ever handed out.\<close>

locale exo_world = kv_store "eKV env" view
  for env :: "'w env" and view :: "'w \<Rightarrow> string \<Rightarrow> blob option" +
  fixes live :: "'w \<Rightarrow> (string \<times> string) set" and issued :: "'w \<Rightarrow> string set"
  assumes send_view: "hSend (eHttp env) w vb url tok body = (w', answer) \<Longrightarrow> view w' = view w"
    and put_cloud: "kput (eKV env) w k v = (w', e) \<Longrightarrow> live w' = live w \<and> issued w' = issued w"
    and create_err: "CreateAPIKey (eHttp env) c name role w = (w', st, Inl x) \<Longrightarrow>
      live w \<subseteq> live w' \<and> issued w \<subseteq> issued w'"
    and create_ok: "CreateAPIKey (eHttp env) c name role w = (w', st, Inr ak) \<Longrightarrow>
      akKeyID ak \<noteq> [] \<and> akKeyID ak \<notin> issued w \<and> issued w' = insert (akKeyID ak) (issued w)
      \<and> live w' = insert (role, akKeyID ak) (live w)"
    and delete_keys: "DeleteAPIKey (eHttp env) c i w = (w', st, e) \<Longrightarrow>
      issued w' = issued w \<and> {(r, j) \<in> live w. j \<noteq> i} \<subseteq> live w' \<and> live w' \<subseteq> live w"
    and delete_ok: "DeleteAPIKey (eHttp env) c i w = (w', st, e) \<Longrightarrow> e = None \<or> st = 404 \<Longrightarrow> (r, i) \<notin> live w'"
    and live_issued: "(r, i) \<in> live w \<Longrightarrow> i \<in> issued w"

locale exo_honest = exo_world env view live issued
  for env :: "'w env" and view live issued +
  assumes put_fails_clean: "kput (eKV env) w k v = (w', Some e) \<Longrightarrow> view w' = view w"

context exo_world begin

abbreviation "ew \<equiv> inside view live issued"

lemma CreateAPIKey_view:
  assumes "CreateAPIKey (eHttp env) c name role w = (w', st, r)"
  shows "view w' = view w"
proof -
  obtain w1 a where h: "hSend (eHttp env) w POST (baseURL c @ ''/v2/api-key'') (clToken c)
      (Some (JObj [(''name'', JStr name), (''role-id'', JStr role)])) = (w1, a)" by force
  have "w' = w1" using assms h by (auto simp: CreateAPIKey_def split: sum.splits if_splits option.splits)
  then show ?thesis using send_view [OF h] by simp
qed

lemma DeleteAPIKey_view:
  assumes "DeleteAPIKey (eHttp env) c i w = (w', st, e)"
  shows "view w' = view w"
proof -
  obtain w1 a where h: "hSend (eHttp env) w DELETE (baseURL c @ ''/v2/api-key/'' @ PathSegment i) (clToken c) None = (w1, a)"
    by force
  have "w' = w1" using assms h by (auto simp: DeleteAPIKey_def split: sum.splits if_splits)
  then show ?thesis using send_view [OF h] by simp
qed

lemma ew_put: "kput (eKV env) w k v = (w', e) \<Longrightarrow> ew {k} {} w w'"
  using put_frame put_cloud unfolding inside_def by blast

lemma ew_create: "CreateAPIKey (eHttp env) c name role w = (w', st, r) \<Longrightarrow> ew {} {} w w'"
proof -
  assume c: "CreateAPIKey (eHttp env) c name role w = (w', st, r)"
  show ?thesis
    using CreateAPIKey_view [OF c] create_err [of c name role w w' st] create_ok [of c name role w w' st] c
    by (cases r) (auto simp: inside_def)
qed

lemma ew_delete: "DeleteAPIKey (eHttp env) c i w = (w', st, e) \<Longrightarrow> ew {} {i} w w'"
proof -
  assume d: "DeleteAPIKey (eHttp env) c i w = (w', st, e)"
  show ?thesis using DeleteAPIKey_view [OF d] delete_keys [OF d] by (auto simp: inside_def)
qed

text \<open>A key that was made since can be deleted without loss.\<close>

lemma ew_new:
  assumes "ew K {} u v" and "ew K {i} v w" and "i \<notin> issued u"
  shows "ew K {} u w"
proof -
  have "ew K {i} u w" using inside_join [OF assms(1,2)] by simp
  moreover have "(r, i) \<notin> live u" for r using assms(3) live_issued by blast
  ultimately show ?thesis unfolding inside_def by blast
qed

lemma ew_probe:
  assumes "exo_probeMint env url inst n role m w = (w', st, e)"
  shows "ew {} {} w w'"
proof -
  let ?c = "newExoscaleClient url (Token m)"
  obtain w1 s1 r where c: "CreateAPIKey (eHttp env) ?c (ProbeName (Prefix inst) n (eSuffix env w)) role w = (w1, s1, r)"
    by (metis surj_pair)
  show ?thesis
  proof (cases r)
    case (Inl x)
    then show ?thesis using assms c ew_create [OF c] by (simp add: exo_probeMint_def Let_def)
  next
    case (Inr k)
    obtain w2 s2 x where d: "DeleteAPIKey (eHttp env) ?c (akKeyID k) w1 = (w2, s2, x)" by (metis surj_pair)
    have "w' = w2" using assms c Inr d by (simp add: exo_probeMint_def Let_def)
    then show ?thesis using ew_new [OF ew_create [OF c] ew_delete [OF d]] create_ok [OF c [unfolded Inr]] by simp
  qed
qed

lemma ew_owner: "ownerInstanceID env (b, w) = ((b', w'), r) \<Longrightarrow> ew {storageKey} {} w w'"
  using ownerInstanceID_world ew_put inside_refl by metis

lemma ew_cache_put: "ew cache_keys {} w (fst (kput (eKV env) w (cachePrefix @ k) v))"
proof -
  obtain w1 e where p: "kput (eKV env) w (cachePrefix @ k) v = (w1, e)" by force
  then show ?thesis using inside_mono [OF ew_put [OF p], of cache_keys "{}"] by (auto simp: cache_keys_def)
qed

lemma ew_checks:
  assumes "ck \<in> set (exo_capabilityChecks env b s raw)" and "ckRun ck u = (v, st, e)"
  shows "ew cache_keys {} u v"
proof -
  have "ew {} {} u v" using assms ew_probe
    by (auto simp: exo_capabilityChecks_def ChecksPerMinter_def split: option.splits if_splits)
  then show ?thesis by (rule inside_mono) auto
qed

lemma ew_successor:
  assumes "verifySuccessorCapability env (b, w) n m = ((b', w'), c)"
  shows "ew (insert storageKey cache_keys) {} w w'"
proof -
  obtain b1 w1 o1 where o: "ownerInstanceID env (b, w) = ((b1, w1), o1)" by (metis surj_pair)
  have w01: "ew (insert storageKey cache_keys) {} w w1" by (rule inside_mono [OF ew_owner [OF o]]) auto
  show ?thesis
  proof (cases o1)
    case (Inl e)
    then show ?thesis using assms o w01 by (simp add: verifySuccessorCapability_def)
  next
    case (Inr inst)
    obtain w2 sms c2 where v: "VerifySuccessor (gate env b1) (eKV env) w1 (minterStateByID b1) n m
        (exo_capabilityChecks env b1) = ((w2, sms), c2)" by (metis surj_pair)
    have w2: "w' = w2" using assms o Inr v by (simp add: verifySuccessorCapability_def)
    have "ew cache_keys {} w1 w2"
      by (rule verify_set_rel [where R = "ew cache_keys {}", OF inside_refl inside_trans ew_cache_put ew_checks
            v [unfolded VerifySuccessor_def]])
    then have "ew (insert storageKey cache_keys) {} w1 w2" by (rule inside_mono) auto
    then show ?thesis unfolding w2 by (rule inside_trans [OF w01])
  qed
qed

lemma ew_cleanup:
  assumes "cleanupSuccessor env c m w = w'"
  shows "ew {} {param (RotationParams m) fieldKeyID} w w'"
proof (cases "param (RotationParams m) fieldKeyID = []")
  case False
  obtain w1 st e where d: "DeleteAPIKey (eHttp env) c (param (RotationParams m) fieldKeyID) w = (w1, st, e)"
    by (metis surj_pair)
  then show ?thesis using ew_delete [OF d] assms False by (simp add: cleanupSuccessor_def)
qed (use assms in \<open>simp add: cleanupSuccessor_def\<close>)

text \<open>What a rotation makes: a key of the minter's own role, live and never seen before.\<close>

lemma rotate_made:
  assumes "RotateMinter env c old w = (w', Inr m)"
  shows "\<exists>k. m = successor_of old k (eNow env w') \<and> akKeyID k \<noteq> [] \<and> akKeyID k \<notin> issued w
      \<and> live w' = insert (param (RotationParams old) fieldRoleID, akKeyID k) (live w)
      \<and> issued w' = insert (akKeyID k) (issued w) \<and> view w' = view w"
proof -
  let ?r = "param (RotationParams old) fieldRoleID"
  obtain w1 st r where c: "CreateAPIKey (eHttp env) c (successorKeyNamePrefix @ ID old) ?r w = (w1, st, r)"
    by (metis surj_pair)
  show ?thesis
  proof (cases r)
    case (Inl x)
    then show ?thesis using assms c by (simp add: RotateMinter_def Let_def split: if_splits)
  next
    case (Inr k)
    then show ?thesis using assms c create_ok [OF c [unfolded Inr]] CreateAPIKey_view [OF c]
      by (auto simp: RotateMinter_def Let_def split: if_splits)
  qed
qed

lemma rotate_failed: "RotateMinter env c old w = (w', Inl e) \<Longrightarrow> ew {} {} w w'"
proof -
  assume r: "RotateMinter env c old w = (w', Inl e)"
  obtain w1 st x where c: "CreateAPIKey (eHttp env) c (successorKeyNamePrefix @ ID old)
      (param (RotationParams old) fieldRoleID) w = (w1, st, x)" by (metis surj_pair)
  show ?thesis using r c ew_create [OF c] by (cases x) (auto simp: RotateMinter_def Let_def split: if_splits)
qed

lemma persist_world:
  assumes "persistSet env (b, w) s = ((b', w'), e)"
  shows "kput (eKV env) w (minterSetPrefix @ Name s) (enc_minter_set s) = (w', e)"
    and "b' = (if e = None then loadMinterSet b s else b)"
  using assms by (auto simp: persistSet_def split: option.splits prod.splits)

end

section \<open>An in-memory cloud\<close>

text \<open>Every request takes a while, and is refused unless it carries the token of a key that is still there.\<close>

record exo_cloud =
  ecClock :: time
  ecTick :: duration
  ecKeys :: "(string \<times> string \<times> string) list"
  ecIssued :: "string list"

type_synonym exo_sim = "exo_cloud mem"

definition ec_key_path :: "string \<Rightarrow> string" where
  "ec_key_path i = ''/v2/api-key'' @ ''/'' @ PathSegment i"

definition ec_fresh :: "exo_cloud \<Rightarrow> string" where
  "ec_fresh f = replicate (Suc (sum_list (map length (ecIssued f @ map fst (ecKeys f))))) (CHR ''K'')"

definition ec_answer :: "exo_cloud \<Rightarrow> verb \<Rightarrow> string \<Rightarrow> string \<Rightarrow> json option \<Rightarrow> exo_cloud \<times> int \<times> blob" where
  "ec_answer f v url tok body =
     (if tok \<notin> (\<lambda>(i, r, t). t) ` set (ecKeys f) then (f, 401, Raw [])
      else case v of
        POST \<Rightarrow>
          (let i = ec_fresh f; role = the (opt_field [] dec_str (the body) ''role-id'')
           in (f \<lparr> ecKeys := ecKeys f @ [(i, role, ''T'' @ i)], ecIssued := ecIssued f @ [i] \<rparr>, 200,
               Json (JObj [(''key'', JStr (''T'' @ i)), (''secret'', JStr ''s''), (''key-id'', JStr i)])))
      | DELETE \<Rightarrow>
          (let named = (\<lambda>(i, r, t). HasSuffix url (ec_key_path i))
           in if \<exists>x \<in> set (ecKeys f). named x
              then (f \<lparr> ecKeys := filter (\<lambda>x. \<not> named x) (ecKeys f), ecIssued := ecIssued f @ map fst (ecKeys f) \<rparr>, 200, Raw [])
              else (f, 404, Raw [])))"

definition ec_http :: "exo_sim http" where
  "ec_http =
     \<lparr> hSend = (\<lambda>(es, f) v url tok body.
          case ec_answer f v url tok body of
            (f', r) \<Rightarrow> ((es, f' \<lparr> ecClock := ecClock f + ecTick f \<rparr>), Inr r)),
       hGet = (\<lambda>(es, f) url tok. Inr (if tok \<in> (\<lambda>(i, r, t). t) ` set (ecKeys f) then 200 else 401, Raw [])) \<rparr>"

definition ec_env :: "exo_sim env" where
  "ec_env =
     \<lparr> eKV = mem_kv, eHttp = ec_http, eNow = (\<lambda>w. ecClock (snd w)), eJitter = (\<lambda>_. 0), eSha256 = map of_char,
       eDigest = id, eDraw = (\<lambda>_ i. Some i), eMarshal = (\<lambda>_. ''x''), eRandomID = (\<lambda>_. Some ''abcd''),
       eSuffix = (\<lambda>_. ''1''), eValidate = (\<lambda>_. None) \<rparr>"

definition ec_live :: "exo_sim \<Rightarrow> (string \<times> string) set" where
  "ec_live w = {(r, i). \<exists>t. (i, r, t) \<in> set (ecKeys (snd w))}"

definition ec_issued :: "exo_sim \<Rightarrow> string set" where
  "ec_issued w = {i. i \<in> set (ecIssued (snd w)) \<or> (\<exists>r t. (i, r, t) \<in> set (ecKeys (snd w)))}"

lemma ec_fresh_new: "ec_fresh f \<noteq> []" "ec_fresh f \<notin> set (ecIssued f)" "(ec_fresh f, r, t) \<notin> set (ecKeys f)"
proof -
  let ?is = "ecIssued f @ map fst (ecKeys f)"
  have "ec_fresh f \<notin> set ?is"
  proof
    assume "ec_fresh f \<in> set ?is"
    then have "length (ec_fresh f) \<le> sum_list (map length ?is)"
      using member_le_sum_list [of "length (ec_fresh f)" "map length ?is"] by force
    then show False by (simp add: ec_fresh_def)
  qed
  then show "ec_fresh f \<notin> set (ecIssued f)" "(ec_fresh f, r, t) \<notin> set (ecKeys f)" by force+
qed (simp add: ec_fresh_def)

lemma ec_key_path_names: "suffix (ec_key_path j) (u @ ec_key_path i) \<longleftrightarrow> j = i"
proof
  assume s: "suffix (ec_key_path j) (u @ ec_key_path i)"
  have ns: "CHR ''/'' \<notin> set (PathSegment x)" for x using PathEscape_facts by (simp add: PathSegment_def)
  have "suffix (''/v2/api-key'' @ ''/'' @ PathSegment j) ((u @ ''/v2/api-key'') @ ''/'' @ PathSegment i)"
    using s by (simp add: ec_key_path_def)
  then have "PathSegment j = PathSegment i" using suffix_segment [OF ns ns] by blast
  then show "j = i" using PathEscape_facts by (simp add: PathSegment_def)
qed (simp add: suffix_def)

lemma ec_send:
  assumes "hSend (eHttp ec_env) w v url tok body = (w', a)"
  shows "fst w' = fst w" and "\<exists>f r. ec_answer (snd w) v url tok body = (f, r) \<and> a = Inr r \<and> ecKeys (snd w') = ecKeys f \<and> ecIssued (snd w') = ecIssued f"
  using assms by (cases w; auto simp: ec_env_def ec_http_def split: prod.splits)+

lemma ec_create:
  assumes "CreateAPIKey (eHttp ec_env) c name role w = (w', st, rk)"
  shows "ec_live w \<subseteq> ec_live w'" and "ec_issued w \<subseteq> ec_issued w'"
    and "rk = Inr k \<Longrightarrow> akKeyID k = ec_fresh (snd w) \<and> ec_issued w' = insert (akKeyID k) (ec_issued w)
      \<and> ec_live w' = insert (role, akKeyID k) (ec_live w)"
proof -
  let ?b = "Some (JObj [(''name'', JStr name), (''role-id'', JStr role)])"
  obtain w1 a where h: "hSend (eHttp ec_env) w POST (baseURL c @ ''/v2/api-key'') (clToken c) ?b = (w1, a)" by (metis surj_pair)
  from ec_send(2) [OF h] obtain f r where f: "ec_answer (snd w) POST (baseURL c @ ''/v2/api-key'') (clToken c) ?b = (f, r)"
    "a = Inr r" "ecKeys (snd w1) = ecKeys f" "ecIssued (snd w1) = ecIssued f" by blast
  have w': "w' = w1" using assms h by (auto simp: CreateAPIKey_def split: sum.splits if_splits option.splits)
  show "ec_live w \<subseteq> ec_live w'" "ec_issued w \<subseteq> ec_issued w'"
    using f unfolding w' by (auto simp: ec_answer_def ec_live_def ec_issued_def Let_def split: if_splits)
  show "akKeyID k = ec_fresh (snd w) \<and> ec_issued w' = insert (akKeyID k) (ec_issued w)
      \<and> ec_live w' = insert (role, akKeyID k) (ec_live w)" if "rk = Inr k"
    using assms f h that unfolding w'
    by (auto simp: CreateAPIKey_def ec_answer_def ec_live_def ec_issued_def Let_def opt_field_def dec_body_def dec_object_def is_object_def
        dec_api_key_def ex_disj_distrib split: if_splits option.splits)
qed

lemma ec_delete:
  assumes "DeleteAPIKey (eHttp ec_env) c i w = (w', st, e)"
  shows "ec_issued w' = ec_issued w" and "{(r, j) \<in> ec_live w. j \<noteq> i} \<subseteq> ec_live w'" and "ec_live w' \<subseteq> ec_live w"
    and "e = None \<or> st = 404 \<Longrightarrow> (r, i) \<notin> ec_live w'"
proof -
  let ?u = "baseURL c @ ''/v2/api-key/'' @ PathSegment i"
  have u: "HasSuffix ?u (ec_key_path j) \<longleftrightarrow> j = i" for j
    using ec_key_path_names [of j "baseURL c" i] by (simp add: HasSuffix_def ec_key_path_def)
  obtain w1 a where h: "hSend (eHttp ec_env) w DELETE ?u (clToken c) None = (w1, a)" by (metis surj_pair)
  from ec_send(2) [OF h] obtain f p where f: "ec_answer (snd w) DELETE ?u (clToken c) None = (f, p)"
    "a = Inr p" "ecKeys (snd w1) = ecKeys f" "ecIssued (snd w1) = ecIssued f" by blast
  have w': "w' = w1" "e = None \<or> st = 404 \<longleftrightarrow> fst p \<in> {200, 404}"
    using assms h f(2) by (cases p; auto simp: DeleteAPIKey_def split: sum.splits if_splits)+
  have fm: "(i, y) \<in> A \<Longrightarrow> i \<in> fst ` A" for i :: string and y :: "string \<times> string" and A by force
  show "ec_issued w' = ec_issued w" "{(r, j) \<in> ec_live w. j \<noteq> i} \<subseteq> ec_live w'" "ec_live w' \<subseteq> ec_live w"
    using f unfolding w'(1) ec_answer_def u
    by (auto simp: ec_live_def ec_issued_def Let_def split: if_splits dest: fm)
  show "(r, i) \<notin> ec_live w'" if "e = None \<or> st = 404"
    using f that unfolding w' ec_answer_def u
    by (auto simp: ec_live_def Let_def split: if_splits)
qed

interpretation ec: exo_honest ec_env mem_view ec_live ec_issued
proof (intro exo_honest.intro exo_world.intro exo_world_axioms.intro exo_honest_axioms.intro)
  show "kv_store (eKV ec_env) mem_view" by (simp add: ec_env_def mem.kv_store_axioms)
  show "mem_view w' = mem_view w" if "hSend (eHttp ec_env) w vb url tok body = (w', answer)" for w w' vb url tok body answer
    using ec_send(1) [OF that] by (simp add: mem_view_def)
  show "ec_live w' = ec_live w \<and> ec_issued w' = ec_issued w" if "kput (eKV ec_env) w k v = (w', e)" for w w' k v e
    using that by (cases w) (auto simp: ec_env_def mem_kv_def ec_live_def ec_issued_def)
  show "mem_view w' = mem_view w" if "kput (eKV ec_env) w k v = (w', Some e)" for w w' k v e
    using that by (cases w) (auto simp: ec_env_def mem_kv_def)
  show "i \<in> ec_issued w" if "(r, i) \<in> ec_live w" for r i w
    using that by (force simp: ec_live_def ec_issued_def)
qed (use ec_create ec_delete ec_fresh_new in \<open>auto simp: ec_issued_def\<close>)

end
