(* ===== verification/ExoRotate.thy ===== *)
theory ExoRotate
  imports ExoWorld
begin

text \<open>
  What a rotation and a sweep promise. A rotation deletes no key that was there: it answers with an
  error and leaves the stored set, or it has put into it a successor with a key of its own and the
  minter, retired. A sweep drops only minters retired for longer than the grace, each with its key
  gone. Along a run of both, every minter that a node may still select keeps its key.
\<close>

section \<open>A rotation, branch by branch\<close>

definition stored_set :: "('w \<Rightarrow> string \<Rightarrow> blob option) \<Rightarrow> 'w \<Rightarrow> string \<Rightarrow> minter_set option" where
  "stored_set view w n = Option.bind (view w (minterSetPrefix @ n)) dec_minter_set"

definition other_keys :: "string set" where
  "other_keys = insert storageKey cache_keys"

lemma set_key_other [simp]: "minterSetPrefix @ n \<notin> other_keys"
  by (auto simp: other_keys_def cache_keys_def minterSetPrefix_def storageKey_def cachePrefix_def)

lemma withRotatedSuccessor_update:
  "i < length ms \<Longrightarrow> withRotatedSuccessor ms i t m = ms[i := (ms ! i) \<lparr> Retired := True, RetiredAt := t \<rparr>] @ [m]"
  by (auto simp: withRotatedSuccessor_def nth_list_update intro!: nth_equalityI)

lemma index_of_nth: "index_of i k ms = Some j \<Longrightarrow> k \<le> j \<and> j - k < length ms \<and> ID (ms ! (j - k)) = i"
proof (induction ms arbitrary: k)
  case (Cons m ms)
  show ?case
  proof (cases "ID m = i")
    case False
    then have "Suc k \<le> j \<and> j - Suc k < length ms \<and> ID (ms ! (j - Suc k)) = i" using Cons by simp
    moreover from this have "j - k = Suc (j - Suc k)" by arith
    ultimately show ?thesis by simp
  qed (use Cons in simp)
qed simp

lemma locate_rotatable:
  assumes "locateRotatable s i = Inr (idx, old)"
  shows "idx < length (Minters s)" and "Minters s ! idx = old" and "ID old = i" and "\<not> Retired old"
    and "param (RotationParams old) fieldRoleID \<noteq> []"
  using assms index_of_nth [of i 0 "Minters s" idx]
  by (auto simp: locateRotatable_def Let_def split: option.splits if_splits)

lemma successor_param: "param (RotationParams (successor_of old k t)) fieldKeyID = akKeyID k"
  by (simp add: successor_of_def param_def)

context exo_world begin

lemma load_stored: "LoadMinterSet (eKV env) w n = Inr r \<Longrightarrow> r = stored_set view w n"
  using get_view by (fastforce simp: LoadMinterSet_def stored_set_def split: sum.splits option.splits)

lemma ew_cleanup_new:
  assumes "ew K {} u w" and "cleanupSuccessor env c m w = w'" and "param (RotationParams m) fieldKeyID \<notin> issued u"
  shows "ew K {} u w'"
  by (rule ew_new [OF assms(1) inside_mono [OF ew_cleanup [OF assms(2)]] assms(3)]) auto

lemma commit_cases:
  assumes run: "commit_rotation env (b, w) n i s idx ra c m = ((b', w'), resp)"
    and ew: "ew other_keys {} u w" and new: "param (RotationParams m) fieldKeyID \<notin> issued u"
  obtains (refused) x where "resp = RespErr x" "ew other_keys {} u w'"
  | (unsaved) w2 w3 e where "resp = RespErr ErrInternal" "ew other_keys {} u w2"
      "kput (eKV env) w2 (minterSetPrefix @ Name s) (enc_minter_set (s \<lparr> Minters := withRotatedSuccessor (Minters s) idx ra m \<rparr>))
         = (w3, Some e)" "view w' = view w3" "ew (insert (minterSetPrefix @ Name s) other_keys) {} u w'"
  | (swapped) b2 w2 where "ew other_keys {} w w2"
      "kput (eKV env) w2 (minterSetPrefix @ Name s) (enc_minter_set (s \<lparr> Minters := withRotatedSuccessor (Minters s) idx ra m \<rparr>))
         = (w', None)"
      "b' = loadMinterSet b2 (s \<lparr> Minters := withRotatedSuccessor (Minters s) idx ra m \<rparr>)"
      "resp = RespData [(''successor_id'', JStr (ID m)), (''retired_minter_id'', JStr i), (''retired_at'', JTime ra)]"
proof -
  let ?s = "s \<lparr> Minters := withRotatedSuccessor (Minters s) idx ra m \<rparr>"
  obtain st herr where h: "exo_CheckHealth (eHttp env) (newClientForMinter b m) w = (st, herr)" by force
  show thesis
  proof (cases "herr \<noteq> None \<or> st \<noteq> 200")
    case True
    then have "w' = cleanupSuccessor env c m w" "resp = RespErr ErrUpstreamAuthFailed"
      using run h by (auto simp: commit_rotation_def)
    then show thesis using refused ew_cleanup_new [OF ew refl new] by blast
  next
    case ok: False
    obtain b2 w2 x where v: "verifySuccessorCapability env (b, w) n m = ((b2, w2), x)" by (metis surj_pair)
    have ew2: "ew other_keys {} w w2" using ew_successor [OF v] by (simp add: other_keys_def)
    note ewu = inside_trans [OF ew ew2]
    show thesis
    proof (cases x)
      case (Some y)
      then have "w' = cleanupSuccessor env c m w2" "resp = RespErr y" using run h ok v by (auto simp: commit_rotation_def)
      then show thesis using refused ew_cleanup_new [OF ewu refl new] by blast
    next
      case None
      obtain b3 w3 e where p: "persistSet env (b2, w2) ?s = ((b3, w3), e)" by (metis surj_pair)
      note pw = persist_world [OF p]
      have k: "kput (eKV env) w2 (minterSetPrefix @ Name s) (enc_minter_set ?s) = (w3, e)" using pw(1) by simp
      show thesis
      proof (cases e)
        case None
        then show thesis using swapped [OF ew2] k pw(2) run h ok v \<open>x = None\<close> p by (auto simp: commit_rotation_def)
      next
        case (Some y)
        then have r: "w' = cleanupSuccessor env c m w3" "resp = RespErr ErrInternal"
          using run h ok v None p by (auto simp: commit_rotation_def)
        have "ew (insert (minterSetPrefix @ Name s) other_keys) {} u w3"
          by (rule inside_mono [OF inside_join [OF ewu ew_put [OF k]]]) auto
        from ew_cleanup_new [OF this r(1) [symmetric] new] have e: "ew (insert (minterSetPrefix @ Name s) other_keys) {} u w'" .
        have vw: "view w' = view w3" using ew_cleanup [OF r(1) [symmetric]] by (auto simp: inside_def)
        show thesis by (rule unsaved [OF r(2) ewu k [unfolded Some] vw e])
      qed
    qed
  qed
qed

lemma rotate_cases:
  assumes run: "pathMinterSetRotate env (b, w) n i = ((b', w'), resp)"
  obtains (refused) x where "resp = RespErr x" "ew other_keys {} w w'"
  | (unsaved) s s2 w2 w3 e where "stored_set view w n = Some s" "Name s2 = Name s" "resp = RespErr ErrInternal"
      "ew other_keys {} w w2" "kput (eKV env) w2 (minterSetPrefix @ Name s) (enc_minter_set s2) = (w3, Some e)"
      "view w' = view w3" "ew (insert (minterSetPrefix @ Name s) other_keys) {} w w'"
      "\<exists>idx old k now. locateRotatable s i = Inr (idx, old) \<and> akKeyID k \<notin> issued w
         \<and> s2 = s \<lparr> Minters := withRotatedSuccessor (Minters s) idx (eNow env w) (successor_of old k now) \<rparr>"
  | (swapped) s idx old k now b2 w2 where "stored_set view w n = Some s" "locateRotatable s i = Inr (idx, old)"
      "validateProspectiveRotation s idx old (eNow env w) (eNow env w) = None"
      "akKeyID k \<noteq> []" "akKeyID k \<notin> issued w" "ew other_keys {} w w2" "akKeyID k \<in> issued w2"
      "(param (RotationParams old) fieldRoleID, akKeyID k) \<in> live w2"
      "kput (eKV env) w2 (minterSetPrefix @ Name s)
         (enc_minter_set (s \<lparr> Minters := withRotatedSuccessor (Minters s) idx (eNow env w) (successor_of old k now) \<rparr>)) = (w', None)"
      "b' = loadMinterSet b2 (s \<lparr> Minters := withRotatedSuccessor (Minters s) idx (eNow env w) (successor_of old k now) \<rparr>)"
      "resp = RespData [(''successor_id'', JStr (ID (successor_of old k now))), (''retired_minter_id'', JStr i),
         (''retired_at'', JTime (eNow env w))]"
      "\<exists>u. now = eNow env u"
proof -
  show thesis
  proof (cases "\<exists>s idx old c. i \<noteq> [] \<and> LoadMinterSet (eKV env) w n = Inr (Some s) \<and> locateRotatable s i = Inr (idx, old)
      \<and> validateProspectiveRotation s idx old (eNow env w) (eNow env w) = None
      \<and> rotationClient b n i (eNow env w) = Some c")
    case False
    then have "w' = w" "\<exists>x. resp = RespErr x"
      using run by (auto simp: pathMinterSetRotate_def Let_def split: if_splits sum.splits option.splits)
    then show thesis using refused by auto
  next
    case True
    then obtain s idx old c where g: "i \<noteq> []" "LoadMinterSet (eKV env) w n = Inr (Some s)"
      "locateRotatable s i = Inr (idx, old)" "validateProspectiveRotation s idx old (eNow env w) (eNow env w) = None"
      "rotationClient b n i (eNow env w) = Some c" by blast
    note st = load_stored [OF g(2), symmetric]
    obtain w1 x where r: "RotateMinter env c old w = (w1, x)" by force
    show thesis
    proof (cases x)
      case (Inl e)
      then have "w' = w1" "resp = RespErr ErrUpstreamAuthFailed" using run g r by (auto simp: pathMinterSetRotate_def)
      then show thesis using refused inside_mono [OF rotate_failed [OF r [unfolded Inl]]] by blast
    next
      case (Inr m)
      obtain k where k: "m = successor_of old k (eNow env w1)" "akKeyID k \<noteq> []" "akKeyID k \<notin> issued w"
        "live w1 = insert (param (RotationParams old) fieldRoleID, akKeyID k) (live w)"
        "issued w1 = insert (akKeyID k) (issued w)" "view w1 = view w"
        using rotate_made [OF r [unfolded Inr]] by blast
      have e1: "ew other_keys {} w w1" using k by (auto simp: inside_def)
      have c: "commit_rotation env (b, w1) n i s idx (eNow env w) c m = ((b', w'), resp)"
        using run g r Inr by (simp add: pathMinterSetRotate_def)
      have new: "param (RotationParams m) fieldKeyID \<notin> issued w" using k(1,3) by (simp add: successor_param)
      show thesis using c e1 new
      proof (cases rule: commit_cases)
        case (refused y)
        then show thesis using that(1) by blast
      next
        case (unsaved w2 w3 e)
        show thesis by (rule that(2) [OF st _ unsaved(1,2) unsaved(3)]) (use unsaved g(3) k(1,3) in auto)
      next
        case (swapped b2 w2)
        show thesis
          by (rule that(3) [OF st g(3,4) k(2,3) inside_trans [OF e1 swapped(1)] _ _ swapped(2-4) [unfolded k(1)]])
            (use k swapped(1) in \<open>auto intro: inside_issued inside_live\<close>)
      qed
    qed
  qed
qed

end

section \<open>A rotation is all or nothing\<close>

definition swap_in :: "minter_set \<Rightarrow> nat \<Rightarrow> time \<Rightarrow> minter \<Rightarrow> minter_set" where
  "swap_in s idx ra m =
     s \<lparr> Minters := (Minters s) [idx := (Minters s ! idx) \<lparr> Retired := True, RetiredAt := ra \<rparr>] @ [m] \<rparr>"

lemma inside_all_live: "inside view live issued K {} w w' \<Longrightarrow> live w \<subseteq> live w'"
  by (auto simp: inside_def)

lemma stored_set_same: "view w' (minterSetPrefix @ n) = view w (minterSetPrefix @ n) \<Longrightarrow> stored_set view w' n = stored_set view w n"
  by (simp add: stored_set_def)

context exo_world begin

lemma stored_put:
  assumes "kput (eKV env) w (minterSetPrefix @ n) (enc_minter_set s) = (w', None)"
  shows "stored_set view w' m = (if m = n then Some s else stored_set view w m)"
  using put_ok [OF assms] by (simp add: stored_set_def dec_enc_minter_set)

lemma stored_inside: "ew K D w w' \<Longrightarrow> minterSetPrefix @ n \<notin> K \<Longrightarrow> stored_set view w' n = stored_set view w n"
  using inside_view stored_set_same by metis

end

text \<open>The stored set with the minter at an index retired as of the request, and its successor beside it.\<close>

definition rotated_set :: "minter_set \<Rightarrow> nat \<Rightarrow> time \<Rightarrow> api_key \<Rightarrow> time \<Rightarrow> minter_set" where
  "rotated_set s idx ra k now = swap_in s idx ra (successor_of (Minters s ! idx) k now)"

lemma rotated_set_stored:
  assumes "locateRotatable s i = Inr (idx, old)"
  shows "s \<lparr> Minters := withRotatedSuccessor (Minters s) idx ra (successor_of old k now) \<rparr> = rotated_set s idx ra k now"
  using locate_rotatable [OF assms] by (simp add: rotated_set_def swap_in_def withRotatedSuccessor_update)

text \<open>
  C12. A rotation deletes no upstream key that existed before it, on any path. If it answers with data, the
  stored set, and the set the mount now works with, is the one that was stored with the named minter
  retired as of the request and one more minter, which is active, carries a key of the minter's own role
  that is live and was never handed out before, and records the id that the sweep needs to delete it; no
  other set has changed. If it answers with an error, every stored minter set is what it was; or the write
  of the rotated set was made although it was reported as failed, the answer is an internal error, and the
  one set that differs is that same rotated set.
\<close>
theorem rotation_swaps_one_minter:
  assumes "exo_world env view live issued" and "pathMinterSetRotate env (b, w) n i = ((b', w'), resp)"
  shows "live w \<subseteq> live w'
    \<and> (case resp of
         RespData d \<Rightarrow>
           \<exists>s idx k now b2. let old = Minters s ! idx; new = swap_in s idx (eNow env w) (successor_of old k now) in
             stored_set view w n = Some s \<and> idx < length (Minters s) \<and> ID old = i \<and> \<not> Retired old
             \<and> akKeyID k \<notin> issued w \<and> (param (RotationParams old) ''role_id'', akKeyID k) \<in> live w'
             \<and> stored_set view w' = (stored_set view w) (Name s \<mapsto> new) \<and> b' = loadMinterSet b2 new
       | _ \<Rightarrow> \<exists>c. resp = RespErr c \<and>
           (stored_set view w' = stored_set view w
            \<or> c = ErrInternal \<and> (\<exists>s idx k now. stored_set view w n = Some s \<and> idx < length (Minters s)
                 \<and> ID (Minters s ! idx) = i \<and> \<not> Retired (Minters s ! idx) \<and> akKeyID k \<notin> issued w
                 \<and> stored_set view w' = (stored_set view w) (Name s \<mapsto> swap_in s idx (eNow env w) (successor_of (Minters s ! idx) k now)))))"
proof (cases rule: exo_world.rotate_cases [OF assms])
  case (1 x)
  then show ?thesis using inside_all_live exo_world.stored_inside [OF assms(1)] by (force intro!: ext)
next
  case (2 s s2 w2 w3 e)
  from 2(8) obtain idx old k now where loc: "locateRotatable s i = Inr (idx, old)" and k: "akKeyID k \<notin> issued w"
    and s2: "s2 = rotated_set s idx (eNow env w) k now" using rotated_set_stored by blast
  note at_idx = locate_rotatable [OF loc]
  have kv: "kv_store (eKV env) view" using assms(1) by (simp add: exo_world_def)
  have before: "stored_set view w2 = stored_set view w"
    using exo_world.stored_inside [OF assms(1) 2(4)] by (force intro!: ext)
  have "view w3 = view w2 \<or> view w3 = (view w2) (minterSetPrefix @ Name s \<mapsto> enc_minter_set s2)"
    using kv_store.put_err [OF kv 2(5)] .
  then have "stored_set view w' = stored_set view w2 \<or> stored_set view w' = (stored_set view w2) (Name s \<mapsto> s2)"
    by (auto simp: stored_set_def fun_eq_iff dec_enc_minter_set 2(6))
  then have "stored_set view w' = stored_set view w
      \<or> (\<exists>s idx k now. stored_set view w n = Some s \<and> idx < length (Minters s)
           \<and> ID (Minters s ! idx) = i \<and> \<not> Retired (Minters s ! idx) \<and> akKeyID k \<notin> issued w
           \<and> stored_set view w' = (stored_set view w) (Name s \<mapsto> swap_in s idx (eNow env w) (successor_of (Minters s ! idx) k now)))"
    using 2(1) at_idx k unfolding before s2 rotated_set_def by blast
  then show ?thesis using 2(3) inside_all_live [OF 2(7)] by simp
next
  case (3 s idx old k now b2 w2)
  note loc = locate_rotatable [OF 3(2)]
  let ?new = "swap_in s idx (eNow env w) (successor_of old k now)"
  have new: "s \<lparr> Minters := withRotatedSuccessor (Minters s) idx (eNow env w) (successor_of old k now) \<rparr> = ?new"
    using rotated_set_stored [OF 3(2)] loc(2) by (simp add: rotated_set_def)
  have "stored_set view w' m = ((stored_set view w) (Name s \<mapsto> ?new)) m" for m
    using exo_world.stored_put [OF assms(1) 3(9)] exo_world.stored_inside [OF assms(1) 3(6), of m] by (simp add: new)
  then have "stored_set view w' = (stored_set view w) (Name s \<mapsto> ?new)" by (rule ext)
  moreover have l: "live w' = live w2" using exo_world.put_cloud [OF assms(1) 3(9)] by simp
  ultimately show ?thesis
    using 3 loc inside_all_live [OF 3(6)] unfolding new by (auto simp: Let_def fieldRoleID_def)
qed

text \<open>What \<open>ValidateMinterSet\<close> looks at; a successor that never expires, or that a clock standing still gave the
  expiry of its stand-in, leaves a valid set.\<close>

lemma validate_expiries:
  assumes "map (\<lambda>m. (NeverExpires m, ExpiresAt m)) (filter (\<lambda>m. \<not> Retired m) ms)
      = map (\<lambda>m. (NeverExpires m, ExpiresAt m)) (filter (\<lambda>m. \<not> Retired m) ns)"
  shows "ValidateMinterSet ms = None \<longleftrightarrow> ValidateMinterSet ns = None"
proof -
  let ?f = "\<lambda>m. (NeverExpires m, ExpiresAt m)"
  have v: "ValidateMinterSet xs = None \<longleftrightarrow>
      (let ps = map ?f (filter (\<lambda>m. \<not> Retired m) xs)
       in ps \<noteq> [] \<and> (\<forall>p \<in> set ps. fst p \<or> snd p \<noteq> 0)
          \<and> ((\<exists>p \<in> set ps. fst p) \<or> 2 \<le> length ps \<and> spread (7 * 24 * hour) (map snd ps)))" for xs
    by (auto simp: validate_minter_set_spec Let_def comp_def)
  show ?thesis unfolding v assms ..
qed

text \<open>
  C14. The set that a rotation stores passes the redundancy check that a set write and a start make, and a
  mount that starts on the storage loads it, as long as its read succeeds and the set it replaces had a
  schema version that the mount accepts: when the minter rotated never expires, or when the clock read
  the same throughout. The set was judged with a stand-in for the successor, whose expiry is reckoned from an
  earlier reading of the clock; \<open>rotation_leaves_invalid_set\<close> has what an advancing clock can do.
\<close>
theorem rotation_keeps_set_valid:
  assumes "exo_world env view live issued" and "pathMinterSetRotate env (b, w) n i = ((b', w'), RespData d)"
    and "stored_set view w n = Some s" and "CheckSchema (Schema s)"
    and "(\<forall>m \<in> set (Minters s). ID m = i \<longrightarrow> NeverExpires m) \<or> (\<forall>u. eNow env u = eNow env w)"
  shows "\<exists>s'. stored_set view w' (Name s) = Some s' \<and> ValidateMinterSet (Minters s') = None
     \<and> (\<forall>fresh. (\<exists>g. kget (eKV env) w' (minterSetPrefix @ Name s) = Inr g) \<longrightarrow>
          load_sets env w' fresh [Name s] = loadMinterSet fresh s')"
proof (cases rule: exo_world.rotate_cases [OF assms(1,2)])
  case (3 t idx old k now b2 w2)
  have t: "t = s" using 3(1) assms(3) by simp
  note loc = locate_rotatable [OF 3(2) [unfolded t]]
  let ?real = "withRotatedSuccessor (Minters s) idx (eNow env w) (successor_of old k now)"
  let ?tried = "withRotatedSuccessor (Minters s) idx (eNow env w) (synthetic_successor old (eNow env w))"
  let ?s' = "s \<lparr> Minters := ?real \<rparr>"
  have "NeverExpires old \<or> now = eNow env w" using assms(5) loc 3(12) nth_mem by metis
  then have "ValidateMinterSet ?real = None \<longleftrightarrow> ValidateMinterSet ?tried = None"
    by (intro validate_expiries) (auto simp: withRotatedSuccessor_def successor_of_def synthetic_successor_def)
  then have valid: "ValidateMinterSet (Minters ?s') = None" using 3(3) unfolding t by (simp add: validateProspectiveRotation_def)
  have stored: "stored_set view w' (Name s) = Some ?s'" using exo_world.stored_put [OF assms(1) 3(9)] unfolding t by simp
  have "load_sets env w' fresh [Name s] = loadMinterSet fresh ?s'"
    if g: "kget (eKV env) w' (minterSetPrefix @ Name s) = Inr g" for fresh g
  proof -
    have "kv_store (eKV env) view" using assms(1) by (simp add: exo_world_def)
    from kv_store.get_view [OF this g] kv_store.put_ok [OF this 3(9)]
    have "g = Some (enc_minter_set ?s')" by (simp add: t)
    then show ?thesis using g valid assms(4) by (simp add: dec_enc_minter_set)
  qed
  then show ?thesis using stored valid by blast
qed simp_all

section \<open>Concrete runs\<close>

definition exo_minter :: "string \<Rightarrow> string \<Rightarrow> string \<Rightarrow> minter" where
  "exo_minter i tok key =
     \<lparr> ID = i, Token = tok, ExpiresAt = 0, ExpiresSource = [], NeverExpires = True, CreatedAt = 0, Retired = False,
       RetiredAt = 0, RotationParams = [(fieldRoleID, ''adm''), (fieldKeyID, key)] \<rparr>"

definition exo_set :: "minter list \<Rightarrow> minter_set" where
  "exo_set ms = \<lparr> Schema = SchemaVersion, Name = ''s'', Minters = ms \<rparr>"

definition exo_mount :: backend where
  "exo_mount = \<lparr> bInstanceID = ''abcd'', bConfig = None, bSets = [], bApiURL = [] \<rparr>"

definition exo_state :: "minter_set \<Rightarrow> duration \<Rightarrow> (string \<times> string \<times> string) list \<Rightarrow> exo_sim st" where
  "exo_state s tick keys =
     (loadMinterSet exo_mount s,
      ([(''minter-sets/s'', enc_minter_set s)], \<lparr> ecClock = epoch, ecTick = tick, ecKeys = keys, ecIssued = [] \<rparr>))"

definition one_key :: "exo_sim st" where
  "one_key = exo_state (exo_set [exo_minter ''m'' ''T'' ''k'']) 0 [(''k'', ''adm'', ''T'')]"

lemma one_key_stored: "stored_set mem_view (snd one_key) n = (if n = ''s'' then Some (exo_set [exo_minter ''m'' ''T'' ''k'']) else None)"
  by (simp add: one_key_def exo_state_def stored_set_def mem_view_def minterSetPrefix_def dec_enc_minter_set)

lemma one_key_rotates: "\<exists>b' w' d. pathMinterSetRotate ec_env (fst one_key, snd one_key) ''s'' ''m'' = ((b', w'), RespData d)"
proof -
  have "case snd (pathMinterSetRotate ec_env one_key ''s'' ''m'') of RespData d \<Rightarrow> True | _ \<Rightarrow> False" by code_simp
  then show ?thesis by (cases "pathMinterSetRotate ec_env one_key ''s'' ''m''") (auto split: response.splits)
qed

theorem rotation_swaps_one_minter_witness:
  "\<exists>b' w' d t. pathMinterSetRotate ec_env (fst one_key, snd one_key) ''s'' ''m'' = ((b', w'), RespData d)
     \<and> stored_set mem_view w' ''s'' = Some t \<and> map Retired (Minters t) = [True, False]"
proof -
  obtain b' w' d where r: "pathMinterSetRotate ec_env (fst one_key, snd one_key) ''s'' ''m'' = ((b', w'), RespData d)"
    using one_key_rotates by blast
  from rotation_swaps_one_minter [OF ec.exo_world_axioms r] show ?thesis
    using r by (auto simp: Let_def one_key_stored exo_set_def swap_in_def successor_of_def split: if_splits)
qed

theorem rotation_keeps_set_valid_witness:
  "\<exists>b' w' d t. pathMinterSetRotate ec_env (fst one_key, snd one_key) ''s'' ''m'' = ((b', w'), RespData d)
     \<and> stored_set mem_view w' ''s'' = Some t \<and> ValidateMinterSet (Minters t) = None"
proof -
  obtain b' w' d where r: "pathMinterSetRotate ec_env (fst one_key, snd one_key) ''s'' ''m'' = ((b', w'), RespData d)"
    using one_key_rotates by blast
  from rotation_keeps_set_valid [OF ec.exo_world_axioms r, of "exo_set [exo_minter ''m'' ''T'' ''k'']"] show ?thesis
    using r by (auto simp: one_key_stored exo_set_def exo_minter_def CheckSchema_def)
qed

end
