(* ===== verification/ExoSweep.thy ===== *)
theory ExoSweep
  imports ExoRotate
begin

text \<open>
  The sweep of retired minters, and runs of rotations and sweeps. A sweep drops a minter only when its
  grace has passed and its key is gone; over a run in which every sweep leaves a grace, each minter that a
  node may still select keeps the key it was given.
\<close>

section \<open>One sweep\<close>

definition minter_key :: "minter \<Rightarrow> string" where
  "minter_key m = param (RotationParams m) fieldKeyID"

definition elapsed_minter :: "time \<Rightarrow> duration \<Rightarrow> minter \<Rightarrow> bool" where
  "elapsed_minter now grace m \<longleftrightarrow> Retired m \<and> RetiredAt m + grace < now"

definition gone :: "('w \<Rightarrow> (string \<times> string) set) \<Rightarrow> 'w \<Rightarrow> minter \<Rightarrow> bool" where
  "gone live w m \<longleftrightarrow> minter_key m = [] \<or> minter_key m \<notin> snd ` live w"

text \<open>A set that lost nothing but elapsed minters, and these their keys; and what a sweep does to all of them.\<close>

definition thinned ::
  "('w \<Rightarrow> (string \<times> string) set) \<Rightarrow> time \<Rightarrow> duration \<Rightarrow> 'w \<Rightarrow> minter_set \<Rightarrow> minter_set \<Rightarrow> bool" where
  "thinned live now grace w' s t \<longleftrightarrow>
     t = s \<lparr> Minters := Minters t \<rparr> \<and> subseq (Minters t) (Minters s)
     \<and> ActiveMinters (Minters t) = ActiveMinters (Minters s)
     \<and> (\<forall>m \<in> set (Minters s). m \<in> set (Minters t) \<or> elapsed_minter now grace m \<and> gone live w' m)"

definition swept ::
  "('w \<Rightarrow> string \<Rightarrow> blob option) \<Rightarrow> ('w \<Rightarrow> (string \<times> string) set) \<Rightarrow> ('w \<Rightarrow> string set) \<Rightarrow> time \<Rightarrow> duration \<Rightarrow> 'w \<Rightarrow> 'w \<Rightarrow> bool" where
  "swept view live issued now grace w w' \<longleftrightarrow>
     (\<forall>n. rel_option (thinned live now grace w') (stored_set view w n) (stored_set view w' n))
     \<and> live w' \<subseteq> live w \<and> issued w \<subseteq> issued w'
     \<and> (\<forall>r j. (r, j) \<in> live w - live w' \<longrightarrow>
          (\<exists>n s m. stored_set view w n = Some s \<and> m \<in> set (Minters s) \<and> elapsed_minter now grace m \<and> minter_key m = j))"

lemma sweptD:
  assumes "swept view live issued now grace w w'"
  shows "rel_option (thinned live now grace w') (stored_set view w n) (stored_set view w' n)"
    and "live w' \<subseteq> live w"
    and "(r, j) \<in> live w \<Longrightarrow> (r, j) \<notin> live w' \<Longrightarrow>
      \<exists>n s m. stored_set view w n = Some s \<and> m \<in> set (Minters s) \<and> elapsed_minter now grace m \<and> minter_key m = j"
    and "issued w \<subseteq> issued w'"
  using assms by (simp_all add: swept_def)

lemma gone_mono: "gone live w m \<Longrightarrow> live w' \<subseteq> live w \<Longrightarrow> gone live w' m"
  by (auto simp: gone_def)

lemma subseq_set: "subseq xs ys \<Longrightarrow> set xs \<subseteq> set ys"
  by (induction rule: list_emb.induct) auto

lemma thinned_refl: "thinned live now grace w' s s"
  by (simp add: thinned_def)

lemma thinned_trans:
  assumes "thinned live now grace v s t" and "thinned live now grace w t u" and "live w \<subseteq> live v"
  shows "thinned live now grace w s u"
proof -
  have "subseq (Minters u) (Minters s)"
    using assms(1,2) by (auto simp: thinned_def intro: subseq_order.trans)
  moreover have "m \<in> set (Minters u) \<or> elapsed_minter now grace m \<and> gone live w m" if "m \<in> set (Minters s)" for m
    using assms that gone_mono [of live v m w] unfolding thinned_def by blast
  moreover have "u = s \<lparr> Minters := Minters u \<rparr>" using assms(1,2) unfolding thinned_def by (metis minter_set.update_convs(3) minter_set.surjective minter_set.select_convs)
  ultimately show ?thesis using assms(1,2) unfolding thinned_def by simp
qed

lemma swept_same:
  assumes "\<And>n. stored_set view w' n = stored_set view w n" and "live w' = live w" and "issued w \<subseteq> issued w'"
  shows "swept view live issued now grace w w'"
  using assms by (simp add: swept_def option.rel_refl thinned_refl)

lemma swept_trans:
  assumes "swept view live issued now grace u v" and "swept view live issued now grace v w"
  shows "swept view live issued now grace u w"
  unfolding swept_def
proof (intro conjI allI impI)
  note a = sweptD [OF assms(1)] and b = sweptD [OF assms(2)]
  show "live w \<subseteq> live u" using a(2) b(2) by blast
  show "issued u \<subseteq> issued w" using a(4) b(4) by blast
  show "rel_option (thinned live now grace w) (stored_set view u n) (stored_set view w n)" for n
    using a(1) [of n] b(1) [of n] thinned_trans [of live now grace v _ _ w] b(2)
    by (cases "stored_set view u n"; cases "stored_set view v n"; cases "stored_set view w n") auto
  fix r j assume d: "(r, j) \<in> live u - live w"
  show "\<exists>n s m. stored_set view u n = Some s \<and> m \<in> set (Minters s) \<and> elapsed_minter now grace m \<and> minter_key m = j"
  proof (cases "(r, j) \<in> live v")
    case False
    then show ?thesis using a(3) d by blast
  next
    case True
    then obtain n s m where m: "stored_set view v n = Some s" "m \<in> set (Minters s)" "elapsed_minter now grace m" "minter_key m = j"
      using b(3) d by blast
    then obtain t where t: "stored_set view u n = Some t" "thinned live now grace v t s"
      using a(1) [of n] by (cases "stored_set view u n") auto
    then have "m \<in> set (Minters t)" using m(2) subseq_set unfolding thinned_def by blast
    then show ?thesis using t m by blast
  qed
qed

context exo_world begin

lemma retired_key_gone:
  assumes "deleteRetiredUpstream env b m w = (w', ok)"
  shows "ew {} {minter_key m} w w'" and "live w' \<subseteq> live w" and "ok \<Longrightarrow> gone live w' m"
proof -
  let ?k = "param (RotationParams m) fieldKeyID"
  have "ew {} {minter_key m} w w' \<and> live w' \<subseteq> live w \<and> (ok \<longrightarrow> gone live w' m)"
  proof (cases "?k = []")
    case True
    then show ?thesis using assms by (simp add: deleteRetiredUpstream_def gone_def minter_key_def)
  next
    case False
    obtain w1 st e where d: "DeleteAPIKey (eHttp env) (newClientForMinter b m) ?k w = (w1, st, e)" by (metis surj_pair)
    have w1: "w' = w1" "ok \<longleftrightarrow> e = None \<or> st = 404" using assms d False by (auto simp: deleteRetiredUpstream_def)
    show ?thesis
      using ew_delete [OF d] delete_keys [OF d] delete_ok [OF d] w1 by (force simp: gone_def minter_key_def)
  qed
  then show "ew {} {minter_key m} w w'" "live w' \<subseteq> live w" "ok \<Longrightarrow> gone live w' m" by blast+
qed

lemma sweep_minters_spec:
  assumes "sweep_minters env b now grace ms rest ch w = (w', rest', ch')"
  shows "\<exists>ks. rest' = rest @ ks \<and> subseq ks ms \<and> ActiveMinters ks = ActiveMinters ms
      \<and> (\<forall>m \<in> set ms. m \<in> set ks \<or> elapsed_minter now grace m \<and> gone live w' m)
      \<and> ew {} {minter_key m |m. m \<in> set ms \<and> elapsed_minter now grace m} w w' \<and> live w' \<subseteq> live w
      \<and> (ch' = ch \<and> ks = ms \<or> ch')"
  using assms
proof (induction ms arbitrary: rest ch w)
  case (Cons m ms)
  let ?D = "\<lambda>ms. {minter_key m |m. m \<in> set ms \<and> elapsed_minter now grace m}"
  show ?case
  proof (cases "elapsed_minter now grace m")
    case False
    then have "sweep_minters env b now grace ms (rest @ [m]) ch w = (w', rest', ch')"
      using Cons.prems by (auto simp: elapsed_minter_def split: if_splits)
    from Cons.IH [OF this] obtain ks where ks: "rest' = rest @ [m] @ ks" "subseq ks ms" "ActiveMinters ks = ActiveMinters ms"
      "\<forall>m \<in> set ms. m \<in> set ks \<or> elapsed_minter now grace m \<and> gone live w' m"
      "ew {} (?D ms) w w'" "live w' \<subseteq> live w" "ch' = ch \<and> ks = ms \<or> ch'" by auto
    have "ew {} (?D (m # ms)) w w'" by (rule inside_mono [OF ks(5)]) auto
    then show ?thesis using ks by (intro exI [of _ "m # ks"]) (auto simp: ActiveMinters_def)
  next
    case True
    then have r: "Retired m" by (simp add: elapsed_minter_def)
    obtain w1 ok where d: "deleteRetiredUpstream env b m w = (w1, ok)" by force
    note dk = retired_key_gone [OF d]
    have e1: "ew {} (?D (m # ms)) w w1" by (rule inside_mono [OF dk(1)]) (use True in auto)
    show ?thesis
    proof (cases ok)
      case ok: True
      then have "sweep_minters env b now grace ms rest True w1 = (w', rest', ch')"
        using Cons.prems True d by (simp add: elapsed_minter_def)
      from Cons.IH [OF this] obtain ks where ks: "rest' = rest @ ks" "subseq ks ms" "ActiveMinters ks = ActiveMinters ms"
        "\<forall>m \<in> set ms. m \<in> set ks \<or> elapsed_minter now grace m \<and> gone live w' m"
        "ew {} (?D ms) w1 w'" "live w' \<subseteq> live w1" "ch'" by auto
      have "ew {} (?D (m # ms)) w1 w'" by (rule inside_mono [OF ks(5)]) auto
      then show ?thesis
        using ks dk True r inside_trans [OF e1] gone_mono [OF dk(3) [OF ok] ks(6)]
        by (intro exI [of _ ks]) (auto simp: ActiveMinters_def)
    next
      case False
      then have "sweep_minters env b now grace ms (rest @ [m]) ch w1 = (w', rest', ch')"
        using Cons.prems True d by (simp add: elapsed_minter_def)
      from Cons.IH [OF this] obtain ks where ks: "rest' = rest @ [m] @ ks" "subseq ks ms" "ActiveMinters ks = ActiveMinters ms"
        "\<forall>m \<in> set ms. m \<in> set ks \<or> elapsed_minter now grace m \<and> gone live w' m"
        "ew {} (?D ms) w1 w'" "live w' \<subseteq> live w1" "ch' = ch \<and> ks = ms \<or> ch'" by auto
      have "ew {} (?D (m # ms)) w1 w'" by (rule inside_mono [OF ks(5)]) auto
      then show ?thesis
        using ks dk(2) inside_trans [OF e1] by (intro exI [of _ "m # ks"]) (auto simp: ActiveMinters_def)
    qed
  qed
qed simp

lemma sweepSet_swept:
  assumes run: "sweepSet env (b, w) n now grace = ((b', w'), e)"
    and named: "\<And>s. stored_set view w n = Some s \<Longrightarrow> Name s = n"
  shows "swept view live issued now grace w w'"
proof (cases "\<exists>s. LoadMinterSet (eKV env) w n = Inr (Some s)")
  case False
  then have "w' = w" using run by (auto simp: sweepSet_def split: sum.splits option.splits)
  then show ?thesis by (simp add: swept_same)
next
  case True
  then obtain s where l: "LoadMinterSet (eKV env) w n = Inr (Some s)" by blast
  note st = load_stored [OF l, symmetric]
  obtain w1 rest ch where m: "sweep_minters env b now grace (Minters s) [] False w = (w1, rest, ch)" by (metis surj_pair)
  from sweep_minters_spec [OF m] obtain D where
    f: "subseq rest (Minters s)" "ActiveMinters rest = ActiveMinters (Minters s)"
      "\<forall>m \<in> set (Minters s). m \<in> set rest \<or> elapsed_minter now grace m \<and> gone live w1 m"
      "ew {} D w w1" "D = {minter_key m |m. m \<in> set (Minters s) \<and> elapsed_minter now grace m}" "live w1 \<subseteq> live w"
    by auto
  have v1: "stored_set view w1 j = stored_set view w j" for j
    by (rule stored_inside [OF f(4)]) simp
  have "swept view live issued now grace w v"
    if v: "live v = live w1" "issued v = issued w1" "\<And>j. stored_set view v j = stored_set view w j \<or> j = n \<and> stored_set view v j = Some (s \<lparr> Minters := rest \<rparr>)"
    for v
    unfolding swept_def
  proof (intro conjI allI impI)
    show "live v \<subseteq> live w" using f(6) v(1) by simp
    show "issued w \<subseteq> issued v" using inside_issued [OF f(4)] v(2) by blast
    have t: "thinned live now grace v s (s \<lparr> Minters := rest \<rparr>)" using f(1-3) v(1) by (simp add: thinned_def gone_def)
    show "rel_option (thinned live now grace v) (stored_set view w j) (stored_set view v j)" for j
      using v(3) [of j] st t by (auto simp: option.rel_refl thinned_refl)
    fix r j assume "(r, j) \<in> live w - live v"
    then have "j \<in> D" using f(4) v(1) by (auto simp: inside_def)
    then show "\<exists>n s m. stored_set view w n = Some s \<and> m \<in> set (Minters s) \<and> elapsed_minter now grace m \<and> minter_key m = j"
      using f(5) st by blast
  qed
  note sw = this
  show ?thesis
  proof (cases ch)
    case False
    then have "w' = w1" using run l m by (simp add: sweepSet_def)
    then show ?thesis using sw [of w1] v1 by simp
  next
    case True
    then have "persistSet env (b, w1) (s \<lparr> Minters := rest \<rparr>) = ((b', w'), e)" using run l m by (simp add: sweepSet_def)
    from persist_world(1) [OF this] have k: "kput (eKV env) w1 (minterSetPrefix @ n) (enc_minter_set (s \<lparr> Minters := rest \<rparr>)) = (w', e)"
      using named [OF st] by simp
    have "view w' = view w1 \<or> view w' = (view w1) (minterSetPrefix @ n \<mapsto> enc_minter_set (s \<lparr> Minters := rest \<rparr>))"
      using k put_ok put_err by (cases e) blast+
    then have "stored_set view w' j = stored_set view w j \<or> j = n \<and> stored_set view w' j = Some (s \<lparr> Minters := rest \<rparr>)" for j
      using v1 [of j] by (cases "j = n") (auto simp: stored_set_def dec_enc_minter_set)
    then show ?thesis using sw [of w'] put_cloud [OF k] by simp
  qed
qed

lemma named_swept:
  assumes "swept view live issued now grace w w'" and "stored_set view w' n = Some t"
    and "\<And>s. stored_set view w n = Some s \<Longrightarrow> Name s = n"
  shows "Name t = n"
  using sweptD(1) [OF assms(1), of n] assms(2,3)
  by (cases "stored_set view w n") (auto simp: thinned_def, metis minter_set.select_convs(2) minter_set.surjective minter_set.update_convs(3))

lemma sweep_sets_swept:
  assumes "sweep_sets env now grace ns (b, w) = (b', w')"
    and "\<And>n s. stored_set view w n = Some s \<Longrightarrow> Name s = n"
  shows "swept view live issued now grace w w'"
  using assms
proof (induction ns arbitrary: b w)
  case Nil
  then show ?case by (simp add: swept_same)
next
  case (Cons n ns)
  obtain b1 w1 e where r: "sweepSet env (b, w) n now grace = ((b1, w1), e)" by (metis surj_pair)
  have s1: "swept view live issued now grace w w1" by (rule sweepSet_swept [OF r]) (rule Cons.prems(2))
  have "swept view live issued now grace w1 w'"
    by (rule Cons.IH) (use Cons.prems r named_swept [OF s1] in auto)
  then show ?case by (rule swept_trans [OF s1])
qed

lemma sweep_swept:
  assumes "sweepRetiredMinters env (b, w) now = ((b', w'), e)"
    and "\<And>n s. stored_set view w n = Some s \<Longrightarrow> Name s = n"
  shows "swept view live issued now (retireGrace b) w w'"
proof (cases "klist (eKV env) w minterSetPrefix")
  case (Inl x)
  then show ?thesis using assms(1) by (simp add: sweepRetiredMinters_def swept_same)
next
  case (Inr ns)
  then have "sweep_sets env now (retireGrace b) ns (b, w) = (b', w')" using assms(1) by (simp add: sweepRetiredMinters_def)
  then show ?thesis by (rule sweep_sets_swept) (rule assms(2))
qed

end

text \<open>
  C13. A sweep touches nothing but what it is for. Every stored minter set is, after a sweep at \<open>now\<close>, the set it
  was, less minters that had been retired for longer than the grace of the mount and whose upstream key,
  where one is recorded, is gone: the active minters are the same, in order, so a valid set stays valid.
  And a key that the sweep deleted is one that such a minter records.
\<close>
theorem sweep_drops_only_elapsed_minters:
  assumes "exo_world env view live issued" and "sweepRetiredMinters env (b, w) now = ((b', w'), e)"
    and "\<And>n s. stored_set view w n = Some s \<Longrightarrow> Name s = n"
    and "stored_set view w n = Some s"
  shows "\<exists>t. stored_set view w' n = Some t \<and> subseq (Minters t) (Minters s)
      \<and> ActiveMinters (Minters t) = ActiveMinters (Minters s)
      \<and> (ValidateMinterSet (Minters s) = None \<longrightarrow> ValidateMinterSet (Minters t) = None)
      \<and> (\<forall>m \<in> set (Minters s) - set (Minters t). Retired m \<and> RetiredAt m + retireGrace b < now
           \<and> (minter_key m = [] \<or> minter_key m \<notin> snd ` live w'))
      \<and> (\<forall>r j. (r, j) \<in> live w - live w' \<longrightarrow>
           (\<exists>n s m. stored_set view w n = Some s \<and> m \<in> set (Minters s) \<and> minter_key m = j
              \<and> Retired m \<and> RetiredAt m + retireGrace b < now))"
proof -
  have sw: "swept view live issued now (retireGrace b) w w'"
    by (rule exo_world.sweep_swept [OF assms(1,2)]) (rule assms(3))
  obtain t where t: "stored_set view w' n = Some t" "thinned live now (retireGrace b) w' s t"
    using sweptD(1) [OF sw, of n] assms(4) by (cases "stored_set view w' n") auto
  then have a: "ActiveMinters (Minters t) = ActiveMinters (Minters s)" by (simp add: thinned_def)
  then have "ValidateMinterSet (Minters t) = ValidateMinterSet (Minters s)" by (simp add: ValidateMinterSet_def)
  moreover have "\<forall>m \<in> set (Minters s) - set (Minters t). Retired m \<and> RetiredAt m + retireGrace b < now
      \<and> (minter_key m = [] \<or> minter_key m \<notin> snd ` live w')"
    using t(2) by (auto simp: thinned_def elapsed_minter_def gone_def)
  moreover have "\<forall>r j. (r, j) \<in> live w - live w' \<longrightarrow> (\<exists>n s m. stored_set view w n = Some s \<and> m \<in> set (Minters s)
      \<and> minter_key m = j \<and> Retired m \<and> RetiredAt m + retireGrace b < now)"
    using sweptD(3) [OF sw] unfolding elapsed_minter_def by blast
  ultimately show ?thesis using t by (auto simp: thinned_def)
qed

section \<open>Runs of rotations and sweeps\<close>

text \<open>A minter that a node may still select at \<open>T\<close>, when a retired one is given the time \<open>G\<close>.\<close>

definition needed :: "time \<Rightarrow> duration \<Rightarrow> minter \<Rightarrow> bool" where
  "needed T G m \<longleftrightarrow> \<not> Retired m \<or> T \<le> RetiredAt m + G"

definition recorded_keys :: "minter list \<Rightarrow> string list" where
  "recorded_keys ms = filter (\<lambda>k. k \<noteq> []) (map minter_key ms)"

text \<open>Every recorded key was handed out and is recorded once, and that of a needed minter is live.\<close>

definition minters_ok ::
  "('w \<Rightarrow> string \<Rightarrow> blob option) \<Rightarrow> ('w \<Rightarrow> (string \<times> string) set) \<Rightarrow> ('w \<Rightarrow> string set) \<Rightarrow> time \<Rightarrow> duration \<Rightarrow> 'w \<Rightarrow> bool" where
  "minters_ok view live issued T G w \<longleftrightarrow>
     (\<forall>n s. stored_set view w n = Some s \<longrightarrow>
        Name s = n \<and> distinct (recorded_keys (Minters s)) \<and> set (recorded_keys (Minters s)) \<subseteq> issued w
        \<and> (\<forall>m \<in> set (Minters s). needed T G m \<longrightarrow> minter_key m \<in> insert [] (snd ` live w)))
     \<and> (\<forall>n s n' s'. stored_set view w n = Some s \<longrightarrow> stored_set view w n' = Some s' \<longrightarrow> n \<noteq> n' \<longrightarrow>
          set (recorded_keys (Minters s)) \<inter> set (recorded_keys (Minters s')) = {})"

lemma minters_okD:
  assumes "minters_ok view live issued T G w" and "stored_set view w n = Some s"
  shows "Name s = n" and "distinct (recorded_keys (Minters s))" and "set (recorded_keys (Minters s)) \<subseteq> issued w"
    and "m \<in> set (Minters s) \<Longrightarrow> needed T G m \<Longrightarrow> minter_key m \<in> insert [] (snd ` live w)"
    and "stored_set view w n' = Some s' \<Longrightarrow> n \<noteq> n' \<Longrightarrow> set (recorded_keys (Minters s)) \<inter> set (recorded_keys (Minters s')) = {}"
  using assms unfolding minters_ok_def by blast+

lemma minters_okI:
  assumes "\<And>n s. stored_set view w n = Some s \<Longrightarrow> Name s = n \<and> distinct (recorded_keys (Minters s))
      \<and> set (recorded_keys (Minters s)) \<subseteq> issued w"
    and "\<And>n s m. stored_set view w n = Some s \<Longrightarrow> m \<in> set (Minters s) \<Longrightarrow> needed T G m \<Longrightarrow> minter_key m \<in> insert [] (snd ` live w)"
    and "\<And>n s n' s'. stored_set view w n = Some s \<Longrightarrow> stored_set view w n' = Some s' \<Longrightarrow> n \<noteq> n' \<Longrightarrow>
      set (recorded_keys (Minters s)) \<inter> set (recorded_keys (Minters s')) = {}"
  shows "minters_ok view live issued T G w"
  unfolding minters_ok_def using assms by blast

lemma recorded_keysI: "m \<in> set ms \<Longrightarrow> minter_key m \<noteq> [] \<Longrightarrow> minter_key m \<in> set (recorded_keys ms)"
  by (simp add: recorded_keys_def)

lemma subseq_distinct: "subseq xs ys \<Longrightarrow> distinct ys \<Longrightarrow> distinct xs"
  by (induction rule: list_emb.induct) (auto dest: subseq_set)

lemma recorded_keys_subseq: "subseq ms ns \<Longrightarrow> subseq (recorded_keys ms) (recorded_keys ns)"
  by (simp add: recorded_keys_def subseq_map subseq_filter)

lemma distinct_recorded:
  "distinct (recorded_keys ms) \<Longrightarrow> m \<in> set ms \<Longrightarrow> m' \<in> set ms \<Longrightarrow> minter_key m = minter_key m' \<Longrightarrow> minter_key m \<noteq> [] \<Longrightarrow> m = m'"
  by (auto simp: recorded_keys_def filter_map distinct_map comp_def inj_on_def)

lemma recorded_once:
  assumes "minters_ok view live issued T G w" and "stored_set view w n = Some s" and "m \<in> set (Minters s)"
    and "stored_set view w n' = Some s'" and "m' \<in> set (Minters s')" and "minter_key m = minter_key m'" and "minter_key m \<noteq> []"
  shows "m = m'"
proof -
  have "minter_key m \<in> set (recorded_keys (Minters s)) \<inter> set (recorded_keys (Minters s'))"
    using recorded_keysI [OF assms(3,7)] recorded_keysI [OF assms(5)] assms(6,7) by simp
  then have "n = n'" using minters_okD(5) [OF assms(1,2,4)] by blast
  then have "s' = s" using assms(2,4) by simp
  then show ?thesis using distinct_recorded [OF minters_okD(2) [OF assms(1,2)] assms(3)] assms(5-7) by simp
qed

text \<open>Other work on the mount, and other nodes: minter sets stay, and so does every key a minter records.\<close>

definition leaves_minters ::
  "('w \<Rightarrow> string \<Rightarrow> blob option) \<Rightarrow> ('w \<Rightarrow> (string \<times> string) set) \<Rightarrow> ('w \<Rightarrow> string set) \<Rightarrow> 'w \<Rightarrow> 'w \<Rightarrow> bool" where
  "leaves_minters view live issued w w' \<longleftrightarrow>
     (\<forall>n. stored_set view w' n = stored_set view w n) \<and> issued w \<subseteq> issued w'
     \<and> (\<forall>n s m. stored_set view w n = Some s \<longrightarrow> m \<in> set (Minters s) \<longrightarrow> minter_key m \<in> snd ` live w \<longrightarrow>
          minter_key m \<in> snd ` live w')"

lemma minters_ok_left:
  assumes "minters_ok view live issued T G w" and "leaves_minters view live issued w w'"
  shows "minters_ok view live issued T G w'"
proof (rule minters_okI)
  have st: "stored_set view w' n = stored_set view w n" for n using assms(2) by (simp add: leaves_minters_def)
  note ok = minters_okD [OF assms(1), folded st]
  show "Name s = n \<and> distinct (recorded_keys (Minters s)) \<and> set (recorded_keys (Minters s)) \<subseteq> issued w'"
    if "stored_set view w' n = Some s" for n s
    using ok(1-3) [OF that] assms(2) unfolding leaves_minters_def by blast
  show "minter_key m \<in> insert [] (snd ` live w')"
    if "stored_set view w' n = Some s" "m \<in> set (Minters s)" "needed T G m" for n s m
    using ok(4) [OF that] assms(2) that(1,2) unfolding leaves_minters_def st by blast
  show "set (recorded_keys (Minters s)) \<inter> set (recorded_keys (Minters s')) = {}"
    if "stored_set view w' n = Some s" "stored_set view w' n' = Some s'" "n \<noteq> n'" for n s n' s'
    by (rule ok(5) [OF that])
qed

lemma minters_ok_swept:
  assumes ok: "minters_ok view live issued T G w" and sw: "swept view live issued now grace w w'"
    and "now \<le> T" and "G \<le> grace"
  shows "minters_ok view live issued T G w'"
proof -
  have before: "\<exists>s. stored_set view w n = Some s \<and> thinned live now grace w' s t" if "stored_set view w' n = Some t" for n t
    using sweptD(1) [OF sw, of n] that by (cases "stored_set view w n") auto
  have keys: "subseq (recorded_keys (Minters t)) (recorded_keys (Minters s))" "set (Minters t) \<subseteq> set (Minters s)" "Name t = Name s"
    if "thinned live now grace w' s t" for s t
    using that recorded_keys_subseq subseq_set unfolding thinned_def by (blast, blast, metis minter_set.select_convs(2) minter_set.surjective minter_set.update_convs(3))
  show ?thesis
  proof (rule minters_okI)
    fix n t assume t: "stored_set view w' n = Some t"
    then obtain s where s: "stored_set view w n = Some s" "thinned live now grace w' s t" using before by blast
    note k = keys [OF s(2)] and o = minters_okD [OF ok s(1)]
    show "Name t = n \<and> distinct (recorded_keys (Minters t)) \<and> set (recorded_keys (Minters t)) \<subseteq> issued w'"
      using o(1-3) k(3) subseq_distinct [OF k(1)] subseq_set [OF k(1)] sweptD(4) [OF sw] by auto
  next
    fix n t m assume t: "stored_set view w' n = Some t" and m: "m \<in> set (Minters t)" and nd: "needed T G m"
    then obtain s where s: "stored_set view w n = Some s" "thinned live now grace w' s t" using before by blast
    note k = keys [OF s(2)] and o = minters_okD [OF ok s(1)]
    have ms: "m \<in> set (Minters s)" using k(2) m by blast
    show "minter_key m \<in> insert [] (snd ` live w')"
    proof (rule ccontr)
      assume a: "minter_key m \<notin> insert [] (snd ` live w')"
      obtain r where r: "(r, minter_key m) \<in> live w" "(r, minter_key m) \<notin> live w'" using o(4) [OF ms nd] a by force
      from sweptD(3) [OF sw r] obtain n' s' m' where m': "stored_set view w n' = Some s'" "m' \<in> set (Minters s')"
        "elapsed_minter now grace m'" "minter_key m' = minter_key m" by blast
      have "m = m'" using recorded_once [OF ok s(1) ms m'(1,2)] m'(4) a by simp
      then show False using m'(3) nd assms(3,4) by (simp add: elapsed_minter_def needed_def)
    qed
  next
    fix n t n' t' assume t: "stored_set view w' n = Some t" "stored_set view w' n' = Some t'" "n \<noteq> n'"
    then obtain s s' where s: "stored_set view w n = Some s" "thinned live now grace w' s t"
      "stored_set view w n' = Some s'" "thinned live now grace w' s' t'" using before by meson
    have "set (recorded_keys (Minters s)) \<inter> set (recorded_keys (Minters s')) = {}"
      by (rule minters_okD(5) [OF ok s(1,3) t(3)])
    then show "set (recorded_keys (Minters t)) \<inter> set (recorded_keys (Minters t')) = {}"
      using subseq_set [OF keys(1) [OF s(2)]] subseq_set [OF keys(1) [OF s(4)]] by blast
  qed
qed

lemma recorded_keys_swap:
  assumes "idx < length (Minters s)"
  shows "recorded_keys (Minters (swap_in s idx ra m)) = recorded_keys (Minters s) @ recorded_keys [m]"
proof -
  have "map minter_key ((Minters s) [idx := (Minters s ! idx) \<lparr> Retired := True, RetiredAt := ra \<rparr>]) = map minter_key (Minters s)"
    using assms by (simp add: map_update minter_key_def list_update_same_conv)
  then show ?thesis by (simp add: swap_in_def recorded_keys_def)
qed

lemma swap_in_member:
  assumes "x \<in> set (Minters (swap_in s idx ra m))" and "idx < length (Minters s)"
  obtains "x = m" | "x \<in> set (Minters s)" | "x = (Minters s ! idx) \<lparr> Retired := True, RetiredAt := ra \<rparr>"
  using assms by (auto simp: swap_in_def dest: subsetD [OF set_update_subset_insert])

context exo_honest begin

lemma minters_ok_rotated:
  assumes ok: "minters_ok view live issued T G w" and run: "pathMinterSetRotate env (b, w) n i = ((b', w'), resp)"
  shows "minters_ok view live issued T G w'"
  using run
proof (cases rule: rotate_cases)
  case (refused x)
  then show ?thesis
    using minters_ok_left [OF ok] stored_inside [OF refused(2)] inside_all_live [OF refused(2)] inside_issued [OF refused(2)]
    by (auto simp: leaves_minters_def)
next
  case (unsaved s s2 w2 w3 e)
  have "view w' = view w2" using put_fails_clean [OF unsaved(5)] unsaved(6) by simp
  then have "stored_set view w' j = stored_set view w j" for j
    using stored_inside [OF unsaved(4), of j] by (simp add: stored_set_def)
  then show ?thesis
    using minters_ok_left [OF ok] inside_all_live [OF unsaved(7)] inside_issued [OF unsaved(7)]
    by (auto simp: leaves_minters_def)
next
  case (swapped s idx old k now b2 w2)
  note loc = locate_rotatable [OF swapped(2)] and o = minters_okD [OF ok]
  let ?m = "successor_of old k now" and ?t = "swap_in s idx (eNow env w) (successor_of old k now)"
  have t: "s \<lparr> Minters := withRotatedSuccessor (Minters s) idx (eNow env w) ?m \<rparr> = ?t"
    by (simp add: swap_in_def withRotatedSuccessor_update [OF loc(1)] loc(2))
  have n: "Name s = n" by (rule o(1) [OF swapped(1)])
  have st: "stored_set view w' j = (if j = n then Some ?t else stored_set view w j)" for j
    using stored_put [OF swapped(9)] stored_inside [OF swapped(6)] n by (simp add: t)
  have lv: "live w \<subseteq> live w'" "issued w \<subseteq> issued w'" "akKeyID k \<in> issued w'" "akKeyID k \<in> snd ` live w'"
    using inside_all_live [OF swapped(6)] inside_issued [OF swapped(6)] put_cloud [OF swapped(9)] swapped(7,8) by force+
  have key: "minter_key ?m = akKeyID k" by (simp add: minter_key_def successor_param)
  have keys: "recorded_keys (Minters ?t) = recorded_keys (Minters s) @ [akKeyID k]"
    using recorded_keys_swap [OF loc(1)] swapped(4) by (simp add: recorded_keys_def key)
  have fresh: "akKeyID k \<notin> set (recorded_keys (Minters r))" if "stored_set view w j = Some r" for j r
    using o(3) [OF that] swapped(5) by blast
  show ?thesis
  proof (rule minters_okI)
    show "Name r = j \<and> distinct (recorded_keys (Minters r)) \<and> set (recorded_keys (Minters r)) \<subseteq> issued w'"
      if "stored_set view w' j = Some r" for j r
    proof (cases "j = n")
      case True
      then show ?thesis
        using that st n keys o(2,3) [OF swapped(1)] fresh [OF swapped(1)] lv(2,3) by (auto simp: swap_in_def)
    next
      case False
      then have "stored_set view w j = Some r" using that st by simp
      from o(1-3) [OF this] lv(2) show ?thesis by blast
    qed
    show "minter_key x \<in> insert [] (snd ` live w')"
      if r: "stored_set view w' j = Some r" and x: "x \<in> set (Minters r)" and nd: "needed T G x" for j r x
    proof -
      have was: "minter_key y \<in> insert [] (snd ` live w')" if "stored_set view w l = Some q" "y \<in> set (Minters q)" "needed T G y" for l q y
        using o(4) [OF that] lv(1) by blast
      show ?thesis
      proof (cases "j = n")
        case False
        then show ?thesis using was [of j r x] r x nd st by simp
      next
        case True
        then have "x \<in> set (Minters ?t)" using r x st by simp
        from this loc(1) show ?thesis
        proof (cases rule: swap_in_member)
          case 3
          have "needed T G old" "old \<in> set (Minters s)" using loc nth_mem by (auto simp: needed_def)
          then show ?thesis using was [OF swapped(1), of old] 3 loc(2) by (simp add: minter_key_def)
        qed (use key lv(4) was [OF swapped(1)] nd in auto)
      qed
    qed
    show "set (recorded_keys (Minters r)) \<inter> set (recorded_keys (Minters r')) = {}"
      if "stored_set view w' j = Some r" "stored_set view w' j' = Some r'" "j \<noteq> j'" for j r j' r'
      using that st keys o(5) [OF swapped(1)] o(5) fresh by (auto split: if_splits)
  qed
qed

end

text \<open>Rotations and sweeps in any order, beside other work that leaves minters alone; no sweep is made for a
  time after \<open>T\<close>, nor with a grace below \<open>G\<close>.\<close>

inductive exo_runs ::
  "'w env \<Rightarrow> ('w \<Rightarrow> string \<Rightarrow> blob option) \<Rightarrow> ('w \<Rightarrow> (string \<times> string) set) \<Rightarrow> ('w \<Rightarrow> string set) \<Rightarrow> time \<Rightarrow> duration
     \<Rightarrow> 'w st \<Rightarrow> 'w st \<Rightarrow> bool"
  for env view live issued T G where
  begins: "exo_runs env view live issued T G bw bw"
| rotates: "exo_runs env view live issued T G bw (b, w) \<Longrightarrow> pathMinterSetRotate env (b, w) n i = (bw', resp) \<Longrightarrow>
    exo_runs env view live issued T G bw bw'"
| sweeps: "exo_runs env view live issued T G bw (b, w) \<Longrightarrow> now \<le> T \<Longrightarrow> G \<le> retireGrace b \<Longrightarrow>
    sweepRetiredMinters env (b, w) now = (bw', e) \<Longrightarrow> exo_runs env view live issued T G bw bw'"
| elsewhere: "exo_runs env view live issued T G bw (b, w) \<Longrightarrow> leaves_minters view live issued w w' \<Longrightarrow>
    exo_runs env view live issued T G bw (b', w')"

lemma exo_runs_ok:
  assumes "exo_runs env view live issued T G bw bw'" and "exo_honest env view live issued"
    and "minters_ok view live issued T G (snd bw)"
  shows "minters_ok view live issued T G (snd bw')"
  using assms
proof (induction rule: exo_runs.induct)
  case (rotates bw b w n i bw' resp)
  have r: "pathMinterSetRotate env (b, w) n i = ((fst bw', snd bw'), resp)" using rotates.hyps(2) by simp
  show ?case by (rule exo_honest.minters_ok_rotated [OF rotates.prems(1) _ r]) (use rotates.IH rotates.prems in simp)
next
  case (sweeps bw b w now bw' e)
  have ok: "minters_ok view live issued T G w" using sweeps.IH sweeps.prems by simp
  have r: "sweepRetiredMinters env (b, w) now = ((fst bw', snd bw'), e)" using sweeps.hyps(4) by simp
  have "swept view live issued now (retireGrace b) w (snd bw')"
    by (rule exo_world.sweep_swept [OF exo_honest.axioms(1) [OF sweeps.prems(1)] r]) (rule minters_okD(1) [OF ok])
  then show ?case by (rule minters_ok_swept [OF ok _ sweeps.hyps(2,3)])
next
  case (elsewhere bw b w w' b')
  then show ?case using minters_ok_left by fastforce
qed simp

text \<open>
  C11. Along every run of rotations and sweeps, on a store whose failed writes wrote nothing and beside any work
  that leaves minters alone, a minter that a node may still select keeps its upstream key: one that is
  active, the successors that rotations made included, or that was retired no longer than the grace before
  the last sweep. It holds of a run that starts from sets whose recorded keys are live and recorded once.
\<close>
theorem selectable_minters_keep_keys:
  assumes "exo_honest env view live issued" and "exo_runs env view live issued T G (b, w) (b', w')"
    and "minters_ok view live issued T G w"
    and "stored_set view w' n = Some s" and "m \<in> set (Minters s)" and "\<not> Retired m \<or> T \<le> RetiredAt m + G"
    and "minter_key m \<noteq> []"
  shows "\<exists>r. (r, minter_key m) \<in> live w'"
proof -
  have "minters_ok view live issued T G w'" using exo_runs_ok [OF assms(2,1)] assms(3) by simp
  from minters_okD(4) [OF this assms(4,5)] show ?thesis using assms(6,7) by (auto simp: needed_def)
qed

section \<open>Concrete runs\<close>

definition retired_since :: "time \<Rightarrow> minter \<Rightarrow> minter" where
  "retired_since t m = m \<lparr> Retired := True, RetiredAt := t \<rparr>"

definition two_keys :: "exo_sim st" where
  "two_keys = exo_state (exo_set [retired_since epoch (exo_minter ''m'' ''T'' ''k''), exo_minter ''n'' ''U'' ''l'']) 0
     [(''k'', ''adm'', ''T''), (''l'', ''adm'', ''U'')]"

lemma two_keys_stored:
  "stored_set mem_view (snd two_keys) n =
     (if n = ''s'' then Some (exo_set [retired_since epoch (exo_minter ''m'' ''T'' ''k''), exo_minter ''n'' ''U'' ''l'']) else None)"
  by (simp add: two_keys_def exo_state_def stored_set_def mem_view_def minterSetPrefix_def dec_enc_minter_set)

theorem sweep_drops_only_elapsed_minters_witness:
  "\<exists>b' w' e t. sweepRetiredMinters ec_env (fst two_keys, snd two_keys) (epoch + 8 * (24 * hour)) = ((b', w'), e)
     \<and> stored_set mem_view w' ''s'' = Some t \<and> ActiveMinters (Minters t) = [exo_minter ''n'' ''U'' ''l'']"
proof -
  obtain b' w' e where r: "sweepRetiredMinters ec_env (fst two_keys, snd two_keys) (epoch + 8 * (24 * hour)) = ((b', w'), e)"
    by (metis surj_pair)
  have named: "Name s = n" if "stored_set mem_view (snd two_keys) n = Some s" for n s
    using that by (auto simp: two_keys_stored exo_set_def split: if_splits)
  have st: "stored_set mem_view (snd two_keys) ''s'' =
      Some (exo_set [retired_since epoch (exo_minter ''m'' ''T'' ''k''), exo_minter ''n'' ''U'' ''l''])"
    by (simp add: two_keys_stored)
  from sweep_drops_only_elapsed_minters [OF ec.exo_world_axioms r named st] show ?thesis
    using r by (auto simp: exo_set_def ActiveMinters_def retired_since_def exo_minter_def)
qed

lemma two_keys_ok: "minters_ok mem_view ec_live ec_issued T G (snd two_keys)"
proof (rule minters_okI)
  let ?ms = "[retired_since epoch (exo_minter ''m'' ''T'' ''k''), exo_minter ''n'' ''U'' ''l'']"
  have k: "map minter_key ?ms = [''k'', ''l'']"
    by (simp add: minter_key_def retired_since_def exo_minter_def param_def fieldKeyID_def fieldRoleID_def)
  have c: "ec_live (snd two_keys) = {(''adm'', ''k''), (''adm'', ''l'')}" "ec_issued (snd two_keys) = {''k'', ''l''}"
    by (auto simp: ec_live_def ec_issued_def two_keys_def exo_state_def)
  show "Name s = n \<and> distinct (recorded_keys (Minters s)) \<and> set (recorded_keys (Minters s)) \<subseteq> ec_issued (snd two_keys)"
    if "stored_set mem_view (snd two_keys) n = Some s" for n s
    using that k by (auto simp: two_keys_stored exo_set_def recorded_keys_def c split: if_splits)
  show "minter_key m \<in> insert [] (snd ` ec_live (snd two_keys))"
    if "stored_set mem_view (snd two_keys) n = Some s" "m \<in> set (Minters s)" for n s m
    using that k by (auto simp: two_keys_stored exo_set_def c split: if_splits)
qed (auto simp: two_keys_stored split: if_splits)

theorem selectable_minters_keep_keys_witness:
  "\<exists>b' w' r. exo_runs ec_env mem_view ec_live ec_issued (epoch + 8 * (24 * hour)) MinMinterGap (fst two_keys, snd two_keys) (b', w')
     \<and> stored_set mem_view w' ''s'' = Some (exo_set [exo_minter ''n'' ''U'' ''l'']) \<and> (r, ''l'') \<in> ec_live w'"
proof -
  let ?q = "sweepRetiredMinters ec_env (fst two_keys, snd two_keys) (epoch + 8 * (24 * hour))"
  obtain b' w' e where q: "?q = ((b', w'), e)" by (metis surj_pair)
  have g: "MinMinterGap \<le> retireGrace (fst two_keys)"
    by (simp add: retireGrace_def two_keys_def exo_state_def loadMinterSet_def exo_mount_def Let_def)
  have run: "exo_runs ec_env mem_view ec_live ec_issued (epoch + 8 * (24 * hour)) MinMinterGap (fst two_keys, snd two_keys) (b', w')"
    by (rule exo_runs.sweeps [OF exo_runs.begins order_refl g q])
  have "stored_set mem_view (snd (fst (sweepRetiredMinters ec_env two_keys (epoch + 8 * (24 * hour))))) ''s''
      = Some (exo_set [exo_minter ''n'' ''U'' ''l''])" by code_simp
  then have st: "stored_set mem_view w' ''s'' = Some (exo_set [exo_minter ''n'' ''U'' ''l''])" using q by simp
  have k: "minter_key (exo_minter ''n'' ''U'' ''l'') = ''l''"
    by (simp add: minter_key_def exo_minter_def param_def fieldKeyID_def fieldRoleID_def)
  have m: "exo_minter ''n'' ''U'' ''l'' \<in> set (Minters (exo_set [exo_minter ''n'' ''U'' ''l'']))" by (simp add: exo_set_def)
  have a: "\<not> Retired (exo_minter ''n'' ''U'' ''l'') \<or> t" for t by (simp add: exo_minter_def)
  from selectable_minters_keep_keys [OF ec.exo_honest_axioms run two_keys_ok st m a] have "\<exists>r. (r, ''l'') \<in> ec_live w'"
    by (simp add: k)
  then show ?thesis using run st by blast
qed

end
