(* ===== verification/ExoDepartures.thy ===== *)
theory ExoDepartures
  imports ExoSweep
begin

text \<open>
  Where the rotation and the sweep of minters do not do what their comments promise, each as a run on the
  in-memory cloud: a retired minter whose own key is gone is never dropped, a sweep registers a set that
  the mount refused to load, a rotation that was judged valid leaves a set that is not, and a write whose
  acknowledgement is lost leaves an active minter without a key.
\<close>

definition after :: "'a \<times> 'b \<Rightarrow> 'a" where
  "after r = fst r"

definition minters_in :: "exo_sim st \<Rightarrow> (string \<times> bool) list" where
  "minters_in bw =
     (case stored_set mem_view (snd bw) ''s'' of None \<Rightarrow> [] | Some s \<Rightarrow> map (\<lambda>m. (ID m, Retired m)) (Minters s))"

definition sweeps_at :: "time list \<Rightarrow> exo_sim st \<Rightarrow> exo_sim st" where
  "sweeps_at = fold (\<lambda>t bw. after (sweepRetiredMinters ec_env bw t))"

definition days :: "int \<Rightarrow> duration" where
  "days n = n * (24 * hour)"

section \<open>A retired minter whose key is gone\<close>

text \<open>\<open>k\<close> was deleted at the cloud; the delete of the sweep is made with that very key.\<close>

definition lost_key :: "exo_sim st" where
  "lost_key = exo_state (exo_set [retired_since epoch (exo_minter ''m'' ''T'' ''k''), exo_minter ''n'' ''U'' ''l'']) 0
     [(''l'', ''adm'', ''U'')]"

theorem gone_key_is_never_dropped:
  "minters_in (sweeps_at [epoch + days 8, epoch + days 80, epoch + days 800] lost_key) = [(''m'', True), (''n'', False)]
   \<and> minters_in (sweeps_at [epoch + days 8] two_keys) = [(''n'', False)]"
  by code_simp

section \<open>A set the mount refused\<close>

text \<open>A newer binary wrote the set; loading it after a restart registers nothing, the next sweep does.\<close>

definition newer_set :: minter_set where
  "newer_set = (exo_set [retired_since epoch (exo_minter ''m'' ''T'' ''k''), exo_minter ''n'' ''U'' ''l''])
     \<lparr> Schema := SchemaVersion + 1 \<rparr>"

definition restarted :: "minter_set \<Rightarrow> exo_sim st" where
  "restarted s =
     (let w = snd (exo_state s 0 [(''k'', ''adm'', ''T''), (''l'', ''adm'', ''U'')])
      in (load_sets ec_env w exo_mount [''s''], w))"

theorem sweep_registers_refused_set:
  "bSets (fst (restarted newer_set)) = []
   \<and> map fst (bSets (fst (sweeps_at [epoch + days 8] (restarted newer_set)))) = [''s'']"
  by code_simp

section \<open>A valid rotation, an invalid set\<close>

text \<open>Two minters that expire; the successor of one is made a second after its stand-in was judged.\<close>

definition until :: "time \<Rightarrow> minter \<Rightarrow> minter" where
  "until t m = m \<lparr> NeverExpires := False, ExpiresAt := t \<rparr>"

definition tight_set :: minter_set where
  "tight_set = exo_set [until (epoch + days 30) (exo_minter ''m'' ''T'' ''k''),
     until (epoch + defaultMinterSecretLifetime + days 7) (exo_minter ''n'' ''U'' ''l'')]"

definition tight :: "exo_sim st" where
  "tight = exo_state tight_set second [(''k'', ''adm'', ''T''), (''l'', ''adm'', ''U'')]"

theorem rotation_leaves_invalid_set:
  "let bw = after (pathMinterSetRotate ec_env tight ''s'' ''m'') in
     ValidateMinterSet (Minters tight_set) = None \<and> length (minters_in bw) = 3
     \<and> bSets (load_sets ec_env (snd bw) exo_mount [''s'']) = []"
  by code_simp

section \<open>A lost acknowledgement\<close>

text \<open>The store writes minter sets and reports a failure, which its contract allows.\<close>

definition unacknowledged :: "exo_sim env" where
  "unacknowledged = ec_env \<lparr> eKV := mem_kv \<lparr> kput := (\<lambda>w k v.
     (after (kput mem_kv w k v), if take 12 k = ''minter-sets/'' then Some (Opaque ''timeout'') else None)) \<rparr> \<rparr>"

lemma unacknowledged_lawful: "kv_store (eKV unacknowledged) mem_view"
proof
  show "\<exists>all. lists (children (mem_view w) p) all \<and> ks = take n (filter (\<lambda>k. after < k) all)"
    if "kpage (eKV unacknowledged) w p after n = Inr ks" for w p after n ks
    using that kv_store.page_view [OF mem.kv_store_axioms, of w p after n ks] by (simp add: unacknowledged_def)
qed (auto simp: unacknowledged_def after_def mem_kv_def mem_view_def mem_children_lists update_conv' delete_conv')

theorem lost_acknowledgement_costs_successor:
  "let bw = after (pathMinterSetRotate unacknowledged one_key ''s'' ''m'') in
     map snd (minters_in bw) = [True, False] \<and> map fst (ecKeys (snd (snd bw))) = [''k'']"
  by code_simp

end
