(* ===== verification/Workers.thy ===== *)
theory Workers
  imports DOConfig
begin

text \<open>
  Background work: \<open>pkg/worker\<close>, which runs a function on a timer until it is told to stop,
  \<open>pkg/clusterrole\<close>, which says whether this node is to run any, and \<open>workers.go\<close> of
  \<open>plugins/credential-do\<close>, which decides what a mount runs and starts it again with every write of its
  configuration or of a minter set. A goroutine is the function of what its channels deliver; timers are
  ideal, and a cancellation wins over a tick of the same instant.
\<close>

section \<open>One worker\<close>

text \<open>What a call of a worker's function ends with.\<close>

datatype outcome_of_run = Ended | Failed_with err | Panicked string

type_synonym 's worker_func = "'s \<Rightarrow> 's \<times> outcome_of_run"

record 's registration =
  rgName :: string
  rgInterval :: duration
  rgInitialDelay :: duration
  rgFn :: "'s worker_func"

record 's manager =
  mgWorkers :: "'s registration list"
  mgRunning :: bool

definition NewManager :: "'s manager" where
  "NewManager = \<lparr> mgWorkers = [], mgRunning = False \<rparr>"

definition Register :: "'s manager \<Rightarrow> string \<Rightarrow> duration \<Rightarrow> duration \<Rightarrow> 's worker_func \<Rightarrow> 's manager" where
  "Register m name interval delay fn =
     m \<lparr> mgWorkers := mgWorkers m @ [\<lparr> rgName = name, rgInterval = interval, rgInitialDelay = delay, rgFn = fn \<rparr>] \<rparr>"

definition Start :: "'s manager \<Rightarrow> 's manager" where
  "Start m = m \<lparr> mgRunning := True \<rparr>"

definition DrainTimeout :: duration where "DrainTimeout = 35 * second"

definition markStopped :: "'s manager \<Rightarrow> 's manager" where
  "markStopped m = m \<lparr> mgRunning := False \<rparr>"

definition WaitAll :: "'s manager \<Rightarrow> 's manager" where
  "WaitAll m = markStopped m"

definition Running :: "'s manager \<Rightarrow> bool" where
  "Running m = mgRunning m"

text \<open>\<open>WaitFor\<close>: given how long the goroutines take to end, whether they did in time.\<close>

definition WaitFor :: "'s manager \<Rightarrow> duration \<Rightarrow> duration \<Rightarrow> 's manager \<times> bool" where
  "WaitFor m takes timeout = (if takes < timeout then (markStopped m, True) else (m, False))"

definition fallbackInterval :: duration where "fallbackInterval = 15 * minute"

definition tick_interval :: "'s registration \<Rightarrow> duration" where
  "tick_interval w = (if rgInterval w \<le> 0 then fallbackInterval else rgInterval w)"

text \<open>A panic is caught and becomes an error.\<close>

definition invoke :: "'s registration \<Rightarrow> 's \<Rightarrow> 's \<times> err option" where
  "invoke w s =
     (case rgFn w s of
        (s', Ended) \<Rightarrow> (s', None)
      | (s', Failed_with e) \<Rightarrow> (s', Some e)
      | (s', Panicked r) \<Rightarrow> (s', Some (Opaque (''worker panicked: '' @ r))))"

text \<open>What a worker's goroutine waits on: the end of its first delay, a tick, its context.\<close>

datatype signal = Delay_over | Ticked | Cancelled

text \<open>The loop, with the errors it hands to the error handler, in order.\<close>

fun ticking :: "'s registration \<Rightarrow> signal list \<Rightarrow> 's \<Rightarrow> 's \<times> err list" where
  "ticking w [] s = (s, [])"
| "ticking w (Cancelled # gs) s = (s, [])"
| "ticking w (Delay_over # gs) s = ticking w gs s"
| "ticking w (Ticked # gs) s =
     (case invoke w s of
        (s, None) \<Rightarrow> ticking w gs s
      | (s, Some e) \<Rightarrow> (case ticking w gs s of (s, es) \<Rightarrow> (s, e # es)))"

definition begin_ticking :: "'s registration \<Rightarrow> signal list \<Rightarrow> 's \<Rightarrow> 's \<times> err list" where
  "begin_ticking w gs s =
     (case ticking w gs s of
        (s, es) \<Rightarrow> (s, if rgInterval w \<le> 0 then Opaque ''non-positive interval'' # es else es))"

fun delayed :: "'s registration \<Rightarrow> signal list \<Rightarrow> 's \<Rightarrow> 's \<times> err list" where
  "delayed w [] s = (s, [])"
| "delayed w (Cancelled # gs) s = (s, [])"
| "delayed w (Delay_over # gs) s = begin_ticking w gs s"
| "delayed w (Ticked # gs) s = delayed w gs s"

definition run_worker :: "'s registration \<Rightarrow> signal list \<Rightarrow> 's \<Rightarrow> 's \<times> err list" where
  "run_worker w gs s = (if 0 < rgInitialDelay w then delayed w gs s else begin_ticking w gs s)"

text \<open>When the ticks are, of a worker started at \<open>s\<close> and cancelled at \<open>c\<close>.\<close>

definition first_wait :: "'s registration \<Rightarrow> duration" where
  "first_wait w = (if 0 < rgInitialDelay w then rgInitialDelay w else 0)"

definition tick_times :: "'s registration \<Rightarrow> time \<Rightarrow> time \<Rightarrow> time list" where
  "tick_times w s c =
     map (\<lambda>k. s + first_wait w + int k * tick_interval w)
       [1..<Suc (nat ((c - 1 - (s + first_wait w)) div tick_interval w))]"

section \<open>Which node\<close>

text \<open>The system view says whether the node is a performance standby; there may be none.\<close>

definition ShouldRunBackgroundWork :: "bool option \<Rightarrow> bool" where
  "ShouldRunBackgroundWork view = (case view of None \<Rightarrow> True | Some standby \<Rightarrow> \<not> standby)"

definition DescribeRole :: "bool option \<Rightarrow> string" where
  "DescribeRole view =
     (case view of None \<Rightarrow> ''unknown (no system view)'' | Some standby \<Rightarrow> if standby then ''standby'' else ''active'')"

section \<open>The workers of a mount\<close>

record 'w mount_workers =
  mwManager :: "'w st manager option"
  mwBootstrapAt :: time
  mwBaseCancelled :: bool

definition sharedSpacesSweepInterval :: duration where "sharedSpacesSweepInterval = healthCheckInterval"

text \<open>What is left of the hold-off of the reconciler, counted from the first start in this process.\<close>

definition remainingBootstrapDelay :: "'w mount_workers \<Rightarrow> duration \<Rightarrow> time \<Rightarrow> 'w mount_workers \<times> duration" where
  "remainingBootstrapDelay mw hold_off now =
     (let mw = (if IsZero (mwBootstrapAt mw) then mw \<lparr> mwBootstrapAt := now \<rparr> else mw);
          remaining = hold_off - (now - mwBootstrapAt mw)
      in (mw, if 0 < remaining then remaining else 0))"

definition stopWorkersLocked :: "'w mount_workers \<Rightarrow> 'w mount_workers" where
  "stopWorkersLocked mw = mw \<lparr> mwManager := None \<rparr>"

definition ending :: "err option \<Rightarrow> outcome_of_run" where
  "ending e = (case e of None \<Rightarrow> Ended | Some e \<Rightarrow> Failed_with e)"

definition health_worker :: "'w env \<Rightarrow> 'w st worker_func" where
  "health_worker env bw = (healthCheckWorker env bw, Ended)"

definition reconcile_worker :: "'w env \<Rightarrow> 'w st worker_func" where
  "reconcile_worker env bw =
     (case reconcileWorker env bw of
        (bw, c) \<Rightarrow> (bw, ending (map_option (\<lambda>c. Opaque (code_str c)) c)))"

definition purge_worker :: "'w env \<Rightarrow> 'w st worker_func" where
  "purge_worker env bw = (case purgeWorker env bw of (bw, e) \<Rightarrow> (bw, ending e))"

definition spaces_worker :: "'w env \<Rightarrow> 'w st worker_func" where
  "spaces_worker env bw =
     (case sweepSharedSpacesKeys env bw of
        (bw, es) \<Rightarrow> (bw, if es = [] then Ended else Failed_with (Opaque ''sweep'')))"

definition startWorkers :: "'w env \<Rightarrow> bool option \<Rightarrow> backend \<Rightarrow> 'w mount_workers \<Rightarrow> time \<Rightarrow> 'w mount_workers" where
  "startWorkers env view b mw now =
     (let mw = stopWorkersLocked mw
      in if \<not> ShouldRunBackgroundWork view then mw
         else
           let cfg = (case bConfig b of Some c \<Rightarrow> c | None \<Rightarrow> DefaultConfig ''do'');
               wm = Register NewManager ''health-check'' healthCheckInterval 0 (health_worker env)
           in case remainingBootstrapDelay mw (BootstrapDelay cfg) now of
                (mw, delay) \<Rightarrow>
                  let wm = Register wm ''reconciler'' (ReconcileCadence cfg) delay (reconcile_worker env);
                      wm = Register wm ''upstream-purge'' SweepInterval 0 (purge_worker env);
                      wm = Register wm ''shared-spaces-keys'' sharedSpacesSweepInterval 0 (spaces_worker env)
                  in mw \<lparr> mwManager := Some (Start wm) \<rparr>)"

definition stopWorkers :: "'w mount_workers \<Rightarrow> 'w mount_workers" where
  "stopWorkers mw = (stopWorkersLocked mw) \<lparr> mwBaseCancelled := True \<rparr>"

section \<open>What they promise\<close>

text \<open>How often a worker's function is called: once for each tick before it is cancelled, after its delay.\<close>

definition live_signals :: "'s registration \<Rightarrow> signal list \<Rightarrow> signal list" where
  "live_signals w gs =
     (let heard = takeWhile (\<lambda>g. g \<noteq> Cancelled) gs
      in if 0 < rgInitialDelay w then tl (dropWhile (\<lambda>g. g \<noteq> Delay_over) heard) else heard)"

definition calls :: "signal list \<Rightarrow> nat" where
  "calls gs = length (filter (\<lambda>g. g = Ticked) gs)"

lemma ticking_calls:
  "fst (ticking w gs s) = ((\<lambda>s. fst (rgFn w s)) ^^ calls (takeWhile (\<lambda>g. g \<noteq> Cancelled) gs)) s"
proof (induction w gs s rule: ticking.induct)
  case (4 w gs s)
  have f: "fst (invoke w s) = fst (rgFn w s)"
    by (cases "rgFn w s") (auto simp: invoke_def split: outcome_of_run.split)
  obtain s1 e where i: "invoke w s = (s1, e)" by force
  have "fst (ticking w (Ticked # gs) s) = fst (ticking w gs s1)" using i by (auto split: option.split prod.split)
  also have "\<dots> = ((\<lambda>s. fst (rgFn w s)) ^^ calls (takeWhile (\<lambda>g. g \<noteq> Cancelled) gs)) s1" using 4 i by (cases e) auto
  finally show ?case using i f
    by (simp add: calls_def funpow_swap1 [of "\<lambda>s. fst (rgFn w s)"] del: ticking.simps)
qed (simp_all add: calls_def)

lemma begin_ticking_fst: "fst (begin_ticking w gs s) = fst (ticking w gs s)"
  by (simp add: begin_ticking_def split: prod.split)

lemma delayed_live:
  "fst (delayed w gs s) = fst (ticking w (tl (dropWhile (\<lambda>g. g \<noteq> Delay_over) (takeWhile (\<lambda>g. g \<noteq> Cancelled) gs))) s)"
proof (induction w gs s rule: delayed.induct)
  case (3 w gs s)
  have "fst (ticking w gs s) = fst (ticking w (takeWhile (\<lambda>g. g \<noteq> Cancelled) gs) s)"
    unfolding ticking_calls by simp
  then show ?case by (simp add: begin_ticking_fst)
qed simp_all

text \<open>
  A worker is not stopped by what its function does: over any sequence of signals the state it leaves is
  that of one call for each tick that is heard before the cancellation, after the first delay where there is
  one, whether the calls end well, fail or panic; and an interval that is not positive is run at a quarter
  of an hour instead of ending the process.
\<close>
theorem worker_survives_its_function:
  "fst (run_worker w gs s) = ((\<lambda>s. fst (rgFn w s)) ^^ calls (live_signals w gs)) s \<and> 0 < tick_interval w"
proof -
  have "takeWhile (\<lambda>g. g \<noteq> Cancelled) (tl (dropWhile p (takeWhile (\<lambda>g. g \<noteq> Cancelled) gs)))
      = tl (dropWhile p (takeWhile (\<lambda>g. g \<noteq> Cancelled) gs))" for p
  proof (rule takeWhile_eq_all_conv [THEN iffD2], rule ballI)
    fix g assume "g \<in> set (tl (dropWhile p (takeWhile (\<lambda>g. g \<noteq> Cancelled) gs)))"
    then have "g \<in> set (dropWhile p (takeWhile (\<lambda>g. g \<noteq> Cancelled) gs))" by (metis list.sel(2) list.set_sel(2))
    then show "g \<noteq> Cancelled" using set_dropWhileD set_takeWhileD by metis
  qed
  note tw = this
  show ?thesis
    by (simp add: tw run_worker_def delayed_live live_signals_def ticking_calls begin_ticking_fst tick_interval_def
        fallbackInterval_def duration_defs Let_def)
qed

section \<open>When they run\<close>

lemma tick_interval_pos: "0 < tick_interval w"
  by (simp add: tick_interval_def fallbackInterval_def duration_defs)

lemma le_div_int:
  assumes "0 < (i :: int)"
  shows "k \<le> a div i \<longleftrightarrow> k * i \<le> a"
proof
  assume "k \<le> a div i"
  then have "k * i \<le> a div i * i" using assms by (intro mult_right_mono) auto
  also have "\<dots> \<le> a" using div_mult_mod_eq [of a i] pos_mod_sign [OF assms, of a] by linarith
  finally show "k * i \<le> a" .
next
  assume "k * i \<le> a"
  then have "k * i div i \<le> a div i" using assms by (intro zdiv_mono1)
  then show "k \<le> a div i" using assms by simp
qed

lemma tick_times_iff:
  "t \<in> set (tick_times w s c) \<longleftrightarrow> (\<exists>k. 1 \<le> k \<and> t = s + first_wait w + int k * tick_interval w \<and> t < c)"
proof -
  let ?i = "tick_interval w" and ?b = "s + first_wait w"
  have "k < Suc (nat ((c - 1 - ?b) div ?i)) \<longleftrightarrow> ?b + int k * ?i < c" if "1 \<le> k" for k
  proof -
    have "k < Suc (nat ((c - 1 - ?b) div ?i)) \<longleftrightarrow> int k \<le> (c - 1 - ?b) div ?i" using that by auto
    also have "\<dots> \<longleftrightarrow> int k * ?i \<le> c - 1 - ?b" by (rule le_div_int) (rule tick_interval_pos)
    finally show ?thesis by auto
  qed
  moreover have "t \<in> set (tick_times w s c) \<longleftrightarrow> (\<exists>k. 1 \<le> k \<and> k < Suc (nat ((c - 1 - ?b) div ?i)) \<and> t = ?b + int k * ?i)"
    by (auto simp: tick_times_def image_iff simp del: upt_Suc) 
  ultimately show ?thesis by blast
qed

text \<open>The manager that a start leaves, by name and interval.\<close>

definition mount_schedule :: "backend \<Rightarrow> duration \<Rightarrow> (string \<times> duration \<times> duration) list" where
  "mount_schedule b delay =
     (let cfg = (case bConfig b of Some c \<Rightarrow> c | None \<Rightarrow> DefaultConfig ''do'')
      in [(''health-check'', healthCheckInterval, 0), (''reconciler'', ReconcileCadence cfg, delay),
          (''upstream-purge'', SweepInterval, 0), (''shared-spaces-keys'', sharedSpacesSweepInterval, 0)])"

definition schedule_of :: "'w mount_workers \<Rightarrow> (string \<times> duration \<times> duration) list" where
  "schedule_of mw =
     (case mwManager mw of None \<Rightarrow> [] | Some m \<Rightarrow> map (\<lambda>w. (rgName w, rgInterval w, rgInitialDelay w)) (mgWorkers m))"

lemma startWorkers_schedule:
  "schedule_of (startWorkers env view b mw now) =
     (if \<not> ShouldRunBackgroundWork view then []
      else mount_schedule b (snd (remainingBootstrapDelay mw (BootstrapDelay (case bConfig b of Some c \<Rightarrow> c | None \<Rightarrow> DefaultConfig ''do'')) now)))"
  by (cases "remainingBootstrapDelay mw (BootstrapDelay (case bConfig b of Some c \<Rightarrow> c | None \<Rightarrow> DefaultConfig ''do'')) now")
    (auto simp: startWorkers_def stopWorkersLocked_def remainingBootstrapDelay_def schedule_of_def mount_schedule_def
      Register_def NewManager_def Start_def Let_def split: if_splits)

lemma startWorkers_bootstrap:
  "ShouldRunBackgroundWork view \<Longrightarrow>
     mwBootstrapAt (startWorkers env view b mw now) = (if IsZero (mwBootstrapAt mw) then now else mwBootstrapAt mw)"
  by (auto simp: startWorkers_def stopWorkersLocked_def remainingBootstrapDelay_def Let_def split: option.split)

text \<open>What a worker started at \<open>s\<close> hears until it is cancelled at \<open>c\<close>: its first delay, if it ends by then, and its ticks.\<close>

definition heard :: "'s registration \<Rightarrow> time \<Rightarrow> time \<Rightarrow> signal list" where
  "heard w s c =
     (if 0 < rgInitialDelay w \<and> s + rgInitialDelay w < c then [Delay_over] else [])
     @ map (\<lambda>_. Ticked) (tick_times w s c) @ [Cancelled]"

lemma heard_runs:
  assumes "s + first_wait w + tick_interval w < c"
  shows "tick_times w s c \<noteq> []"
    and "fst (run_worker w (heard w s c) x) = ((\<lambda>x. fst (rgFn w x)) ^^ length (tick_times w s c)) x"
proof -
  have "s + first_wait w + int 1 * tick_interval w \<in> set (tick_times w s c)"
    unfolding tick_times_iff using assms by (intro exI [of _ 1]) simp
  then show "tick_times w s c \<noteq> []" by auto
  have n: "calls (map (\<lambda>_. Ticked) xs) = length xs" for xs :: "time list" by (induction xs) (simp_all add: calls_def)
  have tw: "takeWhile (\<lambda>g. g \<noteq> Cancelled) (map (\<lambda>_. Ticked) xs @ [Cancelled]) = map (\<lambda>_. Ticked) xs" for xs :: "time list"
    by (induction xs) simp_all
  have "live_signals w (heard w s c) = map (\<lambda>_. Ticked) (tick_times w s c)"
    using assms tick_interval_pos [of w] by (auto simp: live_signals_def heard_def first_wait_def tw Let_def)
  then show "fst (run_worker w (heard w s c) x) = ((\<lambda>x. fst (rgFn w x)) ^^ length (tick_times w s c)) x"
    using worker_survives_its_function [of w "heard w s c" x] by (simp add: n)
qed

text \<open>One start after another, each with the mount as it is then, and the time.\<close>

definition started_all :: "'w env \<Rightarrow> bool option \<Rightarrow> (backend \<times> time) list \<Rightarrow> 'w mount_workers \<Rightarrow> 'w mount_workers" where
  "started_all env view bts mw = fold (\<lambda>(b, t) mw. startWorkers env view b mw t) bts mw"

lemma starts_keep_bootstrap:
  assumes "ShouldRunBackgroundWork view" and "mwBootstrapAt mw \<noteq> 0"
  shows "mwBootstrapAt (started_all env view bts mw) = mwBootstrapAt mw"
  using assms(2)
proof (induction bts arbitrary: mw)
  case (Cons bt bts)
  obtain b t where bt: "bt = (b, t)" by force
  have "mwBootstrapAt (startWorkers env view b mw t) = mwBootstrapAt mw"
    using Cons.prems by (simp add: startWorkers_bootstrap [OF assms(1)])
  then show ?case using Cons.IH [of "startWorkers env view b mw t"] Cons.prems by (simp add: started_all_def bt)
qed (simp add: started_all_def)

lemma starts_bootstrap:
  assumes "ShouldRunBackgroundWork view" and "mwBootstrapAt mw = 0" and "0 < snd (hd bts)" and "bts \<noteq> []"
  shows "mwBootstrapAt (started_all env view bts mw) = snd (hd bts)"
proof -
  obtain b t rest where bts: "bts = (b, t) # rest" using assms(4) by (cases bts) auto
  have "mwBootstrapAt (startWorkers env view b mw t) = t"
    using assms(2) by (simp add: startWorkers_bootstrap [OF assms(1)])
  then show ?thesis using starts_keep_bootstrap [OF assms(1), of "startWorkers env view b mw t"] assms(3)
    by (simp add: started_all_def bts)
qed

lemma started_manager:
  assumes "mwManager (startWorkers env view b mw now) = Some m"
    and "first = (if IsZero (mwBootstrapAt mw) then now else mwBootstrapAt mw)"
    and "cfg = (case bConfig b of Some c \<Rightarrow> c | None \<Rightarrow> DefaultConfig ''do'')"
  shows "mgRunning m"
    and "map (\<lambda>w. (rgName w, tick_interval w, first_wait w)) (mgWorkers m) =
           [(''health-check'', 5 * minute, 0),
            (''reconciler'', if ReconcileCadence cfg \<le> 0 then 15 * minute else ReconcileCadence cfg,
             max 0 (BootstrapDelay cfg - (now - first))),
            (''upstream-purge'', minute, 0), (''shared-spaces-keys'', 5 * minute, 0)]"
    and "map rgFn (mgWorkers m) = [health_worker env, reconcile_worker env, purge_worker env, spaces_worker env]"
proof -
  let ?d = "max 0 (BootstrapDelay cfg - (now - first))"
  let ?mw = "(stopWorkersLocked mw) \<lparr> mwBootstrapAt := first \<rparr>"
  have r: "remainingBootstrapDelay (stopWorkersLocked mw) (BootstrapDelay cfg) now = (?mw, ?d)"
    by (auto simp: remainingBootstrapDelay_def stopWorkersLocked_def assms(2) Let_def)
  have m: "m = Start (Register (Register (Register (Register NewManager ''health-check'' healthCheckInterval 0 (health_worker env))
      ''reconciler'' (ReconcileCadence cfg) ?d (reconcile_worker env)) ''upstream-purge'' SweepInterval 0 (purge_worker env))
      ''shared-spaces-keys'' sharedSpacesSweepInterval 0 (spaces_worker env))"
    using assms(1) r by (simp add: startWorkers_def stopWorkersLocked_def assms(3) Let_def split: if_splits)
  show "mgRunning m"
    and "map (\<lambda>w. (rgName w, tick_interval w, first_wait w)) (mgWorkers m) =
           [(''health-check'', 5 * minute, 0),
            (''reconciler'', if ReconcileCadence cfg \<le> 0 then 15 * minute else ReconcileCadence cfg, ?d),
            (''upstream-purge'', minute, 0), (''shared-spaces-keys'', 5 * minute, 0)]"
    and "map rgFn (mgWorkers m) = [health_worker env, reconcile_worker env, purge_worker env, spaces_worker env]"
    by (simp_all add: m Start_def Register_def NewManager_def tick_interval_def first_wait_def fallbackInterval_def
        healthCheckInterval_def SweepInterval_def sharedSpacesSweepInterval_def duration_defs)
qed

lemma startWorkers_none: "mwManager (startWorkers env view b mw now) = None \<longleftrightarrow> view = Some True"
  by (cases view) (auto simp: startWorkers_def ShouldRunBackgroundWork_def stopWorkersLocked_def Let_def split: prod.split)

text \<open>
  C33. After any number of starts in a process, with whatever configuration the mount has at each: on a
  standby no worker is left; on every other node the health check, the reconciler, the purge and the sweep
  of shared keys are, with the functions they are named for and positive intervals. The reconciler waits
  for what is left of its hold-off counted from the first start of the process, so that later starts do not
  begin it anew, and the others do not wait. Left alone for longer than its wait and one interval, each of
  them has run its function once for each tick, and at least once.
\<close>
theorem started_workers_tick:
  assumes "mwBootstrapAt mw = 0" and "0 < snd (hd (earlier @ [(b, now)]))"
  shows "let mw' = started_all env view (earlier @ [(b, now)]) mw; first = snd (hd (earlier @ [(b, now)]));
       cfg = (case bConfig b of Some c \<Rightarrow> c | None \<Rightarrow> DefaultConfig ''do'')
   in (mwManager mw' = None \<longleftrightarrow> view = Some True)
      \<and> (\<forall>m. mwManager mw' = Some m \<longrightarrow>
           mgRunning m
           \<and> map (\<lambda>w. (rgName w, tick_interval w, first_wait w)) (mgWorkers m) =
               [(''health-check'', 5 * minute, 0),
                (''reconciler'', if ReconcileCadence cfg \<le> 0 then 15 * minute else ReconcileCadence cfg,
                 max 0 (BootstrapDelay cfg - (now - first))),
                (''upstream-purge'', minute, 0), (''shared-spaces-keys'', 5 * minute, 0)]
           \<and> map rgFn (mgWorkers m) = [health_worker env, reconcile_worker env, purge_worker env, spaces_worker env]
           \<and> (\<forall>w \<in> set (mgWorkers m). \<forall>until x. now + first_wait w + tick_interval w < until \<longrightarrow>
                tick_times w now until \<noteq> []
                \<and> fst (run_worker w (heard w now until) x) = ((\<lambda>x. fst (rgFn w x)) ^^ length (tick_times w now until)) x))"
proof -
  let ?before = "started_all env view earlier mw" and ?first = "snd (hd (earlier @ [(b, now)]))"
  have last: "started_all env view (earlier @ [(b, now)]) mw = startWorkers env view b ?before now" by (simp add: started_all_def)
  have first: "?first = (if IsZero (mwBootstrapAt ?before) then now else mwBootstrapAt ?before)"
    if "view \<noteq> Some True"
  proof (cases earlier)
    case Nil
    then show ?thesis using assms(1) by (simp add: started_all_def)
  next
    case (Cons bt rest)
    have "ShouldRunBackgroundWork view" using that by (auto simp: ShouldRunBackgroundWork_def split: option.split)
    from starts_bootstrap [OF this assms(1), of earlier] show ?thesis using assms(2) Cons by simp
  qed
  show ?thesis
    unfolding last Let_def startWorkers_none
  proof (intro conjI refl allI impI ballI)
    fix m assume m: "mwManager (startWorkers env view b ?before now) = Some m"
    then have "view \<noteq> Some True" using startWorkers_none by (metis option.distinct(1))
    note mgr = started_manager [OF m first [OF this] refl]
    show "mgRunning m" by (rule mgr(1))
    show "map (\<lambda>w. (rgName w, tick_interval w, first_wait w)) (mgWorkers m) =
               [(''health-check'', 5 * minute, 0),
                (''reconciler'', if ReconcileCadence (case bConfig b of None \<Rightarrow> DefaultConfig ''do'' | Some c \<Rightarrow> c) \<le> 0 then 15 * minute
                   else ReconcileCadence (case bConfig b of None \<Rightarrow> DefaultConfig ''do'' | Some c \<Rightarrow> c),
                 max 0 (BootstrapDelay (case bConfig b of None \<Rightarrow> DefaultConfig ''do'' | Some c \<Rightarrow> c) - (now - ?first))),
                (''upstream-purge'', minute, 0), (''shared-spaces-keys'', 5 * minute, 0)]" by (rule mgr(2))
    show "map rgFn (mgWorkers m) = [health_worker env, reconcile_worker env, purge_worker env, spaces_worker env]"
      by (rule mgr(3))
  qed (rule heard_runs, assumption)+
qed

text \<open>
  But the ticker of the reconciler starts anew with every start: on a mount whose configuration or minter
  sets are written at least once in every reconcile interval no reconcile pass is ever made, however long
  the mount lives.
\<close>

fun starts_within :: "duration \<Rightarrow> time list \<Rightarrow> bool" where
  "starts_within d (s # t # ts) = (t \<le> s + d \<and> starts_within d (t # ts))"
| "starts_within d _ = True"

text \<open>The reconcile passes of a mount that is started at each of the times.\<close>

fun passes :: "'w env \<Rightarrow> bool option \<Rightarrow> backend \<Rightarrow> 'w mount_workers \<Rightarrow> time list \<Rightarrow> time list" where
  "passes env view b mw (s # t # ts) =
     (let mw = startWorkers env view b mw s
      in concat (map (\<lambda>w. if rgName w = ''reconciler'' then tick_times w s t else [])
           (case mwManager mw of None \<Rightarrow> [] | Some m \<Rightarrow> mgWorkers m)) @ passes env view b mw (t # ts))"
| "passes env view b mw _ = []"

lemma no_tick_within:
  assumes "rgInterval w = d" and "0 < d" and "t \<le> s + d"
  shows "tick_times w s t = []"
proof -
  have i: "tick_interval w = d" using assms by (simp add: tick_interval_def)
  have "s + first_wait w + int k * d \<ge> t" if "1 \<le> k" for k
  proof -
    have "1 * d \<le> int k * d" using that assms(2) by (intro mult_right_mono) auto
    moreover have "0 \<le> first_wait w" by (simp add: first_wait_def)
    ultimately show ?thesis using assms(3) by linarith
  qed
  then have "u \<notin> set (tick_times w s t)" for u
    unfolding tick_times_iff i by fastforce
  note none = this
  show ?thesis
  proof (cases "tick_times w s t")
    case (Cons u us)
    then show ?thesis using none [of u] by simp
  qed simp
qed

lemma reconciler_interval:
  assumes "bConfig b = Some cfg" and "mwManager (startWorkers env view b mw s) = Some m" and "w \<in> set (mgWorkers m)"
    and "rgName w = ''reconciler''"
  shows "rgInterval w = ReconcileCadence cfg"
proof -
  have "(rgName w, rgInterval w, rgInitialDelay w) \<in> set (schedule_of (startWorkers env view b mw s))"
    using assms(2,3) by (auto simp: schedule_of_def)
  then show ?thesis using assms(1,4) unfolding startWorkers_schedule
    by (auto simp: mount_schedule_def Let_def split: if_splits)
qed

theorem frequent_starts_starve_reconciler:
  assumes "bConfig b = Some cfg" and "0 < ReconcileCadence cfg" and "starts_within (ReconcileCadence cfg) starts"
  shows "passes env view b mw starts = []"
  using assms
proof (induction env view b mw starts rule: passes.induct)
  case (1 env view b mw s t ts)
  let ?mw = "startWorkers env view b mw s"
  have "tick_times w s t = []" if "mwManager ?mw = Some m" "w \<in> set (mgWorkers m)" "rgName w = ''reconciler''" for m w
    using no_tick_within [OF reconciler_interval [OF 1(2) that] 1(3)] 1(4) by simp
  then show ?case using 1 by (cases "mwManager ?mw") (auto simp: Let_def)
qed simp_all

section \<open>A mount without a configuration\<close>

definition idle_mount :: "fake_world mount_workers" where
  "idle_mount = \<lparr> mwManager = None, mwBootstrapAt = 0, mwBaseCancelled = False \<rparr>"

theorem started_workers_tick_witness:
  "\<exists>m. mwManager (started_all (fake_env epoch) None [(new_backend, epoch), (new_backend, epoch + minute)] idle_mount) = Some m
     \<and> map first_wait (mgWorkers m) = [0, 1439 * minute, 0, 0]
     \<and> (\<forall>w \<in> set (mgWorkers m). tick_times w (epoch + minute) (epoch + 31 * hour) \<noteq> [])"
proof -
  let ?mw = "started_all (fake_env epoch) None ([(new_backend, epoch)] @ [(new_backend, epoch + minute)]) idle_mount"
  have "mwBootstrapAt idle_mount = 0" "0 < snd (hd ([(new_backend, epoch)] @ [(new_backend, epoch + minute)]))"
    by (simp_all add: idle_mount_def epoch_def duration_defs)
  note th = started_workers_tick [OF this, of "fake_env epoch" None, unfolded Let_def]
  obtain m where m: "mwManager ?mw = Some m" using th by (cases "mwManager ?mw") auto
  note p = th [THEN conjunct2, rule_format, OF m]
  have sch: "map (\<lambda>w. (rgName w, tick_interval w, first_wait w)) (mgWorkers m) =
      [(''health-check'', 5 * minute, 0), (''reconciler'', 6 * hour, 1439 * minute), (''upstream-purge'', minute, 0),
       (''shared-spaces-keys'', 5 * minute, 0)]"
    using p by (simp add: new_backend_def DefaultConfig_def duration_defs)
  have "map first_wait (mgWorkers m) = map (snd \<circ> snd) (map (\<lambda>w. (rgName w, tick_interval w, first_wait w)) (mgWorkers m))"
    by simp
  then have wait: "map first_wait (mgWorkers m) = [0, 1439 * minute, 0, 0]" unfolding sch by simp
  have "tick_times w (epoch + minute) (epoch + 31 * hour) \<noteq> []" if w: "w \<in> set (mgWorkers m)" for w
  proof -
    have "(rgName w, tick_interval w, first_wait w) \<in> set (map (\<lambda>w. (rgName w, tick_interval w, first_wait w)) (mgWorkers m))"
      using w by auto
    then have "epoch + minute + first_wait w + tick_interval w < epoch + 31 * hour"
      unfolding sch by (auto simp: duration_defs)
    then show ?thesis using p w by blast
  qed
  then show ?thesis using m wait by auto
qed

end
