(* ===== verification/Quota.thy ===== *)
theory Quota
  imports Housekeeping
begin

text \<open>
  \<open>pkg/upstreamquota\<close>: what a response says of the request quota that is left, and the reporter that
  warns once in a quota window. A header is a function that answers with the empty text where it is
  absent. Fractions are rationals: for a binary fraction and counts below \<open>2 ^ 53\<close> the floating-point
  comparison of the code is exact. A description is the case of the text that is rendered.
\<close>

section \<open>Observations\<close>

record observation =
  obsLimit :: int
  obsRemaining :: int
  obsResetAt :: time
  obsFound :: bool

definition HeaderLimit :: string where "HeaderLimit = ''RateLimit-Limit''"
definition HeaderRemaining :: string where "HeaderRemaining = ''RateLimit-Remaining''"
definition HeaderReset :: string where "HeaderReset = ''RateLimit-Reset''"

definition Observe :: "(string \<Rightarrow> string) \<Rightarrow> observation" where
  "Observe header =
     (case ParseInt (header HeaderRemaining) of
        None \<Rightarrow> \<lparr> obsLimit = 0, obsRemaining = 0, obsResetAt = 0, obsFound = False \<rparr>
      | Some remaining \<Rightarrow>
          \<lparr> obsLimit = (case ParseInt (header HeaderLimit) of Some l \<Rightarrow> l | None \<Rightarrow> 0),
            obsRemaining = remaining,
            obsResetAt = (case ParseInt (header HeaderReset) of Some s \<Rightarrow> if 0 < s then UnixTime s else 0 | None \<Rightarrow> 0),
            obsFound = True \<rparr>)"

definition Low :: "observation \<Rightarrow> rat \<Rightarrow> bool" where
  "Low obs fraction =
     (if \<not> obsFound obs \<or> obsLimit obs \<le> 0 then False
      else rat_of_int (obsRemaining obs) < rat_of_int (obsLimit obs) * fraction)"

text \<open>A difference of instants that does not fit a duration is cut off at its largest value.\<close>

definition quota_window :: "observation \<Rightarrow> time \<Rightarrow> duration" where
  "quota_window obs now =
     (if IsZero (obsResetAt obs) then 0
      else let remaining = min (2 ^ 63 - 1) (obsResetAt obs - now) in if 0 < remaining then remaining else 0)"

datatype description =
    No_headers
  | Remaining_only int
  | Remaining_of int int
  | Reset_past int int time
  | Resetting_in int int duration

definition describe_quota :: "observation \<Rightarrow> time \<Rightarrow> description" where
  "describe_quota obs now =
     (if \<not> obsFound obs then No_headers
      else if obsLimit obs \<le> 0 then Remaining_only (obsRemaining obs)
      else if IsZero (obsResetAt obs) then Remaining_of (obsRemaining obs) (obsLimit obs)
      else if obsResetAt obs < now then Reset_past (obsRemaining obs) (obsLimit obs) (obsResetAt obs)
      else Resetting_in (obsRemaining obs) (obsLimit obs) (quota_window obs now))"

section \<open>The reporter\<close>

record reporter =
  repFraction :: rat
  lastWarnedWindow :: time

definition DefaultFraction :: rat where "DefaultFraction = 1 / 2"

definition Report :: "reporter \<Rightarrow> observation \<Rightarrow> time \<Rightarrow> reporter \<times> description option" where
  "Report r obs now =
     (let fraction = (if repFraction r \<le> 0 then DefaultFraction else repFraction r)
      in if \<not> Low obs fraction then (r, None)
         else if \<not> IsZero (obsResetAt obs) \<and> obsResetAt obs = lastWarnedWindow r then (r, None)
         else if IsZero (obsResetAt obs) \<and> \<not> IsZero (lastWarnedWindow r) then (r, None)
         else
           (r \<lparr> lastWarnedWindow := (if IsZero (obsResetAt obs) then now else obsResetAt obs) \<rparr>,
            Some (describe_quota obs now)))"

text \<open>The observations of a run that were warned of.\<close>

fun warned :: "reporter \<Rightarrow> (observation \<times> time) list \<Rightarrow> observation list" where
  "warned r [] = []"
| "warned r ((obs, now) # os) =
     (case Report r obs now of
        (r', None) \<Rightarrow> warned r' os
      | (r', Some d) \<Rightarrow> obs # warned r' os)"

lemma Report_cases:
  assumes "Report r obs now = (r', m)"
  shows "m = None \<and> r' = r
    \<or> m \<noteq> None \<and> obsFound obs \<and> obsResetAt obs = lastWarnedWindow r' \<and> \<not> IsZero (obsResetAt obs) \<and> obsResetAt obs \<noteq> lastWarnedWindow r
    \<or> m \<noteq> None \<and> obsFound obs \<and> IsZero (obsResetAt obs) \<and> IsZero (lastWarnedWindow r) \<and> lastWarnedWindow r' = now"
  using assms by (auto simp: Report_def Let_def Low_def split: if_splits)

text \<open>Windows that never go back: from any reading on, the known resets are no earlier.\<close>

definition known_resets :: "(observation \<times> time) list \<Rightarrow> time list" where
  "known_resets os = filter (\<lambda>t. \<not> IsZero t) (map (\<lambda>(obs, now). obsResetAt obs) os)"

lemma warned_resets:
  assumes "sorted (known_resets os)" and "\<forall>t \<in> set (known_resets os). lastWarnedWindow r \<le> t"
    and "\<forall>(obs, now) \<in> set os. \<not> IsZero (obsResetAt obs) \<and> 0 < obsResetAt obs"
  shows "sorted_wrt (<) (map obsResetAt (warned r os)) \<and> (\<forall>obs \<in> set (warned r os). lastWarnedWindow r < obsResetAt obs)"
  using assms
proof (induction os arbitrary: r)
  case (Cons p os)
  obtain obs now where p: "p = (obs, now)" by force
  obtain r' m where r: "Report r obs now = (r', m)" by force
  have z: "\<not> IsZero (obsResetAt obs)" using Cons.prems(3) p by simp
  then have k: "known_resets (p # os) = obsResetAt obs # known_resets os" by (simp add: known_resets_def p)
  show ?case
  proof (cases m)
    case None
    then have "r' = r" using Report_cases [OF r] by simp
    then show ?thesis using Cons None r p k by simp
  next
    case (Some d)
    then have w: "lastWarnedWindow r' = obsResetAt obs" "obsResetAt obs \<noteq> lastWarnedWindow r"
      using Report_cases [OF r] z by auto
    have "sorted_wrt (<) (map obsResetAt (warned r' os)) \<and> (\<forall>q \<in> set (warned r' os). lastWarnedWindow r' < obsResetAt q)"
      by (rule Cons.IH) (use Cons.prems k w in auto)
    moreover have "lastWarnedWindow r < obsResetAt obs" using Cons.prems(2) k w(2) by auto
    ultimately show ?thesis using w r p Some by fastforce
  qed
qed simp

text \<open>
  The reporter warns at most once in a quota window. Over any run of responses whose reported resets do
  not go back no two warnings are of the same reset; and where the upstream reports no reset, a reporter
  that has warned once never warns again. It never warns on a response without the headers.
\<close>
theorem quota_warned_once:
  assumes "sorted (map (\<lambda>(obs, now). obsResetAt obs) os)" and "\<forall>(obs, now) \<in> set os. 0 < obsResetAt obs"
    and "IsZero (lastWarnedWindow r)"
  shows "distinct (map obsResetAt (warned r os)) \<and> (\<forall>obs \<in> set (warned r os). obsFound obs)
    \<and> (\<forall>w blind. \<not> IsZero (lastWarnedWindow w) \<longrightarrow> (\<forall>(obs, now) \<in> set blind. IsZero (obsResetAt obs)) \<longrightarrow> warned w blind = [])"
proof (intro conjI allI impI)
  have "known_resets os = map (\<lambda>(obs, now). obsResetAt obs) os"
    unfolding known_resets_def using assms(2) by (intro filter_True) auto
  then have "sorted_wrt (<) (map obsResetAt (warned r os))"
    using warned_resets [of os r] assms by fastforce
  then show "distinct (map obsResetAt (warned r os))" by (simp add: strict_sorted_iff)
next
  have "\<forall>obs \<in> set (warned r os). obsFound obs" for r
  proof (induction r os rule: warned.induct)
    case (2 r obs now os)
    obtain r' m where m: "Report r obs now = (r', m)" by force
    then show ?case using 2 Report_cases [OF m] by (cases m) auto
  qed simp
  then show "\<forall>obs \<in> set (warned r os). obsFound obs" .
next
  fix w :: reporter and blind :: "(observation \<times> time) list"
  assume "\<not> IsZero (lastWarnedWindow w)" and "\<forall>(obs, now) \<in> set blind. IsZero (obsResetAt obs)"
  then show "warned w blind = []"
  proof (induction blind arbitrary: w)
    case (Cons p blind)
    obtain obs now where p: "p = (obs, now)" by force
    obtain w' m where m: "Report w obs now = (w', m)" by force
    then have "m = None \<and> w' = w" using Cons.prems Report_cases [OF m] p by auto
    then show ?case using Cons m p by simp
  qed simp
qed

text \<open>
  An upstream that reports the reset as seconds to go, which the package reads as an instant, changes it
  with every response: then every response that is low is warned of.
\<close>

definition counted_down :: "int \<Rightarrow> observation" where
  "counted_down left = Observe (\<lambda>h. if h = HeaderLimit then ''100'' else if h = HeaderRemaining then ''10'' else Itoa left)"

theorem delta_resets_warn_every_time:
  "length (warned \<lparr> repFraction = 0, lastWarnedWindow = 0 \<rparr> (map (\<lambda>k. (counted_down k, epoch)) [300, 299, 298, 297, 296])) = 5"
  by code_simp

text \<open>One window that is seen three times, then the next.\<close>

definition window_at :: "int \<Rightarrow> observation" where
  "window_at t = \<lparr> obsLimit = 100, obsRemaining = 10, obsResetAt = t, obsFound = True \<rparr>"

theorem quota_warned_once_witness:
  "distinct (map obsResetAt (warned \<lparr> repFraction = 0, lastWarnedWindow = 0 \<rparr> (map (\<lambda>k. (window_at k, 1)) [5, 5, 5, 9])))
   \<and> length (warned \<lparr> repFraction = 0, lastWarnedWindow = 0 \<rparr> (map (\<lambda>k. (window_at k, 1)) [5, 5, 5, 9])) = 2"
proof -
  have "length (warned \<lparr> repFraction = 0, lastWarnedWindow = 0 \<rparr> (map (\<lambda>k. (window_at k, 1)) [5, 5, 5, 9])) = 2" by code_simp
  moreover have "distinct (map obsResetAt (warned \<lparr> repFraction = 0, lastWarnedWindow = 0 \<rparr> (map (\<lambda>k. (window_at k, 1)) [5, 5, 5, 9])))"
    using quota_warned_once [of "map (\<lambda>k. (window_at k, 1)) [5, 5, 5, 9]" "\<lparr> repFraction = 0, lastWarnedWindow = 0 \<rparr>"]
    by (simp add: window_at_def)
  ultimately show ?thesis by blast
qed

end
