(* ===== verification/Totp.thy ===== *)
theory Totp
  imports MountConfig Housekeeping "HOL-Library.Word"
begin

unbundle bit_operations_syntax

text \<open>
  \<open>pkg/totp\<close>: one-time passwords of RFC 6238 and the two forms a seed is stored in. HMAC-SHA1 is a
  parameter, of which the code uses that a sum has twenty bytes, and so are \<open>url.Parse\<close> and the query it
  yields. Seeds are taken to be ASCII.
\<close>

section \<open>Base32\<close>

text \<open>The standard alphabet without padding; what is left of a block of eight after a whole number of bytes is dropped.\<close>

definition base32_value :: "char \<Rightarrow> 8 word option" where
  "base32_value c =
     (let k = of_char c :: nat
      in if 65 \<le> k \<and> k \<le> 90 then Some (word_of_nat (k - 65))
         else if 50 \<le> k \<and> k \<le> 55 then Some (word_of_nat (k - 24))
         else None)"

fun base32_values :: "string \<Rightarrow> 8 word list option" where
  "base32_values [] = Some []"
| "base32_values (c # cs) =
     (case base32_value c of
        None \<Rightarrow> None
      | Some v \<Rightarrow> (case base32_values cs of None \<Rightarrow> None | Some vs \<Rightarrow> Some (v # vs)))"

definition byte0 :: "8 word list \<Rightarrow> 8 word" where "byte0 d = push_bit 3 (d ! 0) OR drop_bit 2 (d ! 1)"
definition byte1 :: "8 word list \<Rightarrow> 8 word" where
  "byte1 d = push_bit 6 (d ! 1) OR push_bit 1 (d ! 2) OR drop_bit 4 (d ! 3)"
definition byte2 :: "8 word list \<Rightarrow> 8 word" where "byte2 d = push_bit 4 (d ! 3) OR drop_bit 1 (d ! 4)"
definition byte3 :: "8 word list \<Rightarrow> 8 word" where
  "byte3 d = push_bit 7 (d ! 4) OR push_bit 2 (d ! 5) OR drop_bit 3 (d ! 6)"
definition byte4 :: "8 word list \<Rightarrow> 8 word" where "byte4 d = push_bit 5 (d ! 6) OR d ! 7"

definition base32_block :: "8 word list \<Rightarrow> 8 word list" where
  "base32_block d =
     (if length d = 8 then [byte0 d, byte1 d, byte2 d, byte3 d, byte4 d]
      else if length d = 7 then [byte0 d, byte1 d, byte2 d, byte3 d]
      else if length d = 5 then [byte0 d, byte1 d, byte2 d]
      else if length d = 4 then [byte0 d, byte1 d]
      else if length d = 2 then [byte0 d]
      else [])"

function base32_bytes :: "8 word list \<Rightarrow> 8 word list" where
  "base32_bytes d = (if length d < 8 then base32_block d else base32_block (take 8 d) @ base32_bytes (drop 8 d))"
  by auto
termination by (relation "measure length") auto

declare base32_bytes.simps [simp del]

text \<open>\<open>DecodeString\<close> takes out line ends first.\<close>

definition base32_decode :: "string \<Rightarrow> 8 word list option" where
  "base32_decode s = map_option base32_bytes (base32_values (filter (\<lambda>c. c \<noteq> CHR 0x0A \<and> c \<noteq> CHR 0x0D) s))"

section \<open>Codes\<close>

definition Step :: duration where "Step = 30 * second"
definition digits :: nat where "digits = 6"
definition offsetMask :: "8 word" where "offsetMask = 0x0f"
definition signMask :: "32 word" where "signMask = 0x7fffffff"
definition wordLen :: nat where "wordLen = 4"
definition decimalBase :: "32 word" where "decimalBase = 10"

definition ToUpper :: "string \<Rightarrow> string" where
  "ToUpper s = map (\<lambda>c. let k = of_char c :: nat in if 97 \<le> k \<and> k \<le> 122 then char_of (k - 32) else c) s"

definition normalised :: "string \<Rightarrow> string" where
  "normalised seed = ToUpper (filter (\<lambda>c. c \<noteq> CHR '' '') (TrimSpace seed))"

fun big_endian64 :: "nat \<Rightarrow> 64 word \<Rightarrow> 8 word list" where
  "big_endian64 0 w = []"
| "big_endian64 (Suc k) w = ucast (drop_bit (8 * k) w) # big_endian64 k w"

definition be32 :: "8 word list \<Rightarrow> 32 word" where
  "be32 bs = fold (\<lambda>b acc. push_bit 8 acc OR ucast b) bs 0"

definition totp_counter :: "time \<Rightarrow> 64 word" where
  "totp_counter t = word_of_int (Unix t) div word_of_int (Step div second)"

fun padded :: "nat \<Rightarrow> nat \<Rightarrow> string" where
  "padded 0 n = []"
| "padded (Suc k) n = padded k (n div 10) @ [digit_char (n mod 10)]"

text \<open>A number with fewer digits is padded with zeros; the modulus leaves no more than six.\<close>

definition totp_code :: "8 word list \<Rightarrow> string" where
  "totp_code mac =
     (let off = unat (last mac AND offsetMask);
          truncated = be32 (take wordLen (drop off mac)) AND signMask
      in padded digits (unat (truncated mod decimalBase ^ digits)))"

definition Code :: "(8 word list \<Rightarrow> 8 word list \<Rightarrow> 8 word list) \<Rightarrow> string \<Rightarrow> time \<Rightarrow> err + string" where
  "Code hmac_sha1 seed t =
     (case base32_decode (normalised seed) of
        None \<Rightarrow> Inl (Opaque ''the second-factor seed is not valid base32'')
      | Some key \<Rightarrow> Inr (totp_code (hmac_sha1 key (big_endian64 8 (totp_counter t)))))"

definition SecondsUntilNextWindow :: "time \<Rightarrow> duration" where
  "SecondsUntilNextWindow t =
     (let step = Step div second; elapsed = Unix t - step * (if 0 \<le> Unix t then Unix t div step else - (- Unix t div step))
      in (step - elapsed) * second)"

section \<open>Seeds\<close>

record seed_url =
  suScheme :: string
  suHost :: string
  suQuery :: "string \<Rightarrow> string"

fun disagrees :: "(string \<Rightarrow> string) \<Rightarrow> (string \<times> string) list \<Rightarrow> bool" where
  "disagrees q [] = False"
| "disagrees q ((f, want) # rest) = (q f \<noteq> [] \<and> q f \<noteq> want \<or> disagrees q rest)"

definition ParseSeed :: "(string \<Rightarrow> seed_url option) \<Rightarrow> string \<Rightarrow> err + string" where
  "ParseSeed url_parse seed =
     (if seed = [] then Inl (Opaque ''the second-factor seed is empty'')
      else case url_parse seed of
        None \<Rightarrow> Inr seed
      | Some u \<Rightarrow>
          if suScheme u = [] then Inr seed
          else if suScheme u \<noteq> ''otpauth'' then Inl (Opaque ''seed URL scheme'')
          else if suHost u \<noteq> ''totp'' then Inl (Opaque ''seed URL type'')
          else if disagrees (suQuery u) [(''algorithm'', ''SHA1''), (''digits'', ''6''), (''period'', ''30'')]
          then Inl (Opaque ''seed URL parameter'')
          else if suQuery u ''secret'' = [] then Inl (Opaque ''seed URL carries no secret parameter'')
          else Inr (suQuery u ''secret''))"

section \<open>What they promise\<close>

lemma counter_div:
  assumes "0 \<le> Unix t" and "Unix t < 2 ^ 63"
  shows "totp_counter t = word_of_int (Unix t div 30)"
proof (rule word_uint_eqI)
  have s: "Step div second = 30" by (simp add: Step_def second_def)
  have u: "uint (word_of_int a :: 64 word) = a" if "0 \<le> a" "a < 2 ^ 64" for a
    using that by (simp add: uint_word_of_int_eq take_bit_int_eq_self)
  have "Unix t < 2 ^ 64" "Unix t div 30 < 2 ^ 64" "0 \<le> Unix t div 30" using assms by simp_all
  then show "uint (totp_counter t) = uint (word_of_int (Unix t div 30) :: 64 word)"
    using assms(1) u [of "Unix t"] u [of "Unix t div 30"] u [of 30] unfolding totp_counter_def s uint_div by simp
qed

lemma padded_digits: "length (padded k n) = k" "set (padded k n) \<subseteq> digit_char ` {..<10}"
  by (induction k arbitrary: n) auto

lemma filter_dropWhile: "\<forall>c \<in> set xs. Q c \<longrightarrow> \<not> P c \<Longrightarrow> filter P (dropWhile Q xs) = filter P xs"
  by (induction xs) auto

lemma normalised_case_space:
  assumes "\<forall>c \<in> set s \<union> set s'. is_space c \<longrightarrow> c = CHR '' ''"
    and "ToUpper (filter (\<lambda>c. c \<noteq> CHR '' '') s) = ToUpper (filter (\<lambda>c. c \<noteq> CHR '' '') s')"
  shows "normalised s = normalised s'"
proof -
  have t: "filter (\<lambda>c. c \<noteq> CHR '' '') (TrimSpace r) = filter (\<lambda>c. c \<noteq> CHR '' '') r"
    if "\<forall>c \<in> set r. is_space c \<longrightarrow> c = CHR '' ''" for r
  proof -
    have d: "filter (\<lambda>c. c \<noteq> CHR '' '') (dropWhile is_space xs) = filter (\<lambda>c. c \<noteq> CHR '' '') xs"
      if "\<forall>c \<in> set xs. is_space c \<longrightarrow> c = CHR '' ''" for xs
      by (rule filter_dropWhile) (use that in blast)
    have m: "\<forall>c \<in> set (rev (dropWhile is_space r)). is_space c \<longrightarrow> c = CHR '' ''"
    proof
      fix c assume "c \<in> set (rev (dropWhile is_space r))"
      then have "c \<in> set r" using set_dropWhileD [of c is_space r] by simp
      then show "is_space c \<longrightarrow> c = CHR '' ''" using that by blast
    qed
    let ?P = "\<lambda>c. c \<noteq> CHR '' ''"
    have "filter ?P (TrimSpace r) = rev (filter ?P (dropWhile is_space (rev (dropWhile is_space r))))"
      unfolding TrimSpace_def by (rule rev_filter [symmetric])
    also have "\<dots> = rev (filter ?P (rev (dropWhile is_space r)))"
      by (subst d [OF m]) (rule refl)
    also have "\<dots> = filter ?P (dropWhile is_space r)" unfolding rev_filter by (rule arg_cong [OF rev_rev_ident])
    also have "\<dots> = filter ?P r" by (rule d [OF that])
    finally show ?thesis .
  qed
  show ?thesis unfolding normalised_def using t assms by simp
qed

text \<open>
  C34. A code is good for one window. Every instant of a window of thirty seconds after the epoch yields the same
  code; \<open>SecondsUntilNextWindow\<close> is positive, at most a window, and leads to an instant whose counter is the
  next one. A code is six decimal digits, and a seed yields the same code however it is pasted, with spaces
  anywhere and in either case.
\<close>
theorem one_code_per_window:
  assumes "0 \<le> Unix t" and "Unix t + 30 < 2 ^ 63"
  shows "(\<forall>u. Unix u div 30 = Unix t div 30 \<longrightarrow> Code hmac_sha1 seed u = Code hmac_sha1 seed t)
    \<and> 0 < SecondsUntilNextWindow t \<and> SecondsUntilNextWindow t \<le> Step
    \<and> totp_counter (t + SecondsUntilNextWindow t) = totp_counter t + 1
    \<and> (\<forall>c. Code hmac_sha1 seed t = Inr c \<longrightarrow> length c = 6 \<and> set c \<subseteq> digit_char ` {..<10})
    \<and> (\<forall>pasted. (\<forall>c \<in> set seed \<union> set pasted. is_space c \<longrightarrow> c = CHR '' '') \<longrightarrow>
         ToUpper (filter (\<lambda>c. c \<noteq> CHR '' '') pasted) = ToUpper (filter (\<lambda>c. c \<noteq> CHR '' '') seed) \<longrightarrow>
         Code hmac_sha1 pasted t = Code hmac_sha1 seed t)"
proof -
  have s: "Step div second = 30" by (simp add: Step_def second_def)
  let ?d = "30 - Unix t mod 30"
  have d: "SecondsUntilNextWindow t = ?d * second"
    using assms(1) by (simp add: SecondsUntilNextWindow_def Let_def s minus_mult_div_eq_mod)
  have next_unix: "Unix (t + ?d * second) = Unix t + ?d"
    by (simp add: Unix_def second_def algebra_simps)
  have "(Unix t + ?d) div 30 = Unix t div 30 + 1" by (simp add: algebra_simps) presburger
  moreover have "Unix t + ?d < 2 ^ 63" using assms(2) pos_mod_sign [of 30 "Unix t"] by linarith
  ultimately have "totp_counter (t + SecondsUntilNextWindow t) = totp_counter t + 1"
    unfolding d using counter_div [of t] counter_div [of "t + ?d * second"] assms next_unix pos_mod_bound [of 30 "Unix t"]
    by simp
  moreover have "Code hmac_sha1 seed u = Code hmac_sha1 seed t" if "Unix u div 30 = Unix t div 30" for u
  proof -
    have "0 \<le> Unix u" "Unix u < 2 ^ 63" using that assms by presburger+
    then have "totp_counter u = totp_counter t" using counter_div [of u] counter_div [of t] that assms by simp
    then show ?thesis by (simp add: Code_def split: option.split)
  qed
  moreover have "length c = 6 \<and> set c \<subseteq> digit_char ` {..<10}" if "Code hmac_sha1 seed t = Inr c" for c
  proof -
    have "\<exists>n. c = padded digits n" using that by (auto simp: Code_def totp_code_def Let_def split: option.splits)
    then obtain n where "c = padded digits n" by blast
    then show ?thesis using padded_digits [of digits n] by (simp add: digits_def)
  qed
  moreover have "Code hmac_sha1 pasted t = Code hmac_sha1 seed t"
    if "\<forall>c \<in> set seed \<union> set pasted. is_space c \<longrightarrow> c = CHR '' ''"
      "ToUpper (filter (\<lambda>c. c \<noteq> CHR '' '') pasted) = ToUpper (filter (\<lambda>c. c \<noteq> CHR '' '') seed)" for pasted
    using normalised_case_space [of pasted seed] that by (simp add: Code_def Un_commute)
  moreover have "0 < ?d * second" "?d * second \<le> Step" by (simp_all add: Step_def second_def)
  ultimately show ?thesis unfolding d by blast
qed

section \<open>A published vector\<close>

text \<open>The sum that RFC 4226 gives for its key and counter 1, which is the instant 59 of RFC 6238.\<close>

definition rfc_mac :: "8 word list \<Rightarrow> 8 word list \<Rightarrow> 8 word list" where
  "rfc_mac key msg = [0x75, 0xa4, 0x8a, 0x19, 0xd4, 0xcb, 0xe1, 0x00, 0x64, 0x4e, 0x8a, 0xc1, 0x39, 0x7e, 0xea, 0x74, 0x7a, 0x2d, 0x33, 0xab]"

lemma rfc_code: "totp_code (rfc_mac key msg) = ''287082''"
proof -
  have o: "unat (last (rfc_mac key msg) AND offsetMask) = 11" by (simp add: rfc_mac_def offsetMask_def)
  have w: "take 4 (drop 11 (rfc_mac key msg)) = [0xc1, 0x39, 0x7e, 0xea]" by (simp add: rfc_mac_def)
  have "be32 [0xc1, 0x39, 0x7e, 0xea] = 0xc1397eea" by (simp add: be32_def)
  then have t: "be32 (take wordLen (drop 11 (rfc_mac key msg))) AND signMask = 1094287082"
    unfolding wordLen_def w by (simp add: signMask_def)
  have "decimalBase ^ digits = 1000000" by (simp add: decimalBase_def digits_def)
  then have m: "unat ((1094287082 :: 32 word) mod decimalBase ^ digits) = 287082" by simp
  have six: "digits = Suc (Suc (Suc (Suc (Suc (Suc 0)))))" by (simp add: digits_def)
  have p: "padded digits 287082 = ''287082''" unfolding six by (simp add: digit_char_def) code_simp
  show ?thesis unfolding totp_code_def Let_def o t m p ..
qed

theorem one_code_per_window_witness:
  "Code rfc_mac [] (UnixTime 59) = Inr ''287082'' \<and> Code rfc_mac [] (UnixTime 30) = Inr ''287082''"
proof -
  have "base32_decode (normalised []) = Some []"
    by (simp add: base32_decode_def normalised_def ToUpper_def TrimSpace_def base32_bytes.simps [of "[]"] base32_block_def)
  then have c: "Code rfc_mac [] (UnixTime 59) = Inr ''287082''" unfolding Code_def by (simp only: option.case rfc_code)
  have u: "Unix (UnixTime k) = k" for k by (simp add: Unix_def UnixTime_def second_def)
  have "Code rfc_mac [] (UnixTime 30) = Code rfc_mac [] (UnixTime 59)"
    by (rule one_code_per_window [THEN conjunct1, rule_format]) (simp_all add: u)
  with c show ?thesis by simp
qed

end
