(* ===== verification/Spec2Isabelle.thy ===== *)
theory Spec2Isabelle
  imports Affinity Capacity MountConfig OwnerTag Reconciler Purge Issued CallerPolicy Capability DOConfig
    OCIDepartures OCIConfig ExoDepartures Workers Quota Totp
begin

text \<open>
  A verification library for openbao-cloud-creds: secrets-engine plugins that issue short-lived
  credentials of a cloud from a set of long-lived minter credentials. The shared packages under
  \<open>pkg/\<close> carry the logic that every plugin uses; on top of them two plugins are modelled, one of
  each structure the repository has: \<open>plugins/credential-do\<close>, which makes a credential for each read,
  and \<open>plugins/credential-oci\<close>, which serves tokens from slots that are made ahead and rotated; and of
  a third, \<open>plugins/credential-exoscale\<close>, the minters that replace themselves.

  How the program works. A mount stores minter sets, each a map of minters (a cloud credential with the
  right to create others), and roles, each naming a set and what to ask of the cloud. A credential read
  loads the role, checks the caller, picks a minter of the role's set by affinity, health and capacity,
  asks the cloud for a credential, writes a tracking record, and answers with a lease. Revoking the lease
  deletes the credential and its record. On a cloud that allows few credentials a user, a role has slots
  instead: each holds a token, a worker replaces it on a schedule, a read hands out the freshest one for
  no longer than it has left, and a revocation only forgets the lease. Four kinds of background work close the gaps: a health check
  that lets failed minters recover, a reconciler that deletes what the mount owns upstream but no longer
  tracks, a purge that deletes everything issued before it was armed, and for roles with a shared key a
  sweep that rotates and retires keys.

  Theories, in the order of their imports, with the Go they translate:

  \<^item> \<open>CloudPrelude\<close>: byte order, prefixes, joins, 64-bit durations, the JSON values records are
    stored as, bounded parses.
  \<^item> \<open>Envelope\<close> (\<open>pkg/credenvelope\<close>): error codes, what a failed upstream call means,
    which failures count against a minter, the envelope a caller receives.
  \<^item> \<open>Storage\<close> (the storage interface of the OpenBao SDK, \<open>pkg/plugintest/faultstorage.go\<close>): the
    locale \<open>kv_store\<close> with the laws a client relies on, an in-memory store, the store that fails.
  \<^item> \<open>Recovery\<close> (\<open>pkg/recovery\<close>): the health state machine of a minter, its cooldown, the
    half-open claim, what a set of machines is reported as.
  \<^item> \<open>Affinity\<close>, \<open>Capacity\<close>, \<open>MinterSets\<close>, \<open>MountConfig\<close>, \<open>OwnerTag\<close>, \<open>Housekeeping\<close>
    (\<open>pkg/minteraffinity\<close>, \<open>pkg/mintercapacity\<close>, \<open>pkg/cloudconfig\<close>, \<open>pkg/ownertag\<close>,
    \<open>pkg/mintledger\<close> and \<open>pkg/localexpiry\<close>): the rendezvous order over minters, counting what a
    minter holds, validation and carry-over of a minter set, defaults and bounds of a mount, names that
    say who owns a credential, the mint ledger and the pruning of expired records.
  \<^item> \<open>Reconciler\<close> (\<open>pkg/reconciler\<close>), \<open>Purge\<close> (\<open>pkg/upstreampurge\<close>), \<open>Issued\<close>
    (\<open>pkg/issuedlist\<close>), \<open>CallerPolicy\<close> (\<open>pkg/requester\<close>, \<open>pkg/lineage\<close>),
    \<open>Capability\<close> (\<open>pkg/capability\<close>): a reconcile pass with its budgets, the purge and its stored
    intent, the paged inventory, what a role may demand of a caller, the probes that gate a write.
  \<^item> \<open>DOClient\<close>, \<open>DORoles\<close>, \<open>DOBackend\<close> (\<open>plugins/credential-do\<close>): the API client, roles with
    their grants and stored form, minter selection and the handlers that write sets and roles.
  \<^item> \<open>DOWorld\<close>: the locale \<open>do_world\<close>, what the plugin relies on of storage and cloud together (a create
    adds one new credential, a delete removes at most the one it names, neither touches storage), and
    its interpretation on the in-memory store beside a cloud that keeps what it issued.
  \<^item> \<open>DOSpaces\<close>: the shared Spaces key of a role: its stored record, rotation and its compensation,
    serving, the sweep of retired keys.
  \<^item> \<open>DOIssue\<close>: the credential read with its gates, the two kinds of mint with their compensation, the
    lease callbacks, the health check.
  \<^item> \<open>DOReconcile\<close>, \<open>DOPurge\<close>: orphan reclamation over two credential classes and the purge of a
    role, wired to the shared reconciler and purge engine.
  \<^item> \<open>DOTouch\<close>, \<open>DOMount\<close>: the mount as a whole. Every operation reaches the world through requests
    and single writes; \<open>mount_step\<close> runs any of them, or anything else that may go on around, and
    follows which credentials callers hold. Along every run what is held exists and is tracked, and the
    mount refines a two-rule contract: a grant is of a credential never seen before, and nothing else is
    added to what is held.
  \<^item> \<open>DOConfig\<close>: the mount configuration, what a restart loads, the form of every stored role, and the
    writes of sets, roles and configuration as steps of the mount that leave what is held alone.

  \<^item> \<open>OCISlots\<close>, \<open>OCIHandlers\<close> (\<open>plugins/credential-oci\<close>): roles, slots and their stored forms, the
    client interface with the client of the build, which refuses every call, and the in-memory one;
    making, rotating and choosing slots; the handlers, the workers, reclamation.
  \<^item> \<open>OCIWorld\<close>: the locale \<open>oci_world\<close>, what that plugin relies on (an id is handed out once, a delete
    removes at most the token it names, storage and cloud do not touch each other), which entries and
    tokens each operation can touch, and the interpretation on the in-memory client beside a store.
  \<^item> \<open>OCIMount\<close>, \<open>OCIRun\<close>: the mount as a whole. \<open>slot_step\<close> runs its operations and follows what
    readers hold; along every run a token that was read stays usable until its lease ends.
  \<^item> \<open>OCIDuties\<close>, \<open>OCIRoles\<close>: what single operations promise: honest leases, rotations that are all or
    nothing, bounded reclamation, well-formed roles, no half-made role.
  \<^item> \<open>OCIHealth\<close>: no operation of that plugin records an outcome on a minter, so every machine stays as it
    starts and the health check has nothing to do.
  \<^item> \<open>SetStatus\<close>: the reads and listings of minter sets and roles, the same code in both plugins, and that
    they show no credential.
  \<^item> \<open>OCIConfig\<close>: the configuration handlers of the OCI plugin, what a restart loads, and a refused
    configuration that is loaded all the same.
  \<^item> \<open>OCIDepartures\<close>: evaluated runs in which that plugin departs from what it means to do.

  \<^item> \<open>ExoMinters\<close> (\<open>plugins/credential-exoscale\<close>): a minter makes its successor, which is proved before
    the set is stored; the retired minter keeps its key for a grace, and a sweep then deletes it.
  \<^item> \<open>ExoWorld\<close>: the locale \<open>exo_world\<close>, what that relies on, \<open>exo_honest\<close>, the same on a store whose
    failed writes wrote nothing, and a cloud in memory that checks the key of every call.
  \<^item> \<open>ExoRotate\<close>, \<open>ExoSweep\<close>: a rotation swaps one minter or changes no set, a sweep drops only minters
    past their grace whose key is gone, and along every run of both a selectable minter keeps its key.
  \<^item> \<open>ExoDepartures\<close>: runs in which rotation and sweep depart from their comments.

  \<^item> \<open>Workers\<close> (\<open>pkg/worker\<close>, \<open>pkg/clusterrole\<close>, \<open>workers.go\<close>): the loop that runs background
    work, on which node, what a mount starts and starts again, and when it ticks.
  \<^item> \<open>Quota\<close>, \<open>Totp\<close> (\<open>pkg/upstreamquota\<close>, \<open>pkg/totp\<close>), which no plugin uses yet: the reporter that
    warns once in a quota window, and one-time passwords.

  State is passed explicitly. A handler takes the mount's in-memory state (a record) and the world, a type
  parameter that stands for storage and cloud together, and returns both with its answer. Errors are the
  left of a sum or a code; the text of messages, log lines and metrics are left out. Instants are
  nanoseconds since Go's zero time and durations are nanoseconds, integers except where the code's
  64-bit product can wrap, which is written out (\<open>Recovery.ParseRetryAfter\<close>). A stored value is a JSON
  value, a text, or bytes that do not parse. Go maps are association lists; what the code ranges over in
  map order, the model takes in list order, and the properties do not depend on it.

  What is a parameter: the storage backend, the HTTP transport and the clouds behind it, SHA-256,
  HMAC-SHA1 and the digest, random draws, the clock, URL parsing, the identity store of the core. Their laws are the
  assumptions of the locales \<open>kv_store\<close>, \<open>do_world\<close>, \<open>oci_world\<close> and \<open>exo_world\<close>, or premises of a property, and each property
  that has a premise is applied at a concrete run. Every loop of the modelled code runs over a list that
  is there when it starts and is a structural recursion, so no fuel is used; the paged listing of Spaces
  keys is bounded by the page limit of the code.

  Groups of lemmas: per component, what each operation does on every branch; per locale, frame lemmas
  (which keys of storage and which credentials an operation can touch), from which the safety properties
  of reads, revocations, rotations, sweeps, purges and reconcile passes follow. Lemmas that record where
  the code departs from its own comments keep the code's behaviour and are named in the manifest's
  findings.

  Not modelled: the plugins of the other clouds, which repeat one of the two structures over another
  client, and what the Exoscale plugin shares with the DigitalOcean one; the schemas, help texts and registration of paths; how the plugins other than the DigitalOcean one start workers; metrics; the
  servers, recorders and fakes of the test suites other than the in-memory OCI client. Locks are
  represented by what one step of the model covers: what the code does under one lock is one function,
  and where a handler releases the lock in between, the interference is an argument. The first slots of an
  OCI role are made without the lock that rotations and reconcile passes share; the model takes the write
  of a role as one step, so a reconcile pass in the middle of it is outside what is proved.
\<close>

end
